(* ===== verification/Prelude.thy ===== *)
theory Prelude
  imports Complex_Main "HOL-Library.Multiset" "HOL-Library.Product_Lexorder"
begin

text \<open>
  What every component of the development shares: the model's basic types (instants and durations
  in microseconds, working time in seconds), the rounding Python's \<open>timedelta\<close> arithmetic uses,
  rows of a table found and written by their key, the \<open>ORDER BY ... LIMIT\<close> of a query, the
  reachable states of a transition system, and the lemmas about them that the component proofs
  use through the simpset and the collections declared here.
\<close>

named_theorems row_defs \<open>the definitions of the row-level operations\<close>
named_theorems op_defs \<open>the definitions of the store's operations\<close>

section \<open>Types\<close>

text \<open>A timezone-aware \<open>datetime\<close> is an instant: microseconds since an epoch. A \<open>timedelta\<close> is a
  number of microseconds. Seconds of working time are Python floats; the model keeps them as the
  rational numbers they stand for and does not round sums.\<close>

type_synonym instant = int
type_synonym duration = int
type_synonym seconds = rat

definition timedelta_seconds :: "int \<Rightarrow> duration" where
  "timedelta_seconds n = n * 1000000"

definition total_seconds :: "duration \<Rightarrow> seconds" where
  "total_seconds d = of_int d / 1000000"

text \<open>\<open>timedelta / int\<close> and \<open>timedelta * float\<close> round to the nearest microsecond, ties to even.\<close>

definition round_half_even :: "rat \<Rightarrow> int" where
  "round_half_even x =
     (let f = \<lfloor>x\<rfloor>; d = x - of_int f
      in if d < 1 / 2 then f else if d > 1 / 2 then f + 1 else if even f then f else f + 1)"

section \<open>Truth of a Python string\<close>

text \<open>\<open>if s:\<close> for \<open>s: str | None\<close>: neither \<open>None\<close> nor empty.\<close>

definition truthy :: "string option \<Rightarrow> bool" where
  "truthy s \<longleftrightarrow> s \<noteq> None \<and> s \<noteq> Some []"

section \<open>Rows and queries\<close>

definition put_row :: "('r \<Rightarrow> 'k) \<Rightarrow> 'r \<Rightarrow> 'r list \<Rightarrow> 'r list" where
  "put_row key r rows = map (\<lambda>x. if key x = key r then r else x) rows"

definition put_rows :: "('r \<Rightarrow> 'k) \<Rightarrow> 'r list \<Rightarrow> 'r list \<Rightarrow> 'r list" where
  "put_rows key rs rows = fold (put_row key) rs rows"

text \<open>\<open>ORDER BY key LIMIT n\<close> over the rows a condition selects. The list order of a table stands
  for the order the database happens to scan it in, which decides between equal keys.\<close>

definition query :: "('r \<Rightarrow> bool) \<Rightarrow> ('r \<Rightarrow> 'k::linorder) \<Rightarrow> nat \<Rightarrow> 'r list \<Rightarrow> 'r list" where
  "query cond order limit rows = take limit (sort_key order (filter cond rows))"

text \<open>A nullable column in an ascending \<open>ORDER BY\<close>: nulls come last.\<close>

definition nulls_last :: "int option \<Rightarrow> bool \<times> int" where
  "nulls_last x = (case x of Some t \<Rightarrow> (False, t) | None \<Rightarrow> (True, 0))"

text \<open>A comparison with a null is not true.\<close>

definition sql_less :: "int option \<Rightarrow> int \<Rightarrow> bool" where
  "sql_less x t \<longleftrightarrow> (case x of Some a \<Rightarrow> a < t | None \<Rightarrow> False)"

section \<open>Reachable states\<close>

inductive reach :: "('s \<Rightarrow> bool) \<Rightarrow> ('s \<Rightarrow> 's \<Rightarrow> bool) \<Rightarrow> 's \<Rightarrow> bool"
  for init :: "'s \<Rightarrow> bool" and step :: "'s \<Rightarrow> 's \<Rightarrow> bool" where
  reach_init: "init s \<Longrightarrow> reach init step s"
| reach_step: "reach init step s \<Longrightarrow> step s t \<Longrightarrow> reach init step t"

text \<open>An invariant of a transition system, as an interface: whoever shows the two laws for its
  own initial states and steps has the invariant in every reachable state.\<close>

locale transition_system =
  fixes init :: "'s \<Rightarrow> bool" and step :: "'s \<Rightarrow> 's \<Rightarrow> bool" and inv :: "'s \<Rightarrow> bool"
  assumes inv_init: "init s \<Longrightarrow> inv s"
    and inv_step: "inv s \<Longrightarrow> step s t \<Longrightarrow> inv t"
begin

lemma reach_inv: "reach init step s \<Longrightarrow> inv s"
  by (induction rule: reach.induct) (auto intro: inv_init inv_step)

lemma reach_from_inv: "step\<^sup>*\<^sup>* s t \<Longrightarrow> inv s \<Longrightarrow> inv t"
  by (induction rule: rtranclp_induct) (auto intro: inv_step)

end

section \<open>Lemmas\<close>

lemma total_seconds_nonneg [simp]: "0 \<le> total_seconds d \<longleftrightarrow> 0 \<le> d"
  by (simp add: total_seconds_def zero_le_divide_iff)

lemma total_seconds_add: "total_seconds (a + b) = total_seconds a + total_seconds b"
  by (simp add: total_seconds_def add_divide_distrib)

lemma total_seconds_mono: "a \<le> b \<Longrightarrow> total_seconds a \<le> total_seconds b"
  by (simp add: total_seconds_def divide_right_mono)

lemma round_half_even_of_int [simp]: "round_half_even (of_int n) = n"
  by (simp add: round_half_even_def)

lemma round_half_even_mono:
  assumes "x \<le> y" shows "round_half_even x \<le> round_half_even y"
proof (cases "\<lfloor>x\<rfloor> = \<lfloor>y\<rfloor>")
  case True
  with assms show ?thesis by (auto simp: round_half_even_def Let_def)
next
  case False
  with assms have "\<lfloor>x\<rfloor> + 1 \<le> \<lfloor>y\<rfloor>" using floor_mono [OF assms] by linarith
  moreover have "round_half_even x \<le> \<lfloor>x\<rfloor> + 1" "\<lfloor>y\<rfloor> \<le> round_half_even y"
    by (auto simp: round_half_even_def Let_def)
  ultimately show ?thesis by linarith
qed

lemma keys_put_row [simp]: "map key (put_row key r rows) = map key rows"
  by (induction rows) (auto simp: put_row_def)

lemma keys_put_rows [simp]: "map key (put_rows key rs rows) = map key rows"
  by (induction rs arbitrary: rows) (auto simp: put_rows_def)

lemma length_put_row [simp]: "length (put_row key r rows) = length rows"
  by (simp add: put_row_def)

lemma set_put_row_subset: "set (put_row key r rows) \<subseteq> insert r (set rows)"
  by (auto simp: put_row_def)

lemma in_put_row:
  "x \<in> set (put_row key r rows) \<Longrightarrow> x = r \<or> (x \<in> set rows \<and> key x \<noteq> key r)"
  by (auto simp: put_row_def split: if_splits)

lemma put_row_in: "x \<in> set rows \<Longrightarrow> key x = key r \<Longrightarrow> r \<in> set (put_row key r rows)"
  by (force simp: put_row_def)

lemma put_row_keeps: "x \<in> set rows \<Longrightarrow> key x \<noteq> key r \<Longrightarrow> x \<in> set (put_row key r rows)"
  by (force simp: put_row_def)

lemma put_row_same: "distinct (map key rows) \<Longrightarrow> r \<in> set rows \<Longrightarrow> put_row key r rows = rows"
  by (auto simp: put_row_def map_idI distinct_map inj_on_def intro!: map_idI)

lemma in_put_rows:
  "x \<in> set (put_rows key rs rows) \<Longrightarrow> x \<in> set rs \<or> (x \<in> set rows \<and> key x \<notin> key ` set rs)"
proof (induction rs arbitrary: rows)
  case Nil
  then show ?case by (simp add: put_rows_def)
next
  case (Cons r rs)
  from Cons.prems have "x \<in> set (put_rows key rs (put_row key r rows))"
    by (simp add: put_rows_def)
  from Cons.IH [OF this] show ?case
    by (auto dest: in_put_row)
qed

lemma put_rows_keeps:
  "x \<in> set rows \<Longrightarrow> key x \<notin> key ` set rs \<Longrightarrow> x \<in> set (put_rows key rs rows)"
  by (induction rs arbitrary: rows) (auto simp: put_rows_def intro: put_row_keeps)

lemma length_filter_put_row:
  assumes "distinct (map key rows)"
  shows "length (filter P (put_row key r rows)) \<le> length (filter P rows) + 1"
  using assms
proof (induction rows)
  case (Cons x rows)
  show ?case
  proof (cases "key x = key r")
    case True
    with Cons.prems have "key y \<noteq> key r" if "y \<in> set rows" for y using that by (metis image_eqI distinct.simps(2) list.simps(9) set_map)
    then have "put_row key r rows = rows" by (simp add: put_row_def map_idI)
    with True show ?thesis by (simp add: put_row_def)
  next
    case False
    with Cons show ?thesis by (simp add: put_row_def)
  qed
qed (simp add: put_row_def)

lemma find_snoc: "\<forall>x\<in>set xs. \<not> P x \<Longrightarrow> P y \<Longrightarrow> find P (xs @ [y]) = Some y"
  by (induction xs) auto

text \<open>Narrowing a query that already answers a row of the narrower one does not change its answer.\<close>

lemma query_narrow:
  assumes "query P order 1 rows = [r]" "Q r" "\<And>x. Q x \<Longrightarrow> P x"
  shows "query Q order 1 rows = [r]"
proof -
  have "filter Q rows = filter Q (filter P rows)" using assms(3) by (induction rows) auto
  then have "sort_key order (filter Q rows) = filter Q (sort_key order (filter P rows))"
    by (simp add: filter_sort)
  moreover from assms(1) obtain rest where "sort_key order (filter P rows) = r # rest"
    by (cases "sort_key order (filter P rows)") (auto simp: query_def)
  ultimately show ?thesis using assms(2) by (simp add: query_def)
qed

lemma query_one_cases: "query P order 1 rows = [] \<or> (\<exists>r. query P order 1 rows = [r])"
  by (cases "sort_key order (filter P rows)") (auto simp: query_def)

lemma set_query_subset: "set (query cond order n rows) \<subseteq> {r \<in> set rows. cond r}"
  using set_take_subset [of n "sort_key order (filter cond rows)"] by (auto simp: query_def)

lemma in_queryD: "r \<in> set (query cond order n rows) \<Longrightarrow> r \<in> set rows \<and> cond r"
  using set_query_subset [of cond order n rows] by (auto dest: subsetD)

lemma distinct_query: "distinct (map key rows) \<Longrightarrow> distinct (map key (query cond order n rows))"
proof -
  assume d: "distinct (map key rows)"
  have "mset (map key (sort_key order (filter cond rows))) = mset (map key (filter cond rows))"
    by simp
  moreover have "distinct (map key (filter cond rows))"
    using d by (auto simp: distinct_map intro: inj_on_subset)
  ultimately have "distinct (map key (sort_key order (filter cond rows)))"
    by (metis mset_eq_imp_distinct_iff)
  then show ?thesis by (simp add: query_def take_map [symmetric] distinct_take)
qed

lemma sorted_query: "sorted (map order (query cond order n rows))"
  by (simp add: query_def take_map [symmetric] sorted_wrt_take)

lemma length_query: "length (query cond order n rows) \<le> n"
  by (simp add: query_def)

text \<open>A row the limit left out comes no earlier than any row the query returned.\<close>

lemma query_left_out:
  assumes "r \<in> set rows" "cond r" "r \<notin> set (query cond order n rows)"
    and "q \<in> set (query cond order n rows)"
  shows "order q \<le> order r"
proof -
  let ?s = "sort_key order (filter cond rows)"
  have "sorted (map order (take n ?s @ drop n ?s))" by simp
  then have "\<forall>a\<in>set (take n ?s). \<forall>b\<in>set (drop n ?s). order a \<le> order b"
    unfolding map_append sorted_append by auto
  moreover have "r \<in> set (drop n ?s)"
  proof -
    have "r \<in> set (take n ?s @ drop n ?s)" using assms(1,2) by simp
    with assms(3) show ?thesis by (auto simp del: append_take_drop_id simp: query_def)
  qed
  ultimately show ?thesis using assms(4) by (auto simp: query_def)
qed

lemma query_head:
  assumes "query cond order 1 rows = r # rest" "x \<in> set rows" "cond x"
  shows "order r \<le> order x"
proof (cases "x \<in> set (query cond order 1 rows)")
  case True
  with assms(1) length_query [of cond order 1 rows] show ?thesis by (cases rest) auto
next
  case False
  with assms query_left_out [of x rows cond order 1 r] show ?thesis by simp
qed

lemma query_none:
  assumes "query cond order 1 rows = []" "x \<in> set rows"
  shows "\<not> cond x"
proof -
  from assms(1) have "sort_key order (filter cond rows) = []"
    by (cases "sort_key order (filter cond rows)") (auto simp: query_def)
  then have "set (sort_key order (filter cond rows)) = {}" by simp
  with assms(2) show ?thesis by auto
qed

end
