(* ===== verification/Errors.thy ===== *)
theory Errors
  imports Prelude
begin

text \<open>
  \<open>src/agent_runs/domain/errors.py\<close> and the answers \<open>api/errors.py\<close> gives: one constructor per
  exception class a store or a route raises, each with the HTTP status, the stable code and the
  retryable flag it is answered with. The sentences (\<open>detail\<close>) are not modelled; structured
  context the code computes is (the fields a reused idempotency key differs in, the sizes of a
  payload that is too large, the seconds of \<open>Retry-After\<close>).
\<close>

datatype error_code =
  VALIDATION | AUTHENTICATION | AUTHORIZATION | NOT_FOUND | CONFLICT | LEASE_LOST
| PAYLOAD_TOO_LARGE | RATE_LIMIT | DEPENDENCY_UNAVAILABLE | INTERNAL

datatype service_error =
  BadRequest
| Unauthorized
| Forbidden
| NotFound
| Conflict "string list"  \<comment> \<open>\<open>details.differing\<close>, empty when the error carries none\<close>
| LeaseLost
| TooLarge int int  \<comment> \<open>the size and the limit\<close>
| Unprocessable
| RateLimited int  \<comment> \<open>\<open>retry_after\<close>\<close>
| Unavailable bool int  \<comment> \<open>\<open>retryable\<close> and \<open>retry_after\<close>\<close>
| IntegrityError  \<comment> \<open>a constraint of the database no code catches: an internal error\<close>
| Crashed  \<comment> \<open>an exception of a library no code catches: an internal error\<close>

type_synonym 'a result = "service_error + 'a"

text \<open>A raise ends the handler: what follows runs on the value of what came before.\<close>

definition bind_result :: "'a result \<Rightarrow> ('a \<Rightarrow> 'b result) \<Rightarrow> 'b result" where
  "bind_result x f = (case x of Inl e \<Rightarrow> Inl e | Inr a \<Rightarrow> f a)"

fun status_code :: "service_error \<Rightarrow> int" where
  "status_code BadRequest = 400"
| "status_code Unauthorized = 401"
| "status_code Forbidden = 403"
| "status_code NotFound = 404"
| "status_code (Conflict _) = 409"
| "status_code LeaseLost = 409"
| "status_code (TooLarge _ _) = 413"
| "status_code Unprocessable = 422"
| "status_code (RateLimited _) = 429"
| "status_code (Unavailable _ _) = 503"
| "status_code IntegrityError = 500"
| "status_code Crashed = 500"

fun code_of :: "service_error \<Rightarrow> error_code" where
  "code_of BadRequest = VALIDATION"
| "code_of Unauthorized = AUTHENTICATION"
| "code_of Forbidden = AUTHORIZATION"
| "code_of NotFound = NOT_FOUND"
| "code_of (Conflict _) = CONFLICT"
| "code_of LeaseLost = LEASE_LOST"
| "code_of (TooLarge _ _) = PAYLOAD_TOO_LARGE"
| "code_of Unprocessable = VALIDATION"
| "code_of (RateLimited _) = RATE_LIMIT"
| "code_of (Unavailable _ _) = DEPENDENCY_UNAVAILABLE"
| "code_of IntegrityError = INTERNAL"
| "code_of Crashed = INTERNAL"

fun retryable_of :: "service_error \<Rightarrow> bool" where
  "retryable_of (RateLimited _) = True"
| "retryable_of (Unavailable r _) = r"
| "retryable_of _ = False"

lemma bind_result_simps [simp]: "bind_result (Inl e) f = Inl e" "bind_result (Inr a) f = f a"
  by (simp_all add: bind_result_def)

lemma bind_result_Inr_iff [simp]: "bind_result x f = Inr y \<longleftrightarrow> (\<exists>a. x = Inr a \<and> f a = Inr y)"
  by (cases x) auto

lemma bind_result_Inl_iff:
  "bind_result x f = Inl e \<longleftrightarrow> x = Inl e \<or> (\<exists>a. x = Inr a \<and> f a = Inl e)"
  by (cases x) auto

end
