(* ===== verification/Json.thy ===== *)
theory Json
  imports Errors
begin

text \<open>
  JSON values as the code holds them, the compact text \<open>json.dumps(value, separators=(",", ":"),
  ensure_ascii=False)\<close> writes, and the bounds measured on it (\<open>domain/runs.py\<close>: \<open>_json_size\<close>,
  \<open>bounded_payload\<close>, \<open>bounded_checkpoint\<close>). A string is the list of its UTF-8 bytes, so the
  length of the text is the length of \<open>.encode()\<close>; an object is the list of its members in key
  order, so equality of values is equality of JSON; a float is kept as the text \<open>repr\<close> gives it.
\<close>

datatype json =
  JNull
| JBool bool
| JInt int
| JFloat string
| JStr string
| JArr "json list"
| JObj "(string \<times> json) list"

definition digit :: "nat \<Rightarrow> char" where
  "digit d = char_of (48 + d)"

fun show_nat :: "nat \<Rightarrow> string" where
  "show_nat n = (if n < 10 then [digit n] else show_nat (n div 10) @ [digit (n mod 10)])"

declare show_nat.simps [simp del]

definition show_int :: "int \<Rightarrow> string" where
  "show_int n = (if n < 0 then CHR ''-'' # show_nat (nat (- n)) else show_nat (nat n))"

definition hex_digit :: "nat \<Rightarrow> char" where
  "hex_digit d = (if d < 10 then char_of (48 + d) else char_of (87 + d))"

text \<open>What \<open>json.dumps\<close> escapes without \<open>ensure_ascii\<close>: the quote, the backslash and the control
  characters below a space, five of them by a letter.\<close>

definition escape_char :: "char \<Rightarrow> string" where
  "escape_char c =
     (let n = of_char c :: nat in
      if n = 34 then [CHR 0x5C, CHR 0x22]
      else if n = 92 then [CHR 0x5C, CHR 0x5C]
      else if n = 8 then [CHR 0x5C, CHR ''b'']
      else if n = 9 then [CHR 0x5C, CHR ''t'']
      else if n = 10 then [CHR 0x5C, CHR ''n'']
      else if n = 12 then [CHR 0x5C, CHR ''f'']
      else if n = 13 then [CHR 0x5C, CHR ''r'']
      else if n < 32 then [CHR 0x5C, CHR ''u'', CHR ''0'', CHR ''0'',
                           hex_digit (n div 16), hex_digit (n mod 16)]
      else [c])"

definition quoted :: "string \<Rightarrow> string" where
  "quoted s = CHR 0x22 # concat (map escape_char s) @ [CHR 0x22]"

fun commas :: "string list \<Rightarrow> string" where
  "commas [] = []"
| "commas [x] = x"
| "commas (x # xs) = x @ CHR '','' # commas xs"

fun dumps :: "json \<Rightarrow> string" where
  "dumps JNull = ''null''"
| "dumps (JBool b) = (if b then ''true'' else ''false'')"
| "dumps (JInt n) = show_int n"
| "dumps (JFloat t) = t"
| "dumps (JStr s) = quoted s"
| "dumps (JArr xs) = CHR ''['' # commas (map dumps xs) @ '']''"
| "dumps (JObj ms) =
     CHR ''{'' # commas (map (\<lambda>m. quoted (fst m) @ CHR '':'' # dumps (snd m)) ms) @ ''}''"

definition json_size :: "json \<Rightarrow> int" where
  "json_size v = int (length (dumps v))"

definition MAX_CHECKPOINT_BYTES :: int where
  "MAX_CHECKPOINT_BYTES = 1024 * 1024"

text \<open>\<open>None\<close> is the null value.\<close>

definition bounded_payload :: "json \<Rightarrow> int \<Rightarrow> unit result" where
  "bounded_payload v limit =
     (if v \<noteq> JNull \<and> json_size v > limit then Inl (TooLarge (json_size v) limit) else Inr ())"

definition bounded_checkpoint :: "json option \<Rightarrow> json option result" where
  "bounded_checkpoint cp =
     (case cp of
        None \<Rightarrow> Inr None
      | Some v \<Rightarrow>
          if json_size v > MAX_CHECKPOINT_BYTES
          then Inl (TooLarge (json_size v) MAX_CHECKPOINT_BYTES) else Inr (Some v))"

lemma bounded_checkpoint_InrD:
  "bounded_checkpoint cp = Inr c \<Longrightarrow> c = cp \<and> (\<forall>v. cp = Some v \<longrightarrow> json_size v \<le> MAX_CHECKPOINT_BYTES)"
  by (auto simp: bounded_checkpoint_def split: option.splits if_splits)

lemma bounded_checkpoint_None [simp]: "bounded_checkpoint None = Inr None"
  by (simp add: bounded_checkpoint_def)

end
