(* ===== verification/Contracts.thy ===== *)
theory Contracts
  imports Json
begin

text \<open>
  The records of \<open>trellis.contracts\<close> this service stores and answers, with the fields
  \<open>docs/openapi.json\<close> publishes (the ones the service never reads are kept together in one JSON
  field), and the contracts' own operations, which are not part of this repository: they are the
  fields of the record \<open>contracts\<close> and an argument of every definition that calls them. What the
  repository documents of them is stated as the predicates \<open>lifecycle_laws\<close>, \<open>interrupt_laws\<close>
  and \<open>id_laws\<close>; a theorem that needs one has it as a hypothesis.
\<close>

section \<open>Statuses, errors, interrupts\<close>

datatype run_status =
  QUEUED | RUNNING | PAUSED | SUCCESS | PARTIAL | ERROR | TIMEOUT | CANCELLED | REJECTED

datatype error_category =
  Validation | Authorization | Model | Tool | Memory | Timeout | Cancelled | Rate_Limit
| Dependency | Policy | Unknown

text \<open>An error's message: a text as given, or the sentence this service writes, with the values
  it interpolates.\<close>

datatype message =
  Text string
| Counted message int  \<comment> \<open>\<open>"{message} (after {retries} of 3 retries)"\<close>\<close>
| DeadlinePassed "instant option"
| Worked seconds "seconds option"
| Lapsed int
| Unanswered "instant option"

record agent_error =
  ae_code :: string
  ae_category :: error_category
  ae_message :: message
  ae_retryable :: bool
  ae_source :: "string option"
  ae_rest :: json

datatype interrupt_decision = ANSWER | APPROVE | REJECT | EDIT | CANCEL

record interrupt =
  i_interrupt_id :: string
  i_tenant_id :: string
  i_run_id :: string
  i_expects :: "json option"
  i_options :: "json list"
  i_multiple :: bool
  i_tool_call :: "json option"
  i_assignee :: "string option"
  i_deadline :: "instant option"
  i_escalate_to :: "string option"
  i_rest :: json

record interrupt_resolution =
  res_interrupt_id :: string
  res_run_id :: string
  res_decision :: interrupt_decision
  res_answer :: json
  res_payload :: "json option"
  res_remember :: string
  res_reviewer :: "string option"
  res_comment :: "string option"
  res_resolved_at :: instant

record run_start =
  rs_run_id :: string
  rs_tenant_id :: string
  rs_agent_id :: string
  rs_parent_run_id :: "string option"
  rs_thread_id :: "string option"
  rs_user_id :: "string option"
  rs_workspace_id :: "string option"
  rs_on_behalf_of :: "string option"
  rs_input :: json
  rs_deadline :: "instant option"
  rs_timeout_seconds :: "seconds option"
  rs_idempotency_key :: "string option"
  rs_agent_version :: "string option"
  rs_priority :: int
  rs_concurrency_key :: "string option"
  rs_metadata :: "(string \<times> json) list"

record run_record =
  rec_run_id :: string
  rec_tenant_id :: string
  rec_agent_id :: string
  rec_status :: run_status
  rec_parent_run_id :: "string option"
  rec_thread_id :: "string option"
  rec_user_id :: "string option"
  rec_workspace_id :: "string option"
  rec_on_behalf_of :: "string option"
  rec_input :: json
  rec_output :: json
  rec_error :: "agent_error option"
  rec_awaiting :: "interrupt option"
  rec_last_resolution :: "interrupt_resolution option"
  rec_checkpoint :: "json option"
  rec_attempt :: int
  rec_deadline :: "instant option"
  rec_timeout_seconds :: "seconds option"
  rec_idempotency_key :: "string option"
  rec_agent_version :: "string option"
  rec_priority :: int
  rec_concurrency_key :: "string option"
  rec_created_at :: instant
  rec_updated_at :: instant
  rec_metadata :: "(string \<times> json) list"
  rec_worked_seconds :: seconds

record run_event =
  ev_tenant_id :: string
  ev_run_id :: string
  ev_attempt :: int
  ev_sequence :: int
  ev_rest :: json

section \<open>The contracts' operations\<close>

text \<open>What \<open>stable_id\<close> hashes: strings, numbers and absent values.\<close>

datatype id_part = PStr string | PInt int | PNone

definition part_of :: "string option \<Rightarrow> id_part" where
  "part_of s = (case s of None \<Rightarrow> PNone | Some t \<Rightarrow> PStr t)"

record contracts =
  can_become :: "run_status \<Rightarrow> run_status \<Rightarrow> bool"
  final :: "run_status \<Rightarrow> bool"
  awaiting_of :: "interrupt \<Rightarrow> interrupt"  \<comment> \<open>\<open>Interrupt.awaiting()\<close>, read back\<close>
  resolves :: "interrupt_resolution \<Rightarrow> interrupt \<Rightarrow> bool"
  option_values :: "interrupt \<Rightarrow> json list"
  category_retryable :: "error_category \<Rightarrow> bool"
  stable_id :: "string \<Rightarrow> id_part list \<Rightarrow> string"  \<comment> \<open>the prefix, then the parts\<close>

text \<open>\<open>docs/openapi.json\<close>, \<open>RunStatus\<close>: \<open>QUEUED\<close>, \<open>RUNNING\<close> and \<open>PAUSED\<close> can still move on; the rest
  are how a run ended. \<open>docs/ARCHITECTURE.md\<close>, the run lifecycle, and \<open>tests/test_state_machine.py\<close>:
  the transitions.\<close>

fun documented_final :: "run_status \<Rightarrow> bool" where
  "documented_final QUEUED = False"
| "documented_final RUNNING = False"
| "documented_final PAUSED = False"
| "documented_final _ = True"

fun documented_can_become :: "run_status \<Rightarrow> run_status \<Rightarrow> bool" where
  "documented_can_become QUEUED t = (t \<in> {RUNNING, CANCELLED, TIMEOUT})"
| "documented_can_become RUNNING t = (t \<noteq> RUNNING)"
| "documented_can_become PAUSED t = (t \<in> {RUNNING, QUEUED, CANCELLED, TIMEOUT})"
| "documented_can_become _ t = False"

definition lifecycle_laws :: "contracts \<Rightarrow> bool" where
  "lifecycle_laws C \<longleftrightarrow>
     (\<forall>s. final C s = documented_final s) \<and> (\<forall>s t. can_become C s t = documented_can_become s t)"

text \<open>The row keeps the interrupt it was given and reads the same back; a resolution resolves the
  interrupt and run it names.\<close>

definition interrupt_laws :: "contracts \<Rightarrow> bool" where
  "interrupt_laws C \<longleftrightarrow>
     (\<forall>i. awaiting_of C i = i) \<and>
     (\<forall>r i. resolves C r i \<longleftrightarrow> res_interrupt_id r = i_interrupt_id i \<and> res_run_id r = i_run_id i)"

text \<open>Ids made of different parts differ: the code keeps one row per id and takes two things with
  one id for the same thing.\<close>

definition id_laws :: "contracts \<Rightarrow> bool" where
  "id_laws C \<longleftrightarrow> (\<forall>p xs ys. stable_id C p xs = stable_id C p ys \<longrightarrow> xs = ys)"

lemmas lifecycle_simps = lifecycle_laws_def

lemma lifecycle_final [simp]: "lifecycle_laws C \<Longrightarrow> final C s = documented_final s"
  by (simp add: lifecycle_laws_def)

lemma lifecycle_can_become [simp]:
  "lifecycle_laws C \<Longrightarrow> can_become C s t = documented_can_become s t"
  by (simp add: lifecycle_laws_def)

lemma interrupt_awaiting [simp]: "interrupt_laws C \<Longrightarrow> awaiting_of C i = i"
  by (simp add: interrupt_laws_def)

lemma stable_id_eq [simp]: "id_laws C \<Longrightarrow> stable_id C p xs = stable_id C p ys \<longleftrightarrow> xs = ys"
  by (auto simp: id_laws_def)

lemma ended_cannot_become: "documented_final s \<Longrightarrow> \<not> documented_can_become s t"
  by (cases s) auto

lemma documented_final_iff: "documented_final s \<longleftrightarrow> s \<notin> {QUEUED, RUNNING, PAUSED}"
  by (cases s) auto

section \<open>A concrete instance\<close>

text \<open>The contracts as documented, with ids that spell their parts out: what the witnesses
  evaluate.\<close>

fun spell :: "id_part \<Rightarrow> string" where
  "spell (PStr s) = CHR ''s'' # concat (map (\<lambda>c. [CHR ''+'', c]) s) @ ''.''"
| "spell (PInt n) =
     CHR ''i'' # (if n < 0 then CHR ''-'' else CHR ''+'') # replicate (nat \<bar>n\<bar>) (CHR ''1'') @ ''.''"
| "spell PNone = ''n''"

definition demo_contracts :: contracts where
  "demo_contracts = \<lparr>
     can_become = documented_can_become,
     final = documented_final,
     awaiting_of = (\<lambda>i. i),
     resolves = (\<lambda>r i. res_interrupt_id r = i_interrupt_id i \<and> res_run_id r = i_run_id i),
     option_values = i_options,
     category_retryable = (\<lambda>c. c \<in> {Timeout, Rate_Limit, Dependency}),
     stable_id = (\<lambda>p parts. p @ concat (map spell parts))\<rparr>"

lemma spell_string_inj:
  "concat (map (\<lambda>c. [CHR ''+'', c]) s) @ CHR ''.'' # xs = concat (map (\<lambda>c. [CHR ''+'', c]) t) @ CHR ''.'' # ys
   \<Longrightarrow> s = t \<and> xs = ys"
proof (induction s arbitrary: t)
  case Nil then show ?case by (cases t) auto
next
  case (Cons a s) then show ?case by (cases t) auto
qed

lemma replicate_dot_inj:
  "replicate m (CHR ''1'') @ CHR ''.'' # xs = replicate n (CHR ''1'') @ CHR ''.'' # ys
   \<Longrightarrow> m = n \<and> xs = ys"
proof (induction m arbitrary: n)
  case 0 then show ?case by (cases n) auto
next
  case (Suc m) then show ?case by (cases n) auto
qed

lemma spell_inj: "spell p @ xs = spell q @ ys \<Longrightarrow> p = q \<and> xs = ys"
  by (cases p; cases q) (auto dest: spell_string_inj replicate_dot_inj split: if_splits)

lemma spell_nonempty: "spell p \<noteq> []"
  by (cases p) auto

lemma spell_parts_inj: "concat (map spell ps) = concat (map spell qs) \<Longrightarrow> ps = qs"
proof (induction ps arbitrary: qs)
  case Nil then show ?case by (cases qs) (auto simp: spell_nonempty)
next
  case (Cons p ps)
  then show ?case
  proof (cases qs)
    case (Cons q qs')
    with Cons.prems spell_inj [of p _ q] Cons.IH show ?thesis by auto
  qed (auto simp: spell_nonempty)
qed

lemma demo_laws [simp]:
  "lifecycle_laws demo_contracts" "interrupt_laws demo_contracts" "id_laws demo_contracts"
  by (auto simp: lifecycle_laws_def interrupt_laws_def id_laws_def demo_contracts_def
      dest: spell_parts_inj)

lemma demo_simps [simp]:
  "can_become demo_contracts = documented_can_become" "final demo_contracts = documented_final"
  "awaiting_of demo_contracts i = i"
  "resolves demo_contracts r i = (res_interrupt_id r = i_interrupt_id i \<and> res_run_id r = i_run_id i)"
  "option_values demo_contracts = i_options"
  "category_retryable demo_contracts c = (c \<in> {Timeout, Rate_Limit, Dependency})"
  "stable_id demo_contracts p parts = p @ concat (map spell parts)"
  by (auto simp: demo_contracts_def)

text \<open>A run, a question and an answer for the witnesses.\<close>

definition demo_start :: run_start where
  "demo_start = \<lparr>rs_run_id = ''run_1'', rs_tenant_id = ''acme'', rs_agent_id = ''planner'',
     rs_parent_run_id = None, rs_thread_id = None, rs_user_id = None, rs_workspace_id = None,
     rs_on_behalf_of = None, rs_input = JNull, rs_deadline = Some 9000000, rs_timeout_seconds = None,
     rs_idempotency_key = Some ''k1'', rs_agent_version = None, rs_priority = 0,
     rs_concurrency_key = Some ''lane'', rs_metadata = []\<rparr>"

definition demo_interrupt :: interrupt where
  "demo_interrupt = \<lparr>i_interrupt_id = ''int_1'', i_tenant_id = ''acme'', i_run_id = ''run_1'',
     i_expects = None, i_options = [], i_multiple = False, i_tool_call = None, i_assignee = None,
     i_deadline = Some 5000000, i_escalate_to = Some ''user:lead'', i_rest = JNull\<rparr>"

definition demo_resolution :: interrupt_resolution where
  "demo_resolution = \<lparr>res_interrupt_id = ''int_1'', res_run_id = ''run_1'', res_decision = APPROVE,
     res_answer = JNull, res_payload = None, res_remember = [], res_reviewer = None,
     res_comment = None, res_resolved_at = 3\<rparr>"

end
