(* ===== verification/Tables.thy ===== *)
theory Tables
  imports Contracts
begin

text \<open>
  \<open>src/agent_runs/store/tables.py\<close>: a row of each table as a record with the table's columns, and
  the database as the list of each table's rows. A JSON column that holds a contracts' value
  (\<open>awaiting\<close>, \<open>error\<close>, \<open>last_resolution\<close>, ...) holds that value here. \<open>db_ok\<close> is what the schema
  enforces: primary keys, the unique constraints and the foreign keys.
\<close>

record run_row =
  run_id :: string
  tenant_id :: string
  agent_id :: string
  status :: run_status
  parent_run_id :: "string option"
  thread_id :: "string option"
  user_id :: "string option"
  workspace_id :: "string option"
  on_behalf_of :: "string option"
  run_input :: json
  run_output :: json
  run_error :: "agent_error option"
  awaiting :: "interrupt option"
  last_resolution :: "interrupt_resolution option"
  checkpoint :: "json option"
  assignee :: "string option"
  awaiting_deadline :: "instant option"
  attempt :: int
  lease_lapses :: int
  error_retries :: int
  deadline :: "instant option"
  timeout_seconds :: "seconds option"
  worked_seconds :: seconds
  running_since :: "instant option"
  agent_version :: "string option"
  priority :: int
  concurrency_key :: "string option"
  idempotency_key :: "string option"
  run_metadata :: "(string \<times> json) list option"
  queued_at :: "instant option"
  available_at :: "instant option"
  lease_owner :: "string option"
  lease_expires_at :: "instant option"
  settled_by :: "string option"
  cancel_requested_at :: "instant option"
  cancel_reason :: "string option"
  cancelled_by :: "string option"
  created_at :: instant
  updated_at :: instant

record resolution_row =
  resolution_id :: string
  rr_run_id :: string
  rr_tenant_id :: string
  rr_interrupt_id :: string
  rr_decision :: interrupt_decision
  rr_reviewer :: "string option"
  rr_interrupt :: interrupt
  rr_resolution :: interrupt_resolution
  rr_attempt :: int
  rr_resolved_at :: instant
  rr_recorded_at :: instant

record run_event_row =
  re_run_id :: string
  re_position :: int
  re_tenant_id :: string
  re_attempt :: int
  re_sequence :: int
  re_event :: run_event

record artifact_row =
  artifact_id :: string
  art_run_id :: string
  art_tenant_id :: string
  blob_key :: string
  mime :: string
  art_size :: int
  checksum :: string
  art_created_at :: instant
  expires_at :: "instant option"

record db =
  runs :: "run_row list"
  resolutions :: "resolution_row list"
  run_events :: "run_event_row list"
  run_artifacts :: "artifact_row list"

definition empty_db :: db where
  "empty_db = \<lparr>runs = [], resolutions = [], run_events = [], run_artifacts = []\<rparr>"

section \<open>What the schema enforces\<close>

text \<open>Two rows collide on \<open>uq_runs_tenant_idempotency\<close> when they have the same tenant and the same
  key; null keys never collide.\<close>

definition same_idempotency :: "run_row \<Rightarrow> run_row \<Rightarrow> bool" where
  "same_idempotency a b \<longleftrightarrow>
     tenant_id a = tenant_id b \<and> idempotency_key a = idempotency_key b \<and> idempotency_key a \<noteq> None"

definition event_key :: "run_event_row \<Rightarrow> string \<times> int" where
  "event_key e = (re_run_id e, re_position e)"

definition event_sequence :: "run_event_row \<Rightarrow> string \<times> int \<times> int" where
  "event_sequence e = (re_run_id e, re_attempt e, re_sequence e)"

definition artifact_content :: "artifact_row \<Rightarrow> string \<times> string" where
  "artifact_content a = (art_run_id a, checksum a)"

definition unique_idempotency :: "run_row list \<Rightarrow> bool" where
  "unique_idempotency rows \<longleftrightarrow>
     (\<forall>a\<in>set rows. \<forall>b\<in>set rows. same_idempotency a b \<longrightarrow> run_id a = run_id b)"

definition db_ok :: "db \<Rightarrow> bool" where
  "db_ok d \<longleftrightarrow>
     distinct (map run_id (runs d)) \<and>
     unique_idempotency (runs d) \<and>
     distinct (map resolution_id (resolutions d)) \<and>
     (\<forall>k\<in>set (resolutions d). rr_run_id k \<in> run_id ` set (runs d)) \<and>
     distinct (map event_key (run_events d)) \<and>
     distinct (map event_sequence (run_events d)) \<and>
     (\<forall>e\<in>set (run_events d). re_run_id e \<in> run_id ` set (runs d)) \<and>
     distinct (map artifact_id (run_artifacts d)) \<and>
     distinct (map artifact_content (run_artifacts d)) \<and>
     (\<forall>a\<in>set (run_artifacts d). art_run_id a \<in> run_id ` set (runs d))"

lemma db_ok_empty [simp]: "db_ok empty_db"
  by (simp add: db_ok_def empty_db_def unique_idempotency_def)

section \<open>The positions of an event log\<close>

text \<open>The events of a run are at positions 1, 2, 3, ... in the order they were added: no position is
  skipped and none comes late, so a reader that continues after the last position it saw misses
  nothing.\<close>

definition events_of :: "string \<Rightarrow> run_event_row list \<Rightarrow> run_event_row list" where
  "events_of rid es = filter (\<lambda>e. re_run_id e = rid) es"

definition log_ok :: "run_event_row list \<Rightarrow> bool" where
  "log_ok es \<longleftrightarrow>
     (\<forall>rid\<in>re_run_id ` set es.
        map re_position (events_of rid es) = map (\<lambda>i. int i + 1) [0..<length (events_of rid es)])"

lemma events_of_absent: "rid \<notin> re_run_id ` set es \<Longrightarrow> events_of rid es = []"
  by (auto simp: events_of_def filter_empty_conv)

lemma log_okD:
  "log_ok es \<Longrightarrow> map re_position (events_of rid es) = map (\<lambda>i. int i + 1) [0..<length (events_of rid es)]"
  by (cases "rid \<in> re_run_id ` set es") (auto simp: log_ok_def events_of_absent)

lemma log_okI:
  "(\<And>rid. map re_position (events_of rid es) = map (\<lambda>i. int i + 1) [0..<length (events_of rid es)]) \<Longrightarrow> log_ok es"
  by (simp add: log_ok_def)

lemma events_of_filter:
  "events_of rid (filter (\<lambda>e. re_run_id e \<notin> S) es) = (if rid \<in> S then [] else events_of rid es)"
  by (induction es) (auto simp: events_of_def)

lemma log_ok_filter: "log_ok es \<Longrightarrow> log_ok (filter (\<lambda>e. re_run_id e \<notin> S) es)"
  by (rule log_okI) (simp add: events_of_filter log_okD)

lemma log_ok_Nil [simp]: "log_ok []"
  by (simp add: log_ok_def)

end
