(* ===== verification/Retry.thy ===== *)
theory Retry
  imports Prelude
begin

text \<open>
  \<open>src/agent_runs/retry.py\<close>: the capped doubling backoff, its jitter and the breaker, with the
  waits of \<open>config/constants.py\<close> that use them. \<open>random.uniform(0, 0.5)\<close> is the argument \<open>u\<close>.
\<close>

definition backoff :: "duration \<Rightarrow> int \<Rightarrow> duration \<Rightarrow> duration" where
  "backoff base failures cap = min (base * 2 ^ nat (max (failures - 1) 0)) cap"

definition jittered :: "rat \<Rightarrow> duration \<Rightarrow> duration" where
  "jittered u wait = round_half_even (of_int wait / 2) + round_half_even (of_int wait * u)"

definition LAPSE_RETRY_BASE :: duration where
  "LAPSE_RETRY_BASE = timedelta_seconds 5"

definition LAPSE_RETRY_CAP :: duration where
  "LAPSE_RETRY_CAP = timedelta_seconds 60"

definition ERROR_RETRY_BASE :: duration where
  "ERROR_RETRY_BASE = timedelta_seconds 10"

definition ERROR_RETRY_CAP :: duration where
  "ERROR_RETRY_CAP = timedelta_seconds 600"

definition FIRE_RETRY_BASE :: duration where
  "FIRE_RETRY_BASE = timedelta_seconds 300"

definition FIRE_RETRY_CAP :: duration where
  "FIRE_RETRY_CAP = timedelta_seconds 3600"

definition WEBHOOK_RETRY_BASE :: duration where
  "WEBHOOK_RETRY_BASE = timedelta_seconds 15"

definition WEBHOOK_RETRY_CAP :: duration where
  "WEBHOOK_RETRY_CAP = timedelta_seconds 600"

record breaker =
  threshold :: int
  cooldown :: duration
  failures :: int
  opened_at :: "instant option"

definition new_breaker :: "int \<Rightarrow> duration \<Rightarrow> breaker" where
  "new_breaker t c = \<lparr>threshold = t, cooldown = c, failures = 0, opened_at = None\<rparr>"

definition allows :: "breaker \<Rightarrow> instant \<Rightarrow> bool" where
  "allows b now = (case opened_at b of None \<Rightarrow> True | Some t \<Rightarrow> now - t \<ge> cooldown b)"

definition record_success :: "breaker \<Rightarrow> breaker" where
  "record_success b = b\<lparr>failures := 0, opened_at := None\<rparr>"

definition record_failure :: "breaker \<Rightarrow> instant \<Rightarrow> breaker" where
  "record_failure b now =
     (let b' = b\<lparr>failures := failures b + 1\<rparr>
      in if opened_at b' \<noteq> None \<or> failures b' \<ge> threshold b' then b'\<lparr>opened_at := Some now\<rparr> else b')"

text \<open>The breaker under a history of ticks: at each instant the dependency is called when the
  breaker allows it and answers or fails.\<close>

definition breaker_tick :: "breaker \<Rightarrow> instant \<times> bool \<Rightarrow> breaker" where
  "breaker_tick b e =
     (if allows b (fst e)
      then if snd e then record_success b else record_failure b (fst e)
      else b)"

section \<open>A backoff policy\<close>

text \<open>What a caller relies on of a base and a cap: a positive, even base (so halving it loses no
  microsecond) that does not pass an even cap.\<close>

locale backoff_policy =
  fixes base cap :: duration
  assumes base_pos: "0 < base" and base_cap: "base \<le> cap"
    and base_even: "even base" and cap_even: "even cap"
begin

lemma backoff_lower: "base \<le> backoff base n cap"
proof -
  have "base * 1 \<le> base * 2 ^ nat (max (n - 1) 0)"
    using base_pos by (intro mult_left_mono) auto
  with base_cap show ?thesis by (simp add: backoff_def)
qed

lemma backoff_upper: "backoff base n cap \<le> cap"
  by (simp add: backoff_def)

lemma backoff_mono: "m \<le> n \<Longrightarrow> backoff base m cap \<le> backoff base n cap"
proof -
  assume "m \<le> n"
  then have "(2::int) ^ nat (max (m - 1) 0) \<le> 2 ^ nat (max (n - 1) 0)"
    by (intro power_increasing) auto
  then have "base * 2 ^ nat (max (m - 1) 0) \<le> base * 2 ^ nat (max (n - 1) 0)"
    using base_pos by (simp add: mult_left_mono)
  then show ?thesis by (simp add: backoff_def min.coboundedI1)
qed

lemma backoff_doubles:
  "1 \<le> n \<Longrightarrow> backoff base (n + 1) cap = min (2 * backoff base n cap) cap"
proof -
  assume n: "1 \<le> n"
  have "nat (max (n + 1 - 1) 0) = Suc (nat (max (n - 1) 0))" using n by auto
  then have e: "(2::int) ^ nat (max (n + 1 - 1) 0) = 2 * 2 ^ nat (max (n - 1) 0)"
    by (simp only: power_Suc)
  have "0 < cap" using base_pos base_cap by linarith
  then show ?thesis unfolding backoff_def e by (auto simp: min_def)
qed

lemma backoff_even: "even (backoff base n cap)"
  using base_even cap_even by (simp add: backoff_def min_def)

lemma jittered_within:
  assumes "0 \<le> u" "u \<le> 1 / 2"
  shows "backoff base n cap div 2 \<le> jittered u (backoff base n cap)"
    and "jittered u (backoff base n cap) \<le> backoff base n cap"
proof -
  define w where "w = backoff base n cap"
  have w: "0 \<le> w" "even w" using backoff_lower [of n] base_pos backoff_even by (auto simp: w_def)
  then obtain h where h: "w = 2 * h" by (auto elim: evenE)
  have half: "round_half_even (of_int w / 2) = h" unfolding h
    by (metis (no_types) mult.commute nonzero_mult_div_cancel_right of_int_mult of_int_numeral
        round_half_even_of_int zero_neq_numeral)
  have "0 \<le> of_int w * u" "of_int w * u \<le> of_int h"
    using assms w mult_left_mono [of u "1 / 2" "of_int w"] by (auto simp: h)
  then have "0 \<le> round_half_even (of_int w * u)" "round_half_even (of_int w * u) \<le> h"
    using round_half_even_mono [of 0 "of_int w * u"] round_half_even_mono [of "of_int w * u" "of_int h"]
      round_half_even_of_int [of 0] by auto
  then show "backoff base n cap div 2 \<le> jittered u (backoff base n cap)"
    and "jittered u (backoff base n cap) \<le> backoff base n cap"
    using half h by (auto simp: jittered_def w_def [symmetric])
qed

lemma jittered_positive:
  assumes "0 \<le> u" "u \<le> 1 / 2" shows "0 < jittered u (backoff base n cap)"
proof -
  have "0 < backoff base n cap div 2"
    using backoff_lower [of n] base_pos backoff_even [of n] by (auto elim!: evenE)
  with jittered_within(1) [OF assms, of n] show ?thesis by linarith
qed

end

interpretation lapse: backoff_policy LAPSE_RETRY_BASE LAPSE_RETRY_CAP
  by unfold_locales (auto simp: LAPSE_RETRY_BASE_def LAPSE_RETRY_CAP_def timedelta_seconds_def)

interpretation err: backoff_policy ERROR_RETRY_BASE ERROR_RETRY_CAP
  by unfold_locales (auto simp: ERROR_RETRY_BASE_def ERROR_RETRY_CAP_def timedelta_seconds_def)

interpretation fire: backoff_policy FIRE_RETRY_BASE FIRE_RETRY_CAP
  by unfold_locales (auto simp: FIRE_RETRY_BASE_def FIRE_RETRY_CAP_def timedelta_seconds_def)

interpretation hook: backoff_policy WEBHOOK_RETRY_BASE WEBHOOK_RETRY_CAP
  by unfold_locales (auto simp: WEBHOOK_RETRY_BASE_def WEBHOOK_RETRY_CAP_def timedelta_seconds_def)

section \<open>The breaker\<close>

text \<open>A breaker is closed with fewer failures than its threshold, or open.\<close>

definition breaker_ok :: "breaker \<Rightarrow> bool" where
  "breaker_ok b \<longleftrightarrow> 0 < threshold b \<and> 0 \<le> failures b \<and> (opened_at b = None \<longrightarrow> failures b < threshold b)"

lemma breaker_tick_config [simp]:
  "threshold (breaker_tick b e) = threshold b" "cooldown (breaker_tick b e) = cooldown b"
  by (auto simp: breaker_tick_def record_success_def record_failure_def Let_def)

lemma breaker_tick_ok: "breaker_ok b \<Longrightarrow> breaker_ok (breaker_tick b e)"
  by (auto simp: breaker_ok_def breaker_tick_def record_success_def record_failure_def Let_def)

lemma breaker_ticks_ok: "breaker_ok b \<Longrightarrow> breaker_ok (foldl breaker_tick b es)"
  by (induction es arbitrary: b) (auto intro: breaker_tick_ok)

section \<open>Properties\<close>

text \<open>Every retry waits: for lapsed leases, failed runs, schedules' fires and webhooks alike, the
  wait grows with the failures by doubling, from its base and never past its cap, and the jitter
  keeps it between half of that and all of it.\<close>

lemma retry_waits:
  assumes "(base, cap) \<in> {(LAPSE_RETRY_BASE, LAPSE_RETRY_CAP), (ERROR_RETRY_BASE, ERROR_RETRY_CAP),
      (FIRE_RETRY_BASE, FIRE_RETRY_CAP), (WEBHOOK_RETRY_BASE, WEBHOOK_RETRY_CAP)}"
    and "0 \<le> u" "u \<le> 1 / 2" "1 \<le> n"
  shows "backoff base 1 cap = base \<and> backoff base (n + 1) cap = min (2 * backoff base n cap) cap \<and>
    backoff base n cap \<le> cap \<and> 0 < jittered u (backoff base n cap) \<and>
    backoff base n cap div 2 \<le> jittered u (backoff base n cap) \<and>
    jittered u (backoff base n cap) \<le> backoff base n cap"
proof -
  have "backoff_policy base cap"
    using assms(1) lapse.backoff_policy_axioms err.backoff_policy_axioms fire.backoff_policy_axioms
      hook.backoff_policy_axioms by auto
  then show ?thesis
    using backoff_policy.backoff_doubles [of base cap n] backoff_policy.backoff_upper [of base cap n]
      backoff_policy.jittered_within [of base cap u n] backoff_policy.jittered_positive [of base cap u n]
      backoff_policy.base_cap [of base cap] assms(2-4)
    by (simp add: backoff_def [of base 1])
qed

text \<open>The breaker: it opens exactly when the failures in a row reach its threshold, an open breaker
  lets nothing through (and forgets nothing) until its cooldown is over, and then lets one call
  decide: a success closes it with a clean count, a failure opens it again from that moment.\<close>

lemma breaker_behaviour:
  assumes "breaker_ok b"
  shows "(opened_at b = None \<longrightarrow>
      (opened_at (breaker_tick b (now, False)) = (if failures b + 1 = threshold b then Some now else None)) \<and>
      failures (breaker_tick b (now, True)) = 0) \<and>
    (\<forall>t. opened_at b = Some t \<longrightarrow>
      (now < t + cooldown b \<longrightarrow> breaker_tick b (now, answered) = b) \<and>
      (t + cooldown b \<le> now \<longrightarrow>
         opened_at (breaker_tick b (now, answered)) = (if answered then None else Some now) \<and>
         (answered \<longrightarrow> failures (breaker_tick b (now, answered)) = 0))) \<and>
    breaker_ok (foldl breaker_tick b history)"
  using assms breaker_ticks_ok [OF assms]
  by (auto simp: breaker_ok_def breaker_tick_def allows_def record_success_def record_failure_def Let_def)

end
