(* ===== verification/Run_Rows.thy ===== *)
theory Run_Rows
  imports Tables Retry
begin

text \<open>
  \<open>src/agent_runs/store/runs.py\<close>, lines 69 to 275 and \<open>_lease\<close>: what the store's operations do to
  one row. \<open>move\<close> is the one transition check, \<open>requeue\<close> puts a run back on the queue, \<open>fence\<close> and
  \<open>held_by\<close> keep a worker that lost its lease from writing, \<open>settled\<close> recognises a repeat,
  \<open>retried\<close> decides whether an ending goes back on the queue instead, \<open>lease_row\<close> leases the run.
  \<open>row_ok\<close> is the invariant of a row, and the lemmas show that each of them keeps it.
\<close>

definition MAX_LEASE_LAPSES :: int where
  "MAX_LEASE_LAPSES = 5"

definition MAX_ERROR_RETRIES :: int where
  "MAX_ERROR_RETRIES = 3"

section \<open>Reading a row\<close>

definition worked :: "run_row \<Rightarrow> instant \<Rightarrow> seconds" where
  "worked row now =
     (case running_since row of
        None \<Rightarrow> worked_seconds row
      | Some since \<Rightarrow> worked_seconds row + max 0 (total_seconds (now - since)))"

text \<open>\<open>_record\<close>: the contracts' \<open>RunRecord\<close> of a row. That \<open>RunRecord.model_validate\<close> accepts it is
  a theorem about the rows of the store.\<close>

definition record_of :: "run_row \<Rightarrow> instant \<Rightarrow> run_record" where
  "record_of row now = \<lparr>
     rec_run_id = run_id row,
     rec_tenant_id = tenant_id row,
     rec_agent_id = agent_id row,
     rec_status = status row,
     rec_parent_run_id = parent_run_id row,
     rec_thread_id = thread_id row,
     rec_user_id = user_id row,
     rec_workspace_id = workspace_id row,
     rec_on_behalf_of = on_behalf_of row,
     rec_input = run_input row,
     rec_output = run_output row,
     rec_error = run_error row,
     rec_awaiting = awaiting row,
     rec_last_resolution = last_resolution row,
     rec_checkpoint = checkpoint row,
     rec_attempt = attempt row,
     rec_deadline = deadline row,
     rec_timeout_seconds = timeout_seconds row,
     rec_idempotency_key = idempotency_key row,
     rec_agent_version = agent_version row,
     rec_priority = priority row,
     rec_concurrency_key = concurrency_key row,
     rec_created_at = created_at row,
     rec_updated_at = updated_at row,
     rec_metadata = (case run_metadata row of None \<Rightarrow> [] | Some m \<Rightarrow> m),
     rec_worked_seconds = worked row now\<rparr>"

text \<open>\<open>_START_FIELDS\<close> and \<open>_differing\<close>: the fields, in sorted order, in which a repeated start asks
  for something other than the run it found.\<close>

definition differing :: "run_record \<Rightarrow> run_start \<Rightarrow> bool \<Rightarrow> bool \<Rightarrow> string list" where
  "differing existing start queue queued =
     map fst (filter snd
       [(''agent_id'', rs_agent_id start \<noteq> rec_agent_id existing),
        (''concurrency_key'', rs_concurrency_key start \<noteq> rec_concurrency_key existing),
        (''deadline'', rs_deadline start \<noteq> rec_deadline existing),
        (''input'', rs_input start \<noteq> rec_input existing),
        (''metadata'', rs_metadata start \<noteq> rec_metadata existing),
        (''on_behalf_of'', rs_on_behalf_of start \<noteq> rec_on_behalf_of existing),
        (''parent_run_id'', rs_parent_run_id start \<noteq> rec_parent_run_id existing),
        (''priority'', rs_priority start \<noteq> rec_priority existing),
        (''thread_id'', rs_thread_id start \<noteq> rec_thread_id existing),
        (''timeout_seconds'', rs_timeout_seconds start \<noteq> rec_timeout_seconds existing),
        (''user_id'', rs_user_id start \<noteq> rec_user_id existing),
        (''workspace_id'', rs_workspace_id start \<noteq> rec_workspace_id existing),
        (''queue'', queue \<noteq> queued)])"

section \<open>Writing a row\<close>

text \<open>The columns \<open>_move\<close> writes once the transition is allowed.\<close>

definition moved :: "contracts \<Rightarrow> run_row \<Rightarrow> run_status \<Rightarrow> instant \<Rightarrow> run_row" where
  "moved C row to now =
     row\<lparr>worked_seconds := worked row now,
         running_since := (if to = RUNNING then Some now else None),
         status := to,
         updated_at := now,
         settled_by := None,
         available_at := (if to \<noteq> QUEUED then None else available_at row),
         lease_owner := (if to \<noteq> RUNNING then None else lease_owner row),
         lease_expires_at := (if to \<noteq> RUNNING then None else lease_expires_at row),
         cancel_requested_at := (if to \<noteq> RUNNING then None else cancel_requested_at row),
         awaiting := (if to \<noteq> PAUSED then None else awaiting row),
         assignee := (if to \<noteq> PAUSED then None else assignee row),
         awaiting_deadline := (if to \<noteq> PAUSED then None else awaiting_deadline row),
         checkpoint := (if final C to then None else checkpoint row)\<rparr>"

definition move :: "contracts \<Rightarrow> run_row \<Rightarrow> run_status \<Rightarrow> instant \<Rightarrow> run_row result" where
  "move C row to now =
     (if \<not> can_become C (status row) to then Inl (Conflict []) else Inr (moved C row to now))"

definition fence :: "run_row \<Rightarrow> string option \<Rightarrow> unit result" where
  "fence row worker_id =
     (if worker_id \<noteq> None \<and> lease_owner row \<noteq> worker_id then Inl LeaseLost else Inr ())"

definition held_by :: "run_row \<Rightarrow> string option \<Rightarrow> unit result" where
  "held_by row worker_id =
     (if worker_id = None \<and> lease_owner row \<noteq> None then Inl (Conflict [])
      else if worker_id \<noteq> lease_owner row then Inl LeaseLost
      else Inr ())"

definition settled :: "run_row \<Rightarrow> run_status \<Rightarrow> string option \<Rightarrow> bool" where
  "settled row st worker_id \<longleftrightarrow> status row = st \<and> settled_by row = worker_id"

definition resolution_id_of :: "contracts \<Rightarrow> interrupt_resolution \<Rightarrow> string" where
  "resolution_id_of C r = stable_id C ''res_'' [PStr (res_run_id r), PStr (res_interrupt_id r)]"

definition requeue :: "contracts \<Rightarrow> run_row \<Rightarrow> instant \<Rightarrow> duration option \<Rightarrow> run_row result" where
  "requeue C row now wait =
     bind_result (move C row QUEUED now) (\<lambda>row.
       Inr (row\<lparr>attempt := attempt row + 1,
                queued_at := Some now,
                available_at := (case wait of None \<Rightarrow> None | Some w \<Rightarrow> Some (now + w))\<rparr>))"

text \<open>\<open>RunFinish\<close>: how a run ended.\<close>

record run_finish =
  fin_status :: run_status
  fin_output :: json
  fin_error :: "agent_error option"

text \<open>\<open>RunFinish._is_an_ending\<close>: the status is final, and the contracts take an error only with
  \<open>ERROR\<close>, \<open>TIMEOUT\<close> or \<open>REJECTED\<close>.\<close>

definition is_an_ending :: "contracts \<Rightarrow> run_finish \<Rightarrow> bool" where
  "is_an_ending C e \<longleftrightarrow>
     final C (fin_status e) \<and>
     (case fin_error e of
        None \<Rightarrow> True
      | Some _ \<Rightarrow> fin_status e = ERROR \<or> fin_status e = TIMEOUT \<or> fin_status e = REJECTED)"

definition retried :: "run_row \<Rightarrow> run_finish \<Rightarrow> bool" where
  "retried row ending \<longleftrightarrow>
     fin_status ending = ERROR \<and>
     (case fin_error ending of None \<Rightarrow> False | Some e \<Rightarrow> ae_retryable e) \<and>
     status row = RUNNING \<and>
     queued_at row \<noteq> None \<and>
     error_retries row < MAX_ERROR_RETRIES \<and>
     cancel_requested_at row = None"

text \<open>\<open>_cancelled_instead\<close>: the row, and whether it ended.\<close>

definition cancelled_instead :: "contracts \<Rightarrow> run_row \<Rightarrow> instant \<Rightarrow> (run_row \<times> bool) result" where
  "cancelled_instead C row now =
     (if cancel_requested_at row = None then Inr (row, False)
      else bind_result (move C row CANCELLED now) (\<lambda>row. Inr (row, True)))"

definition counted :: "agent_error option \<Rightarrow> int \<Rightarrow> agent_error option" where
  "counted err retries =
     (case err of
        None \<Rightarrow> None
      | Some e \<Rightarrow>
          if retries = 0 then Some e else Some (e\<lparr>ae_message := Counted (ae_message e) retries\<rparr>))"

section \<open>Leases\<close>

text \<open>The settings a \<open>RunStore\<close> is made with.\<close>

record store_limits =
  max_run_seconds :: "seconds option"
  concurrency_per_key :: int
  max_running_per_tenant :: "int option"

definition limit_of :: "store_limits \<Rightarrow> run_row \<Rightarrow> seconds option" where
  "limit_of L row =
     (case (timeout_seconds row, max_run_seconds L) of
        (None, None) \<Rightarrow> None
      | (Some a, None) \<Rightarrow> Some a
      | (None, Some b) \<Rightarrow> Some b
      | (Some a, Some b) \<Rightarrow> Some (min a b))"

record lease =
  lease_run_id :: string
  lease_worker_id :: string
  lease_until :: instant
  remaining_seconds :: "seconds option"
  cancel_requested :: bool

definition lease_row ::
  "store_limits \<Rightarrow> run_row \<Rightarrow> string \<Rightarrow> int \<Rightarrow> instant \<Rightarrow> run_row \<times> lease" where
  "lease_row L row worker_id secs now =
     (let cancelling = cancel_requested_at row;
          expires = (case cancelling of None \<Rightarrow> now | Some t \<Rightarrow> t) + timedelta_seconds secs;
          row = row\<lparr>lease_owner := Some worker_id, lease_expires_at := Some expires\<rparr>;
          remaining = (case limit_of L row of
                         None \<Rightarrow> None
                       | Some l \<Rightarrow> Some (max 0 (l - worked row now)))
      in (row, \<lparr>lease_run_id = run_id row, lease_worker_id = worker_id, lease_until = expires,
                remaining_seconds = remaining, cancel_requested = cancelling \<noteq> None\<rparr>))"

section \<open>The row invariant\<close>

definition leased :: "run_row \<Rightarrow> bool" where
  "leased r \<longleftrightarrow> status r = RUNNING \<and> lease_owner r \<noteq> None"

text \<open>What the comments of \<open>RunRow\<close> promise, and what the code relies on between its columns.\<close>

definition lease_columns_ok :: "run_row \<Rightarrow> bool" where
  "lease_columns_ok r \<longleftrightarrow>
     (running_since r \<noteq> None \<longleftrightarrow> status r = RUNNING) \<and>
     (lease_owner r \<noteq> None \<longleftrightarrow> lease_expires_at r \<noteq> None) \<and>
     (lease_owner r \<noteq> None \<longrightarrow> status r = RUNNING \<and> queued_at r \<noteq> None) \<and>
     (cancel_requested_at r \<noteq> None \<longrightarrow> lease_owner r \<noteq> None)"

definition queue_columns_ok :: "run_row \<Rightarrow> bool" where
  "queue_columns_ok r \<longleftrightarrow>
     (available_at r \<noteq> None \<longrightarrow> status r = QUEUED) \<and>
     (status r = QUEUED \<longrightarrow> queued_at r \<noteq> None)"

definition pause_columns_ok :: "run_row \<Rightarrow> bool" where
  "pause_columns_ok r \<longleftrightarrow>
     (awaiting r \<noteq> None \<longleftrightarrow> status r = PAUSED) \<and>
     assignee r = (case awaiting r of None \<Rightarrow> None | Some i \<Rightarrow> i_assignee i) \<and>
     awaiting_deadline r = (case awaiting r of None \<Rightarrow> None | Some i \<Rightarrow> i_deadline i) \<and>
     (case awaiting r of None \<Rightarrow> True
      | Some i \<Rightarrow> i_run_id i = run_id r \<and> i_tenant_id i = tenant_id r)"

definition ending_columns_ok :: "run_row \<Rightarrow> bool" where
  "ending_columns_ok r \<longleftrightarrow>
     (documented_final (status r) \<longrightarrow> checkpoint r = None) \<and>
     (run_error r \<noteq> None \<longrightarrow> status r \<in> {ERROR, TIMEOUT, REJECTED}) \<and>
     (run_output r \<noteq> JNull \<longrightarrow> documented_final (status r))"

definition counter_columns_ok :: "run_row \<Rightarrow> bool" where
  "counter_columns_ok r \<longleftrightarrow>
     1 \<le> attempt r \<and> 0 \<le> worked_seconds r \<and>
     0 \<le> error_retries r \<and> error_retries r \<le> MAX_ERROR_RETRIES \<and>
     0 \<le> lease_lapses r \<and> lease_lapses r \<le> MAX_LEASE_LAPSES \<and>
     (\<not> documented_final (status r) \<longrightarrow> lease_lapses r < MAX_LEASE_LAPSES) \<and>
     1 + error_retries r \<le> attempt r"

definition row_ok :: "run_row \<Rightarrow> bool" where
  "row_ok r \<longleftrightarrow>
     lease_columns_ok r \<and> queue_columns_ok r \<and> pause_columns_ok r \<and>
     ending_columns_ok r \<and> counter_columns_ok r"

lemmas row_ok_defs = row_ok_def lease_columns_ok_def queue_columns_ok_def pause_columns_ok_def
  ending_columns_ok_def counter_columns_ok_def

text \<open>The columns that say which run a row is: no operation writes them.\<close>

definition identity_of ::
  "run_row \<Rightarrow> (string \<times> string \<times> string \<times> string option \<times> string option \<times> string option) \<times>
              json \<times> instant option \<times> seconds option \<times> int \<times> string option \<times> string option \<times> instant" where
  "identity_of r =
     ((run_id r, tenant_id r, agent_id r, parent_run_id r, thread_id r, on_behalf_of r),
      run_input r, deadline r, timeout_seconds r, priority r, concurrency_key r, idempotency_key r,
      created_at r)"

section \<open>What a move writes\<close>

lemma moved_columns [simp]:
  "run_id (moved C r to now) = run_id r"
  "tenant_id (moved C r to now) = tenant_id r"
  "agent_id (moved C r to now) = agent_id r"
  "status (moved C r to now) = to"
  "parent_run_id (moved C r to now) = parent_run_id r"
  "thread_id (moved C r to now) = thread_id r"
  "user_id (moved C r to now) = user_id r"
  "workspace_id (moved C r to now) = workspace_id r"
  "on_behalf_of (moved C r to now) = on_behalf_of r"
  "run_input (moved C r to now) = run_input r"
  "run_output (moved C r to now) = run_output r"
  "run_error (moved C r to now) = run_error r"
  "awaiting (moved C r to now) = (if to = PAUSED then awaiting r else None)"
  "last_resolution (moved C r to now) = last_resolution r"
  "checkpoint (moved C r to now) = (if final C to then None else checkpoint r)"
  "assignee (moved C r to now) = (if to = PAUSED then assignee r else None)"
  "awaiting_deadline (moved C r to now) = (if to = PAUSED then awaiting_deadline r else None)"
  "attempt (moved C r to now) = attempt r"
  "lease_lapses (moved C r to now) = lease_lapses r"
  "error_retries (moved C r to now) = error_retries r"
  "deadline (moved C r to now) = deadline r"
  "timeout_seconds (moved C r to now) = timeout_seconds r"
  "worked_seconds (moved C r to now) = worked r now"
  "running_since (moved C r to now) = (if to = RUNNING then Some now else None)"
  "agent_version (moved C r to now) = agent_version r"
  "priority (moved C r to now) = priority r"
  "concurrency_key (moved C r to now) = concurrency_key r"
  "idempotency_key (moved C r to now) = idempotency_key r"
  "run_metadata (moved C r to now) = run_metadata r"
  "queued_at (moved C r to now) = queued_at r"
  "available_at (moved C r to now) = (if to = QUEUED then available_at r else None)"
  "lease_owner (moved C r to now) = (if to = RUNNING then lease_owner r else None)"
  "lease_expires_at (moved C r to now) = (if to = RUNNING then lease_expires_at r else None)"
  "settled_by (moved C r to now) = None"
  "cancel_requested_at (moved C r to now) = (if to = RUNNING then cancel_requested_at r else None)"
  "cancel_reason (moved C r to now) = cancel_reason r"
  "cancelled_by (moved C r to now) = cancelled_by r"
  "created_at (moved C r to now) = created_at r"
  "updated_at (moved C r to now) = now"
  by (simp_all add: moved_def)

lemma move_Inr_iff [simp]:
  "move C r to now = Inr r' \<longleftrightarrow> can_become C (status r) to \<and> r' = moved C r to now"
  by (auto simp: move_def)

lemma move_Inl_iff: "move C r to now = Inl e \<longleftrightarrow> \<not> can_become C (status r) to \<and> e = Conflict []"
  by (auto simp: move_def)

lemma requeue_Inr_iff:
  "requeue C r now w = Inr r' \<longleftrightarrow>
     can_become C (status r) QUEUED \<and>
     r' = (moved C r QUEUED now)
       \<lparr>attempt := attempt r + 1, queued_at := Some now,
        available_at := (case w of None \<Rightarrow> None | Some d \<Rightarrow> Some (now + d))\<rparr>"
  by (auto simp: requeue_def)

lemma fence_Inr_iff [simp]: "fence r w = Inr u \<longleftrightarrow> w = None \<or> lease_owner r = w"
  by (auto simp: fence_def)

lemma held_by_Inr_iff [simp]: "held_by r w = Inr u \<longleftrightarrow> lease_owner r = w"
  by (auto simp: held_by_def)

lemma cancelled_instead_Inr_iff:
  "cancelled_instead C r now = Inr (r', b) \<longleftrightarrow>
     (if cancel_requested_at r = None then r' = r \<and> \<not> b
      else can_become C (status r) CANCELLED \<and> r' = moved C r CANCELLED now \<and> b)"
  by (auto simp: cancelled_instead_def)

lemma identity_moved [simp]: "identity_of (moved C r to now) = identity_of r"
  by (simp add: identity_of_def)

lemma worked_nonneg: "0 \<le> worked_seconds r \<Longrightarrow> 0 \<le> worked r now"
  by (auto simp: worked_def split: option.splits intro: add_nonneg_nonneg)

lemma worked_ge: "worked_seconds r \<le> worked r now"
  by (auto simp: worked_def split: option.splits)

text \<open>The columns the invariant does not speak of.\<close>

lemma row_ok_unread [simp]:
  "row_ok (r\<lparr>settled_by := w\<rparr>) = row_ok r" "row_ok (r\<lparr>cancel_reason := t\<rparr>) = row_ok r"
  "row_ok (r\<lparr>cancelled_by := w\<rparr>) = row_ok r" "row_ok (r\<lparr>last_resolution := a\<rparr>) = row_ok r"
  "row_ok (r\<lparr>updated_at := now\<rparr>) = row_ok r"
  by (simp_all add: row_ok_defs split: option.split)

lemma identity_unread [simp]:
  "identity_of (r\<lparr>settled_by := w\<rparr>) = identity_of r" "identity_of (r\<lparr>cancel_reason := t\<rparr>) = identity_of r"
  "identity_of (r\<lparr>cancelled_by := w\<rparr>) = identity_of r"
  "identity_of (r\<lparr>last_resolution := a\<rparr>) = identity_of r"
  "identity_of (r\<lparr>updated_at := now\<rparr>) = identity_of r"
  by (simp_all add: identity_of_def)

lemma worked_unread [simp]: "worked (r\<lparr>last_resolution := a\<rparr>) now = worked r now"
  by (simp add: worked_def split: option.split)

section \<open>The invariant is kept\<close>

text \<open>A move keeps the columns of a row in step with its new status, whatever the contracts allow;
  what it leaves to its caller are the columns of a pause and the column that makes a run durable.\<close>

lemma row_ok_moved:
  assumes "row_ok r" "lifecycle_laws C" "to \<noteq> PAUSED"
    and "to = QUEUED \<Longrightarrow> queued_at r \<noteq> None"
    and "run_error r = None" "run_output r = JNull" "lease_lapses r < MAX_LEASE_LAPSES"
    and "to = RUNNING \<Longrightarrow> lease_owner r = None"
  shows "row_ok (moved C r to now)"
  using assms worked_nonneg [of r now]
  by (auto simp: row_ok_defs split: option.splits)

lemma row_ok_live:
  assumes "row_ok r" "\<not> documented_final (status r)"
  shows "run_error r = None" "run_output r = JNull" "lease_lapses r < MAX_LEASE_LAPSES"
  using assms by (auto simp: row_ok_defs)

lemma row_ok_can_become:
  assumes "row_ok r" "lifecycle_laws C" "can_become C (status r) to"
  shows "run_error r = None" "run_output r = JNull" "lease_lapses r < MAX_LEASE_LAPSES"
  using assms row_ok_live [OF assms(1)] ended_cannot_become [of "status r" to] by auto

text \<open>A row that ended, with the error it ended with.\<close>

lemma row_ok_ended:
  assumes "row_ok r" "lifecycle_laws C" "can_become C (status r) to" "documented_final to"
    and "e \<noteq> None \<Longrightarrow> to \<in> {ERROR, TIMEOUT, REJECTED}"
  shows "row_ok ((moved C r to now)\<lparr>run_output := out, run_error := e\<rparr>)"
    and "row_ok ((moved C r to now)\<lparr>run_error := e\<rparr>)"
  using assms row_ok_can_become [OF assms(1-3)] worked_nonneg [of r now]
  by (auto simp: row_ok_defs split: option.splits)

lemma row_ok_requeue:
  assumes "row_ok r" "lifecycle_laws C" "requeue C r now w = Inr r'"
  shows "row_ok (r'\<lparr>settled_by := s\<rparr>)" and "row_ok (r'\<lparr>settled_by := s, checkpoint := cp\<rparr>)"
  using assms row_ok_can_become [OF assms(1,2), of QUEUED] worked_nonneg [of r now]
  by (auto simp: requeue_Inr_iff row_ok_defs split: option.splits)

lemma row_ok_lease:
  assumes "row_ok r" "lease_row L r w secs now = (r', l)"
    and "status r = RUNNING" "queued_at r \<noteq> None"
  shows "row_ok r'"
  using assms by (auto simp: row_ok_defs lease_row_def Let_def)

end
