(* ===== verification/Artifact_Store.thy ===== *)
theory Artifact_Store
  imports Tables
begin

text \<open>
  \<open>src/agent_runs/store/artifacts.py\<close>: the records of a run's artifacts. The bytes are in the blob
  store and not modelled; \<open>stored_blob\<close> is what it answers for an upload.
\<close>

record stored_blob =
  sb_key :: string
  sb_size :: int
  sb_sha256 :: string

record artifact_ref =
  ref_artifact_id :: string
  ref_uri :: string
  ref_mime_type :: string
  ref_checksum :: string
  ref_size_bytes :: int
  ref_created_at :: instant
  ref_run_id :: string

definition artifact_ref_of :: "artifact_row \<Rightarrow> artifact_ref" where
  "artifact_ref_of row = \<lparr>
     ref_artifact_id = artifact_id row,
     ref_uri = ''/v1/artifacts/'' @ artifact_id row,
     ref_mime_type = mime row,
     ref_checksum = checksum row,
     ref_size_bytes = art_size row,
     ref_created_at = art_created_at row,
     ref_run_id = art_run_id row\<rparr>"

text \<open>\<open>removeprefix\<close>.\<close>

definition removeprefix :: "string \<Rightarrow> string \<Rightarrow> string" where
  "removeprefix p s = (if take (length p) s = p then drop (length p) s else s)"

definition sha256_of :: "artifact_row \<Rightarrow> string" where
  "sha256_of row = removeprefix ''sha256:'' (checksum row)"

definition new_artifact ::
  "string \<Rightarrow> string \<Rightarrow> string \<Rightarrow> stored_blob \<Rightarrow> string \<Rightarrow> instant \<Rightarrow> artifact_row" where
  "new_artifact aid tenant rid blob mime_type now = \<lparr>
     artifact_id = aid, art_run_id = rid, art_tenant_id = tenant, blob_key = sb_key blob,
     mime = mime_type, art_size = sb_size blob, checksum = ''sha256:'' @ sb_sha256 blob,
     art_created_at = now, expires_at = None\<rparr>"

text \<open>The insert does nothing on a conflict of \<open>uq_run_artifacts_content\<close>; its primary key and the
  run it refers to are the database's to check.\<close>

definition add_artifact ::
  "string \<Rightarrow> string \<Rightarrow> string \<Rightarrow> stored_blob \<Rightarrow> string \<Rightarrow> instant \<Rightarrow> db \<Rightarrow>
   ((artifact_row \<times> bool) \<times> db) result" where
  "add_artifact aid tenant rid blob mime_type now d =
     (let row = new_artifact aid tenant rid blob mime_type now
      in case find (\<lambda>a. artifact_content a = artifact_content row) (run_artifacts d) of
           Some existing \<Rightarrow> Inr ((existing, False), d)
         | None \<Rightarrow>
             if aid \<in> artifact_id ` set (run_artifacts d) \<or> rid \<notin> run_id ` set (runs d)
             then Inl IntegrityError
             else Inr ((row, True), d\<lparr>run_artifacts := run_artifacts d @ [row]\<rparr>))"

definition get_artifact :: "string \<Rightarrow> string \<Rightarrow> db \<Rightarrow> artifact_row result" where
  "get_artifact tenant aid d =
     (case find (\<lambda>a. art_tenant_id a = tenant \<and> artifact_id a = aid) (run_artifacts d) of
        None \<Rightarrow> Inl NotFound
      | Some row \<Rightarrow> Inr row)"

definition expire_with :: "string list \<Rightarrow> instant \<Rightarrow> db \<Rightarrow> db" where
  "expire_with ids t d =
     d\<lparr>run_artifacts :=
         map (\<lambda>a. if art_run_id a \<in> set ids \<and> expires_at a = None then a\<lparr>expires_at := Some t\<rparr> else a)
           (run_artifacts d)\<rparr>"

definition expired_artifacts :: "(string \<Rightarrow> bool) \<Rightarrow> instant \<Rightarrow> nat \<Rightarrow> db \<Rightarrow> artifact_row list" where
  "expired_artifacts locked_by_other now n d =
     query (\<lambda>a. sql_less (expires_at a) now \<and> \<not> locked_by_other (artifact_id a))
       (\<lambda>a. nulls_last (expires_at a)) n (run_artifacts d)"

definition remove_artifacts :: "string list \<Rightarrow> db \<Rightarrow> db" where
  "remove_artifacts ids d =
     d\<lparr>run_artifacts := filter (\<lambda>a. artifact_id a \<notin> set ids) (run_artifacts d)\<rparr>"

section \<open>Frames and the schema\<close>

lemma expire_with_frame [simp]:
  "runs (expire_with ids t d) = runs d" "resolutions (expire_with ids t d) = resolutions d"
  "run_events (expire_with ids t d) = run_events d"
  by (simp_all add: expire_with_def)

lemma expire_with_columns [simp]:
  "map artifact_id (run_artifacts (expire_with ids t d)) = map artifact_id (run_artifacts d)"
  "map artifact_content (run_artifacts (expire_with ids t d)) = map artifact_content (run_artifacts d)"
  "map art_run_id (run_artifacts (expire_with ids t d)) = map art_run_id (run_artifacts d)"
  by (auto simp: expire_with_def artifact_content_def)

lemma expire_with_run_ids [simp]:
  "(\<forall>a\<in>set (run_artifacts (expire_with ids t d)). art_run_id a \<in> S) =
   (\<forall>a\<in>set (run_artifacts d). art_run_id a \<in> S)"
proof -
  have "(\<forall>a\<in>set (run_artifacts x). art_run_id a \<in> S) =
        list_all (\<lambda>i. i \<in> S) (map art_run_id (run_artifacts x))"
    for x :: db by (simp add: list_all_iff)
  then show ?thesis by simp
qed

lemma expire_with_none [simp]: "expire_with [] t d = d"
  by (simp add: expire_with_def)

lemma db_ok_expire_with [simp]: "db_ok (expire_with ids t d) = db_ok d"
  by (simp add: db_ok_def)

lemma add_artifact_Inr:
  assumes "add_artifact aid t rid b m now d = Inr (x, d')"
  defines "row \<equiv> new_artifact aid t rid b m now"
  shows "d' = d \<or>
    (d' = d\<lparr>run_artifacts := run_artifacts d @ [row]\<rparr> \<and> aid \<notin> artifact_id ` set (run_artifacts d) \<and>
     rid \<in> run_id ` set (runs d) \<and> artifact_content row \<notin> artifact_content ` set (run_artifacts d))"
  using assms(1) unfolding add_artifact_def Let_def row_def [symmetric]
  by (cases "find (\<lambda>a. artifact_content a = artifact_content row) (run_artifacts d)")
    (auto simp: find_None_iff split: if_splits)

lemma db_ok_add_artifact:
  assumes "db_ok d" "add_artifact aid t rid b m now d = Inr (x, d')"
  shows "db_ok d'"
  using add_artifact_Inr [OF assms(2)] assms(1)
  by (elim disjE conjE) (simp_all add: db_ok_def new_artifact_def)

lemma db_ok_remove_artifacts: "db_ok d \<Longrightarrow> db_ok (remove_artifacts ids d)"
  by (auto simp: db_ok_def remove_artifacts_def distinct_map intro: inj_on_subset)

end
