(* ===== verification/Store_Contract.thy ===== *)
theory Store_Contract
  imports Run_Rows Artifact_Store
begin

text \<open>
  The internals of \<open>RunStore\<close> (\<open>_one\<close>, \<open>_found\<close>, \<open>_locked\<close>, \<open>_ended\<close> and the session's write-back), and
  the contract every operation of the store keeps, stated once as interfaces: \<open>store_operation\<close>
  (what a committed operation may do to the database), \<open>tenant_operation\<close> (it does it to one
  tenant's rows only) and \<open>repeatable\<close> (sent again, it changes nothing). The theories of the
  operations interpret them; what follows from the contract is proved here.
\<close>

definition ARTIFACT_RETENTION :: duration where
  "ARTIFACT_RETENTION = timedelta_seconds (7 * 86400)"

section \<open>Internals\<close>

definition one :: "(run_row \<Rightarrow> bool) \<Rightarrow> db \<Rightarrow> run_row option" where
  "one cond d = find cond (runs d)"

definition found :: "string \<Rightarrow> string \<Rightarrow> db \<Rightarrow> run_row result" where
  "found tenant rid d =
     (case one (\<lambda>r. tenant_id r = tenant \<and> run_id r = rid) d of
        None \<Rightarrow> Inl NotFound
      | Some row \<Rightarrow> Inr row)"

definition locked :: "string \<Rightarrow> string \<Rightarrow> string option \<Rightarrow> db \<Rightarrow> run_row result" where
  "locked tenant rid worker_id d =
     bind_result (found tenant rid d) (\<lambda>row.
       bind_result (fence row worker_id) (\<lambda>_. Inr row))"

text \<open>The session writes a changed row back to its table.\<close>

definition save :: "run_row \<Rightarrow> db \<Rightarrow> db" where
  "save row d = d\<lparr>runs := put_row run_id row (runs d)\<rparr>"

definition ended :: "contracts \<Rightarrow> run_row list \<Rightarrow> instant \<Rightarrow> db \<Rightarrow> db" where
  "ended C rows now d =
     expire_with (map run_id (filter (\<lambda>r. final C (status r)) rows)) (now + ARTIFACT_RETENTION) d"

section \<open>What an operation may do to a row\<close>

text \<open>A row may change only into a valid row of the same run, along an edge of the documented
  lifecycle; its counters never go back, a durable run stays durable, and a run that ended does
  not change at all.\<close>

definition row_evolves :: "run_row \<Rightarrow> run_row \<Rightarrow> bool" where
  "row_evolves r r' \<longleftrightarrow>
     identity_of r' = identity_of r \<and> row_ok r' \<and>
     (status r' = status r \<or> documented_can_become (status r) (status r')) \<and>
     (documented_final (status r) \<longrightarrow> r' = r) \<and>
     attempt r \<le> attempt r' \<and> error_retries r \<le> error_retries r' \<and>
     lease_lapses r \<le> lease_lapses r' \<and> worked_seconds r \<le> worked_seconds r' \<and>
     (queued_at r \<noteq> None \<longrightarrow> queued_at r' \<noteq> None)"

text \<open>A row that was not there before is a run just started.\<close>

definition row_starts :: "run_row \<Rightarrow> bool" where
  "row_starts r \<longleftrightarrow>
     row_ok r \<and> status r \<in> {QUEUED, RUNNING} \<and> attempt r = 1 \<and> worked_seconds r = 0 \<and>
     lease_owner r = None"

definition store_inv :: "db \<Rightarrow> bool" where
  "store_inv d \<longleftrightarrow> db_ok d \<and> log_ok (run_events d) \<and> (\<forall>r\<in>set (runs d). row_ok r)"

text \<open>What a committed transaction may do: rows evolve or start and none goes, and what was recorded
  of a run (its answers, its events) stays.\<close>

definition evolves :: "db \<Rightarrow> db \<Rightarrow> bool" where
  "evolves d d' \<longleftrightarrow>
     db_ok d' \<and> log_ok (run_events d') \<and>
     (\<forall>r'\<in>set (runs d'). (\<exists>r\<in>set (runs d). row_evolves r r') \<or>
                          (run_id r' \<notin> run_id ` set (runs d) \<and> row_starts r')) \<and>
     run_id ` set (runs d) \<subseteq> run_id ` set (runs d') \<and>
     set (resolutions d) \<subseteq> set (resolutions d') \<and> set (run_events d) \<subseteq> set (run_events d')"

text \<open>Retention is the one operation that deletes: ended runs, with what was recorded of them, and
  nothing else.\<close>

definition purges :: "db \<Rightarrow> db \<Rightarrow> bool" where
  "purges d d' \<longleftrightarrow>
     db_ok d' \<and> log_ok (run_events d') \<and>
     set (runs d') \<subseteq> set (runs d) \<and>
     (\<forall>r\<in>set (runs d). r \<in> set (runs d') \<or> documented_final (status r)) \<and>
     set (resolutions d') = {k \<in> set (resolutions d). rr_run_id k \<in> run_id ` set (runs d')} \<and>
     set (run_events d') = {e \<in> set (run_events d). re_run_id e \<in> run_id ` set (runs d')} \<and>
     run_artifacts d' = run_artifacts d"

lemma identity_run_id: "identity_of a = identity_of b \<Longrightarrow> run_id a = run_id b"
  and identity_tenant: "identity_of a = identity_of b \<Longrightarrow> tenant_id a = tenant_id b"
  and identity_idempotency:
    "identity_of a = identity_of b \<Longrightarrow> idempotency_key a = idempotency_key b"
  by (simp_all add: identity_of_def)

lemma row_evolves_refl [intro]: "row_ok r \<Longrightarrow> row_evolves r r"
  by (simp add: row_evolves_def)

lemma row_evolves_run_id [dest]: "row_evolves r r' \<Longrightarrow> run_id r' = run_id r"
  by (auto simp: row_evolves_def dest: identity_run_id)

lemma store_invD:
  assumes "store_inv d"
  shows "db_ok d" "r \<in> set (runs d) \<Longrightarrow> row_ok r" "distinct (map run_id (runs d))"
    "log_ok (run_events d)"
  using assms by (auto simp: store_inv_def db_ok_def)

lemma store_inv_empty [simp]: "store_inv empty_db"
  unfolding store_inv_def by (simp add: empty_db_def) (simp add: empty_db_def [symmetric])

lemma run_id_unique:
  "store_inv d \<Longrightarrow> a \<in> set (runs d) \<Longrightarrow> b \<in> set (runs d) \<Longrightarrow> run_id a = run_id b \<Longrightarrow> a = b"
  using store_invD(3) by (fastforce simp: distinct_map inj_on_def)

lemma evolves_refl [intro]: "store_inv d \<Longrightarrow> evolves d d"
  by (auto simp: evolves_def store_inv_def)

lemma purges_inv: "purges d d' \<Longrightarrow> store_inv d \<Longrightarrow> store_inv d'"
  by (auto simp: purges_def store_inv_def)

lemma evolves_inv: "evolves d d' \<Longrightarrow> store_inv d'"
  by (auto simp: evolves_def store_inv_def row_evolves_def row_starts_def)

text \<open>The row of a run before and after.\<close>

lemma evolves_same_run:
  assumes "store_inv d" "evolves d d'" "r \<in> set (runs d)" "r' \<in> set (runs d')" "run_id r' = run_id r"
  shows "row_evolves r r'"
proof -
  from assms(2,4) obtain q where "q \<in> set (runs d)" "row_evolves q r'"
    using assms(3,5) unfolding evolves_def by (metis image_eqI)
  with assms(1,3,5) show ?thesis using run_id_unique by fastforce
qed

lemma evolves_row:
  assumes "store_inv d" "evolves d d'" "r \<in> set (runs d)"
  shows "\<exists>r'\<in>set (runs d'). row_evolves r r'"
proof -
  have "run_id r \<in> run_id ` set (runs d')" using assms(2,3) unfolding evolves_def by blast
  then obtain r' where "r' \<in> set (runs d')" "run_id r' = run_id r" by (metis imageE)
  with evolves_same_run [OF assms] show ?thesis by blast
qed

section \<open>The interfaces\<close>

text \<open>\<open>run\<close> is the operation with its arguments given: what it answers and the new database, or
  the error it raises.\<close>

locale store_operation =
  fixes C :: contracts and run :: "db \<Rightarrow> ('a \<times> db) result"
  assumes effect:
    "lifecycle_laws C \<Longrightarrow> interrupt_laws C \<Longrightarrow> store_inv d \<Longrightarrow> run d = Inr (x, d') \<Longrightarrow> evolves d d'"
begin

lemma keeps_inv:
  "lifecycle_laws C \<Longrightarrow> interrupt_laws C \<Longrightarrow> store_inv d \<Longrightarrow> run d = Inr (x, d') \<Longrightarrow> store_inv d'"
  using effect evolves_inv by blast

lemma row_stays:
  assumes "lifecycle_laws C" "interrupt_laws C" "store_inv d" "run d = Inr (x, d')"
    and "r \<in> set (runs d)"
  shows "\<exists>r'\<in>set (runs d'). row_evolves r r'"
  using evolves_row [OF assms(3) effect [OF assms(1-4)] assms(5)] .

lemma follows_lifecycle:
  assumes "lifecycle_laws C" "interrupt_laws C" "store_inv d" "run d = Inr (x, d')"
    and "r \<in> set (runs d)" "r' \<in> set (runs d')" "run_id r' = run_id r"
  shows "row_evolves r r'"
  using evolves_same_run [OF assms(3) effect [OF assms(1-4)] assms(5-7)] .

lemma ended_stays:
  assumes "lifecycle_laws C" "interrupt_laws C" "store_inv d" "run d = Inr (x, d')"
    and "r \<in> set (runs d)" "documented_final (status r)"
  shows "r \<in> set (runs d')"
  using row_stays [OF assms(1-5)] assms(6) unfolding row_evolves_def by auto

end

text \<open>The rows that belong to other tenants.\<close>

definition others :: "string \<Rightarrow> db \<Rightarrow> run_row list \<times> resolution_row list \<times> run_event_row list" where
  "others tenant d =
     (filter (\<lambda>r. tenant_id r \<noteq> tenant) (runs d),
      filter (\<lambda>k. rr_tenant_id k \<noteq> tenant) (resolutions d),
      filter (\<lambda>e. re_tenant_id e \<noteq> tenant) (run_events d))"

locale tenant_operation = store_operation C run
  for C :: contracts and run :: "db \<Rightarrow> ('a \<times> db) result" +
  fixes tenant :: string
  assumes isolated:
    "lifecycle_laws C \<Longrightarrow> interrupt_laws C \<Longrightarrow> store_inv d \<Longrightarrow> run d = Inr (x, d') \<Longrightarrow>
     others tenant d' = others tenant d"
begin

lemma other_runs_kept:
  assumes "lifecycle_laws C" "interrupt_laws C" "store_inv d" "run d = Inr (x, d')"
    and "tenant_id r \<noteq> tenant"
  shows "r \<in> set (runs d') \<longleftrightarrow> r \<in> set (runs d)"
proof -
  from isolated [OF assms(1-4)] have "set (filter (\<lambda>r. tenant_id r \<noteq> tenant) (runs d')) =
      set (filter (\<lambda>r. tenant_id r \<noteq> tenant) (runs d))" by (simp add: others_def)
  with assms(5) show ?thesis by auto
qed

end

text \<open>An operation a client may send again when it lost the answer: the repeat says that nothing
  changed, and nothing does. \<open>covers\<close> says for which first answers this holds.\<close>

locale repeatable =
  fixes C :: contracts and run :: "instant \<Rightarrow> db \<Rightarrow> ((run_record \<times> bool) \<times> db) result"
    and covers :: "run_record \<Rightarrow> bool"
  assumes again: "lifecycle_laws C \<Longrightarrow> interrupt_laws C \<Longrightarrow> store_inv d \<Longrightarrow>
      run t d = Inr ((answer, changed), d') \<Longrightarrow> covers answer \<Longrightarrow>
      \<exists>answer'. run t' d' = Inr ((answer', False), d')"
begin

text \<open>However often it is sent.\<close>

primrec sends :: "instant list \<Rightarrow> db \<Rightarrow> db" where
  "sends [] d = d"
| "sends (t # ts) d = sends ts (case run t d of Inr (x, d') \<Rightarrow> d' | Inl e \<Rightarrow> d)"

lemma sends_again:
  assumes "lifecycle_laws C" "interrupt_laws C" "store_inv d"
    and "run t d = Inr ((answer, changed), d')" "covers answer"
  shows "sends ts d' = d'"
proof (induction ts)
  case (Cons t' ts)
  with again [OF assms, of t'] show ?case by auto
qed simp

end

section \<open>Building an effect\<close>

lemma found_Inr_iff:
  assumes "store_inv d"
  shows "found tenant rid d = Inr r \<longleftrightarrow> r \<in> set (runs d) \<and> tenant_id r = tenant \<and> run_id r = rid"
proof
  assume "found tenant rid d = Inr r"
  then show "r \<in> set (runs d) \<and> tenant_id r = tenant \<and> run_id r = rid"
    by (auto simp: found_def one_def find_Some_iff split: option.splits)
next
  assume r: "r \<in> set (runs d) \<and> tenant_id r = tenant \<and> run_id r = rid"
  then obtain q where q: "find (\<lambda>r. tenant_id r = tenant \<and> run_id r = rid) (runs d) = Some q"
    by (cases "find (\<lambda>r. tenant_id r = tenant \<and> run_id r = rid) (runs d)") (auto simp: find_None_iff)
  then have "q \<in> set (runs d)" "run_id q = rid" by (auto simp: find_Some_iff)
  with r have "q = r" using run_id_unique [OF assms] by blast
  with q show "found tenant rid d = Inr r" by (simp add: found_def one_def)
qed

lemma foundD:
  "found tenant rid d = Inr r \<Longrightarrow> r \<in> set (runs d) \<and> tenant_id r = tenant \<and> run_id r = rid"
  by (auto simp: found_def one_def find_Some_iff split: option.splits)

lemma locked_Inr_iff [simp]:
  "locked tenant rid w d = Inr r \<longleftrightarrow> found tenant rid d = Inr r \<and> (w = None \<or> lease_owner r = w)"
  by (auto simp: locked_def)

lemma save_frame [simp]:
  "resolutions (save r d) = resolutions d" "run_events (save r d) = run_events d"
  "run_artifacts (save r d) = run_artifacts d" "runs (save r d) = put_row run_id r (runs d)"
  by (simp_all add: save_def)

lemma ended_frame [simp]:
  "runs (ended C rs now d) = runs d" "resolutions (ended C rs now d) = resolutions d"
  "run_events (ended C rs now d) = run_events d"
  by (simp_all add: ended_def)

lemma db_ok_ended [simp]: "db_ok (ended C rs now d) = db_ok d"
  by (simp add: ended_def)

lemma evolves_ended [simp]: "evolves d (ended C rs now d') = evolves d d'"
  by (simp add: evolves_def)

text \<open>Rows written over rows they evolved from.\<close>

definition rewritten :: "run_row list \<Rightarrow> db \<Rightarrow> db" where
  "rewritten rs d = d\<lparr>runs := put_rows run_id rs (runs d)\<rparr>"

lemma save_rewritten: "save r d = rewritten [r] d"
  by (simp add: save_def rewritten_def put_rows_def)

lemma rewritten_frame [simp]:
  "resolutions (rewritten rs d) = resolutions d" "run_events (rewritten rs d) = run_events d"
  "run_artifacts (rewritten rs d) = run_artifacts d"
  "runs (rewritten rs d) = put_rows run_id rs (runs d)"
  by (simp_all add: rewritten_def)

lemma run_ids_put_rows [simp]: "run_id ` set (put_rows run_id rs rows) = run_id ` set rows"
  by (metis keys_put_rows list.set_map)

lemma in_rewritten:
  assumes "r' \<in> set (put_rows run_id rs (runs d))" "store_inv d"
    and "\<forall>q'\<in>set rs. \<exists>q\<in>set (runs d). row_evolves q q'"
  shows "\<exists>r\<in>set (runs d). row_evolves r r'"
  using in_put_rows [OF assms(1)] assms(2,3) by (auto dest: store_invD(2))

lemma unique_idempotency_rewritten:
  assumes "store_inv d" "\<forall>q'\<in>set rs. \<exists>q\<in>set (runs d). row_evolves q q'"
  shows "unique_idempotency (put_rows run_id rs (runs d))"
  unfolding unique_idempotency_def
proof (intro ballI impI)
  fix a b assume ab: "a \<in> set (put_rows run_id rs (runs d))" "b \<in> set (put_rows run_id rs (runs d))"
    and same: "same_idempotency a b"
  obtain p q where p: "p \<in> set (runs d)" "identity_of a = identity_of p"
    and q: "q \<in> set (runs d)" "identity_of b = identity_of q"
    using in_rewritten [OF ab(1) assms] in_rewritten [OF ab(2) assms] by (auto simp: row_evolves_def)
  with same have "same_idempotency p q"
    using identity_tenant identity_idempotency unfolding same_idempotency_def by metis
  with assms(1) p(1) q(1) have "run_id p = run_id q"
    by (auto simp: store_inv_def db_ok_def unique_idempotency_def)
  with p(2) q(2) show "run_id a = run_id b" using identity_run_id by metis
qed

lemma evolves_rewritten:
  assumes "store_inv d" "\<forall>q'\<in>set rs. \<exists>q\<in>set (runs d). row_evolves q q'"
  shows "evolves d (rewritten rs d)"
proof -
  have "db_ok (rewritten rs d)"
    using store_invD(1) [OF assms(1)] unique_idempotency_rewritten [OF assms]
    by (simp add: db_ok_def)
  then show ?thesis
    using in_rewritten [OF _ assms] store_invD(4) [OF assms(1)] unfolding evolves_def by auto
qed

lemma evolves_save:
  "store_inv d \<Longrightarrow> r \<in> set (runs d) \<Longrightarrow> row_evolves r r' \<Longrightarrow> evolves d (save r' d)"
  unfolding save_rewritten by (rule evolves_rewritten) auto

section \<open>The rows the operations write\<close>

lemma row_evolves_move:
  assumes "lifecycle_laws C" "can_become C (status r) (status r')" "row_ok r'"
    and "identity_of r' = identity_of r" "attempt r \<le> attempt r'" "error_retries r \<le> error_retries r'"
    and "lease_lapses r \<le> lease_lapses r'" "worked_seconds r \<le> worked_seconds r'"
    and "queued_at r \<noteq> None \<Longrightarrow> queued_at r' \<noteq> None"
  shows "row_evolves r r'"
  using assms ended_cannot_become [of "status r" "status r'"] by (auto simp: row_evolves_def)

lemma row_evolves_ended:
  assumes "row_ok r" "lifecycle_laws C" "can_become C (status r) to" "documented_final to"
    and "e \<noteq> None \<Longrightarrow> to \<in> {ERROR, TIMEOUT, REJECTED}"
  shows "row_evolves r ((moved C r to now)\<lparr>run_output := out, run_error := e, settled_by := w\<rparr>)"
    and "row_evolves r ((moved C r to now)\<lparr>run_error := e\<rparr>)"
  using row_ok_ended [OF assms] worked_ge [of r now] assms
  by (auto intro!: row_evolves_move [OF assms(2)] simp: identity_of_def)

lemma row_evolves_requeue:
  assumes "row_ok r" "lifecycle_laws C" "requeue C r now w = Inr r'"
  shows "row_evolves r (r'\<lparr>settled_by := s\<rparr>)"
    and "row_evolves r (r'\<lparr>settled_by := s, checkpoint := cp\<rparr>)"
  using row_ok_requeue [OF assms] worked_ge [of r now] assms
  by (auto intro!: row_evolves_move [OF assms(2)] simp: requeue_Inr_iff identity_of_def)

text \<open>Records added about runs that are there.\<close>

lemma evolves_add_resolution:
  assumes "evolves d d'" "resolution_id k \<notin> resolution_id ` set (resolutions d')"
    and "rr_run_id k \<in> run_id ` set (runs d')"
  shows "evolves d (d'\<lparr>resolutions := resolutions d' @ [k]\<rparr>)"
  using assms unfolding evolves_def db_ok_def by auto

text \<open>Only a row of the tenant was written.\<close>

lemma filter_put_row:
  "\<forall>x\<in>set rows. run_id x = run_id r \<longrightarrow> \<not> P x \<Longrightarrow> \<not> P r \<Longrightarrow> filter P (put_row run_id r rows) = filter P rows"
  by (induction rows) (auto simp: put_row_def)

lemma others_save [simp]:
  assumes "store_inv d" "r \<in> set (runs d)" "run_id r' = run_id r" "tenant_id r' = tenant_id r"
    and "tenant_id r = tenant"
  shows "others tenant (save r' d) = others tenant d"
  using assms run_id_unique [OF assms(1)] unfolding others_def save_frame
  by (subst filter_put_row) auto

lemma others_ended [simp]: "others tenant (ended C rs now d) = others tenant d"
  by (simp add: others_def)

text \<open>What the operations on one run do when they change anything.\<close>

definition writes_run :: "string \<Rightarrow> string \<Rightarrow> db \<Rightarrow> db \<Rightarrow> bool" where
  "writes_run tenant rid d d' \<longleftrightarrow>
     (\<exists>r r'. found tenant rid d = Inr r \<and> row_evolves r r' \<and>
        (d' = save r' d \<or> (\<exists>C rows now. d' = ended C rows now (save r' d))))"

lemma writes_runI:
  "found tenant rid d = Inr r \<Longrightarrow> row_evolves r r' \<Longrightarrow> writes_run tenant rid d (save r' d)"
  "found tenant rid d = Inr r \<Longrightarrow> row_evolves r r' \<Longrightarrow>
   writes_run tenant rid d (ended C rows now (save r' d))"
  unfolding writes_run_def by blast+

lemma writes_run_effect:
  assumes "store_inv d" "writes_run tenant rid d d'"
  shows "evolves d d'" "others tenant d' = others tenant d"
proof -
  from assms(2) obtain r r' where r: "found tenant rid d = Inr r" "row_evolves r r'"
    and d': "d' = save r' d \<or> (\<exists>C rows now. d' = ended C rows now (save r' d))"
    unfolding writes_run_def by blast
  from r have "r \<in> set (runs d)" "tenant_id r = tenant" "run_id r' = run_id r" "tenant_id r' = tenant_id r"
    by (auto dest: foundD simp: row_evolves_def identity_of_def)
  with d' r(2) show "evolves d d'" "others tenant d' = others tenant d"
    using evolves_save [OF assms(1)] others_save [OF assms(1)] by auto
qed

lemma tenant_operationI:
  assumes "\<And>d x d'. lifecycle_laws C \<Longrightarrow> interrupt_laws C \<Longrightarrow> store_inv d \<Longrightarrow> run d = Inr (x, d') \<Longrightarrow>
      d' = d \<or> writes_run tenant rid d d'"
  shows "tenant_operation C run tenant"
proof
  fix d x d'
  assume a: "lifecycle_laws C" "interrupt_laws C" "store_inv d" "run d = Inr (x, d')"
  from assms [OF a] a(3) writes_run_effect [OF a(3)]
  show "evolves d d'" "others tenant d' = others tenant d" by auto
qed

end
