(* ===== verification/Answers.thy ===== *)
theory Answers
  imports Contracts
begin

text \<open>
  \<open>sdk/python/src/trellis/runs/answers.py\<close>: whether an answer fits its question. The JSON Schema
  library is not part of this repository: whether a document is a schema and whether a schema
  accepts a value are the two fields of \<open>schema_lib\<close>. The sentences that say why are the
  constructors of \<open>problem\<close>.
\<close>

record schema_lib =
  valid_schema :: "json \<Rightarrow> bool"
  accepts :: "json \<Rightarrow> json \<Rightarrow> bool"  \<comment> \<open>the schema, then the value\<close>

datatype problem =
  NotASchema
| AnswersAnother
| DoesNotFit
| NotAnOption
| NotAList
| PicksStrangers
| PicksTwice
| OnlyToolCallsRemembered

definition schema_problem :: "schema_lib \<Rightarrow> json option \<Rightarrow> problem option" where
  "schema_problem S expects =
     (case expects of
        None \<Rightarrow> None
      | Some e \<Rightarrow> if valid_schema S e then None else Some NotASchema)"

definition choice_problem :: "contracts \<Rightarrow> interrupt \<Rightarrow> json \<Rightarrow> problem option" where
  "choice_problem C i value =
     (let values = option_values C i in
      if \<not> i_multiple i then (if value \<in> set values then None else Some NotAnOption)
      else case value of
             JArr picks \<Rightarrow>
               if \<not> set picks \<subseteq> set values then Some PicksStrangers
               else if \<not> distinct picks then Some PicksTwice
               else None
           | _ \<Rightarrow> Some NotAList)"

definition fit_problem :: "schema_lib \<Rightarrow> contracts \<Rightarrow> interrupt \<Rightarrow> json \<Rightarrow> bool \<Rightarrow> problem option" where
  "fit_problem S C i value choosing =
     (case i_expects i of
        Some e \<Rightarrow>
          (case schema_problem S (Some e) of
             Some p \<Rightarrow> Some p
           | None \<Rightarrow> if accepts S e value then None else Some DoesNotFit)
      | None \<Rightarrow> if choosing \<and> i_options i \<noteq> [] then choice_problem C i value else None)"

definition payload_value :: "json option \<Rightarrow> json" where
  "payload_value p = (case p of None \<Rightarrow> JNull | Some v \<Rightarrow> v)"

definition answer_problem ::
  "schema_lib \<Rightarrow> contracts \<Rightarrow> interrupt \<Rightarrow> interrupt_resolution \<Rightarrow> problem option" where
  "answer_problem S C i r =
     (if \<not> resolves C r i then Some AnswersAnother
      else if res_decision r = ANSWER then fit_problem S C i (res_answer r) True
      else if res_decision r = EDIT \<and> i_tool_call i = None
           then fit_problem S C i (payload_value (res_payload r)) False
      else if res_remember r = ''run'' \<and> i_tool_call i = None then Some OnlyToolCallsRemembered
      else None)"

section \<open>What an accepted answer is\<close>

text \<open>The documentation's rule: an answer fits the schema it was asked for, else picks among the
  options (one, or several distinct ones), and without either anything is an answer.\<close>

definition fitting_answer :: "schema_lib \<Rightarrow> contracts \<Rightarrow> interrupt \<Rightarrow> json \<Rightarrow> bool" where
  "fitting_answer S C i v \<longleftrightarrow>
     (case i_expects i of
        Some e \<Rightarrow> valid_schema S e \<and> accepts S e v
      | None \<Rightarrow>
          i_options i = [] \<or>
          (if i_multiple i
           then \<exists>picks. v = JArr picks \<and> set picks \<subseteq> set (option_values C i) \<and> distinct picks
           else v \<in> set (option_values C i)))"

lemma schema_problem_None_iff:
  "schema_problem S e = None \<longleftrightarrow> (\<forall>s. e = Some s \<longrightarrow> valid_schema S s)"
  by (auto simp: schema_problem_def split: option.splits)

lemma choice_problem_None_iff:
  "choice_problem C i v = None \<longleftrightarrow>
     (if i_multiple i
      then \<exists>picks. v = JArr picks \<and> set picks \<subseteq> set (option_values C i) \<and> distinct picks
      else v \<in> set (option_values C i))"
  by (cases v) (auto simp: choice_problem_def Let_def)

lemma fit_problem_choosing: "fit_problem S C i v True = None \<longleftrightarrow> fitting_answer S C i v"
  by (auto simp: fit_problem_def fitting_answer_def schema_problem_def choice_problem_None_iff
      split: option.splits if_splits)

lemma fit_problem_editing:
  "fit_problem S C i v False = None \<longleftrightarrow>
     (\<forall>e. i_expects i = Some e \<longrightarrow> valid_schema S e \<and> accepts S e v)"
  by (auto simp: fit_problem_def schema_problem_def split: option.splits)

text \<open>An answer is accepted exactly when it is right for its question: it resolves this
  interrupt; an \<open>ANSWER\<close> fits the schema, or else picks among the options (distinct ones when
  several may be picked); an \<open>EDIT\<close> of a question carries a value the schema accepts; and only a
  tool call's decision is remembered for the run.\<close>

lemma answer_problem_None_iff:
  "answer_problem S C i r = None \<longleftrightarrow>
     resolves C r i \<and>
     (case res_decision r of
        ANSWER \<Rightarrow> fitting_answer S C i (res_answer r)
      | EDIT \<Rightarrow>
          (case i_expects i of
             Some e \<Rightarrow>
               i_tool_call i \<noteq> None \<or> valid_schema S e \<and> accepts S e (payload_value (res_payload r))
           | None \<Rightarrow> True)
      | _ \<Rightarrow> \<not> (res_remember r = ''run'' \<and> i_tool_call i = None))"
  by (auto simp: answer_problem_def fit_problem_choosing fit_problem_editing
      split: interrupt_decision.splits option.splits)

end
