(* ===== verification/Keys.thy ===== *)
theory Keys
  imports Errors
begin

text \<open>
  \<open>src/agent_runs/keys.py\<close>: who an API key is (\<open>KeyInfo\<close>), and the registry's bounded cache of
  the answers the Memory Service gives (\<open>KeyRegistry.resolve\<close>). The HTTP call of \<open>_introspect\<close> is
  the argument \<open>answer\<close>: what the registry returned for the key, or the exception the call raised;
  the cache is the list of its entries in \<open>OrderedDict\<close> order, the least recently used first.
\<close>

record key_info =
  key_id :: string
  key_tenant :: "string option"
  principal :: string
  role :: string
  may_act_as :: "string list"

definition platform :: "key_info \<Rightarrow> bool" where
  "platform k \<longleftrightarrow> key_tenant k = None"

definition may_act_for :: "key_info \<Rightarrow> string \<Rightarrow> bool" where
  "may_act_for k p \<longleftrightarrow> p = principal k \<or> ''*'' \<in> set (may_act_as k) \<or> p \<in> set (may_act_as k)"

section \<open>The registry's cache\<close>

text \<open>What a registry answer becomes: an identity, or a refusal that is kept and raised again.\<close>

type_synonym key_answer = "service_error + key_info"

datatype registry_reply =
  Unreachable
| Replied int "key_info option"  \<comment> \<open>the status, and the body when it parses as a \<open>KeyInfo\<close>\<close>

definition RETRY_AFTER_SECONDS :: int where
  "RETRY_AFTER_SECONDS = 5"

text \<open>\<open>_introspect\<close>: \<open>Inl\<close> is an exception (never cached), \<open>Inr\<close> the answer to cache.\<close>

definition introspect :: "registry_reply \<Rightarrow> service_error + key_answer" where
  "introspect reply =
     (case reply of
        Unreachable \<Rightarrow> Inl (Unavailable True RETRY_AFTER_SECONDS)
      | Replied st body \<Rightarrow>
          if st = 401 then Inr (Inl Unauthorized)
          else if st = 403 then Inr (Inl Forbidden)
          else if \<not> (200 \<le> st \<and> st \<le> 299) then Inl (Unavailable True RETRY_AFTER_SECONDS)
          else (case body of
                  Some k \<Rightarrow> Inr (Inr k)
                | None \<Rightarrow> Inl (Unavailable True RETRY_AFTER_SECONDS)))"

definition KEY_CACHE_SECONDS :: int where
  "KEY_CACHE_SECONDS = 60"

definition KEY_NEGATIVE_CACHE_SECONDS :: int where
  "KEY_NEGATIVE_CACHE_SECONDS = 10"

definition MAX_CACHED_KEYS :: nat where
  "MAX_CACHED_KEYS = 10000"

type_synonym key_cache = "(string \<times> (instant \<times> key_answer)) list"

text \<open>\<open>move_to_end\<close>, and \<open>cache[digest] = ...\<close> followed by it; \<open>popitem(last=False)\<close> until the
  cache fits.\<close>

definition cache_put :: "string \<Rightarrow> instant \<times> key_answer \<Rightarrow> key_cache \<Rightarrow> key_cache" where
  "cache_put d e c = filter (\<lambda>x. fst x \<noteq> d) c @ [(d, e)]"

definition cache_trim :: "key_cache \<Rightarrow> key_cache" where
  "cache_trim c = drop (length c - MAX_CACHED_KEYS) c"

text \<open>\<open>digest\<close> is \<open>sha256(api_key)\<close>, \<open>now\<close> the monotonic clock, \<open>reply\<close> what the registry would
  answer if asked. The result is the cache after the call with what the call returned or raised.\<close>

definition resolve :: "string \<Rightarrow> instant \<Rightarrow> registry_reply \<Rightarrow> key_cache \<Rightarrow> key_cache \<times> key_answer" where
  "resolve digest now reply cache =
     (case map_of cache digest of
        Some (expires, answer) \<Rightarrow>
          if expires > now then (cache_put digest (expires, answer) cache, answer)
          else (case introspect reply of
                  Inl e \<Rightarrow> (cache, Inl e)
                | Inr a \<Rightarrow>
                    let ttl = (case a of Inr _ \<Rightarrow> KEY_CACHE_SECONDS | Inl _ \<Rightarrow> KEY_NEGATIVE_CACHE_SECONDS)
                    in (cache_trim (cache_put digest (now + timedelta_seconds ttl, a) cache), a))
      | None \<Rightarrow>
          (case introspect reply of
             Inl e \<Rightarrow> (cache, Inl e)
           | Inr a \<Rightarrow>
               let ttl = (case a of Inr _ \<Rightarrow> KEY_CACHE_SECONDS | Inl _ \<Rightarrow> KEY_NEGATIVE_CACHE_SECONDS)
               in (cache_trim (cache_put digest (now + timedelta_seconds ttl, a) cache), a)))"

section \<open>The cache's invariant\<close>

text \<open>Bounded, one entry per key, and no entry outlives a minute from when it was asked for:
  \<open>now\<close> is the clock of the last call.\<close>

definition cache_ok :: "instant \<Rightarrow> key_cache \<Rightarrow> bool" where
  "cache_ok now c \<longleftrightarrow>
     length c \<le> MAX_CACHED_KEYS \<and> distinct (map fst c) \<and>
     (\<forall>(d, e, a)\<in>set c. e \<le> now + timedelta_seconds KEY_CACHE_SECONDS)"

lemma map_of_cache_put: "map_of (cache_put d e c) = (map_of c)(d \<mapsto> e)"
proof
  fix x
  show "map_of (cache_put d e c) x = ((map_of c)(d \<mapsto> e)) x"
    by (induction c) (auto simp: cache_put_def map_add_def)
qed

lemma distinct_cache_put: "distinct (map fst c) \<Longrightarrow> distinct (map fst (cache_put d e c))"
  by (auto simp: cache_put_def distinct_map intro: inj_on_subset)

lemma distinct_cache_trim: "distinct (map fst c) \<Longrightarrow> distinct (map fst (cache_trim c))"
  by (simp add: cache_trim_def drop_map [symmetric] distinct_drop)

lemma length_cache_trim: "length (cache_trim c) \<le> MAX_CACHED_KEYS"
  by (simp add: cache_trim_def)

lemma set_cache_trim: "set (cache_trim c) \<subseteq> set c"
  by (simp add: cache_trim_def set_drop_subset)

lemma length_cache_put_hit:
  assumes "distinct (map fst c)" "map_of c d = Some e"
  shows "length (cache_put d e' c) = length c"
proof -
  from assms(2) have "(d, e) \<in> set c" by (rule map_of_SomeD)
  with assms(1) have "length (filter (\<lambda>x. fst x = d) c) = 1"
  proof (induction c)
    case (Cons a c)
    then have "d \<in> fst ` set c \<Longrightarrow> fst a \<noteq> d" by auto
    then show ?case using Cons
      by (auto simp: filter_empty_conv image_iff)
  qed simp
  moreover have "length (filter (\<lambda>x. fst x = d) c) + length (filter (\<lambda>x. fst x \<noteq> d) c) = length c"
    by (rule sum_length_filter_compl)
  ultimately show ?thesis by (simp add: cache_put_def)
qed

lemma set_cache_put: "set (cache_put d e c) \<subseteq> insert (d, e) (set c)"
  by (auto simp: cache_put_def)

lemma map_of_trimmed:
  assumes "distinct (map fst c)"
  shows "map_of (cache_trim (cache_put d e c)) d = Some e"
proof -
  let ?c = "cache_put d e c"
  have "length ?c - MAX_CACHED_KEYS \<le> length (filter (\<lambda>x. fst x \<noteq> d) c)"
    by (simp add: cache_put_def MAX_CACHED_KEYS_def)
  then have "(d, e) \<in> set (cache_trim ?c)" by (simp add: cache_trim_def cache_put_def)
  with distinct_cache_trim [OF distinct_cache_put [OF assms]] show ?thesis by (rule map_of_is_SomeI)
qed

lemma cache_ok_put:
  assumes "cache_ok before c" "before \<le> now" "ttl \<le> KEY_CACHE_SECONDS"
  shows "cache_ok now (cache_trim (cache_put d (now + timedelta_seconds ttl, a) c))"
proof -
  have "set (cache_trim (cache_put d (now + timedelta_seconds ttl, a) c)) \<subseteq>
      insert (d, now + timedelta_seconds ttl, a) (set c)"
    by (rule order_trans [OF set_cache_trim set_cache_put])
  with assms show ?thesis
    unfolding cache_ok_def using distinct_cache_put distinct_cache_trim length_cache_trim
    by (fastforce simp: timedelta_seconds_def)
qed

text \<open>The registry's cache is bounded and short-lived: it never holds more than its 10,000 keys, each
  once, nor an answer for more than a minute; a key with an answer that has not expired gets that
  answer without asking the registry; and what the registry could not answer is raised and never
  kept, while what it did answer is kept for a minute, a refusal for ten seconds.\<close>

lemma resolve_bounded:
  assumes "cache_ok before c" "before \<le> now" "resolve digest now reply c = (c', answer)"
  shows "cache_ok now c' \<and>
    (case map_of c digest of
       Some (expires, kept) \<Rightarrow> now < expires \<longrightarrow> answer = kept \<and> map_of c' = map_of c
     | None \<Rightarrow> True) \<and>
    (\<not> (\<exists>expires kept. map_of c digest = Some (expires, kept) \<and> now < expires) \<longrightarrow>
      (case introspect reply of
         Inl e \<Rightarrow> answer = Inl e \<and> c' = c
       | Inr a \<Rightarrow> answer = a \<and> map_of c' digest =
           Some (now + timedelta_seconds (case a of Inr _ \<Rightarrow> 60 | Inl _ \<Rightarrow> 10), a)))"
proof -
  have same: "cache_ok now c" using assms(1,2) by (fastforce simp: cache_ok_def)
  have hit: "cache_ok now (cache_put digest e c) \<and> map_of (cache_put digest e c) = map_of c"
    if m: "map_of c digest = Some e" for e
  proof -
    have "set (cache_put digest e c) \<subseteq> set c"
      using set_cache_put [of digest e c] map_of_SomeD [OF m] by auto
    then show ?thesis
      using same length_cache_put_hit [of c digest e e] m distinct_cache_put [of c digest e]
      by (auto simp: cache_ok_def map_of_cache_put fun_upd_idem)
  qed
  have new: "cache_ok now (cache_trim (cache_put digest (now + timedelta_seconds ttl, a) c)) \<and>
      map_of (cache_trim (cache_put digest (now + timedelta_seconds ttl, a) c)) digest =
        Some (now + timedelta_seconds ttl, a)" if "ttl \<le> KEY_CACHE_SECONDS" for ttl a
    using cache_ok_put [OF assms(1,2) that] map_of_trimmed assms(1) by (auto simp: cache_ok_def)
  show ?thesis
    using assms(3) hit new same
    by (auto simp: resolve_def Let_def KEY_CACHE_SECONDS_def KEY_NEGATIVE_CACHE_SECONDS_def
        split: option.splits prod.splits sum.splits if_splits)
qed

end
