(* ===== verification/Answering.thy ===== *)
theory Answering
  imports Keys
begin

text \<open>
  \<open>src/agent_runs/answering.py\<close>: who may answer a paused run and who may cancel one.
\<close>

definition ADMINISTERING_ROLES :: "string list" where
  "ADMINISTERING_ROLES = [''admin'', ''platform'']"

definition INDIVIDUAL_KINDS :: "string list" where
  "INDIVIDUAL_KINDS = [''user'', ''agent'', ''key'']"

definition as_principal :: "string \<Rightarrow> string" where
  "as_principal name = (if CHR '':'' \<in> set name then name else ''user:'' @ name)"

text \<open>\<open>name.partition(":")[0]\<close>.\<close>

definition kind_of :: "string \<Rightarrow> string" where
  "kind_of name = takeWhile (\<lambda>c. c \<noteq> CHR '':'') name"

definition require_may_answer :: "key_info \<Rightarrow> string option \<Rightarrow> string option \<Rightarrow> unit result" where
  "require_may_answer key assignee reviewer =
     (if role key \<in> set ADMINISTERING_ROLES \<or> ''*'' \<in> set (may_act_as key) then Inr ()
      else
        let answering = (if truthy reviewer then as_principal (the reviewer) else principal key) in
        if \<not> may_act_for key answering then Inl Forbidden
        else case assignee of
               None \<Rightarrow> Inr ()
             | Some a \<Rightarrow>
                 let assigned = as_principal a in
                 if kind_of assigned \<notin> set INDIVIDUAL_KINDS then Inl Forbidden
                 else if assigned \<noteq> answering then Inl Forbidden
                 else Inr ())"

definition require_may_cancel :: "key_info \<Rightarrow> string option \<Rightarrow> unit result" where
  "require_may_cancel key assignee =
     (let as_assignee =
        (if truthy assignee \<and> may_act_for key (as_principal (the assignee)) then assignee else None)
      in require_may_answer key assignee as_assignee)"

section \<open>The rule as the documentation states it\<close>

text \<open>A key that answers any run: it administers the tenant, or may act for anyone.\<close>

definition unrestricted :: "key_info \<Rightarrow> bool" where
  "unrestricted key \<longleftrightarrow> role key = ''admin'' \<or> role key = ''platform'' \<or> ''*'' \<in> set (may_act_as key)"

text \<open>A principal that names one person, agent or key rather than a group.\<close>

definition individual :: "string \<Rightarrow> bool" where
  "individual p \<longleftrightarrow> kind_of p \<in> {''user'', ''agent'', ''key''}"

text \<open>Whom an answer is given as: the reviewer, a bare id being a user's, else the key itself.\<close>

definition answering_as :: "key_info \<Rightarrow> string option \<Rightarrow> string" where
  "answering_as key reviewer = (if truthy reviewer then as_principal (the reviewer) else principal key)"

lemma as_principal_idem [simp]: "as_principal (as_principal p) = as_principal p"
  by (simp add: as_principal_def)

lemma unrestricted_iff:
  "(role key \<in> set ADMINISTERING_ROLES \<or> ''*'' \<in> set (may_act_as key)) = unrestricted key"
  by (auto simp: unrestricted_def ADMINISTERING_ROLES_def)

lemma individual_iff: "kind_of p \<in> set INDIVIDUAL_KINDS \<longleftrightarrow> individual p"
  by (simp add: individual_def INDIVIDUAL_KINDS_def)

lemma require_may_answer_iff:
  "require_may_answer key assignee reviewer = Inr () \<longleftrightarrow>
     unrestricted key \<or>
     (may_act_for key (answering_as key reviewer) \<and>
      (\<forall>a. assignee = Some a \<longrightarrow>
         individual (as_principal a) \<and> as_principal a = answering_as key reviewer))"
  unfolding require_may_answer_def unrestricted_iff individual_iff answering_as_def [symmetric] Let_def
  by (auto split: option.splits)

lemma require_may_answer_error:
  "require_may_answer key assignee reviewer = Inl e \<Longrightarrow> e = Forbidden"
  by (auto simp: require_may_answer_def Let_def split: if_splits option.splits)

lemma require_may_cancel_error: "require_may_cancel key assignee = Inl e \<Longrightarrow> e = Forbidden"
  by (auto simp: require_may_cancel_def Let_def dest: require_may_answer_error)

section \<open>Properties\<close>

text \<open>Who may answer a paused run: a key that administers the tenant or may act for anyone; any other
  key only as a principal it may act for, and when the run is assigned, only as the assignee and only
  when the assignee is one person, agent or key (a bare id being a user's), never a group. Everyone
  else is refused as forbidden.\<close>

lemma may_answer_rule:
  "require_may_answer key assignee reviewer =
     (if unrestricted key \<or>
         (may_act_for key (answering_as key reviewer) \<and>
          (case assignee of
             None \<Rightarrow> True
           | Some a \<Rightarrow> individual (as_principal a) \<and> as_principal a = answering_as key reviewer))
      then Inr () else Inl Forbidden)"
proof (cases "require_may_answer key assignee reviewer")
  case (Inl e)
  with require_may_answer_error [OF Inl] require_may_answer_iff [of key assignee reviewer] show ?thesis
    by (auto split: option.splits)
next
  case (Inr x)
  with require_may_answer_iff [of key assignee reviewer] show ?thesis by (auto split: option.splits)
qed

text \<open>Who may cancel a run: exactly the keys that may answer it, as one principal or another.\<close>

lemma may_cancel_iff_may_answer:
  assumes "assignee \<noteq> Some []"
  shows "require_may_cancel key assignee = Inr () \<longleftrightarrow> (\<exists>reviewer. require_may_answer key assignee reviewer = Inr ())"
proof
  assume "\<exists>reviewer. require_may_answer key assignee reviewer = Inr ()"
  then obtain reviewer where r: "require_may_answer key assignee reviewer = Inr ()" ..
  show "require_may_cancel key assignee = Inr ()"
  proof (cases assignee)
    case None
    then show ?thesis by (auto simp: require_may_cancel_def require_may_answer_iff truthy_def answering_as_def may_act_for_def)
  next
    case (Some a)
    with r assms show ?thesis
      by (auto simp: require_may_cancel_def require_may_answer_iff truthy_def answering_as_def)
  qed
qed (auto simp: require_may_cancel_def Let_def)

end
