(* ===== verification/Run_Store.thy ===== *)
theory Run_Store
  imports Store_Contract Answers Answering
begin

text \<open>
  \<open>src/agent_runs/store/runs.py\<close>, class \<open>RunStore\<close>: starting a run and the transitions a caller
  makes (\<open>start\<close>, \<open>pause\<close>, \<open>resume\<close>, \<open>cancel\<close>, \<open>finish\<close>), each the whole handler. An operation
  takes the database and returns its answer with the new database, or the exception it raises,
  with which the transaction is rolled back and the database is as it was. A locked row is read
  and written by one transaction at a time, so an operation is one step.
\<close>

section \<open>Starting\<close>

definition new_row :: "run_start \<Rightarrow> bool \<Rightarrow> instant \<Rightarrow> run_row" where
  "new_row s queue now = \<lparr>
     run_id = rs_run_id s,
     tenant_id = rs_tenant_id s,
     agent_id = rs_agent_id s,
     status = (if queue then QUEUED else RUNNING),
     parent_run_id = rs_parent_run_id s,
     thread_id = rs_thread_id s,
     user_id = rs_user_id s,
     workspace_id = rs_workspace_id s,
     on_behalf_of = rs_on_behalf_of s,
     run_input = rs_input s,
     run_output = JNull,
     run_error = None,
     awaiting = None,
     last_resolution = None,
     checkpoint = None,
     assignee = None,
     awaiting_deadline = None,
     attempt = 1,
     lease_lapses = 0,
     error_retries = 0,
     deadline = rs_deadline s,
     timeout_seconds = rs_timeout_seconds s,
     worked_seconds = 0,
     running_since = (if queue then None else Some now),
     agent_version = rs_agent_version s,
     priority = rs_priority s,
     concurrency_key = rs_concurrency_key s,
     idempotency_key = rs_idempotency_key s,
     run_metadata = (if rs_metadata s = [] then None else Some (rs_metadata s)),
     queued_at = (if queue then Some now else None),
     available_at = None,
     lease_owner = None,
     lease_expires_at = None,
     settled_by = None,
     cancel_requested_at = None,
     cancel_reason = None,
     cancelled_by = None,
     created_at = now,
     updated_at = now\<rparr>"

text \<open>\<open>ON CONFLICT DO NOTHING\<close>: on the primary key or on the tenant's idempotency key.\<close>

definition collides :: "run_row \<Rightarrow> run_row \<Rightarrow> bool" where
  "collides a b \<longleftrightarrow> run_id a = run_id b \<or> same_idempotency a b"

definition start ::
  "run_start \<Rightarrow> bool \<Rightarrow> instant \<Rightarrow> bool \<Rightarrow> db \<Rightarrow> ((run_record \<times> bool) \<times> db) result" where
  "start s queue now strict d =
     (let row = new_row s queue now;
          by_run_id =
            (case one (\<lambda>r. tenant_id r = rs_tenant_id s \<and> run_id r = rs_run_id s) d of
               None \<Rightarrow> Inl (Conflict [])
             | Some existing \<Rightarrow> Inr ((record_of existing now, False), d))
      in if \<not> (\<exists>r\<in>set (runs d). collides row r)
         then Inr ((record_of row now, True), d\<lparr>runs := runs d @ [row]\<rparr>)
         else if truthy (rs_idempotency_key s)
         then (case one (\<lambda>r. tenant_id r = rs_tenant_id s \<and>
                             idempotency_key r = rs_idempotency_key s) d of
                 Some keyed \<Rightarrow>
                   (let found = record_of keyed now;
                        queued = queued_at keyed \<noteq> None;
                        diff = differing found s queue queued
                    in if strict \<and> diff \<noteq> [] then Inl (Conflict diff)
                       else Inr ((found, False), d))
               | None \<Rightarrow> by_run_id)
         else by_run_id)"

section \<open>Pausing\<close>

record run_pause =
  pause_interrupt :: interrupt
  pause_checkpoint :: "json option"

definition waiting_on :: "run_row \<Rightarrow> string option" where
  "waiting_on row = map_option i_interrupt_id (awaiting row)"

definition pause ::
  "contracts \<Rightarrow> schema_lib \<Rightarrow> string \<Rightarrow> string \<Rightarrow> run_pause \<Rightarrow> string option \<Rightarrow> instant \<Rightarrow> db \<Rightarrow>
   ((run_record \<times> bool) \<times> db) result" where
  "pause C S tenant rid p worker_id now d =
     (let i = pause_interrupt p in
      if (i_tenant_id i, i_run_id i) \<noteq> (tenant, rid) then Inl Unprocessable
      else if schema_problem S (i_expects i) \<noteq> None then Inl Unprocessable
      else bind_result (bounded_checkpoint (pause_checkpoint p)) (\<lambda>cp.
        bind_result (locked tenant rid None d) (\<lambda>row.
          if settled row PAUSED worker_id \<and> waiting_on row = Some (i_interrupt_id i)
          then Inr ((record_of row now, False), d)
          else bind_result (fence row worker_id) (\<lambda>_.
            bind_result (cancelled_instead C row now) (\<lambda>(row, cancelled).
              if cancelled
              then (let row = row\<lparr>settled_by := worker_id\<rparr>
                    in Inr ((record_of row now, True), ended C [row] now (save row d)))
              else bind_result (move C row PAUSED now) (\<lambda>row.
                let row = row\<lparr>checkpoint := cp,
                              awaiting := Some (awaiting_of C i),
                              assignee := i_assignee i,
                              awaiting_deadline := i_deadline i,
                              settled_by := worker_id\<rparr>
                in Inr ((record_of row now, True), save row d)))))))"

section \<open>Resuming\<close>

text \<open>\<open>_answered_by\<close>: did this very resolution answer its interrupt?\<close>

definition answered_by :: "contracts \<Rightarrow> string \<Rightarrow> interrupt_resolution \<Rightarrow> db \<Rightarrow> bool" where
  "answered_by C tenant r d =
     (case find (\<lambda>k. rr_tenant_id k = tenant \<and> resolution_id k = resolution_id_of C r)
             (resolutions d) of
        None \<Rightarrow> False
      | Some kept \<Rightarrow> rr_resolution kept = r)"

text \<open>\<open>session.add(ResolutionRow(...))\<close>: a row with this primary key is an integrity error, raised
  when the session is flushed.\<close>

definition add_resolution :: "resolution_row \<Rightarrow> db \<Rightarrow> db result" where
  "add_resolution k d =
     (if resolution_id k \<in> resolution_id ` set (resolutions d) then Inl IntegrityError
      else Inr (d\<lparr>resolutions := resolutions d @ [k]\<rparr>))"

definition new_resolution ::
  "contracts \<Rightarrow> string \<Rightarrow> string \<Rightarrow> interrupt_resolution \<Rightarrow> interrupt \<Rightarrow> int \<Rightarrow> instant \<Rightarrow> resolution_row"
  where
  "new_resolution C tenant rid r asked n now = \<lparr>
     resolution_id = resolution_id_of C r,
     rr_run_id = rid,
     rr_tenant_id = tenant,
     rr_interrupt_id = res_interrupt_id r,
     rr_decision = res_decision r,
     rr_reviewer = res_reviewer r,
     rr_interrupt = asked,
     rr_resolution = r,
     rr_attempt = n,
     rr_resolved_at = res_resolved_at r,
     rr_recorded_at = now\<rparr>"

definition resume ::
  "contracts \<Rightarrow> schema_lib \<Rightarrow> string \<Rightarrow> string \<Rightarrow> interrupt_resolution \<Rightarrow> key_info \<Rightarrow> instant \<Rightarrow> db \<Rightarrow>
   ((run_record \<times> bool) \<times> db) result" where
  "resume C S tenant rid r answerer now d =
     (if res_run_id r \<noteq> rid then Inl Unprocessable
      else bind_result (locked tenant rid None d) (\<lambda>row.
        if waiting_on row \<noteq> Some (res_interrupt_id r)
        then (if answered_by C tenant r d then Inr ((record_of row now, False), d)
              else Inl (Conflict []))
        else let asked = the (awaiting row) in
          bind_result (require_may_answer answerer (i_assignee asked) (res_reviewer r)) (\<lambda>_.
            if answer_problem S C asked r \<noteq> None then Inl Unprocessable
            else
              let row = row\<lparr>last_resolution := Some r\<rparr>;
                  kept = new_resolution C tenant rid r asked (attempt row) now
              in bind_result
                   (if res_decision r = CANCEL then move C row CANCELLED now
                    else if queued_at row \<noteq> None then requeue C row now None
                    else bind_result (move C row RUNNING now)
                           (\<lambda>row. Inr (row\<lparr>attempt := attempt row + 1\<rparr>)))
                   (\<lambda>row. bind_result (add_resolution kept d) (\<lambda>d.
                      Inr ((record_of row now, True), ended C [row] now (save row d)))))))"

section \<open>Cancelling\<close>

definition cancel ::
  "contracts \<Rightarrow> string \<Rightarrow> string \<Rightarrow> string option \<Rightarrow> key_info \<Rightarrow> instant \<Rightarrow> db \<Rightarrow>
   ((run_record \<times> bool) \<times> db) result" where
  "cancel C tenant rid reason canceller now d =
     bind_result (locked tenant rid None d) (\<lambda>row.
       bind_result (require_may_cancel canceller (assignee row)) (\<lambda>_.
         let asked = ((cancelled_by row, cancel_reason row) = (Some (principal canceller), reason)) in
         if cancel_requested_at row \<noteq> None \<or> status row = CANCELLED \<and> asked
         then Inr ((record_of row now, False), d)
         else bind_result
           (if status row = RUNNING \<and> lease_owner row \<noteq> None
            then Inr (row\<lparr>cancel_requested_at := Some now, updated_at := now\<rparr>)
            else move C row CANCELLED now)
           (\<lambda>row.
              let row' = row\<lparr>cancel_reason := reason, cancelled_by := Some (principal canceller)\<rparr>
              in Inr ((record_of row' now, True), ended C [row] now (save row' d)))))"

section \<open>Finishing\<close>

text \<open>\<open>u\<close> is the draw of \<open>random.uniform\<close> the jitter of a retry takes.\<close>

definition finish ::
  "contracts \<Rightarrow> rat \<Rightarrow> string \<Rightarrow> string \<Rightarrow> run_finish \<Rightarrow> string option \<Rightarrow> instant \<Rightarrow> db \<Rightarrow>
   ((run_record \<times> bool) \<times> db) result" where
  "finish C u tenant rid ending worker_id now d =
     bind_result (locked tenant rid None d) (\<lambda>row.
       let requeued = (fin_status ending = ERROR \<and> worker_id \<noteq> None \<and> settled row QUEUED worker_id) in
       if settled row (fin_status ending) worker_id \<or> requeued
       then Inr ((record_of row now, False), d)
       else bind_result (fence row worker_id) (\<lambda>_.
         if retried row ending
         then (let row = row\<lparr>error_retries := error_retries row + 1\<rparr>;
                   wait = backoff ERROR_RETRY_BASE (error_retries row) ERROR_RETRY_CAP
               in bind_result (requeue C row now (Some (jittered u wait))) (\<lambda>row.
                    let row = row\<lparr>settled_by := worker_id\<rparr>
                    in Inr ((record_of row now, True), save row d)))
         else bind_result (move C row (fin_status ending) now) (\<lambda>row.
           let row = row\<lparr>run_output := fin_output ending,
                         run_error := counted (fin_error ending) (error_retries row),
                         settled_by := worker_id\<rparr>
           in Inr ((record_of row now, True), ended C [row] now (save row d)))))"

text \<open>The route takes a \<open>RunFinish\<close> that validates; any other body is a 422 before the store is asked.\<close>

definition finish_run ::
  "contracts \<Rightarrow> rat \<Rightarrow> string \<Rightarrow> string \<Rightarrow> run_finish \<Rightarrow> string option \<Rightarrow> instant \<Rightarrow> db \<Rightarrow>
   ((run_record \<times> bool) \<times> db) result" where
  "finish_run C u tenant rid ending worker_id now d =
     (if is_an_ending C ending then finish C u tenant rid ending worker_id now d
      else Inl Unprocessable)"

section \<open>The contract of \<open>start\<close>\<close>

lemma row_starts_new_row: "row_starts (new_row s queue now)"
  by (auto simp: row_starts_def new_row_def row_ok_defs MAX_ERROR_RETRIES_def MAX_LEASE_LAPSES_def)

lemma same_idempotency_sym: "same_idempotency a b \<Longrightarrow> same_idempotency b a"
  unfolding same_idempotency_def by metis

lemma unique_idempotency_add:
  assumes "unique_idempotency rows" "\<forall>r\<in>set rows. \<not> collides row r"
  shows "unique_idempotency (rows @ [row])"
  using assms same_idempotency_sym unfolding unique_idempotency_def collides_def
  by (metis Un_iff empty_iff insert_iff list.set set_append)

lemma db_ok_add_run:
  assumes "db_ok d" "\<forall>r\<in>set (runs d). \<not> collides row r"
  shows "db_ok (d\<lparr>runs := runs d @ [row]\<rparr>)"
proof -
  have "run_id row \<notin> run_id ` set (runs d)" using assms(2) by (auto simp: collides_def)
  with assms unique_idempotency_add [OF _ assms(2)] show ?thesis by (simp add: db_ok_def)
qed

lemma evolves_add_run:
  assumes "store_inv d" "\<forall>r\<in>set (runs d). \<not> collides row r" "row_starts row"
  shows "evolves d (d\<lparr>runs := runs d @ [row]\<rparr>)"
  using assms db_ok_add_run [OF store_invD(1) [OF assms(1)] assms(2)]
  by (auto simp: evolves_def collides_def dest: store_invD(2,4))

lemma start_cases:
  assumes "start s queue now strict d = Inr ((answer, created), d')"
  shows "if created then d' = d\<lparr>runs := runs d @ [new_row s queue now]\<rparr> \<and>
           answer = record_of (new_row s queue now) now \<and>
           (\<forall>r\<in>set (runs d). \<not> collides (new_row s queue now) r)
         else d' = d \<and> (\<exists>r\<in>set (runs d). tenant_id r = rs_tenant_id s \<and> answer = record_of r now \<and>
           (run_id r = rs_run_id s \<or> idempotency_key r = rs_idempotency_key s))"
  using assms unfolding start_def Let_def one_def
  by (auto simp: find_Some_iff split: if_splits option.splits)

interpretation starting: tenant_operation C "start s queue now strict" "rs_tenant_id s"
proof
  fix d x d'
  assume inv: "store_inv d" and run: "start s queue now strict d = Inr (x, d')"
  obtain answer created where x: "x = (answer, created)" by (cases x)
  from start_cases [OF run [unfolded x]] show "evolves d d'"
    using evolves_add_run [OF inv _ row_starts_new_row] inv by (cases created) auto
  from start_cases [OF run [unfolded x]]
  show "others (rs_tenant_id s) d' = others (rs_tenant_id s) d"
    by (cases created) (auto simp: others_def new_row_def)
qed

lemma find_keyed:
  assumes "store_inv d" "r \<in> set (runs d)" "idempotency_key r = Some k"
  shows "find (\<lambda>x. tenant_id x = tenant_id r \<and> idempotency_key x = Some k) (runs d) = Some r"
proof -
  have "\<exists>q. find (\<lambda>x. tenant_id x = tenant_id r \<and> idempotency_key x = Some k) (runs d) = Some q"
    using assms(2,3) by (cases "find (\<lambda>x. tenant_id x = tenant_id r \<and> idempotency_key x = Some k) (runs d)")
      (auto simp: find_None_iff)
  then obtain q where q: "find (\<lambda>x. tenant_id x = tenant_id r \<and> idempotency_key x = Some k) (runs d) = Some q" ..
  then have "q \<in> set (runs d)" "tenant_id q = tenant_id r" "idempotency_key q = Some k"
    by (auto simp: find_Some_iff)
  moreover from this have "same_idempotency q r" using assms(3) by (simp add: same_idempotency_def)
  ultimately have "run_id q = run_id r"
    using store_invD(1) [OF assms(1)] assms(2) unfolding db_ok_def unique_idempotency_def by blast
  with q \<open>q \<in> set (runs d)\<close> show ?thesis using run_id_unique [OF assms(1)] assms(2) by blast
qed


lemma start_keyed:
  assumes "store_inv d" "r \<in> set (runs d)" "tenant_id r = rs_tenant_id s"
    and "rs_idempotency_key s = Some k" "k \<noteq> []" "idempotency_key r = Some k"
  shows "start s queue now strict d =
    (let diff = differing (record_of r now) s queue (queued_at r \<noteq> None)
     in if strict \<and> diff \<noteq> [] then Inl (Conflict diff) else Inr ((record_of r now, False), d))"
proof -
  have "collides (new_row s queue now) r"
    using assms(3,4,6) by (simp add: collides_def same_idempotency_def new_row_def)
  then have "\<exists>x\<in>set (runs d). collides (new_row s queue now) x" using assms(2) by blast
  moreover have "truthy (rs_idempotency_key s)" using assms(4,5) by (simp add: truthy_def)
  ultimately show ?thesis
    using find_keyed [OF assms(1,2,6)] assms(3,4)
    by (auto simp: start_def one_def Let_def)
qed

section \<open>The contract of \<open>pause\<close>, \<open>cancel\<close>, \<open>finish\<close> and \<open>resume\<close>\<close>

lemma row_evolves_cancelled:
  assumes "row_ok r" "lifecycle_laws C" "can_become C (status r) CANCELLED"
  shows "row_evolves r ((moved C r CANCELLED now)\<lparr>settled_by := w\<rparr>)"
    and "row_evolves r ((moved C r CANCELLED now)\<lparr>cancel_reason := reason, cancelled_by := who\<rparr>)"
    and "row_evolves r (moved C (r\<lparr>last_resolution := a\<rparr>) CANCELLED now)"
    and "row_evolves r (moved C r CANCELLED now)"
proof -
  note live = row_ok_can_become [OF assms]
  have "row_ok (moved C (r\<lparr>last_resolution := a\<rparr>) CANCELLED now)" for a
    using assms(1,2) live by (intro row_ok_moved) simp_all
  from this [of "last_resolution r"] this show
    "row_evolves r ((moved C r CANCELLED now)\<lparr>settled_by := w\<rparr>)"
    "row_evolves r ((moved C r CANCELLED now)\<lparr>cancel_reason := reason, cancelled_by := who\<rparr>)"
    "row_evolves r (moved C (r\<lparr>last_resolution := a\<rparr>) CANCELLED now)"
    "row_evolves r (moved C r CANCELLED now)"
    using assms(3) worked_ge [of r now] by (auto intro!: row_evolves_move [OF assms(2)])
qed

lemma row_evolves_paused:
  assumes "row_ok r" "lifecycle_laws C" "can_become C (status r) PAUSED"
    and "i_run_id i = run_id r" "i_tenant_id i = tenant_id r"
  shows "row_evolves r ((moved C r PAUSED now)\<lparr>checkpoint := cp, awaiting := Some i,
           assignee := i_assignee i, awaiting_deadline := i_deadline i, settled_by := w\<rparr>)"
  using row_ok_can_become [OF assms(1-3)] worked_ge [of r now] worked_nonneg [of r now] assms
  by (intro row_evolves_move [OF assms(2)]) (auto simp: row_ok_defs identity_of_def)

lemma row_evolves_continued:
  assumes "row_ok r" "lifecycle_laws C" "can_become C (status r) RUNNING" "status r = PAUSED"
  shows "row_evolves r ((moved C (r\<lparr>last_resolution := a\<rparr>) RUNNING now)\<lparr>attempt := attempt r + 1\<rparr>)"
  using row_ok_can_become [OF assms(1-3)] worked_ge [of r now] worked_nonneg [of r now] assms
  by (intro row_evolves_move [OF assms(2)]) (auto simp: row_ok_defs identity_of_def worked_def)

lemma row_evolves_asked:
  assumes "row_ok r" "status r = RUNNING" "lease_owner r \<noteq> None"
  shows "row_evolves r (r\<lparr>cancel_requested_at := t, updated_at := now, cancel_reason := reason,
                         cancelled_by := who\<rparr>)"
  using assms by (auto simp: row_evolves_def row_ok_defs identity_of_def)

lemma pause_Inr:
  assumes "pause C S tenant rid p w now d = Inr ((answer, changed), d')"
  obtains (repeat) r where "found tenant rid d = Inr r" "d' = d" "\<not> changed" "answer = record_of r now"
      "settled r PAUSED w" "waiting_on r = Some (i_interrupt_id (pause_interrupt p))"
  | (cancelled) r where "found tenant rid d = Inr r" "changed" "w = None \<or> lease_owner r = w"
      "cancel_requested_at r \<noteq> None" "can_become C (status r) CANCELLED"
      "answer = record_of ((moved C r CANCELLED now)\<lparr>settled_by := w\<rparr>) now"
      "d' = ended C [(moved C r CANCELLED now)\<lparr>settled_by := w\<rparr>] now
              (save ((moved C r CANCELLED now)\<lparr>settled_by := w\<rparr>) d)"
  | (paused) r row where "found tenant rid d = Inr r" "changed" "w = None \<or> lease_owner r = w"
      "cancel_requested_at r = None" "can_become C (status r) PAUSED"
      "i_tenant_id (pause_interrupt p) = tenant" "i_run_id (pause_interrupt p) = rid"
      "row = (moved C r PAUSED now)\<lparr>checkpoint := pause_checkpoint p,
         awaiting := Some (awaiting_of C (pause_interrupt p)),
         assignee := i_assignee (pause_interrupt p),
         awaiting_deadline := i_deadline (pause_interrupt p), settled_by := w\<rparr>"
      "answer = record_of row now" "d' = save row d"
proof -
  from assms have own: "i_tenant_id (pause_interrupt p) = tenant" "i_run_id (pause_interrupt p) = rid"
    by (auto simp: pause_def Let_def split: if_splits)
  with assms obtain r where r: "found tenant rid d = Inr r"
    and cp: "bounded_checkpoint (pause_checkpoint p) = Inr (pause_checkpoint p)"
    by (auto simp: pause_def Let_def dest: bounded_checkpoint_InrD split: if_splits)
  show thesis
  proof (cases "settled r PAUSED w \<and> waiting_on r = Some (i_interrupt_id (pause_interrupt p))")
    case True
    with assms r own show ?thesis
      by (intro repeat) (auto simp: pause_def Let_def split: if_splits)
  next
    case False
    show ?thesis
    proof (cases "cancel_requested_at r = None")
      case True
      with False assms r own cp show ?thesis
        by (intro paused [OF r]) (auto simp: pause_def Let_def cancelled_instead_Inr_iff split: if_splits)
    next
      case requested: False
      with False assms r own cp show ?thesis
        by (intro cancelled [OF r]) (auto simp: pause_def Let_def cancelled_instead_Inr_iff split: if_splits)
    qed
  qed
qed

interpretation pausing: tenant_operation C "pause C S tenant rid p w now" tenant
proof (rule tenant_operationI)
  fix d x d'
  assume laws: "lifecycle_laws C" "interrupt_laws C" and inv: "store_inv d"
    and run: "pause C S tenant rid p w now d = Inr (x, d')"
  obtain answer changed where x: "x = (answer, changed)" by (cases x)
  from run [unfolded x] show "d' = d \<or> writes_run tenant rid d d'"
  proof (cases rule: pause_Inr)
    case (cancelled r)
    then have "row_evolves r ((moved C r CANCELLED now)\<lparr>settled_by := w\<rparr>)"
      using row_evolves_cancelled(1) [of r C] store_invD(2) [OF inv] laws foundD [OF cancelled(1)]
      by simp
    with cancelled show ?thesis by (auto intro: writes_runI)
  next
    case (paused r row)
    then have "row_evolves r row"
      using row_evolves_paused [of r C "pause_interrupt p"] store_invD(2) [OF inv] laws foundD [OF paused(1)]
      by simp
    with paused show ?thesis by (auto intro: writes_runI)
  qed auto
qed

lemma cancel_Inr:
  assumes "cancel C tenant rid reason key now d = Inr ((answer, changed), d')"
  obtains (repeat) r where "found tenant rid d = Inr r" "require_may_cancel key (assignee r) = Inr ()"
      "d' = d" "\<not> changed" "answer = record_of r now"
      "cancel_requested_at r \<noteq> None \<or>
       (status r = CANCELLED \<and> cancelled_by r = Some (principal key) \<and> cancel_reason r = reason)"
  | (asked) r row where "found tenant rid d = Inr r" "require_may_cancel key (assignee r) = Inr ()"
      "changed" "cancel_requested_at r = None" "status r = RUNNING" "lease_owner r \<noteq> None"
      "row = r\<lparr>cancel_requested_at := Some now, updated_at := now, cancel_reason := reason,
               cancelled_by := Some (principal key)\<rparr>"
      "answer = record_of row now"
      "d' = ended C [r\<lparr>cancel_requested_at := Some now, updated_at := now\<rparr>] now (save row d)"
  | (cancelled) r row where "found tenant rid d = Inr r" "require_may_cancel key (assignee r) = Inr ()"
      "changed" "cancel_requested_at r = None" "can_become C (status r) CANCELLED"
      "\<not> (status r = RUNNING \<and> lease_owner r \<noteq> None)"
      "row = (moved C r CANCELLED now)\<lparr>cancel_reason := reason, cancelled_by := Some (principal key)\<rparr>"
      "answer = record_of row now" "d' = ended C [moved C r CANCELLED now] now (save row d)"
proof -
  from assms obtain r where r: "found tenant rid d = Inr r" "require_may_cancel key (assignee r) = Inr ()"
    by (auto simp: cancel_def)
  show thesis
  proof (cases "cancel_requested_at r \<noteq> None \<or>
       (status r = CANCELLED \<and> cancelled_by r = Some (principal key) \<and> cancel_reason r = reason)")
    case True
    with assms r show ?thesis by (intro repeat [OF r]) (auto simp: cancel_def Let_def)
  next
    case fresh: False
    show ?thesis
    proof (cases "status r = RUNNING \<and> lease_owner r \<noteq> None")
      case True
      with fresh assms r show ?thesis
        by (intro asked [OF r]) (auto simp: cancel_def Let_def)
    next
      case False
      with fresh assms r show ?thesis
        by (intro cancelled [OF r]) (auto simp: cancel_def Let_def split: if_splits)
    qed
  qed
qed

interpretation cancelling: tenant_operation C "cancel C tenant rid reason key now" tenant
proof (rule tenant_operationI)
  fix d x d'
  assume laws: "lifecycle_laws C" "interrupt_laws C" and inv: "store_inv d"
    and run: "cancel C tenant rid reason key now d = Inr (x, d')"
  obtain answer changed where x: "x = (answer, changed)" by (cases x)
  from run [unfolded x] show "d' = d \<or> writes_run tenant rid d d'"
  proof (cases rule: cancel_Inr)
    case (asked r row)
    then have "row_evolves r row"
      using row_evolves_asked store_invD(2) [OF inv] foundD [OF asked(1)] by simp
    with asked show ?thesis by (auto intro: writes_runI)
  next
    case (cancelled r row)
    then have "row_evolves r row"
      using row_evolves_cancelled(2) [of r C] store_invD(2) [OF inv] laws foundD [OF cancelled(1)]
      by simp
    with cancelled show ?thesis by (auto intro: writes_runI)
  qed auto
qed

definition retried_row :: "contracts \<Rightarrow> rat \<Rightarrow> run_row \<Rightarrow> string option \<Rightarrow> instant \<Rightarrow> run_row" where
  "retried_row C u r w now =
     (moved C (r\<lparr>error_retries := error_retries r + 1\<rparr>) QUEUED now)
       \<lparr>attempt := attempt r + 1, queued_at := Some now,
        available_at := Some (now + jittered u (backoff ERROR_RETRY_BASE (error_retries r + 1) ERROR_RETRY_CAP)),
        settled_by := w\<rparr>"

definition ended_row :: "contracts \<Rightarrow> run_row \<Rightarrow> run_finish \<Rightarrow> string option \<Rightarrow> instant \<Rightarrow> run_row" where
  "ended_row C r e w now =
     (moved C r (fin_status e) now)
       \<lparr>run_output := fin_output e, run_error := counted (fin_error e) (error_retries r), settled_by := w\<rparr>"

lemma finish_Inr:
  assumes "finish C u tenant rid e w now d = Inr ((answer, changed), d')"
  obtains (repeat) r where "found tenant rid d = Inr r" "d' = d" "\<not> changed" "answer = record_of r now"
      "settled r (fin_status e) w \<or> (fin_status e = ERROR \<and> w \<noteq> None \<and> settled r QUEUED w)"
  | (requeued) r where "found tenant rid d = Inr r" "changed" "w = None \<or> lease_owner r = w"
      "retried r e" "can_become C (status r) QUEUED"
      "answer = record_of (retried_row C u r w now) now" "d' = save (retried_row C u r w now) d"
  | (ended) r where "found tenant rid d = Inr r" "changed" "w = None \<or> lease_owner r = w"
      "\<not> retried r e" "can_become C (status r) (fin_status e)"
      "answer = record_of (ended_row C r e w now) now"
      "d' = ended C [ended_row C r e w now] now (save (ended_row C r e w now) d)"
proof -
  from assms obtain r where r: "found tenant rid d = Inr r" by (auto simp: finish_def)
  show thesis
  proof (cases "settled r (fin_status e) w \<or> (fin_status e = ERROR \<and> w \<noteq> None \<and> settled r QUEUED w)")
    case True
    with assms r show ?thesis by (intro repeat [OF r]) (auto simp: finish_def Let_def)
  next
    case fresh: False
    show ?thesis
    proof (cases "retried r e")
      case True
      with fresh assms r show ?thesis
        by (intro requeued [OF r])
          (auto simp: finish_def Let_def requeue_Inr_iff retried_row_def split: if_splits)
    next
      case False
      with fresh assms r show ?thesis
        by (intro ended [OF r]) (auto simp: finish_def Let_def ended_row_def split: if_splits)
    qed
  qed
qed

lemma row_evolves_retried:
  assumes "row_ok r" "lifecycle_laws C" "retried r e" "can_become C (status r) QUEUED"
  shows "row_evolves r (retried_row C u r w now)"
proof -
  have w: "worked (r\<lparr>error_retries := n\<rparr>) now = worked r now" for n
    by (simp add: worked_def split: option.split)
  show ?thesis
    using row_ok_can_become [OF assms(1,2,4)] worked_ge [of r now] worked_nonneg [of r now] assms
    unfolding retried_row_def
    by (intro row_evolves_move [OF assms(2)]) (auto simp: row_ok_defs identity_of_def retried_def w)
qed

lemma row_evolves_finished:
  assumes "row_ok r" "lifecycle_laws C" "can_become C (status r) (fin_status e)" "is_an_ending C e"
  shows "row_evolves r (ended_row C r e w now)"
  unfolding ended_row_def
  using assms by (intro row_evolves_ended(1)) (auto simp: is_an_ending_def counted_def split: option.splits)

interpretation finishing: tenant_operation C "finish_run C u tenant rid e w now" tenant
proof (rule tenant_operationI)
  fix d x d'
  assume laws: "lifecycle_laws C" "interrupt_laws C" and inv: "store_inv d"
    and run: "finish_run C u tenant rid e w now d = Inr (x, d')"
  obtain answer changed where x: "x = (answer, changed)" by (cases x)
  from run x have e: "is_an_ending C e"
    and fin: "finish C u tenant rid e w now d = Inr ((answer, changed), d')"
    by (auto simp: finish_run_def split: if_splits)
  from fin show "d' = d \<or> writes_run tenant rid d d'"
  proof (cases rule: finish_Inr)
    case (requeued r)
    then have "row_evolves r (retried_row C u r w now)"
      using row_evolves_retried laws(1) store_invD(2) [OF inv] foundD [OF requeued(1)] by blast
    with requeued show ?thesis by (auto intro: writes_runI)
  next
    case (ended r)
    then have "row_evolves r (ended_row C r e w now)"
      using row_evolves_finished laws(1) store_invD(2) [OF inv] foundD [OF ended(1)] e by blast
    with ended show ?thesis by (auto intro: writes_runI)
  qed auto
qed

definition resumed_status :: "run_row \<Rightarrow> interrupt_resolution \<Rightarrow> run_status" where
  "resumed_status row r =
     (if res_decision r = CANCEL then CANCELLED else if queued_at row \<noteq> None then QUEUED else RUNNING)"

definition resumed_row :: "contracts \<Rightarrow> run_row \<Rightarrow> interrupt_resolution \<Rightarrow> instant \<Rightarrow> run_row" where
  "resumed_row C row r now =
     (let row' = moved C (row\<lparr>last_resolution := Some r\<rparr>) (resumed_status row r) now
      in if res_decision r = CANCEL then row'
         else if queued_at row \<noteq> None
         then row'\<lparr>attempt := attempt row + 1, queued_at := Some now, available_at := None\<rparr>
         else row'\<lparr>attempt := attempt row + 1\<rparr>)"

lemma resume_Inr:
  assumes "resume C S tenant rid r key now d = Inr ((answer, changed), d')"
  obtains (repeat) row where "found tenant rid d = Inr row" "d' = d" "\<not> changed"
      "answer = record_of row now" "waiting_on row \<noteq> Some (res_interrupt_id r)" "answered_by C tenant r d"
  | (answered) row asked where "found tenant rid d = Inr row" "changed" "res_run_id r = rid"
      "awaiting row = Some asked" "i_interrupt_id asked = res_interrupt_id r"
      "require_may_answer key (i_assignee asked) (res_reviewer r) = Inr ()"
      "answer_problem S C asked r = None"
      "can_become C (status row) (resumed_status row r)"
      "resolution_id_of C r \<notin> resolution_id ` set (resolutions d)"
      "answer = record_of (resumed_row C row r now) now"
      "d' = ended C [resumed_row C row r now] now
              ((save (resumed_row C row r now) d)\<lparr>resolutions :=
                 resolutions d @ [new_resolution C tenant rid r asked (attempt row) now]\<rparr>)"
proof -
  have save_res: "save row (d\<lparr>resolutions := ks\<rparr>) = (save row d)\<lparr>resolutions := ks\<rparr>" for row ks
    by (simp add: save_def)
  from assms obtain row where row: "found tenant rid d = Inr row" and rid: "res_run_id r = rid"
    by (auto simp: resume_def split: if_splits)
  show thesis
  proof (cases "waiting_on row = Some (res_interrupt_id r)")
    case True
    then obtain asked where asked: "awaiting row = Some asked" "i_interrupt_id asked = res_interrupt_id r"
      by (auto simp: waiting_on_def)
    note facts = answered [OF row _ rid asked]
    show ?thesis
    proof (cases "res_decision r = CANCEL")
      case dec: True
      with True assms row rid asked show ?thesis
        by (intro facts) (auto simp: resume_def Let_def add_resolution_def new_resolution_def
            resumed_row_def resumed_status_def save_res split: if_splits)
    next
      case dec: False
      with True assms row rid asked show ?thesis
        by (intro facts) (auto simp: resume_def Let_def add_resolution_def new_resolution_def
            resumed_row_def resumed_status_def save_res requeue_Inr_iff split: if_splits)
    qed
  next
    case False
    with assms row rid show ?thesis
      by (intro repeat [OF row]) (auto simp: resume_def Let_def split: if_splits)
  qed
qed

lemma row_evolves_requeued:
  assumes "row_ok r" "lifecycle_laws C" "can_become C (status r) QUEUED"
  shows "row_evolves r ((moved C (r\<lparr>last_resolution := a\<rparr>) QUEUED now)
           \<lparr>attempt := attempt r + 1, queued_at := Some now, available_at := None\<rparr>)"
  using row_ok_can_become [OF assms] worked_ge [of r now] worked_nonneg [of r now] assms
  by (intro row_evolves_move [OF assms(2)]) (auto simp: row_ok_defs identity_of_def)

lemma row_evolves_resumed:
  assumes "row_ok r" "lifecycle_laws C" "can_become C (status r) (resumed_status r a)" "status r = PAUSED"
  shows "row_evolves r (resumed_row C r a now)"
  using row_evolves_cancelled(3) [OF assms(1,2)] row_evolves_requeued [OF assms(1,2)]
    row_evolves_continued [OF assms(1,2) _ assms(4)] assms(3)
  by (auto simp: resumed_row_def resumed_status_def Let_def)

lemma awaiting_paused: "row_ok r \<Longrightarrow> awaiting r = Some i \<Longrightarrow> status r = PAUSED"
  by (auto simp: row_ok_defs)

lemma run_ids_put_row [simp]: "run_id ` set (put_row run_id r rows) = run_id ` set rows"
  by (metis keys_put_row list.set_map)

interpretation resuming: tenant_operation C "resume C S tenant rid r key now" tenant
proof
  fix d x d'
  assume laws: "lifecycle_laws C" "interrupt_laws C" and inv: "store_inv d"
    and run: "resume C S tenant rid r key now d = Inr (x, d')"
  obtain answer changed where x: "x = (answer, changed)" by (cases x)
  have "evolves d d' \<and> others tenant d' = others tenant d"
    using run [unfolded x]
  proof (cases rule: resume_Inr)
    case (answered row asked)
    let ?row = "resumed_row C row r now" and ?k = "new_resolution C tenant rid r asked (attempt row) now"
    have ev: "row_evolves row ?row"
      using answered awaiting_paused foundD [OF answered(1)] store_invD(2) [OF inv] laws(1)
      by (intro row_evolves_resumed) auto
    note w = writes_run_effect [OF inv writes_runI(1) [OF answered(1) ev]]
    have "evolves d ((save ?row d)\<lparr>resolutions := resolutions (save ?row d) @ [?k]\<rparr>)"
      using answered foundD [OF answered(1)]
      by (intro evolves_add_resolution [OF w(1)]) (auto simp: new_resolution_def intro: rev_image_eqI)
    moreover have "others tenant (ended C [?row] now ((save ?row d)\<lparr>resolutions := resolutions d @ [?k]\<rparr>)) =
        others tenant (save ?row d)"
      by (simp add: others_def new_resolution_def)
    ultimately show ?thesis using answered w(2) by simp
  qed (use inv in auto)
  then show "evolves d d'" "others tenant d' = others tenant d" by auto
qed

section \<open>Sent again\<close>

text \<open>What a repeat reads back: the row just written.\<close>

lemma found_saved:
  assumes "store_inv d" "found tenant rid d = Inr r" "row_evolves r r'"
  shows "found tenant rid (save r' d) = Inr r'" "found tenant rid (ended C rows now (save r' d)) = Inr r'"
    "found tenant rid (ended C rows now ((save r' d)\<lparr>resolutions := ks\<rparr>)) = Inr r'"
proof -
  from foundD [OF assms(2)] have r: "r \<in> set (runs d)" "tenant_id r = tenant" "run_id r = rid" by auto
  have "store_inv (save r' d)" using evolves_inv [OF evolves_save [OF assms(1) r(1) assms(3)]] .
  moreover have "r' \<in> set (runs (save r' d))" 
    using r put_row_in [of r "runs d" run_id r'] row_evolves_run_id [OF assms(3)] by simp
  moreover have "tenant_id r' = tenant" "run_id r' = rid"
    using assms(3) r by (auto simp: row_evolves_def identity_of_def)
  ultimately show *: "found tenant rid (save r' d) = Inr r'" by (simp add: found_Inr_iff)
  show "found tenant rid (ended C rows now (save r' d)) = Inr r'"
    "found tenant rid (ended C rows now ((save r' d)\<lparr>resolutions := ks\<rparr>)) = Inr r'"
    using * by (simp_all add: found_def one_def)
qed

interpretation pausing_again: repeatable C "pause C S tenant rid p w" "\<lambda>a. rec_status a = PAUSED"
proof
  fix d t answer changed d' t'
  assume laws: "lifecycle_laws C" "interrupt_laws C" and inv: "store_inv d"
    and run: "pause C S tenant rid p w t d = Inr ((answer, changed), d')"
    and covers: "rec_status answer = PAUSED"
  from run show "\<exists>answer'. pause C S tenant rid p w t' d' = Inr ((answer', False), d')"
  proof (cases rule: pause_Inr)
    case (repeat r)
    with run show ?thesis by (auto simp: pause_def Let_def split: if_splits)
  next
    case (cancelled r)
    with covers show ?thesis by (simp add: record_of_def)
  next
    case (paused r row)
    have "row_evolves r row"
      using paused row_evolves_paused [of r C "pause_interrupt p"] store_invD(2) [OF inv] laws
        foundD [OF paused(1)] by simp
    with paused found_saved [OF inv paused(1)] have "found tenant rid d' = Inr row" by simp
    with paused run laws(2) show ?thesis
      by (auto simp: pause_def Let_def settled_def waiting_on_def split: if_splits)
  qed
qed

lemma require_may_cancel_none: "require_may_cancel key a = Inr () \<Longrightarrow> require_may_cancel key None = Inr ()"
  by (auto simp: require_may_cancel_def Let_def require_may_answer_iff truthy_def answering_as_def may_act_for_def)

interpretation cancelling_again: repeatable C "cancel C tenant rid reason key" "\<lambda>_. True"
proof
  fix d t answer changed d' t'
  assume laws: "lifecycle_laws C" "interrupt_laws C" and inv: "store_inv d"
    and run: "cancel C tenant rid reason key t d = Inr ((answer, changed), d')"
  from run show "\<exists>answer'. cancel C tenant rid reason key t' d' = Inr ((answer', False), d')"
  proof (cases rule: cancel_Inr)
    case (repeat r)
    then show ?thesis by (auto simp: cancel_def Let_def)
  next
    case (asked r row)
    have "row_evolves r row"
      using asked row_evolves_asked store_invD(2) [OF inv] foundD [OF asked(1)] by simp
    with asked found_saved(2) [OF inv asked(1)] have "found tenant rid d' = Inr row" by simp
    with asked show ?thesis by (auto simp: cancel_def Let_def)
  next
    case (cancelled r row)
    have "row_evolves r row"
      using cancelled row_evolves_cancelled(2) [of r C] store_invD(2) [OF inv] laws
        foundD [OF cancelled(1)] by simp
    with cancelled found_saved(2) [OF inv cancelled(1)] have "found tenant rid d' = Inr row" by simp
    with cancelled require_may_cancel_none show ?thesis by (auto simp: cancel_def Let_def)
  qed
qed

interpretation finishing_again:
  repeatable C "finish_run C u tenant rid e w" "\<lambda>a. w \<noteq> None \<or> rec_status a \<noteq> QUEUED"
proof
  fix d t answer changed d' t'
  assume laws: "lifecycle_laws C" "interrupt_laws C" and inv: "store_inv d"
    and run: "finish_run C u tenant rid e w t d = Inr ((answer, changed), d')"
    and covers: "w \<noteq> None \<or> rec_status answer \<noteq> QUEUED"
  from run have e: "is_an_ending C e"
    and fin: "finish C u tenant rid e w t d = Inr ((answer, changed), d')"
    by (auto simp: finish_run_def split: if_splits)
  from fin have "\<exists>answer'. finish C u tenant rid e w t' d' = Inr ((answer', False), d')"
  proof (cases rule: finish_Inr)
    case (repeat r)
    then show ?thesis by (auto simp: finish_def Let_def)
  next
    case (requeued r)
    have "row_evolves r (retried_row C u r w t)"
      using row_evolves_retried laws(1) store_invD(2) [OF inv] foundD [OF requeued(1)] requeued by blast
    with requeued found_saved(1) [OF inv requeued(1)]
    have "found tenant rid d' = Inr (retried_row C u r w t)" by simp
    with requeued covers show ?thesis
      by (auto simp: finish_def Let_def settled_def retried_row_def retried_def record_of_def)
  next
    case (ended r)
    have "row_evolves r (ended_row C r e w t)"
      using row_evolves_finished laws(1) store_invD(2) [OF inv] foundD [OF ended(1)] e ended by blast
    with ended found_saved(2) [OF inv ended(1)] have "found tenant rid d' = Inr (ended_row C r e w t)" by simp
    with ended show ?thesis by (auto simp: finish_def Let_def settled_def ended_row_def)
  qed
  with e show "\<exists>answer'. finish_run C u tenant rid e w t' d' = Inr ((answer', False), d')"
    by (simp add: finish_run_def)
qed

interpretation resuming_again: repeatable C "resume C S tenant rid r key" "\<lambda>_. True"
proof
  fix d t answer changed d' t'
  assume laws: "lifecycle_laws C" "interrupt_laws C" and inv: "store_inv d"
    and run: "resume C S tenant rid r key t d = Inr ((answer, changed), d')"
  from run have rid: "res_run_id r = rid" by (auto simp: resume_def split: if_splits)
  from run show "\<exists>answer'. resume C S tenant rid r key t' d' = Inr ((answer', False), d')"
  proof (cases rule: resume_Inr)
    case (repeat row)
    with rid show ?thesis by (auto simp: resume_def)
  next
    case (answered row asked)
    let ?row = "resumed_row C row r t" and ?k = "new_resolution C tenant rid r asked (attempt row) t"
    have ev: "row_evolves row ?row"
      using answered awaiting_paused foundD [OF answered(1)] store_invD(2) [OF inv] laws(1)
      by (intro row_evolves_resumed) auto
    have fd: "found tenant rid d' = Inr ?row" using found_saved(3) [OF inv answered(1) ev] answered by simp
    have "waiting_on ?row = None" by (auto simp: waiting_on_def resumed_row_def resumed_status_def Let_def)
    moreover have "\<forall>k\<in>set (resolutions d). resolution_id k \<noteq> resolution_id_of C r"
      using answered(9) by (metis imageI)
    then have "find (\<lambda>k. rr_tenant_id k = tenant \<and> resolution_id k = resolution_id_of C r)
        (resolutions d @ [?k]) = Some ?k"
      by (intro find_snoc) (auto simp: new_resolution_def)
    then have "answered_by C tenant r d'"
      using answered by (simp add: answered_by_def) (simp add: new_resolution_def)
    ultimately show ?thesis using fd rid by (auto simp: resume_def)
  qed
qed

text \<open>A repeated start asks for the run the first one made.\<close>

lemma differing_new_row: "differing (record_of (new_row s queue now) t) s queue (queued_at (new_row s queue now) \<noteq> None) = []"
  by (simp add: differing_def record_of_def new_row_def)

lemma differing_now: "differing (record_of r t) s queue queued = differing (record_of r t') s queue queued"
  by (simp add: differing_def record_of_def)

interpretation starting_again: repeatable C "\<lambda>now. start s queue now strict" "\<lambda>_. True"
proof
  fix d t answer changed d' t'
  assume inv: "store_inv d" and run: "start s queue t strict d = Inr ((answer, changed), d')"
  have same: "collides (new_row s queue t') r = collides (new_row s queue t) r" for r
    by (simp add: collides_def same_idempotency_def new_row_def)
  show "\<exists>answer'. start s queue t' strict d' = Inr ((answer', False), d')"
  proof (cases changed)
    case False
    with run start_cases [OF run] show ?thesis
      by (auto simp: start_def Let_def same differing_now [of _ t' _ _ _ t] split: if_splits option.splits)
  next
    case True
    let ?row = "new_row s queue t"
    from True start_cases [OF run] have d': "d' = d\<lparr>runs := runs d @ [?row]\<rparr>"
      and free: "\<forall>r\<in>set (runs d). \<not> collides ?row r" by auto
    have "collides (new_row s queue t') ?row" by (simp add: collides_def new_row_def)
    then have hit: "\<exists>r\<in>set (runs d'). collides (new_row s queue t') r" by (simp add: d')
    have by_id: "find (\<lambda>r. tenant_id r = rs_tenant_id s \<and> run_id r = rs_run_id s) (runs d') = Some ?row"
      using free unfolding d'
      by (simp, intro find_snoc) (auto simp: collides_def new_row_def)
    have by_key: "truthy (rs_idempotency_key s) \<Longrightarrow> find (\<lambda>r. tenant_id r = rs_tenant_id s \<and>
         idempotency_key r = rs_idempotency_key s) (runs d') = Some ?row"
      using free unfolding d' truthy_def
      by (simp, intro find_snoc) (auto simp: collides_def same_idempotency_def new_row_def)
    show ?thesis
      using hit by_id by_key differing_new_row [of s queue t t']
      by (auto simp: start_def Let_def one_def)
  qed
qed

section \<open>A concrete store\<close>

text \<open>For the witnesses: a run on the queue, and a key that administers its tenant.\<close>

definition demo_queued :: db where
  "demo_queued = empty_db\<lparr>runs := [new_row demo_start True 0]\<rparr>"

definition demo_key :: key_info where
  "demo_key = \<lparr>key_id = ''key_1'', key_tenant = Some ''acme'', principal = ''user:ann'', role = ''admin'',
               may_act_as = []\<rparr>"

lemma demo_queued_start: "\<exists>x. start demo_start True 0 True empty_db = Inr (x, demo_queued)"
  by (auto simp: start_def Let_def empty_db_def demo_queued_def)

lemma demo_queued_inv: "store_inv demo_queued"
  using demo_queued_start starting.keeps_inv [OF demo_laws(1,2) store_inv_empty] by blast

end
