(* ===== verification/Run_Queue.thy ===== *)
theory Run_Queue
  imports Run_Store
begin

text \<open>
  \<open>src/agent_runs/store/runs.py\<close>, the queue: \<open>claim\<close> with \<open>_next_queued\<close>, \<open>_tenant_has_room\<close> and
  \<open>_key_has_room\<close>, \<open>heartbeat\<close> and \<open>release\<close>. What other transactions hold while a claim runs is an
  argument: the rows \<open>SKIP LOCKED\<close> passes over and the advisory locks that can be had.
\<close>

record claim_env =
  row_locked :: "string \<Rightarrow> bool"  \<comment> \<open>by run id: another transaction holds the row\<close>
  lock_free :: "string list \<Rightarrow> bool"  \<comment> \<open>by names: \<open>pg_try_advisory_xact_lock\<close> succeeds\<close>

record claim_request =
  cr_worker_id :: string
  cr_agent_ids :: "string list"
  cr_lease_seconds :: int

record heartbeat_request =
  hb_worker_id :: string
  hb_lease_seconds :: int
  hb_checkpoint :: "json option"

record release_request =
  rl_worker_id :: string
  rl_checkpoint :: "json option"

section \<open>The next run a claim may take\<close>

text \<open>The conditions a claim adds for a tenant or a key it found full: a key condition also holds of
  another tenant's runs.\<close>

datatype passed = NotTenant string | NotTenantKey string "string option"

fun passes :: "passed \<Rightarrow> run_row \<Rightarrow> bool" where
  "passes (NotTenant t) r = (tenant_id r \<noteq> t)"
| "passes (NotTenantKey t k) r = (tenant_id r \<noteq> t \<or> concurrency_key r \<noteq> k)"

text \<open>The runs of these agents a tenant's workers hold.\<close>

definition held_runs :: "run_row list \<Rightarrow> string list \<Rightarrow> string \<Rightarrow> nat" where
  "held_runs rows agents t =
     length (filter (\<lambda>r. leased r \<and> agent_id r \<in> set agents \<and> tenant_id r = t) rows)"

text \<open>The running runs of a tenant that share a key; a null key equals nothing.\<close>

definition running_with_key :: "run_row list \<Rightarrow> string \<Rightarrow> string option \<Rightarrow> nat" where
  "running_with_key rows t k =
     length (filter (\<lambda>r. status r = RUNNING \<and> tenant_id r = t \<and> k \<noteq> None \<and> concurrency_key r = k) rows)"

definition claimable ::
  "store_limits \<Rightarrow> claim_env \<Rightarrow> string option \<Rightarrow> claim_request \<Rightarrow> instant \<Rightarrow> run_row list \<Rightarrow> run_row \<Rightarrow> bool"
  where
  "claimable L E tenant req now rows r \<longleftrightarrow>
     status r = QUEUED \<and>
     agent_id r \<in> set (cr_agent_ids req) \<and>
     (case available_at r of None \<Rightarrow> True | Some t \<Rightarrow> t \<le> now) \<and>
     (concurrency_key r = None \<or>
      int (running_with_key rows (tenant_id r) (concurrency_key r)) < concurrency_per_key L) \<and>
     (case tenant of None \<Rightarrow> True | Some t \<Rightarrow> tenant_id r = t) \<and>
     \<not> row_locked E (run_id r)"

definition claim_order :: "claim_request \<Rightarrow> run_row list \<Rightarrow> run_row \<Rightarrow> nat \<times> int \<times> bool \<times> int" where
  "claim_order req rows r =
     (held_runs rows (cr_agent_ids req) (tenant_id r), - priority r, nulls_last (queued_at r))"

definition next_queued ::
  "store_limits \<Rightarrow> claim_env \<Rightarrow> string option \<Rightarrow> claim_request \<Rightarrow> instant \<Rightarrow> passed list \<Rightarrow> run_row list \<Rightarrow>
   run_row option" where
  "next_queued L E tenant req now ps rows =
     (case query (\<lambda>r. claimable L E tenant req now rows r \<and> (\<forall>p\<in>set ps. passes p r))
             (claim_order req rows) 1 rows of
        [] \<Rightarrow> None
      | r # _ \<Rightarrow> Some r)"

definition tenant_has_room :: "store_limits \<Rightarrow> claim_env \<Rightarrow> run_row list \<Rightarrow> run_row \<Rightarrow> bool" where
  "tenant_has_room L E rows row =
     (case max_running_per_tenant L of
        None \<Rightarrow> True
      | Some cap \<Rightarrow>
          lock_free E [''tenant'', tenant_id row] \<and>
          int (length (filter (\<lambda>r. leased r \<and> tenant_id r = tenant_id row) rows)) < cap)"

definition key_has_room :: "store_limits \<Rightarrow> claim_env \<Rightarrow> run_row list \<Rightarrow> run_row \<Rightarrow> bool" where
  "key_has_room L E rows row =
     (case concurrency_key row of
        None \<Rightarrow> True
      | Some k \<Rightarrow>
          lock_free E [''key'', tenant_id row, k] \<and>
          int (running_with_key rows (tenant_id row) (concurrency_key row)) < concurrency_per_key L)"

section \<open>Claiming\<close>

text \<open>The loop: the next run, until one has room or none is left. Each turn passes over the row it
  found, so at most as many turns are taken as there are rows.\<close>

lemma next_queued_Some:
  assumes "next_queued L E tenant req now ps rows = Some r"
  shows "r \<in> set rows" "claimable L E tenant req now rows r" "\<forall>p\<in>set ps. passes p r"
proof -
  from assms have "r \<in> set (query (\<lambda>r. claimable L E tenant req now rows r \<and> (\<forall>p\<in>set ps. passes p r))
      (claim_order req rows) 1 rows)"
    by (auto simp: next_queued_def split: list.splits)
  from in_queryD [OF this]
  show "r \<in> set rows" "claimable L E tenant req now rows r" "\<forall>p\<in>set ps. passes p r" by auto
qed

lemma passes_fewer:
  assumes "r \<in> set rows" "\<forall>p\<in>set ps. passes p r" "\<not> passes q r"
  shows "length (filter (\<lambda>x. \<forall>p\<in>set (ps @ [q]). passes p x) rows) <
         length (filter (\<lambda>x. \<forall>p\<in>set ps. passes p x) rows)"
proof -
  let ?left = "filter (\<lambda>x. \<forall>p\<in>set ps. passes p x) rows"
  have "filter (\<lambda>x. \<forall>p\<in>set (ps @ [q]). passes p x) rows = filter (passes q) ?left"
    unfolding filter_filter by (rule filter_cong) auto
  moreover have "r \<in> set ?left" using assms by simp
  ultimately show ?thesis using assms(3) by (simp add: length_filter_less del: filter_filter)
qed

function next_with_room ::
  "store_limits \<Rightarrow> claim_env \<Rightarrow> string option \<Rightarrow> claim_request \<Rightarrow> instant \<Rightarrow> passed list \<Rightarrow> run_row list \<Rightarrow>
   run_row option" where
  "next_with_room L E tenant req now ps rows =
     (case next_queued L E tenant req now ps rows of
        None \<Rightarrow> None
      | Some row \<Rightarrow>
          if \<not> tenant_has_room L E rows row
          then next_with_room L E tenant req now (ps @ [NotTenant (tenant_id row)]) rows
          else if \<not> key_has_room L E rows row
          then next_with_room L E tenant req now
                 (ps @ [NotTenantKey (tenant_id row) (concurrency_key row)]) rows
          else Some row)"
  by pat_completeness auto
termination
  by (relation "measure (\<lambda>(L, E, tenant, req, now, ps, rows).
        length (filter (\<lambda>x. \<forall>p\<in>set ps. passes p x) rows))")
    (simp_all only: in_measure case_prod_conv, (auto intro!: passes_fewer dest: next_queued_Some simp del: set_append)+)

declare next_with_room.simps [simp del]

definition claim ::
  "contracts \<Rightarrow> store_limits \<Rightarrow> claim_env \<Rightarrow> string option \<Rightarrow> claim_request \<Rightarrow> instant \<Rightarrow> db \<Rightarrow>
   ((run_record \<times> lease) option \<times> db) result" where
  "claim C L E tenant req now d =
     (case next_with_room L E tenant req now [] (runs d) of
        None \<Rightarrow> Inr (None, d)
      | Some row \<Rightarrow>
          bind_result (move C row RUNNING now) (\<lambda>row.
            let (row, l) = lease_row L row (cr_worker_id req) (cr_lease_seconds req) now
            in Inr (Some (record_of row now, l), save row d)))"

section \<open>Heartbeats and releases\<close>

definition heartbeat ::
  "store_limits \<Rightarrow> string \<Rightarrow> string \<Rightarrow> heartbeat_request \<Rightarrow> instant \<Rightarrow> db \<Rightarrow> (lease \<times> db) result" where
  "heartbeat L tenant rid req now d =
     bind_result (bounded_checkpoint (hb_checkpoint req)) (\<lambda>cp.
       bind_result (locked tenant rid (Some (hb_worker_id req)) d) (\<lambda>row.
         if status row \<noteq> RUNNING then Inl LeaseLost
         else
           let row = (if cp \<noteq> None then row\<lparr>checkpoint := cp, updated_at := now\<rparr> else row);
               (row, l) = lease_row L row (hb_worker_id req) (hb_lease_seconds req) now
           in Inr (l, save row d)))"

definition release ::
  "contracts \<Rightarrow> string \<Rightarrow> string \<Rightarrow> release_request \<Rightarrow> instant \<Rightarrow> db \<Rightarrow>
   ((run_record \<times> bool) \<times> db) result" where
  "release C tenant rid req now d =
     bind_result (bounded_checkpoint (rl_checkpoint req)) (\<lambda>cp.
       bind_result (locked tenant rid None d) (\<lambda>row.
         if settled row QUEUED (Some (rl_worker_id req)) then Inr ((record_of row now, False), d)
         else bind_result (fence row (Some (rl_worker_id req))) (\<lambda>_.
           bind_result (cancelled_instead C row now) (\<lambda>(row, cancelled).
             bind_result
               (if cancelled then Inr row
                else bind_result (requeue C row now None) (\<lambda>row.
                       Inr (if cp \<noteq> None then row\<lparr>checkpoint := cp\<rparr> else row)))
               (\<lambda>row.
                  let row' = row\<lparr>settled_by := Some (rl_worker_id req)\<rparr>
                  in Inr ((record_of row' now, True), ended C [row] now (save row' d)))))))"

section \<open>The loop takes the first run that has room\<close>

definition has_room :: "store_limits \<Rightarrow> claim_env \<Rightarrow> run_row list \<Rightarrow> run_row \<Rightarrow> bool" where
  "has_room L E rows r \<longleftrightarrow> tenant_has_room L E rows r \<and> key_has_room L E rows r"

text \<open>What the loop is for, in one query: the first, in claim order, of the runs that may be claimed
  and have room.\<close>

definition first_with_room ::
  "store_limits \<Rightarrow> claim_env \<Rightarrow> string option \<Rightarrow> claim_request \<Rightarrow> instant \<Rightarrow> run_row list \<Rightarrow> run_row option"
  where
  "first_with_room L E tenant req now rows =
     (case query (\<lambda>r. claimable L E tenant req now rows r \<and> has_room L E rows r)
             (claim_order req rows) 1 rows of
        [] \<Rightarrow> None
      | r # _ \<Rightarrow> Some r)"

lemma tenant_room_shared:
  "tenant_id a = tenant_id b \<Longrightarrow> tenant_has_room L E rows a = tenant_has_room L E rows b"
  by (simp add: tenant_has_room_def split: option.split)

lemma key_room_shared:
  "tenant_id a = tenant_id b \<Longrightarrow> concurrency_key a = concurrency_key b \<Longrightarrow>
   key_has_room L E rows a = key_has_room L E rows b"
  by (simp add: key_has_room_def split: option.split)

lemma passes_with_room:
  "\<not> tenant_has_room L E rows r \<Longrightarrow> has_room L E rows x \<Longrightarrow> passes (NotTenant (tenant_id r)) x"
  "\<not> key_has_room L E rows r \<Longrightarrow> has_room L E rows x \<Longrightarrow>
   passes (NotTenantKey (tenant_id r) (concurrency_key r)) x"
  using tenant_room_shared [of x r L E rows] key_room_shared [of x r L E rows]
  by (auto simp: has_room_def)

lemma next_with_room_first:
  assumes "\<And>x p. has_room L E rows x \<Longrightarrow> p \<in> set ps \<Longrightarrow> passes p x"
  shows "next_with_room L E tenant req now ps rows = first_with_room L E tenant req now rows"
  using assms
proof (induction L E tenant req now ps rows rule: next_with_room.induct)
  case (1 L E tenant req now ps rows)
  let ?P = "\<lambda>r. claimable L E tenant req now rows r \<and> (\<forall>p\<in>set ps. passes p r)"
  let ?Q = "\<lambda>r. claimable L E tenant req now rows r \<and> has_room L E rows r"
  have QP: "?Q x \<Longrightarrow> ?P x" for x using 1(3) by blast
  show ?case
  proof (cases "next_queued L E tenant req now ps rows")
    case None
    then have "query ?P (claim_order req rows) 1 rows = []"
      by (auto simp: next_queued_def split: list.splits)
    from query_none [OF this] have "filter ?Q rows = []" using QP unfolding filter_empty_conv by blast
    then have "first_with_room L E tenant req now rows = None" by (simp add: first_with_room_def query_def)
    with None show ?thesis by (subst next_with_room.simps) simp
  next
    case (Some row)
    consider "\<not> tenant_has_room L E rows row"
      | "tenant_has_room L E rows row" "\<not> key_has_room L E rows row" | "has_room L E rows row"
      by (auto simp: has_room_def)
    then show ?thesis
    proof cases
      assume full: "\<not> tenant_has_room L E rows row"
      have "next_with_room L E tenant req now (ps @ [NotTenant (tenant_id row)]) rows =
          first_with_room L E tenant req now rows"
        using 1(3) passes_with_room(1) [OF full] by (intro 1(1) [OF Some full]) fastforce
      with Some full show ?thesis by (subst next_with_room.simps) simp
    next
      assume full: "tenant_has_room L E rows row" "\<not> key_has_room L E rows row"
      have "next_with_room L E tenant req now
              (ps @ [NotTenantKey (tenant_id row) (concurrency_key row)]) rows =
          first_with_room L E tenant req now rows"
        using 1(3) passes_with_room(2) [OF full(2)] full by (intro 1(2) [OF Some]) fastforce+
      with Some full show ?thesis by (subst next_with_room.simps) simp
    next
      assume room: "has_room L E rows row"
      from Some have "query ?P (claim_order req rows) 1 rows = [row]"
        using query_one_cases [of ?P "claim_order req rows" rows]
        by (auto simp: next_queued_def split: list.splits)
      then have "query ?Q (claim_order req rows) 1 rows = [row]"
        using query_narrow [of ?P _ rows row ?Q] QP room next_queued_Some(2) [OF Some] by blast
      with Some room show ?thesis
        by (subst next_with_room.simps) (simp add: has_room_def first_with_room_def)
    qed
  qed
qed

lemma claim_first:
  "claim C L E tenant req now d =
     (case first_with_room L E tenant req now (runs d) of
        None \<Rightarrow> Inr (None, d)
      | Some row \<Rightarrow>
          bind_result (move C row RUNNING now) (\<lambda>row.
            let (row, l) = lease_row L row (cr_worker_id req) (cr_lease_seconds req) now
            in Inr (Some (record_of row now, l), save row d)))"
proof -
  have "next_with_room L E tenant req now [] (runs d) = first_with_room L E tenant req now (runs d)"
    by (rule next_with_room_first) simp
  then show ?thesis by (simp add: claim_def)
qed

lemma first_with_room_Some:
  assumes "first_with_room L E tenant req now rows = Some r"
  shows "r \<in> set rows" "claimable L E tenant req now rows r" "has_room L E rows r"
    "\<And>x. x \<in> set rows \<Longrightarrow> claimable L E tenant req now rows x \<Longrightarrow> has_room L E rows x \<Longrightarrow>
       claim_order req rows r \<le> claim_order req rows x"
proof -
  let ?Q = "\<lambda>r. claimable L E tenant req now rows r \<and> has_room L E rows r"
  from assms obtain rest where q: "query ?Q (claim_order req rows) 1 rows = r # rest"
    by (auto simp: first_with_room_def split: list.splits)
  then have "r \<in> set (query ?Q (claim_order req rows) 1 rows)" by simp
  from in_queryD [OF this]
  show "r \<in> set rows" "claimable L E tenant req now rows r" "has_room L E rows r" by auto
  show "\<And>x. x \<in> set rows \<Longrightarrow> claimable L E tenant req now rows x \<Longrightarrow> has_room L E rows x \<Longrightarrow>
       claim_order req rows r \<le> claim_order req rows x"
    using query_head [OF q] by blast
qed

lemma first_with_room_None:
  "first_with_room L E tenant req now rows = None \<longleftrightarrow>
   (\<forall>x\<in>set rows. \<not> (claimable L E tenant req now rows x \<and> has_room L E rows x))"
proof -
  let ?Q = "\<lambda>r. claimable L E tenant req now rows r \<and> has_room L E rows r"
  have "first_with_room L E tenant req now rows = None \<longleftrightarrow> query ?Q (claim_order req rows) 1 rows = []"
    by (auto simp: first_with_room_def split: list.splits)
  also have "\<dots> \<longleftrightarrow> filter ?Q rows = []" 
    by (auto simp: query_def min_def simp flip: length_0_conv split: if_splits)
  finally show ?thesis by (simp add: filter_empty_conv)
qed

section \<open>The contract of \<open>claim\<close>, \<open>heartbeat\<close> and \<open>release\<close>\<close>

lemma claim_Inr:
  assumes "claim C L E tenant req now d = Inr (x, d')"
  obtains (none) "x = None" "d' = d" "first_with_room L E tenant req now (runs d) = None"
  | (claimed) r row l where "first_with_room L E tenant req now (runs d) = Some r"
      "can_become C (status r) RUNNING"
      "lease_row L (moved C r RUNNING now) (cr_worker_id req) (cr_lease_seconds req) now = (row, l)"
      "x = Some (record_of row now, l)" "d' = save row d"
  using assms unfolding claim_first
  by (auto split: option.splits prod.splits simp: Let_def)

lemma lease_row_row:
  "lease_row L r w secs now = (row, l) \<Longrightarrow>
   row = r\<lparr>lease_owner := Some w, lease_expires_at := Some (lease_until l)\<rparr>"
  by (auto simp: lease_row_def Let_def)

lemma row_evolves_claimed:
  assumes "row_ok r" "lifecycle_laws C" "can_become C (status r) RUNNING" "status r = QUEUED"
    and "lease_row L (moved C r RUNNING now) w secs now = (row, l)"
  shows "row_evolves r row"
proof -
  from assms(1,4) have q: "queued_at r \<noteq> None" "lease_owner r = None" by (auto simp: row_ok_defs)
  have "row_ok (moved C r RUNNING now)"
    using assms(1,2) row_ok_can_become [OF assms(1-3)] q by (intro row_ok_moved) simp_all
  from row_ok_lease [OF this assms(5)] q(1) have "row_ok row" by simp
  with assms(3) worked_ge [of r now] lease_row_row [OF assms(5)] show ?thesis
    by (intro row_evolves_move [OF assms(2)]) (simp_all add: identity_of_def)
qed

lemma claimable_queued: "claimable L E tenant req now rows r \<Longrightarrow> status r = QUEUED"
  by (simp add: claimable_def)

lemma claim_writes:
  assumes "lifecycle_laws C" "store_inv d" "claim C L E tenant req now d = Inr (x, d')"
  shows "d' = d \<or> (\<exists>r. claimable L E tenant req now (runs d) r \<and> writes_run (tenant_id r) (run_id r) d d')"
  using assms(3)
proof (cases rule: claim_Inr)
  case (claimed r row l)
  note r = first_with_room_Some(1,2) [OF claimed(1)]
  have "row_evolves r row"
    using row_evolves_claimed [OF store_invD(2) [OF assms(2) r(1)] assms(1) claimed(2) claimable_queued [OF r(2)] claimed(3)] .
  moreover have "found (tenant_id r) (run_id r) d = Inr r" using r(1) found_Inr_iff [OF assms(2)] by simp
  ultimately show ?thesis using r(2) claimed(5) by (auto intro: writes_runI)
qed auto

interpretation claiming: store_operation C "claim C L E tenant req now"
proof
  fix d x d'
  assume "lifecycle_laws C" and inv: "store_inv d" and "claim C L E tenant req now d = Inr (x, d')"
  from claim_writes [OF this] inv show "evolves d d'" by (auto dest: writes_run_effect)
qed

interpretation claiming_in: tenant_operation C "claim C L E (Some t) req now" t
proof
  fix d x d'
  assume "lifecycle_laws C" and inv: "store_inv d" and "claim C L E (Some t) req now d = Inr (x, d')"
  from claim_writes [OF this] inv show "others t d' = others t d"
    by (auto dest: writes_run_effect simp: claimable_def)
qed

lemma heartbeat_Inr:
  assumes "heartbeat L tenant rid req now d = Inr (l, d')"
  obtains r r0 row where "found tenant rid d = Inr r" "lease_owner r = Some (hb_worker_id req)"
    "status r = RUNNING"
    "r0 = (if hb_checkpoint req \<noteq> None then r\<lparr>checkpoint := hb_checkpoint req, updated_at := now\<rparr> else r)"
    "lease_row L r0 (hb_worker_id req) (hb_lease_seconds req) now = (row, l)" "d' = save row d"
  using assms by (fastforce simp: heartbeat_def Let_def dest: bounded_checkpoint_InrD split: if_splits prod.splits)

lemma row_evolves_heartbeat:
  assumes "row_ok r" "status r = RUNNING" "lease_owner r = Some w"
    and "r0 = (if cp \<noteq> None then r\<lparr>checkpoint := cp, updated_at := now\<rparr> else r)"
    and "lease_row L r0 w secs now = (row, l)"
  shows "row_evolves r row"
proof -
  from assms(1-3) have q: "queued_at r \<noteq> None" by (auto simp: row_ok_defs)
  have "row_ok (r\<lparr>checkpoint := cp\<rparr>)" using assms(1,2) by (auto simp: row_ok_defs)
  then have "row_ok r0" using assms(1,4) by simp
  moreover have r0: "status r0 = RUNNING" "queued_at r0 = queued_at r" "identity_of r0 = identity_of r"
    "attempt r0 = attempt r" "error_retries r0 = error_retries r" "lease_lapses r0 = lease_lapses r"
    "worked_seconds r0 = worked_seconds r"
    using assms(2,4) by (simp_all add: identity_of_def)
  ultimately have "row_ok row" using row_ok_lease [OF _ assms(5)] q by simp
  with assms(2) q r0 lease_row_row [OF assms(5)] show ?thesis
    by (simp add: row_evolves_def identity_of_def)
qed

interpretation heartbeats: tenant_operation C "heartbeat L tenant rid req now" tenant
proof (rule tenant_operationI)
  fix d x d'
  assume inv: "store_inv d" and run: "heartbeat L tenant rid req now d = Inr (x, d')"
  from run obtain r r0 row where h: "found tenant rid d = Inr r" "lease_owner r = Some (hb_worker_id req)"
    "status r = RUNNING"
    "r0 = (if hb_checkpoint req \<noteq> None then r\<lparr>checkpoint := hb_checkpoint req, updated_at := now\<rparr> else r)"
    "lease_row L r0 (hb_worker_id req) (hb_lease_seconds req) now = (row, x)" "d' = save row d"
    by (rule heartbeat_Inr)
  have "row_evolves r row"
    using row_evolves_heartbeat [OF _ h(3,2,4,5)] store_invD(2) [OF inv] foundD [OF h(1)] by blast
  with h(1,6) show "d' = d \<or> writes_run tenant rid d d'" by (auto intro: writes_runI)
qed

definition released_row :: "contracts \<Rightarrow> run_row \<Rightarrow> release_request \<Rightarrow> instant \<Rightarrow> run_row" where
  "released_row C r req now =
     (let row = (moved C r QUEUED now)\<lparr>attempt := attempt r + 1, queued_at := Some now, available_at := None\<rparr>
      in (if rl_checkpoint req \<noteq> None then row\<lparr>checkpoint := rl_checkpoint req\<rparr> else row)
           \<lparr>settled_by := Some (rl_worker_id req)\<rparr>)"

lemma release_Inr:
  assumes "release C tenant rid req now d = Inr ((answer, changed), d')"
  obtains (repeat) r where "found tenant rid d = Inr r" "d' = d" "\<not> changed" "answer = record_of r now"
      "settled r QUEUED (Some (rl_worker_id req))"
  | (cancelled) r row where "found tenant rid d = Inr r" "changed" "lease_owner r = Some (rl_worker_id req)"
      "cancel_requested_at r \<noteq> None" "can_become C (status r) CANCELLED"
      "row = (moved C r CANCELLED now)\<lparr>settled_by := Some (rl_worker_id req)\<rparr>"
      "answer = record_of row now" "d' = ended C [moved C r CANCELLED now] now (save row d)"
  | (released) r rows where "found tenant rid d = Inr r" "changed"
      "lease_owner r = Some (rl_worker_id req)"
      "cancel_requested_at r = None" "can_become C (status r) QUEUED"
      "answer = record_of (released_row C r req now) now"
      "d' = ended C rows now (save (released_row C r req now) d)"
proof -
  from assms obtain r where r: "found tenant rid d = Inr r"
    and cp: "bounded_checkpoint (rl_checkpoint req) = Inr (rl_checkpoint req)"
    by (auto simp: release_def dest: bounded_checkpoint_InrD)
  show thesis
  proof (cases "settled r QUEUED (Some (rl_worker_id req))")
    case True
    with assms r cp show ?thesis by (intro repeat [OF r]) (auto simp: release_def)
  next
    case fresh: False
    show ?thesis
    proof (cases "cancel_requested_at r = None")
      case False
      with fresh assms r cp show ?thesis
        by (intro cancelled [OF r]) (auto simp: release_def Let_def cancelled_instead_Inr_iff)
    next
      case True
      with fresh assms r cp show ?thesis
        by (cases "rl_checkpoint req"; intro released [OF r])
          (auto simp: release_def Let_def cancelled_instead_Inr_iff requeue_Inr_iff released_row_def Let_def)
    qed
  qed
qed

lemma row_evolves_released:
  assumes "row_ok r" "lifecycle_laws C" "can_become C (status r) QUEUED"
  shows "row_evolves r (released_row C r req now)"
  using row_ok_can_become [OF assms] worked_ge [of r now] worked_nonneg [of r now] assms
  unfolding released_row_def Let_def
  by (intro row_evolves_move [OF assms(2)]) (auto simp: row_ok_defs identity_of_def)

interpretation releasing: tenant_operation C "release C tenant rid req now" tenant
proof (rule tenant_operationI)
  fix d x d'
  assume laws: "lifecycle_laws C" "interrupt_laws C" and inv: "store_inv d"
    and run: "release C tenant rid req now d = Inr (x, d')"
  obtain answer changed where x: "x = (answer, changed)" by (cases x)
  from run [unfolded x] show "d' = d \<or> writes_run tenant rid d d'"
  proof (cases rule: release_Inr)
    case (cancelled r row)
    then have "row_evolves r row"
      using row_evolves_cancelled(1) [of r C] store_invD(2) [OF inv] laws foundD [OF cancelled(1)] by simp
    with cancelled show ?thesis by (auto intro: writes_runI)
  next
    case (released r)
    then have "row_evolves r (released_row C r req now)"
      using row_evolves_released store_invD(2) [OF inv] laws(1) foundD [OF released(1)] by blast
    with released show ?thesis by (auto intro: writes_runI)
  qed auto
qed

interpretation releasing_again: repeatable C "release C tenant rid req" "\<lambda>a. rec_status a = QUEUED"
proof
  fix d t answer changed d' t'
  assume laws: "lifecycle_laws C" "interrupt_laws C" and inv: "store_inv d"
    and run: "release C tenant rid req t d = Inr ((answer, changed), d')"
    and covers: "rec_status answer = QUEUED"
  from run have cp: "bounded_checkpoint (rl_checkpoint req) = Inr (rl_checkpoint req)"
    by (auto simp: release_def dest: bounded_checkpoint_InrD)
  from run show "\<exists>answer'. release C tenant rid req t' d' = Inr ((answer', False), d')"
  proof (cases rule: release_Inr)
    case (repeat r)
    with cp show ?thesis by (auto simp: release_def)
  next
    case (cancelled r row)
    with covers show ?thesis by (simp add: record_of_def)
  next
    case (released r rows)
    have "row_evolves r (released_row C r req t)"
      using row_evolves_released released store_invD(2) [OF inv] laws(1) foundD [OF released(1)] by blast
    with released found_saved(2) [OF inv released(1)]
    have "found tenant rid d' = Inr (released_row C r req t)" by simp
    with cp show ?thesis by (auto simp: release_def settled_def released_row_def Let_def)
  qed
qed

section \<open>Properties\<close>

text \<open>The claim loop, which asks for the next run again and again and passes over the tenants and
  keys it finds full, takes exactly the run one query would: the first in claim order of those that
  may be claimed and have room.\<close>

lemma claim_loop_takes_first:
  "next_with_room L E tenant req now [] rows = first_with_room L E tenant req now rows"
  by (rule next_with_room_first) simp

text \<open>C7. A claim never fails. It answers none exactly when no run it may take has room; a run it
  answers was queued and held by nobody, is now running and leased to this worker, and no run that
  may be claimed and has room comes before it: no tenant whose workers hold fewer runs of these
  agents waits, then no higher priority, then no older run.\<close>

theorem claim_answers:
  assumes "lifecycle_laws C" "store_inv d"
  shows "\<exists>y d'. claim C L E tenant req now d = Inr (y, d') \<and>
    (case y of
       None \<Rightarrow> d' = d \<and> (\<forall>r\<in>set (runs d). \<not> (claimable L E tenant req now (runs d) r \<and> has_room L E (runs d) r))
     | Some (rec, l) \<Rightarrow>
         \<exists>r\<in>set (runs d). claimable L E tenant req now (runs d) r \<and> has_room L E (runs d) r \<and>
           lease_owner r = None \<and>
           (\<forall>x\<in>set (runs d). claimable L E tenant req now (runs d) x \<and> has_room L E (runs d) x \<longrightarrow>
              claim_order req (runs d) r \<le> claim_order req (runs d) x) \<and>
           rec_run_id rec = run_id r \<and> rec_status rec = RUNNING \<and> rec_attempt rec = attempt r \<and>
           lease_run_id l = run_id r \<and> lease_worker_id l = cr_worker_id req \<and>
           (\<exists>r'. found (tenant_id r) (run_id r) d' = Inr r' \<and> status r' = RUNNING \<and>
              lease_owner r' = Some (cr_worker_id req) \<and> lease_expires_at r' = Some (lease_until l)))"
proof (cases "first_with_room L E tenant req now (runs d)")
  case None
  then have "claim C L E tenant req now d = Inr (None, d)" by (simp add: claim_first)
  with None show ?thesis unfolding first_with_room_None by auto
next
  case (Some r)
  note r = first_with_room_Some [OF Some]
  obtain row l where row: "lease_row L (moved C r RUNNING now) (cr_worker_id req) (cr_lease_seconds req) now = (row, l)"
    by (cases "lease_row L (moved C r RUNNING now) (cr_worker_id req) (cr_lease_seconds req) now")
  from r(2) have q: "status r = QUEUED" by (rule claimable_queued)
  with assms(1) have can: "can_become C (status r) RUNNING" by simp
  have free: "lease_owner r = None" using q store_invD(2) [OF assms(2) r(1)] by (auto simp: row_ok_defs)
  have ev: "row_evolves r row"
    using row_evolves_claimed [OF store_invD(2) [OF assms(2) r(1)] assms(1) can q row] .
  have "found (tenant_id r) (run_id r) d = Inr r" using found_Inr_iff [OF assms(2)] r(1) by simp
  from found_saved(1) [OF assms(2) this ev] have fd: "found (tenant_id r) (run_id r) (save row d) = Inr row" .
  have cols: "status row = RUNNING" "lease_owner row = Some (cr_worker_id req)"
    "lease_expires_at row = Some (lease_until l)" "run_id row = run_id r" "attempt row = attempt r"
    "lease_run_id l = run_id r" "lease_worker_id l = cr_worker_id req"
    using row by (auto simp: lease_row_def Let_def)
  have "claim C L E tenant req now d = Inr (Some (record_of row now, l), save row d)"
    using Some can row by (simp add: claim_first move_def)
  with r free fd cols show ?thesis by (auto simp: record_of_def)
qed


definition demo_limits :: store_limits where
  "demo_limits = \<lparr>max_run_seconds = Some 60, concurrency_per_key = 1, max_running_per_tenant = Some 2\<rparr>"

definition demo_env :: claim_env where
  "demo_env = \<lparr>row_locked = (\<lambda>_. False), lock_free = (\<lambda>_. True)\<rparr>"

definition demo_request :: claim_request where
  "demo_request = \<lparr>cr_worker_id = ''w1'', cr_agent_ids = [''planner''], cr_lease_seconds = 60\<rparr>"

theorem claim_answers_witness:
  "\<exists>y d'. claim demo_contracts demo_limits demo_env None demo_request 1 demo_queued = Inr (y, d')"
  using claim_answers [OF demo_laws(1) demo_queued_inv, of demo_limits demo_env None demo_request 1] by blast

text \<open>C8. A claim never takes a run past a limit: after it, the tenant's workers hold no more runs
  than its cap, and no more runs of the tenant run with the claimed run's concurrency key than
  allowed.\<close>

theorem claim_capacity:
  assumes "store_inv d" "claim C L E tenant req now d = Inr (Some (rec, l), d')"
  shows "(\<forall>cap. max_running_per_tenant L = Some cap \<longrightarrow>
           int (length (filter (\<lambda>r. leased r \<and> tenant_id r = rec_tenant_id rec) (runs d'))) \<le> cap) \<and>
         (rec_concurrency_key rec \<noteq> None \<longrightarrow>
           int (running_with_key (runs d') (rec_tenant_id rec) (rec_concurrency_key rec)) \<le> concurrency_per_key L)"
proof -
  from assms(2) obtain r row where first: "first_with_room L E tenant req now (runs d) = Some r"
    and lr: "lease_row L (moved C r RUNNING now) (cr_worker_id req) (cr_lease_seconds req) now = (row, l)"
    and d': "rec = record_of row now" "d' = save row d"
    by (cases rule: claim_Inr) auto
  from lease_row_row [OF lr] d'(1)
  have same: "rec_tenant_id rec = tenant_id r" "rec_concurrency_key rec = concurrency_key r"
    by (simp_all add: record_of_def)
  note room = first_with_room_Some(3) [OF first, unfolded has_room_def]
  note one_more = length_filter_put_row [OF store_invD(3) [OF assms(1)], of _ row]
  have "int (length (filter (\<lambda>r. leased r \<and> tenant_id r = rec_tenant_id rec) (runs d'))) \<le> cap"
    if "max_running_per_tenant L = Some cap" for cap
    using room one_more [of "\<lambda>q. leased q \<and> tenant_id q = tenant_id r"] that
    by (simp add: d'(2) same tenant_has_room_def)
  moreover have "int (running_with_key (runs d') (rec_tenant_id rec) (rec_concurrency_key rec)) \<le> concurrency_per_key L"
    if "rec_concurrency_key rec \<noteq> None"
    using room one_more [of "\<lambda>q. status q = RUNNING \<and> tenant_id q = tenant_id r \<and> concurrency_key r \<noteq> None \<and>
        concurrency_key q = concurrency_key r"] that
    by (auto simp: d'(2) same key_has_room_def running_with_key_def split: option.splits)
  ultimately show ?thesis by blast
qed

definition demo_leased_row :: run_row where
  "demo_leased_row = (moved demo_contracts (new_row demo_start True 0) RUNNING 1)
     \<lparr>lease_owner := Some ''w1'', lease_expires_at := Some 60000001\<rparr>"

definition demo_leased :: db where
  "demo_leased = demo_queued\<lparr>runs := [demo_leased_row]\<rparr>"

lemma demo_claim:
  "\<exists>l. claim demo_contracts demo_limits demo_env None demo_request 1 demo_queued =
     Inr (Some (record_of demo_leased_row 1, l), demo_leased)"
  by (simp add: claim_first first_with_room_def query_def demo_queued_def empty_db_def new_row_def demo_start_def
      claimable_def has_room_def tenant_has_room_def key_has_room_def running_with_key_def leased_def
      demo_limits_def demo_env_def demo_request_def move_def lease_row_def Let_def demo_leased_row_def
      demo_leased_def save_def put_row_def timedelta_seconds_def)

lemma demo_leased_inv: "store_inv demo_leased"
  using demo_claim claiming.keeps_inv [OF demo_laws(1,2) demo_queued_inv] by blast

theorem claim_capacity_witness:
  "int (running_with_key (runs demo_leased) ''acme'' (Some ''lane'')) \<le> 1"
proof -
  from demo_claim obtain l where "claim demo_contracts demo_limits demo_env None demo_request 1 demo_queued =
     Inr (Some (record_of demo_leased_row 1, l), demo_leased)" ..
  from claim_capacity [OF demo_queued_inv this] show ?thesis
    by (simp add: record_of_def demo_leased_row_def new_row_def demo_start_def demo_limits_def)
qed

end
