(* ===== verification/Run_Sweeps.thy ===== *)
theory Run_Sweeps
  imports Run_Queue
begin

text \<open>
  \<open>src/agent_runs/store/runs.py\<close>, the ticker's sweeps: \<open>time_out_past_deadline\<close>,
  \<open>time_out_overworked\<close>, \<open>requeue_lapsed\<close>, \<open>escalate_overdue\<close> and \<open>purge_ended\<close>. A sweep takes the
  rows its condition selects, in its order, up to its limit, passing over the rows another
  transaction holds, writes each, and starts the retention of the artifacts of those that ended.
\<close>

definition SOURCE :: "string option" where
  "SOURCE = Some ''agent-runs''"

definition sweep ::
  "(string \<Rightarrow> bool) \<Rightarrow> (run_row \<Rightarrow> bool) \<Rightarrow> (run_row \<Rightarrow> 'k::linorder) \<Rightarrow> nat \<Rightarrow> db \<Rightarrow> run_row list" where
  "sweep busy cond order limit d = query (\<lambda>r. cond r \<and> \<not> busy (run_id r)) order limit (runs d)"

text \<open>\<open>for row in rows: ...\<close>: each row written by the loop's body, a raise ending the sweep.\<close>

fun each_row :: "(run_row \<Rightarrow> run_row result) \<Rightarrow> run_row list \<Rightarrow> run_row list result" where
  "each_row f [] = Inr []"
| "each_row f (r # rs) = bind_result (f r) (\<lambda>r'. bind_result (each_row f rs) (\<lambda>rs'. Inr (r' # rs')))"

definition swept ::
  "contracts \<Rightarrow> (run_row \<Rightarrow> run_row result) \<Rightarrow> run_row list \<Rightarrow> instant \<Rightarrow> db \<Rightarrow> (run_record list \<times> db) result" where
  "swept C f rows now d =
     bind_result (each_row f rows) (\<lambda>rows.
       Inr (map (\<lambda>r. record_of r now) rows, ended C rows now (rewritten rows d)))"

section \<open>Deadlines and working time\<close>

definition run_deadline_error :: "instant option \<Rightarrow> agent_error" where
  "run_deadline_error t = \<lparr>ae_code = ''run_deadline'', ae_category = Timeout,
     ae_message = DeadlinePassed t, ae_retryable = False, ae_source = SOURCE, ae_rest = JNull\<rparr>"

definition time_out_past_deadline ::
  "contracts \<Rightarrow> (string \<Rightarrow> bool) \<Rightarrow> instant \<Rightarrow> nat \<Rightarrow> db \<Rightarrow> (run_record list \<times> db) result" where
  "time_out_past_deadline C busy now limit d =
     swept C
       (\<lambda>row. bind_result (move C row TIMEOUT now) (\<lambda>row.
          Inr (row\<lparr>run_error := Some (run_deadline_error (deadline row))\<rparr>)))
       (sweep busy (\<lambda>r. status r \<in> {QUEUED, RUNNING, PAUSED} \<and> sql_less (deadline r) now)
          (\<lambda>r. nulls_last (deadline r)) limit d)
       now d"

text \<open>\<open>LEAST\<close> ignores a null; a comparison with a null is not true.\<close>

definition allowed_seconds :: "store_limits \<Rightarrow> run_row \<Rightarrow> seconds option" where
  "allowed_seconds L row =
     (case max_run_seconds L of
        None \<Rightarrow> timeout_seconds row
      | Some m \<Rightarrow> (case timeout_seconds row of None \<Rightarrow> Some m | Some s \<Rightarrow> Some (min s m)))"

definition working_past :: "store_limits \<Rightarrow> instant \<Rightarrow> run_row \<Rightarrow> bool" where
  "working_past L now row =
     (case (running_since row, allowed_seconds L row) of
        (Some since, Some a) \<Rightarrow> worked_seconds row + total_seconds (now - since) > a
      | _ \<Rightarrow> False)"

definition run_timeout_error :: "seconds \<Rightarrow> seconds option \<Rightarrow> agent_error" where
  "run_timeout_error w a = \<lparr>ae_code = ''run_timeout'', ae_category = Timeout,
     ae_message = Worked w a, ae_retryable = False, ae_source = SOURCE, ae_rest = JNull\<rparr>"

definition time_out_overworked ::
  "contracts \<Rightarrow> store_limits \<Rightarrow> (string \<Rightarrow> bool) \<Rightarrow> instant \<Rightarrow> nat \<Rightarrow> db \<Rightarrow>
   (run_record list \<times> db) result" where
  "time_out_overworked C L busy now limit d =
     swept C
       (\<lambda>row. bind_result (move C row TIMEOUT now) (\<lambda>row.
          Inr (row\<lparr>run_error := Some (run_timeout_error (worked_seconds row) (limit_of L row))\<rparr>)))
       (sweep busy (\<lambda>r. status r = RUNNING \<and> working_past L now r)
          (\<lambda>r. nulls_last (running_since r)) limit d)
       now d"

section \<open>Lapsed leases\<close>

definition lease_expired_error :: "contracts \<Rightarrow> int \<Rightarrow> agent_error" where
  "lease_expired_error C n = \<lparr>ae_code = ''lease_expired'', ae_category = Timeout,
     ae_message = Lapsed n, ae_retryable = category_retryable C Timeout, ae_source = SOURCE,
     ae_rest = JNull\<rparr>"

definition lapse_row :: "contracts \<Rightarrow> rat \<Rightarrow> instant \<Rightarrow> run_row \<Rightarrow> run_row result" where
  "lapse_row C u now row =
     bind_result (cancelled_instead C row now) (\<lambda>(row, cancelled).
       if cancelled then Inr row
       else
         let row = row\<lparr>lease_lapses := lease_lapses row + 1\<rparr> in
         if lease_lapses row \<ge> MAX_LEASE_LAPSES
         then bind_result (move C row ERROR now) (\<lambda>row.
                Inr (row\<lparr>run_error := Some (lease_expired_error C (lease_lapses row))\<rparr>))
         else requeue C row now
                (Some (jittered u (backoff LAPSE_RETRY_BASE (lease_lapses row) LAPSE_RETRY_CAP))))"

text \<open>\<open>u\<close> gives the draw of the jitter for each run.\<close>

definition requeue_lapsed ::
  "contracts \<Rightarrow> (string \<Rightarrow> rat) \<Rightarrow> (string \<Rightarrow> bool) \<Rightarrow> instant \<Rightarrow> nat \<Rightarrow> db \<Rightarrow>
   (run_record list \<times> db) result" where
  "requeue_lapsed C u busy now limit d =
     swept C (\<lambda>row. lapse_row C (u (run_id row)) now row)
       (sweep busy (\<lambda>r. status r = RUNNING \<and> sql_less (lease_expires_at r) now)
          (\<lambda>r. nulls_last (lease_expires_at r)) limit d)
       now d"

section \<open>Overdue questions\<close>

definition interrupt_deadline_error :: "contracts \<Rightarrow> instant option \<Rightarrow> agent_error" where
  "interrupt_deadline_error C t = \<lparr>ae_code = ''interrupt_deadline'', ae_category = Timeout,
     ae_message = Unanswered t, ae_retryable = category_retryable C Timeout, ae_source = SOURCE,
     ae_rest = JNull\<rparr>"

definition escalate_row :: "contracts \<Rightarrow> instant \<Rightarrow> run_row \<Rightarrow> run_row result" where
  "escalate_row C now row =
     (case awaiting row of
        None \<Rightarrow> Inl Unprocessable  \<comment> \<open>\<open>Interrupt.model_validate(None)\<close> raises\<close>
      | Some i \<Rightarrow>
          if truthy (i_escalate_to i)
          then let e = i\<lparr>i_assignee := i_escalate_to i, i_escalate_to := None, i_deadline := None\<rparr>
               in Inr (row\<lparr>awaiting := Some (awaiting_of C e), assignee := i_assignee e,
                           awaiting_deadline := None, updated_at := now\<rparr>)
          else bind_result (move C row TIMEOUT now) (\<lambda>row.
                 Inr (row\<lparr>run_error := Some (interrupt_deadline_error C (i_deadline i))\<rparr>)))"

definition escalate_overdue ::
  "contracts \<Rightarrow> (string \<Rightarrow> bool) \<Rightarrow> instant \<Rightarrow> nat \<Rightarrow> db \<Rightarrow> (run_record list \<times> db) result" where
  "escalate_overdue C busy now limit d =
     swept C (escalate_row C now)
       (sweep busy (\<lambda>r. status r = PAUSED \<and> sql_less (awaiting_deadline r) now)
          (\<lambda>r. nulls_last (awaiting_deadline r)) limit d)
       now d"

section \<open>Retention\<close>

text \<open>The delete of a run takes its events with it (\<open>ON DELETE CASCADE\<close>); an artifact that still
  refers to a deleted run would be a foreign key violation.\<close>

definition purge_ended ::
  "contracts \<Rightarrow> (string \<Rightarrow> bool) \<Rightarrow> instant \<Rightarrow> nat \<Rightarrow> db \<Rightarrow> (nat \<times> db) result" where
  "purge_ended C busy before limit d =
     (let gone = map run_id
            (query (\<lambda>r. final C (status r) \<and> updated_at r < before \<and>
                        \<not> (\<exists>a\<in>set (run_artifacts d). art_run_id a = run_id r) \<and> \<not> busy (run_id r))
               updated_at limit (runs d))
      in if \<exists>a\<in>set (run_artifacts d). art_run_id a \<in> set gone then Inl IntegrityError
         else Inr (length gone,
                d\<lparr>resolutions := filter (\<lambda>k. rr_run_id k \<notin> set gone) (resolutions d),
                  runs := filter (\<lambda>r. run_id r \<notin> set gone) (runs d),
                  run_events := filter (\<lambda>e. re_run_id e \<notin> set gone) (run_events d)\<rparr>))"

section \<open>The contract of the sweeps\<close>

lemma each_row_Inr_iff: "each_row f rs = Inr rs' \<longleftrightarrow> list_all2 (\<lambda>r r'. f r = Inr r') rs rs'"
  by (induction rs arbitrary: rs') (auto simp: list_all2_Cons1)

lemma each_row_succeeds: "\<forall>r\<in>set rs. \<exists>r'. f r = Inr r' \<Longrightarrow> \<exists>rs'. each_row f rs = Inr rs'"
  by (induction rs) auto

lemma each_row_set:
  assumes "each_row f rs = Inr rs'"
  shows "r' \<in> set rs' \<Longrightarrow> \<exists>r\<in>set rs. f r = Inr r'" "r \<in> set rs \<Longrightarrow> \<exists>r'\<in>set rs'. f r = Inr r'"
  using assms unfolding each_row_Inr_iff by (induction rule: list_all2_induct) auto

lemma in_sweepD:
  "r \<in> set (sweep busy cond order limit d) \<Longrightarrow> r \<in> set (runs d) \<and> cond r \<and> \<not> busy (run_id r)"
  unfolding sweep_def by (drule in_queryD) auto

lemma swept_effect:
  assumes "store_inv d" "swept C f (sweep busy cond order limit d) now d = Inr (x, d')"
    and "\<And>r r'. row_ok r \<Longrightarrow> cond r \<Longrightarrow> f r = Inr r' \<Longrightarrow> row_evolves r r'"
  shows "evolves d d'"
proof -
  from assms(2) obtain rs where rs: "each_row f (sweep busy cond order limit d) = Inr rs"
    and d': "d' = ended C rs now (rewritten rs d)" by (auto simp: swept_def)
  have "\<forall>q'\<in>set rs. \<exists>q\<in>set (runs d). row_evolves q q'"
  proof
    fix q' assume "q' \<in> set rs"
    from each_row_set(1) [OF rs this] obtain q where q: "q \<in> set (sweep busy cond order limit d)"
      "f q = Inr q'" by blast
    from in_sweepD [OF q(1)] q(2) assms(3) store_invD(2) [OF assms(1)]
    show "\<exists>q\<in>set (runs d). row_evolves q q'" by blast
  qed
  with evolves_rewritten [OF assms(1)] d' show ?thesis by simp
qed

lemma row_evolves_timed_out:
  assumes "row_ok r" "lifecycle_laws C" "status r \<in> {QUEUED, RUNNING, PAUSED}"
  shows "row_evolves r ((moved C r TIMEOUT now)\<lparr>run_error := Some e\<rparr>)"
  using assms by (intro row_evolves_ended(2)) auto

lemma lapse_row_Inr:
  assumes "row_ok r" "lifecycle_laws C" "status r = RUNNING"
  shows "\<exists>r'. lapse_row C u now r = Inr r'"
  using assms by (auto simp: lapse_row_def cancelled_instead_def move_def requeue_def Let_def)

lemma worked_lapses [simp]: "worked (r\<lparr>lease_lapses := n\<rparr>) now = worked r now"
  by (simp add: worked_def split: option.split)

lemma row_evolves_lapsed:
  assumes "row_ok r" "lifecycle_laws C" "status r = RUNNING" "lease_owner r \<noteq> None"
    and "lapse_row C u now r = Inr r'"
  shows "row_evolves r r'"
proof (cases "cancel_requested_at r = None")
  case False
  with assms row_evolves_cancelled(4) [OF assms(1,2)] show ?thesis
    by (auto simp: lapse_row_def cancelled_instead_def move_def)
next
  case asked: True
  note live = row_ok_live [OF assms(1)]
  show ?thesis
  proof (cases "lease_lapses r + 1 \<ge> MAX_LEASE_LAPSES")
    case True
    with asked assms have "r' = (moved C (r\<lparr>lease_lapses := lease_lapses r + 1\<rparr>) ERROR now)
        \<lparr>run_error := Some (lease_expired_error C (lease_lapses r + 1))\<rparr>"
      by (auto simp: lapse_row_def cancelled_instead_def Let_def)
    then show ?thesis
      using live worked_ge [of r now] worked_nonneg [of r now] assms(1-3)
      by (intro row_evolves_move [OF assms(2)]) (auto simp: row_ok_defs identity_of_def)
  next
    case False
    with asked assms obtain w where r': "r' = (moved C (r\<lparr>lease_lapses := lease_lapses r + 1\<rparr>) QUEUED now)
        \<lparr>attempt := attempt r + 1, queued_at := Some now, available_at := Some w\<rparr>"
      by (auto simp: lapse_row_def cancelled_instead_def Let_def requeue_Inr_iff)
    have "row_ok r'"
      using False live worked_nonneg [of r now] assms(1,3) unfolding r' by (auto simp: row_ok_defs)
    then show ?thesis
      using worked_ge [of r now] assms(2,3) unfolding r'
      by (intro row_evolves_move [OF assms(2)]) (simp_all add: identity_of_def)
  qed
qed

lemma row_evolves_escalated:
  assumes "row_ok r" "lifecycle_laws C" "interrupt_laws C" "status r = PAUSED"
    and "escalate_row C now r = Inr r'"
  shows "row_evolves r r'"
proof -
  from assms(1,4) obtain i where i: "awaiting r = Some i" by (auto simp: row_ok_defs)
  show ?thesis
  proof (cases "truthy (i_escalate_to i)")
    case True
    with i assms have "r' = r\<lparr>awaiting := Some (i\<lparr>i_assignee := i_escalate_to i, i_escalate_to := None,
        i_deadline := None\<rparr>), assignee := i_escalate_to i, awaiting_deadline := None, updated_at := now\<rparr>"
      by (auto simp: escalate_row_def Let_def)
    with i assms(1,4) show ?thesis by (auto simp: row_evolves_def row_ok_defs identity_of_def)
  next
    case False
    with i assms row_evolves_timed_out [OF assms(1,2)] show ?thesis
      by (auto simp: escalate_row_def)
  qed
qed

interpretation deadlines: store_operation C "time_out_past_deadline C busy now limit"
  using row_evolves_timed_out unfolding time_out_past_deadline_def
  by unfold_locales (erule (1) swept_effect, auto)

interpretation overworked: store_operation C "time_out_overworked C L busy now limit"
  using row_evolves_timed_out unfolding time_out_overworked_def
  by unfold_locales (erule (1) swept_effect, auto)

interpretation lapses: store_operation C "requeue_lapsed C u busy now limit"
proof
  fix d x d'
  assume laws: "lifecycle_laws C" and inv: "store_inv d"
    and run: "requeue_lapsed C u busy now limit d = Inr (x, d')"
  show "evolves d d'"
    using inv run [unfolded requeue_lapsed_def]
  proof (rule swept_effect)
    fix r r' assume r: "row_ok r" "status r = RUNNING \<and> sql_less (lease_expires_at r) now"
      "lapse_row C (u (run_id r)) now r = Inr r'"
    then have "lease_owner r \<noteq> None" by (auto simp: row_ok_defs sql_less_def split: option.splits)
    with r laws row_evolves_lapsed show "row_evolves r r'" by blast
  qed
qed

interpretation escalations: store_operation C "escalate_overdue C busy now limit"
  using row_evolves_escalated unfolding escalate_overdue_def
  by unfold_locales (erule (1) swept_effect, blast)

lemma purge_Inr:
  assumes "purge_ended C busy before limit d = Inr (n, d')"
  obtains gone where
    "gone \<subseteq> {r \<in> set (runs d). final C (status r) \<and> updated_at r < before \<and> \<not> busy (run_id r)}"
    "\<forall>a\<in>set (run_artifacts d). art_run_id a \<notin> run_id ` gone"
    "runs d' = filter (\<lambda>r. run_id r \<notin> run_id ` gone) (runs d)"
    "resolutions d' = filter (\<lambda>k. rr_run_id k \<notin> run_id ` gone) (resolutions d)"
    "run_events d' = filter (\<lambda>e. re_run_id e \<notin> run_id ` gone) (run_events d)"
    "run_artifacts d' = run_artifacts d"
proof -
  let ?q = "query (\<lambda>r. final C (status r) \<and> updated_at r < before \<and>
      \<not> (\<exists>a\<in>set (run_artifacts d). art_run_id a = run_id r) \<and> \<not> busy (run_id r)) updated_at limit (runs d)"
  from assms have free: "\<not> (\<exists>a\<in>set (run_artifacts d). art_run_id a \<in> run_id ` set ?q)"
    and d': "d' = d\<lparr>resolutions := filter (\<lambda>k. rr_run_id k \<notin> run_id ` set ?q) (resolutions d),
          runs := filter (\<lambda>r. run_id r \<notin> run_id ` set ?q) (runs d),
          run_events := filter (\<lambda>e. re_run_id e \<notin> run_id ` set ?q) (run_events d)\<rparr>"
    unfolding purge_ended_def Let_def set_map by (simp_all only: split: if_splits) simp_all
  show thesis
    by (rule that [of "set ?q"]) (use free d' in \<open>auto dest!: in_queryD\<close>)
qed

lemma purge_purges:
  assumes laws: "lifecycle_laws C" and inv: "store_inv d"
    and run: "purge_ended C busy before limit d = Inr (x, d')"
  shows "purges d d'"
proof -
  from run obtain gone where
    gone: "gone \<subseteq> {r \<in> set (runs d). final C (status r) \<and> updated_at r < before \<and> \<not> busy (run_id r)}"
      "\<forall>a\<in>set (run_artifacts d). art_run_id a \<notin> run_id ` gone"
    and d': "runs d' = filter (\<lambda>r. run_id r \<notin> run_id ` gone) (runs d)"
      "resolutions d' = filter (\<lambda>k. rr_run_id k \<notin> run_id ` gone) (resolutions d)"
      "run_events d' = filter (\<lambda>e. re_run_id e \<notin> run_id ` gone) (run_events d)"
      "run_artifacts d' = run_artifacts d"
    by (rule purge_Inr)
  have ids: "run_id ` set (runs d') = run_id ` set (runs d) - run_id ` gone" unfolding d'(1) by auto
  have "db_ok d'"
    using store_invD(1) [OF inv] gone(2) unfolding db_ok_def unfolding ids unfolding d'
    by (auto simp: distinct_map unique_idempotency_def intro: inj_on_subset)
  moreover have "log_ok (run_events d')"
    unfolding d' using log_ok_filter [OF store_invD(4) [OF inv]] .
  moreover have "run_id r \<notin> run_id ` gone \<or> documented_final (status r)" if "r \<in> set (runs d)" for r
    using gone(1) run_id_unique [OF inv that] laws by fastforce
  moreover have "\<forall>k\<in>set (resolutions d). rr_run_id k \<in> run_id ` set (runs d)"
    "\<forall>e\<in>set (run_events d). re_run_id e \<in> run_id ` set (runs d)"
    using store_invD(1) [OF inv] by (auto simp: db_ok_def)
  ultimately show ?thesis unfolding purges_def ids by (auto simp: d')
qed

section \<open>A sweep does not fail, and leaves nothing behind that it had room for\<close>

lemma swept_succeeds:
  assumes "store_inv d" "\<And>r. row_ok r \<Longrightarrow> cond r \<Longrightarrow> \<exists>r'. f r = Inr r'"
  shows "\<exists>x d'. swept C f (sweep busy cond order limit d) now d = Inr (x, d')"
proof -
  have "\<exists>rs'. each_row f (sweep busy cond order limit d) = Inr rs'"
    using assms(2) store_invD(2) [OF assms(1)] by (intro each_row_succeeds) (blast dest: in_sweepD)
  then show ?thesis by (auto simp: swept_def)
qed

lemma swept_complete:
  assumes "store_inv d" "swept C f (sweep busy cond order limit d) now d = Inr (x, d')"
    and "length (filter cond (runs d)) \<le> limit"
    and "\<And>r r'. row_ok r \<Longrightarrow> cond r \<Longrightarrow> f r = Inr r' \<Longrightarrow> run_id r' = run_id r \<and> \<not> cond r'"
    and "r \<in> set (runs d')" "cond r"
  shows "busy (run_id r) \<and> r \<in> set (runs d)"
proof -
  let ?sw = "sweep busy cond order limit d"
  from assms(2) obtain rs where rs: "each_row f ?sw = Inr rs"
    and d': "d' = ended C rs now (rewritten rs d)" by (auto simp: swept_def)
  have "r \<notin> set rs"
    using each_row_set(1) [OF rs] assms(4,6) in_sweepD store_invD(2) [OF assms(1)] by metis
  with assms(5) d' have r: "r \<in> set (runs d)" "run_id r \<notin> run_id ` set rs"
    using in_put_rows [of r run_id rs "runs d"] by auto
  have "r \<notin> set ?sw"
  proof
    assume "r \<in> set ?sw"
    from each_row_set(2) [OF rs this] obtain r' where "r' \<in> set rs" "f r = Inr r'" by blast
    with assms(4,6) r store_invD(2) [OF assms(1)] show False by (metis imageI)
  qed
  moreover have "length (filter (\<lambda>r. cond r \<and> \<not> busy (run_id r)) (runs d)) \<le> limit"
    using assms(3) length_filter_le [of "\<lambda>r. \<not> busy (run_id r)" "filter cond (runs d)"]
    by (simp add: filter_filter conj_commute)
  ultimately show ?thesis using r(1) assms(6) by (auto simp: sweep_def query_def)
qed

end
