(* ===== verification/Run_Log.thy ===== *)
theory Run_Log
  imports Run_Sweeps
begin

text \<open>
  \<open>src/agent_runs/store/runs.py\<close>, the artifacts' writer check and the event log:
  \<open>check_artifact_writer\<close>, \<open>append_events\<close> and \<open>events\<close>.
\<close>

definition PAUSED_ARTIFACT_ROLE :: string where
  "PAUSED_ARTIFACT_ROLE = ''service''"

definition check_artifact_writer ::
  "string \<Rightarrow> string \<Rightarrow> string option \<Rightarrow> string \<Rightarrow> db \<Rightarrow> unit result" where
  "check_artifact_writer tenant rid worker_id key_role d =
     bind_result (found tenant rid d) (\<lambda>row.
       if status row = RUNNING then held_by row worker_id
       else if status row = PAUSED
       then (if key_role \<noteq> PAUSED_ARTIFACT_ROLE then Inl Forbidden else Inr ())
       else if worker_id \<noteq> None then Inl LeaseLost
       else Inl (Conflict []))"

section \<open>Appending\<close>

text \<open>The loop over the events sent: \<open>seen\<close> are the attempts and sequences already logged,
  \<open>position\<close> the last one taken.\<close>

fun append_loop ::
  "string \<Rightarrow> string \<Rightarrow> run_event list \<Rightarrow> (int \<times> int) set \<Rightarrow> int \<Rightarrow> run_event_row list" where
  "append_loop tenant rid [] seen position = []"
| "append_loop tenant rid (e # es) seen position =
     (if (ev_attempt e, ev_sequence e) \<in> seen then append_loop tenant rid es seen position
      else \<lparr>re_run_id = rid, re_position = position + 1, re_tenant_id = tenant,
            re_attempt = ev_attempt e, re_sequence = ev_sequence e, re_event = e\<rparr>
           # append_loop tenant rid es (insert (ev_attempt e, ev_sequence e) seen) (position + 1))"

definition log_of :: "string \<Rightarrow> db \<Rightarrow> run_event_row list" where
  "log_of rid d = events_of rid (run_events d)"

text \<open>\<open>coalesce(max(position), 0)\<close>.\<close>

definition last_position :: "string \<Rightarrow> db \<Rightarrow> int" where
  "last_position rid d =
     (let ps = map re_position (log_of rid d) in if ps = [] then 0 else Max (set ps))"

definition logged :: "string \<Rightarrow> run_event list \<Rightarrow> db \<Rightarrow> (int \<times> int) set" where
  "logged rid es d =
     {p \<in> (\<lambda>e. (re_attempt e, re_sequence e)) ` set (log_of rid d).
        p \<in> (\<lambda>e. (ev_attempt e, ev_sequence e)) ` set es}"

text \<open>The rows are added when the session is flushed: a key already there is an integrity error.\<close>

definition append_events ::
  "string \<Rightarrow> string \<Rightarrow> run_event list \<Rightarrow> string option \<Rightarrow> db \<Rightarrow> ((nat \<times> int) \<times> db) result" where
  "append_events tenant rid es worker_id d =
     (if \<exists>e\<in>set es. (ev_tenant_id e, ev_run_id e) \<noteq> (tenant, rid) then Inl Unprocessable
      else bind_result (locked tenant rid None d) (\<lambda>row.
        if status row \<noteq> RUNNING
        then (if worker_id \<noteq> None then Inl LeaseLost else Inl (Conflict []))
        else bind_result (held_by row worker_id) (\<lambda>_.
          let last = last_position rid d;
              new = append_loop tenant rid es (logged rid es d) last;
              rows = run_events d @ new
          in if distinct (map event_key rows) \<and> distinct (map event_sequence rows)
             then Inr ((length new, last + int (length new)), d\<lparr>run_events := rows\<rparr>)
             else Inl IntegrityError)))"

text \<open>Two reads of one \<open>READ COMMITTED\<close> transaction: the run's status, of the database as it then is, and
  the entries after it, of the database \<open>later\<close>, which other transactions may have changed by then.\<close>

definition events ::
  "string \<Rightarrow> string \<Rightarrow> int \<Rightarrow> nat \<Rightarrow> db \<Rightarrow> db \<Rightarrow> ((int \<times> run_event) list \<times> run_status) result" where
  "events tenant rid after limit d later =
     bind_result (found tenant rid d) (\<lambda>row.
       Inr (map (\<lambda>e. (re_position e, re_event e))
              (query (\<lambda>e. re_run_id e = rid \<and> re_position e > after) re_position limit (run_events later)),
            status row))"

section \<open>What an append does\<close>

lemma last_position_length: "store_inv d \<Longrightarrow> last_position rid d = int (length (log_of rid d))"
proof -
  assume inv: "store_inv d"
  let ?l = "log_of rid d"
  have ps: "map re_position ?l = map (\<lambda>i. int i + 1) [0..<length ?l]"
    using log_okD [OF store_invD(4) [OF inv]] by (simp add: log_of_def)
  show ?thesis
  proof (cases "?l = []")
    case False
    then have "int (length ?l) = int (length ?l - 1) + 1" "length ?l - 1 < length ?l" by (cases ?l; simp)+
    then have "Max (set (map (\<lambda>i. int i + 1) [0..<length ?l])) = int (length ?l)"
      by (intro Max_eqI) (auto intro!: rev_image_eqI [of "length ?l - 1"])
    with False ps show ?thesis by (simp add: last_position_def Let_def del: set_map list.set_map)
  qed (simp add: last_position_def)
qed

lemma append_loop_columns:
  "e \<in> set (append_loop tenant rid es seen p) \<Longrightarrow>
   re_run_id e = rid \<and> re_tenant_id e = tenant \<and> re_event e \<in> set es \<and>
   (re_attempt e, re_sequence e) \<notin> seen \<and>
   (re_attempt e, re_sequence e) = (ev_attempt (re_event e), ev_sequence (re_event e))"
  by (induction es arbitrary: seen p) (fastforce split: if_splits)+

lemma append_loop_positions:
  "map re_position (append_loop tenant rid es seen p) =
   map (\<lambda>i. p + int i + 1) [0..<length (append_loop tenant rid es seen p)]"
proof (induction es arbitrary: seen p)
  case (Cons e es)
  let ?l = "append_loop tenant rid es (insert (ev_attempt e, ev_sequence e) seen) (p + 1)"
  have "map (\<lambda>i. p + int i + 1) [0..<Suc (length ?l)] = (p + 1) # map (\<lambda>i. p + 1 + int i + 1) [0..<length ?l]"
    by (simp add: map_upt_Suc del: upt_Suc)
  with Cons show ?case by (simp del: upt_Suc)
qed simp

lemma append_loop_distinct:
  "distinct (map (\<lambda>e. (re_attempt e, re_sequence e)) (append_loop tenant rid es seen p))"
  by (induction es arbitrary: seen p) (auto dest!: append_loop_columns)

text \<open>The rows an append adds are new to the log, so the constraints never stop it.\<close>

definition appended :: "string \<Rightarrow> string \<Rightarrow> run_event list \<Rightarrow> db \<Rightarrow> run_event_row list" where
  "appended tenant rid es d = append_loop tenant rid es (logged rid es d) (last_position rid d)"

lemma appended_positions:
  "store_inv d \<Longrightarrow> map re_position (appended tenant rid es d) =
   map (\<lambda>i. int (length (log_of rid d)) + int i + 1) [0..<length (appended tenant rid es d)]"
  unfolding appended_def by (subst append_loop_positions) (simp add: last_position_length)

lemma old_position:
  assumes "store_inv d" "e \<in> set (run_events d)" "re_run_id e = rid"
  shows "re_position e \<le> int (length (log_of rid d))"
proof -
  have "re_position e \<in> set (map re_position (log_of rid d))"
    using assms(2,3) by (auto simp: log_of_def events_of_def)
  then have "re_position e \<in> set (map (\<lambda>i. int i + 1) [0..<length (log_of rid d)])"
    using log_okD [OF store_invD(4) [OF assms(1)], of rid] by (simp only: log_of_def)
  then show ?thesis by auto
qed

lemma distinct_map_append:
  "distinct (map f xs) \<Longrightarrow> distinct (map f ys) \<Longrightarrow> (\<And>y. y \<in> set ys \<Longrightarrow> f y \<notin> f ` set xs) \<Longrightarrow>
   distinct (map f (xs @ ys))"
  by (simp add: disjoint_iff) (metis imageE)

lemma append_distinct:
  assumes inv: "store_inv d"
  shows "distinct (map event_key (run_events d @ appended tenant rid es d))"
    and "distinct (map event_sequence (run_events d @ appended tenant rid es d))"
proof -
  let ?new = "appended tenant rid es d"
  note cols = append_loop_columns [of _ tenant rid es "logged rid es d" "last_position rid d", folded appended_def]
  have keys: "map event_key ?new = map (\<lambda>p. (rid, p)) (map re_position ?new)"
    using cols by (auto simp: event_key_def)
  have "distinct (map event_key ?new)"
    unfolding keys appended_positions [OF inv] by (simp add: distinct_map inj_on_def)
  moreover have "event_key e \<notin> event_key ` set (run_events d)" if e: "e \<in> set ?new" for e
  proof
    assume "event_key e \<in> event_key ` set (run_events d)"
    then obtain old where old: "old \<in> set (run_events d)" "re_run_id old = rid"
        "re_position old = re_position e"
      using cols [OF e] by (auto simp: event_key_def)
    have "re_position e \<in> set (map re_position ?new)" using e by simp
    then have "int (length (log_of rid d)) < re_position e"
      unfolding appended_positions [OF inv] by auto
    with old_position [OF inv old(1,2)] old(3) show False by simp
  qed
  ultimately show "distinct (map event_key (run_events d @ ?new))"
    using store_invD(1) [OF inv] unfolding db_ok_def by (intro distinct_map_append) blast+
  have seqs: "map event_sequence ?new = map (\<lambda>p. (rid, p)) (map (\<lambda>e. (re_attempt e, re_sequence e)) ?new)"
    using cols by (auto simp: event_sequence_def)
  have "distinct (map event_sequence ?new)"
    unfolding seqs distinct_map [of "\<lambda>p. (rid, p)"]
    using append_loop_distinct [of tenant rid es "logged rid es d" "last_position rid d"]
    by (simp add: inj_on_def appended_def)
  moreover have "event_sequence e \<notin> event_sequence ` set (run_events d)" if e: "e \<in> set ?new" for e
    using cols [OF e] by (force simp: event_sequence_def logged_def log_of_def events_of_def)
  ultimately show "distinct (map event_sequence (run_events d @ ?new))"
    using store_invD(1) [OF inv] unfolding db_ok_def by (intro distinct_map_append) blast+
qed

lemma append_events_Inr_iff:
  assumes "store_inv d"
  shows "append_events tenant rid es w d = Inr (x, d') \<longleftrightarrow>
    (\<forall>e\<in>set es. ev_tenant_id e = tenant \<and> ev_run_id e = rid) \<and>
    (\<exists>r. found tenant rid d = Inr r \<and> status r = RUNNING \<and> lease_owner r = w) \<and>
    x = (length (appended tenant rid es d), last_position rid d + int (length (appended tenant rid es d))) \<and>
    d' = d\<lparr>run_events := run_events d @ appended tenant rid es d\<rparr>"
  using append_distinct [OF assms, of tenant rid es]
  by (auto simp: append_events_def Let_def appended_def split: if_splits)

lemma appended_log:
  "events_of i (run_events d @ appended tenant rid es d) =
   (if i = rid then log_of rid d @ appended tenant rid es d else events_of i (run_events d))"
  using append_loop_columns [of _ tenant rid es "logged rid es d" "last_position rid d", folded appended_def]
  by (auto simp: events_of_def log_of_def filter_empty_conv filter_id_conv)

lemma log_ok_appended:
  assumes "store_inv d"
  shows "log_ok (run_events d @ appended tenant rid es d)"
proof (rule log_okI)
  fix i
  let ?l = "log_of rid d" and ?new = "appended tenant rid es d"
  have "map (\<lambda>i. int i + 1) [0..<length ?l + length ?new] =
      map (\<lambda>i. int i + 1) [0..<length ?l] @ map (\<lambda>i. int (length ?l) + int i + 1) [0..<length ?new]"
    by (rule nth_equalityI) (auto simp: nth_append)
  then show "map re_position (events_of i (run_events d @ ?new)) =
      map (\<lambda>i. int i + 1) [0..<length (events_of i (run_events d @ ?new))]"
    using log_okD [OF store_invD(4) [OF assms]] appended_positions [OF assms]
    by (simp add: appended_log log_of_def)
qed

lemma row_evolves_self: "r \<in> set rows \<Longrightarrow> row_ok r \<Longrightarrow> \<exists>q\<in>set rows. row_evolves q r"
  using row_evolves_refl by blast

interpretation appending: tenant_operation C "append_events tenant rid es w" tenant
proof
  fix d x d'
  assume inv: "store_inv d" and run: "append_events tenant rid es w d = Inr (x, d')"
  let ?new = "appended tenant rid es d"
  note cols = append_loop_columns [of _ tenant rid es "logged rid es d" "last_position rid d", folded appended_def]
  from run obtain r where r: "found tenant rid d = Inr r"
    and d': "d' = d\<lparr>run_events := run_events d @ ?new\<rparr>" unfolding append_events_Inr_iff [OF inv] by auto
  from foundD [OF r] have rid: "rid \<in> run_id ` set (runs d)" by auto
  have "db_ok d'"
    using store_invD(1) [OF inv] append_distinct [OF inv, of tenant rid es] rid cols
    unfolding d' db_ok_def by auto
  then show "evolves d d'"
    using log_ok_appended [OF inv, of tenant rid es] store_invD(2) [OF inv] unfolding evolves_def d'
    by (auto intro: row_evolves_self)
  show "others tenant d' = others tenant d" using cols by (auto simp: others_def d' filter_empty_conv)
qed

section \<open>Properties of the log\<close>

lemma append_loop_covers:
  "(\<lambda>e. (ev_attempt e, ev_sequence e)) ` set es \<subseteq>
   seen \<union> (\<lambda>x. (re_attempt x, re_sequence x)) ` set (append_loop tenant rid es seen p)"
proof (induction es arbitrary: seen p)
  case (Cons e es)
  let ?k = "(ev_attempt e, ev_sequence e)"
  show ?case
    using Cons.IH [of seen p] Cons.IH [of "insert ?k seen" "p + 1"] by (cases "?k \<in> seen") auto
qed simp

lemma append_loop_none:
  "(\<lambda>e. (ev_attempt e, ev_sequence e)) ` set es \<subseteq> seen \<Longrightarrow> append_loop tenant rid es seen p = []"
  by (induction es arbitrary: seen p) auto

lemma appended_covers:
  assumes "e \<in> set es"
  shows "\<exists>k\<in>set (events_of rid (run_events d @ appended tenant rid es d)).
    re_attempt k = ev_attempt e \<and> re_sequence k = ev_sequence e"
proof -
  have "(ev_attempt e, ev_sequence e) \<in> logged rid es d \<union>
      (\<lambda>x. (re_attempt x, re_sequence x)) ` set (appended tenant rid es d)"
    using append_loop_covers [of es "logged rid es d" tenant rid "last_position rid d"] assms
    unfolding appended_def by blast
  then show ?thesis unfolding appended_log logged_def by auto
qed

lemma appended_again:
  assumes "d' = d\<lparr>run_events := run_events d @ appended tenant rid es d\<rparr>"
  shows "appended tenant rid es d' = []"
proof -
  have "(ev_attempt e, ev_sequence e) \<in> logged rid es d'" if e: "e \<in> set es" for e
  proof -
    from appended_covers [OF e, of rid d tenant] obtain k where "k \<in> set (log_of rid d')"
      "(ev_attempt e, ev_sequence e) = (re_attempt k, re_sequence k)"
      by (force simp: log_of_def assms)
    with e show ?thesis unfolding logged_def by (metis (mono_tags, lifting) image_eqI mem_Collect_eq)
  qed
  then show ?thesis unfolding appended_def by (intro append_loop_none) blast
qed

text \<open>An append adds each new event once, in order, at the positions after the last one, and never
  fails on a constraint; sent again, it adds nothing and answers the same position.\<close>

lemma append_adds_once:
  assumes "store_inv d" "append_events tenant rid es w d = Inr ((n, p), d')"
  shows "map re_position (events_of rid (run_events d')) = map (\<lambda>i. int i + 1) [0..<length (log_of rid d) + n] \<and>
    p = int (length (log_of rid d) + n) \<and>
    (\<forall>e\<in>set es. \<exists>k\<in>set (events_of rid (run_events d')). re_attempt k = ev_attempt e \<and> re_sequence k = ev_sequence e) \<and>
    append_events tenant rid es w d' = Inr ((0, p), d')"
proof -
  have inv': "store_inv d'" using appending.keeps_inv [OF demo_laws(1,2) assms] .
  from assms(2) have own: "\<forall>e\<in>set es. ev_tenant_id e = tenant \<and> ev_run_id e = rid"
    "\<exists>r. found tenant rid d = Inr r \<and> status r = RUNNING \<and> lease_owner r = w"
    and n: "n = length (appended tenant rid es d)" "p = last_position rid d + int n"
    and d': "d' = d\<lparr>run_events := run_events d @ appended tenant rid es d\<rparr>"
    unfolding append_events_Inr_iff [OF assms(1)] by auto
  have log: "events_of rid (run_events d') = log_of rid d @ appended tenant rid es d"
    by (simp add: d' appended_log)
  have again: "appended tenant rid es d' = []" by (rule appended_again [OF d'])
  have same: "found tenant rid d' = found tenant rid d" by (simp add: d' found_def one_def)
  have last: "last_position rid d' = p"
    using n log by (simp add: last_position_length [OF inv'] last_position_length [OF assms(1)] log_of_def)
  have "append_events tenant rid es w d' = Inr ((0, p), d')"
    unfolding append_events_Inr_iff [OF inv'] again last same using own by simp
  moreover have "\<exists>k\<in>set (events_of rid (run_events d')). re_attempt k = ev_attempt e \<and> re_sequence k = ev_sequence e"
    if "e \<in> set es" for e
    using appended_covers [OF that] by (simp add: d')
  ultimately show ?thesis
    using log_okD [OF store_invD(4) [OF inv'], of rid] n last_position_length [OF assms(1), of rid] log
    by simp
qed

definition demo_event :: "int \<Rightarrow> run_event" where
  "demo_event n = \<lparr>ev_tenant_id = ''acme'', ev_run_id = ''run_1'', ev_attempt = 1, ev_sequence = n, ev_rest = JNull\<rparr>"

lemma append_adds_once_witness:
  "\<exists>d'. append_events ''acme'' ''run_1'' [demo_event 1, demo_event 2, demo_event 1] (Some ''w1'') demo_leased =
      Inr ((2, 2), d') \<and>
    append_events ''acme'' ''run_1'' [demo_event 1, demo_event 2, demo_event 1] (Some ''w1'') d' = Inr ((0, 2), d')"
proof -
  have "\<exists>d'. append_events ''acme'' ''run_1'' [demo_event 1, demo_event 2, demo_event 1] (Some ''w1'') demo_leased =
      Inr ((2, 2), d')"
    by (simp add: append_events_def locked_def found_def one_def fence_def held_by_def Let_def demo_leased_def
        demo_leased_row_def demo_queued_def empty_db_def new_row_def demo_start_def demo_event_def
        last_position_def log_of_def events_of_def logged_def event_key_def event_sequence_def)
  with append_adds_once [OF demo_leased_inv] show ?thesis by blast
qed

section \<open>Reading the log\<close>

text \<open>An event as a reader gets it, with its place in the log.\<close>

definition entry_at :: "run_event_row \<Rightarrow> int \<times> run_event" where
  "entry_at e = (re_position e, re_event e)"

lemma log_positions:
  assumes "store_inv d"
  shows "map re_position (log_of rid d) = map (\<lambda>i. int i + 1) [0..<length (log_of rid d)]"
  using log_okD [OF store_invD(4) [OF assms]] by (simp add: log_of_def)

lemma filter_past:
  "map key l = map (\<lambda>i. int i + 1) [0..<length l] \<Longrightarrow> filter (\<lambda>e. key e > int a) l = drop a l"
proof (induction l rule: rev_induct)
  case (snoc x l)
  then have "map key l = map (\<lambda>i. int i + 1) [0..<length l]" "key x = int (length l) + 1" by auto
  with snoc.IH show ?case by (auto simp: drop_Cons' not_less)
qed simp

text \<open>A reader that asks for the events past a position gets, in order and with no gap, the next ones, as
  many as the limit and the log allow.\<close>

lemma events_take:
  assumes "store_inv later" "events tenant rid (int after) limit d later = Inr (es, st)"
  shows "es = take limit (drop after (map entry_at (log_of rid later)))"
proof -
  let ?P = "\<lambda>e. re_run_id e = rid \<and> re_position e > int after"
  have sel: "filter ?P (run_events later) = drop after (log_of rid later)"
    using filter_past [OF log_positions [OF assms(1)], where a = after and rid1 = rid]
    by (simp add: log_of_def events_of_def conj_commute)
  have "sorted (map re_position (log_of rid later))"
    unfolding log_positions [OF assms(1)] by (simp add: sorted_wrt_map)
  then have "sorted (map re_position (drop after (log_of rid later)))" by (simp add: drop_map [symmetric] sorted_wrt_drop)
  then have "sort_key re_position (drop after (log_of rid later)) = drop after (log_of rid later)"
    by (rule sort_key_id_if_sorted)
  with assms(2) sel show ?thesis
    by (auto simp: events_def query_def take_map drop_map entry_at_def)
qed

end
