(* ===== verification/Run_System.thy ===== *)
theory Run_System
  imports Run_Log
begin

text \<open>
  The store as a transition system: each rule of \<open>run_step\<close> is one committed transaction of one
  operation, with any arguments and at any time, so a path through it is an interleaving of what
  callers, workers and the ticker do. \<open>store_step\<close> adds the deletion of ended runs. The invariant
  of the store holds in every reachable state, and what holds of a run's row along a path follows
  from the contract each operation was shown to keep.
\<close>

inductive run_step :: "contracts \<Rightarrow> db \<Rightarrow> db \<Rightarrow> bool" for C :: contracts where
  by_start: "start s queue now strict d = Inr (x, d') \<Longrightarrow> run_step C d d'"
| by_pause: "pause C S tenant rid p w now d = Inr (x, d') \<Longrightarrow> run_step C d d'"
| by_resume: "resume C S tenant rid r key now d = Inr (x, d') \<Longrightarrow> run_step C d d'"
| by_cancel: "cancel C tenant rid reason key now d = Inr (x, d') \<Longrightarrow> run_step C d d'"
| by_finish: "finish_run C u tenant rid e w now d = Inr (x, d') \<Longrightarrow> run_step C d d'"
| by_claim: "claim C L E t req now d = Inr (y, d') \<Longrightarrow> run_step C d d'"
| by_heartbeat: "heartbeat L tenant rid hb now d = Inr (l, d') \<Longrightarrow> run_step C d d'"
| by_release: "release C tenant rid rl now d = Inr (x, d') \<Longrightarrow> run_step C d d'"
| by_deadline: "time_out_past_deadline C busy now limit d = Inr (xs, d') \<Longrightarrow> run_step C d d'"
| by_overwork: "time_out_overworked C L busy now limit d = Inr (xs, d') \<Longrightarrow> run_step C d d'"
| by_lapse: "requeue_lapsed C us busy now limit d = Inr (xs, d') \<Longrightarrow> run_step C d d'"
| by_escalation: "escalate_overdue C busy now limit d = Inr (xs, d') \<Longrightarrow> run_step C d d'"
| by_append: "append_events tenant rid es w d = Inr (z, d') \<Longrightarrow> run_step C d d'"
| by_artifact: "add_artifact aid tenant rid b m now d = Inr (a, d') \<Longrightarrow> run_step C d d'"
| by_expiry: "d' = remove_artifacts ids d \<Longrightarrow> run_step C d d'"

inductive store_step :: "contracts \<Rightarrow> db \<Rightarrow> db \<Rightarrow> bool" for C :: contracts where
  by_run_step: "run_step C d d' \<Longrightarrow> store_step C d d'"
| by_purge: "purge_ended C busy before limit d = Inr (n, d') \<Longrightarrow> store_step C d d'"

inductive_cases run_stepE: "run_step C d d'"
inductive_cases store_stepE: "store_step C d d'"

text \<open>Artifacts are not part of a run's row.\<close>

lemma evolves_artifacts:
  assumes "store_inv d" "db_ok d'" "runs d' = runs d" "resolutions d' = resolutions d"
    "run_events d' = run_events d"
  shows "evolves d d'"
  using assms store_invD(2,4) [OF assms(1)] by (auto simp: evolves_def intro: row_evolves_self)

interpretation adding_artifacts: store_operation C "add_artifact aid tenant rid b m now"
proof
  fix d x d'
  assume inv: "store_inv d" and run: "add_artifact aid tenant rid b m now d = Inr (x, d')"
  from add_artifact_Inr [OF run] db_ok_add_artifact [OF store_invD(1) [OF inv] run]
  show "evolves d d'" by (intro evolves_artifacts [OF inv]) auto
qed

lemma evolves_remove_artifacts: "store_inv d \<Longrightarrow> evolves d (remove_artifacts ids d)"
  by (rule evolves_artifacts)
    (simp_all add: db_ok_remove_artifacts store_invD(1), simp_all add: remove_artifacts_def)

lemma run_step_evolves:
  assumes "run_step C d d'" "lifecycle_laws C" "interrupt_laws C" "store_inv d"
  shows "evolves d d'"
  using assms(1)
  by (cases rule: run_step.cases)
    (use assms(2-4) in \<open>blast intro: starting.effect pausing.effect resuming.effect cancelling.effect
      finishing.effect claiming.effect heartbeats.effect releasing.effect deadlines.effect
      overworked.effect lapses.effect escalations.effect appending.effect adding_artifacts.effect
      evolves_remove_artifacts\<close>)+

lemma store_step_inv:
  assumes "store_step C d d'" "lifecycle_laws C" "interrupt_laws C" "store_inv d"
  shows "store_inv d'"
  using assms
  by (cases rule: store_step.cases) (blast dest: run_step_evolves evolves_inv purge_purges purges_inv)+

interpretation store: transition_system "\<lambda>d. d = empty_db" "store_step C"
  "\<lambda>d. lifecycle_laws C \<longrightarrow> interrupt_laws C \<longrightarrow> store_inv d"
  by unfold_locales (auto dest: store_step_inv)

section \<open>Along a path\<close>

text \<open>What a run's row keeps along a path: its identity, its counters' direction, and its ending.\<close>

definition row_continues :: "run_row \<Rightarrow> run_row \<Rightarrow> bool" where
  "row_continues r r' \<longleftrightarrow>
     identity_of r' = identity_of r \<and> row_ok r' \<and>
     documented_can_become\<^sup>*\<^sup>* (status r) (status r') \<and>
     (documented_final (status r) \<longrightarrow> r' = r) \<and>
     attempt r \<le> attempt r' \<and> error_retries r \<le> error_retries r' \<and>
     lease_lapses r \<le> lease_lapses r' \<and> worked_seconds r \<le> worked_seconds r' \<and>
     (queued_at r \<noteq> None \<longrightarrow> queued_at r' \<noteq> None)"

lemma row_continues_step: "row_continues r q \<Longrightarrow> row_evolves q r' \<Longrightarrow> row_continues r r'"
  unfolding row_continues_def row_evolves_def
  by (auto intro: rtranclp.rtrancl_into_rtrancl dest: ended_cannot_become)

lemma store_path_inv:
  assumes "(store_step C)\<^sup>*\<^sup>* d d'" "lifecycle_laws C" "interrupt_laws C" "store_inv d"
  shows "store_inv d'"
  using assms by (induction rule: rtranclp_induct) (auto dest: store_step_inv)

text \<open>A transaction after which the run is still there: any but the purge that deletes it.\<close>

definition keeps_run :: "contracts \<Rightarrow> string \<Rightarrow> db \<Rightarrow> db \<Rightarrow> bool" where
  "keeps_run C rid d d' \<longleftrightarrow> store_step C d d' \<and> rid \<in> run_id ` set (runs d')"

lemma keeping_inv:
  assumes "(keeps_run C rid)\<^sup>*\<^sup>* d d'" "lifecycle_laws C" "interrupt_laws C" "store_inv d"
  shows "store_inv d'"
  using assms by (induction rule: rtranclp_induct) (auto simp: keeps_run_def dest: store_step_inv)

lemma keeps_run_step:
  assumes "keeps_run C rid d d'" "lifecycle_laws C" "interrupt_laws C" "store_inv d" "r \<in> set (runs d)" "run_id r = rid"
  shows "(r \<in> set (runs d') \<or> (\<exists>r'\<in>set (runs d'). row_evolves r r')) \<and>
    {k \<in> set (resolutions d). rr_run_id k = rid} \<subseteq> set (resolutions d') \<and>
    {e \<in> set (run_events d). re_run_id e = rid} \<subseteq> set (run_events d')"
proof -
  from assms(1) have step: "store_step C d d'" and rid: "rid \<in> run_id ` set (runs d')" by (simp_all add: keeps_run_def)
  from step show ?thesis
  proof (cases rule: store_step.cases)
    case by_run_step
    then have "evolves d d'" using run_step_evolves assms(2-4) by blast
    with evolves_row [OF assms(4) this assms(5)] show ?thesis by (auto simp: evolves_def)
  next
    case (by_purge busy before limit n)
    note p = purge_purges [OF assms(2,4) by_purge]
    from rid obtain x where x: "x \<in> set (runs d')" "run_id x = rid" by blast
    with p have "x \<in> set (runs d)" by (auto simp: purges_def)
    with x assms(4-6) run_id_unique have "r \<in> set (runs d')" by metis
    with p rid show ?thesis by (auto simp: purges_def)
  qed
qed

lemma keeping_row:
  assumes "(keeps_run C rid)\<^sup>*\<^sup>* d d'" "lifecycle_laws C" "interrupt_laws C" "store_inv d" "r \<in> set (runs d)" "run_id r = rid"
  shows "(\<exists>r'\<in>set (runs d'). row_continues r r') \<and>
    {k \<in> set (resolutions d). rr_run_id k = rid} \<subseteq> set (resolutions d') \<and>
    {e \<in> set (run_events d). re_run_id e = rid} \<subseteq> set (run_events d')"
  using assms(1)
proof (induction rule: rtranclp_induct)
  case base
  with assms store_invD(2) show ?case by (auto simp: row_continues_def)
next
  case (step q t)
  from step.IH obtain p where p: "p \<in> set (runs q)" "row_continues r p" by blast
  then have "run_id p = rid" using assms(6) by (auto simp: row_continues_def identity_of_def)
  from keeps_run_step [OF step.hyps(2) assms(2,3) keeping_inv [OF step.hyps(1) assms(2-4)] p(1) this] step.IH p(2)
  show ?case using row_continues_step by blast
qed

lemma keeping_found:
  assumes "(keeps_run C rid)\<^sup>*\<^sup>* d d'" "lifecycle_laws C" "interrupt_laws C" "store_inv d" "found tenant rid d = Inr r"
  shows "\<exists>r'. found tenant rid d' = Inr r' \<and> row_continues r r'"
proof -
  from keeping_row [OF assms(1-4)] foundD [OF assms(5)] obtain r' where r': "r' \<in> set (runs d')" "row_continues r r'" by blast
  then have "tenant_id r' = tenant" "run_id r' = rid"
    using foundD [OF assms(5)] by (auto simp: row_continues_def identity_of_def)
  with r' found_Inr_iff [OF keeping_inv [OF assms(1-4)]] show ?thesis by blast
qed

text \<open>With retention: a run's row goes on, or it goes on until the purge that deleted it, after it had ended.\<close>

definition purged_on_path :: "contracts \<Rightarrow> db \<Rightarrow> run_row \<Rightarrow> db \<Rightarrow> bool" where
  "purged_on_path C d r d' \<longleftrightarrow>
     (\<exists>busy before limit n q q'. (store_step C)\<^sup>*\<^sup>* d q \<and> r \<in> set (runs q) \<and>
        purge_ended C busy before limit q = Inr (n, q') \<and> run_id r \<notin> run_id ` set (runs q') \<and> (store_step C)\<^sup>*\<^sup>* q' d')"

lemma purged_further: "purged_on_path C d r q \<Longrightarrow> store_step C q t \<Longrightarrow> purged_on_path C d r t"
  unfolding purged_on_path_def by (meson rtranclp.rtrancl_into_rtrancl)

lemma store_path_row:
  assumes "(store_step C)\<^sup>*\<^sup>* d d'" "lifecycle_laws C" "interrupt_laws C" "store_inv d" "r \<in> set (runs d)"
  shows "\<exists>r'. row_continues r r' \<and> (r' \<in> set (runs d') \<or> documented_final (status r') \<and> purged_on_path C d r' d')"
  using assms(1)
proof (induction rule: rtranclp_induct)
  case base
  with assms store_invD(2) show ?case by (auto simp: row_continues_def)
next
  case (step q t)
  have inv: "store_inv q" using store_path_inv [OF step.hyps(1) assms(2-4)] .
  from step.IH obtain p where p: "row_continues r p" and or: "p \<in> set (runs q) \<or> documented_final (status p) \<and> purged_on_path C d p q"
    by blast
  show ?case
  proof (cases "p \<in> set (runs q)")
    case False
    with or p purged_further step.hyps(2) show ?thesis by blast
  next
    case True
    from step.hyps(2) show ?thesis
    proof (cases rule: store_step.cases)
      case by_run_step
      then obtain r' where "r' \<in> set (runs t)" "row_evolves p r'"
        using evolves_row [OF inv] run_step_evolves [OF _ assms(2,3) inv] True by blast
      with p row_continues_step show ?thesis by blast
    next
      case (by_purge busy before limit n)
      note gone = purge_purges [OF assms(2) inv by_purge]
      show ?thesis
      proof (cases "p \<in> set (runs t)")
        case False
        with gone True have final: "documented_final (status p)" by (auto simp: purges_def)
        have "run_id p \<notin> run_id ` set (runs t)"
        proof
          assume "run_id p \<in> run_id ` set (runs t)"
          then obtain x where x: "x \<in> set (runs t)" "run_id x = run_id p" by (metis imageE)
          with gone have "x \<in> set (runs q)" by (auto simp: purges_def)
          with x True False run_id_unique [OF inv] show False by metis
        qed
        with True step.hyps(1) by_purge have "purged_on_path C d p t" unfolding purged_on_path_def by blast
        with p final show ?thesis by blast
      qed (use p in blast)
    qed
  qed
qed

section \<open>The properties of the system\<close>

text \<open>C1. The store's invariant holds in every state the service can reach from an empty database,
  whatever callers, workers and the ticker do and in whatever order their transactions commit:
  keys, foreign keys and event positions are right, and every row is a valid run (leased only
  while running, waiting on a question only while paused, an error only when it ended with one,
  within its retry and lapse bounds).\<close>

theorem reachable_store_inv:
  assumes "lifecycle_laws C" "interrupt_laws C" "reach (\<lambda>d. d = empty_db) (store_step C) d"
  shows "store_inv d"
  using store.reach_inv [OF assms(3)] assms(1,2) by simp

theorem reachable_store_inv_witness: "store_inv demo_queued"
proof -
  from demo_queued_start have "store_step demo_contracts empty_db demo_queued"
    by (auto intro: by_run_step by_start)
  then have "reach (\<lambda>d. d = empty_db) (store_step demo_contracts) demo_queued"
    by (blast intro: reach_init reach_step)
  from reachable_store_inv [OF demo_laws(1,2) this] show ?thesis .
qed

text \<open>C2. The history of a run: along any sequence of transactions, retention's deletions among them, its row
  stays, or stays until retention deletes it, which it does to a run that had ended only; until then it keeps what it was
  started with, and moves only along the documented lifecycle; a run that ended never changes
  again; attempts, retries, lapses and working time never go back; and a durable run stays durable.\<close>

theorem run_history:
  assumes "(store_step C)\<^sup>*\<^sup>* d d'" "lifecycle_laws C" "interrupt_laws C" "store_inv d" "r \<in> set (runs d)"
  shows "\<exists>r'. (r' \<in> set (runs d') \<or> documented_final (status r') \<and>
      (\<exists>busy before limit n q q'. (store_step C)\<^sup>*\<^sup>* d q \<and> r' \<in> set (runs q) \<and> purge_ended C busy before limit q = Inr (n, q') \<and>
         run_id r' \<notin> run_id ` set (runs q') \<and> (store_step C)\<^sup>*\<^sup>* q' d')) \<and>
    identity_of r' = identity_of r \<and> documented_can_become\<^sup>*\<^sup>* (status r) (status r') \<and>
    (documented_final (status r) \<longrightarrow> r' = r) \<and>
    attempt r \<le> attempt r' \<and> error_retries r \<le> error_retries r' \<and> lease_lapses r \<le> lease_lapses r' \<and>
    worked_seconds r \<le> worked_seconds r' \<and> (queued_at r \<noteq> None \<longrightarrow> queued_at r' \<noteq> None)"
  using store_path_row [OF assms] unfolding row_continues_def purged_on_path_def by blast

definition demo_cancelled_row :: run_row where
  "demo_cancelled_row = (moved demo_contracts (new_row demo_start True 0) CANCELLED 1)
     \<lparr>cancel_reason := None, cancelled_by := Some ''user:ann''\<rparr>"

lemma demo_cancel:
  "\<exists>x. cancel demo_contracts ''acme'' ''run_1'' None demo_key 1 demo_queued =
     Inr (x, demo_queued\<lparr>runs := [demo_cancelled_row]\<rparr>)"
  by (auto simp: cancel_def locked_def found_def one_def fence_def require_may_cancel_def
      require_may_answer_def ADMINISTERING_ROLES_def Let_def demo_queued_def demo_cancelled_row_def demo_key_def
      empty_db_def demo_start_def new_row_def move_def ended_def expire_with_def save_def put_row_def)

theorem run_history_witness:
  "\<exists>r'. documented_can_become\<^sup>*\<^sup>* (status (new_row demo_start True 0)) (status r') \<and> identity_of r' = identity_of (new_row demo_start True 0)"
proof -
  from demo_cancel have step: "(store_step demo_contracts)\<^sup>*\<^sup>* demo_queued (demo_queued\<lparr>runs := [demo_cancelled_row]\<rparr>)"
    by (blast intro: by_run_step by_cancel)
  from run_history [OF step demo_laws(1,2) demo_queued_inv, of "new_row demo_start True 0"] show ?thesis
    by (auto simp: demo_queued_def)
qed

end
