(* ===== verification/Cadence.thy ===== *)
theory Cadence
  imports Errors
begin

text \<open>
  \<open>src/agent_runs/domain/cadence.py\<close>: which cadences are accepted and when one fires next. The
  \<open>croniter\<close> library is not part of the repository: it is the record \<open>cron_lib\<close>, an argument of the
  definitions that call it. \<open>cron_laws\<close> is what they rely on: the next occurrence comes strictly
  after the instant asked about, and is the first (no instant before it has another). Instants are
  absolute, so a zone is only an argument of the library.
\<close>

record cron_lib =
  is_valid :: "string \<Rightarrow> bool"
  get_next :: "string \<Rightarrow> string \<Rightarrow> instant \<Rightarrow> instant option"
    \<comment> \<open>the expression, the zone, the instant; none when the library finds no date and raises\<close>

definition cron_laws :: "cron_lib \<Rightarrow> bool" where
  "cron_laws K \<longleftrightarrow>
     (\<forall>e z t u. get_next K e z t = Some u \<longrightarrow> t < u \<and> (\<forall>v. t \<le> v \<and> v < u \<longrightarrow> get_next K e z v = Some u))"

section \<open>Python's \<open>str.strip()\<close>\<close>

text \<open>The characters \<open>str.isspace\<close> holds of, each as its UTF-8 bytes.\<close>

definition WHITESPACE :: "string list" where
  "WHITESPACE =
     map (\<lambda>n. [char_of (n::nat)]) [9, 10, 11, 12, 13, 28, 29, 30, 31, 32] @
     map (map char_of) ([[0xC2, 0x85], [0xC2, 0xA0], [0xE1, 0x9A, 0x80]] @
       map (\<lambda>n. [0xE2, 0x80, n]) ([0x80..<0x8B] @ [0xA8, 0xA9, 0xAF]) @
       [[0xE2, 0x81, 0x9F], [0xE3, 0x80, 0x80 :: nat]])"

definition starts_with :: "string \<Rightarrow> string \<Rightarrow> bool" where
  "starts_with w s \<longleftrightarrow> take (length w) s = w"

function drop_leading :: "string list \<Rightarrow> string \<Rightarrow> string" where
  "drop_leading ws s =
     (case find (\<lambda>w. w \<noteq> [] \<and> starts_with w s) ws of
        None \<Rightarrow> s
      | Some w \<Rightarrow> drop_leading ws (drop (length w) s))"
  by pat_completeness auto

lemma drop_shorter:
  "find (\<lambda>w. w \<noteq> [] \<and> starts_with w s) ws = Some w \<Longrightarrow> length (drop (length w) s) < length s"
  by (cases s) (auto simp: find_Some_iff starts_with_def)

termination drop_leading
  by (relation "measure (length \<circ> snd)") (auto dest!: drop_shorter)

declare drop_leading.simps [simp del]

definition strip :: "string \<Rightarrow> string" where
  "strip s = rev (drop_leading (map rev WHITESPACE) (rev (drop_leading WHITESPACE s)))"

section \<open>Cadences\<close>

definition BUCKETS :: "(string \<times> string option) list" where
  "BUCKETS = [(''hourly'', Some ''0 * * * *''), (''daily'', Some ''0 0 * * *''),
     (''weekly'', Some ''0 0 * * 1''), (''weekdays'', Some ''0 0 * * 1-5''), (''manual'', None)]"

definition MIN_INTERVAL :: duration where
  "MIN_INTERVAL = timedelta_seconds 3600"

text \<open>1 January 2024, UTC.\<close>

definition PROBE_FROM :: instant where
  "PROBE_FROM = timedelta_seconds 1704067200"

definition PROBE_COUNT :: nat where
  "PROBE_COUNT = 8"

text \<open>A cursor moves to each occurrence it returns.\<close>

primrec occurrences :: "cron_lib \<Rightarrow> string \<Rightarrow> string \<Rightarrow> instant \<Rightarrow> nat \<Rightarrow> instant list result" where
  "occurrences K e z t 0 = Inr []"
| "occurrences K e z t (Suc n) =
     (case get_next K e z t of
        None \<Rightarrow> Inl Crashed
      | Some u \<Rightarrow> bind_result (occurrences K e z u n) (\<lambda>us. Inr (u # us)))"

fun intervals :: "instant list \<Rightarrow> duration list" where
  "intervals (a # b # ts) = (b - a) # intervals (b # ts)"
| "intervals _ = []"

definition validate_cadence :: "cron_lib \<Rightarrow> string \<Rightarrow> string result" where
  "validate_cadence K cadence =
     (let normalized = strip cadence
      in if normalized \<in> set (map fst BUCKETS) then Inr normalized
         else if \<not> is_valid K normalized then Inl Unprocessable
         else bind_result (occurrences K normalized ''UTC'' PROBE_FROM PROBE_COUNT) (\<lambda>times.
           if Min (set (intervals times)) < MIN_INTERVAL then Inl Unprocessable
           else Inr normalized))"

definition expression_of :: "string \<Rightarrow> string option" where
  "expression_of cadence = (case map_of BUCKETS cadence of Some e \<Rightarrow> e | None \<Rightarrow> Some cadence)"

definition next_fire_at :: "cron_lib \<Rightarrow> string \<Rightarrow> instant \<Rightarrow> string \<Rightarrow> instant option result" where
  "next_fire_at K cadence after timezone =
     (case expression_of cadence of
        None \<Rightarrow> Inr None
      | Some expression \<Rightarrow>
          (case get_next K expression timezone after of
             None \<Rightarrow> Inl Crashed
           | Some t \<Rightarrow> Inr (Some t)))"

section \<open>Lemmas\<close>

lemma cron_after: "cron_laws K \<Longrightarrow> get_next K e z t = Some u \<Longrightarrow> t < u"
  unfolding cron_laws_def by blast

lemma next_fire_at_Some:
  "next_fire_at K c t z = Inr (Some u) \<longleftrightarrow> (\<exists>e. expression_of c = Some e \<and> get_next K e z t = Some u)"
  by (simp add: next_fire_at_def split: option.split)

lemma next_fire_after: "cron_laws K \<Longrightarrow> next_fire_at K c t z = Inr (Some u) \<Longrightarrow> t < u"
  by (auto simp: next_fire_at_Some cron_after)

text \<open>Between an instant and its next occurrence every instant has the same one.\<close>

lemma next_fire_between:
  assumes "cron_laws K" "next_fire_at K c t z = Inr (Some u)" "t \<le> v" "v < u"
  shows "next_fire_at K c v z = Inr (Some u)"
proof -
  from assms(2) obtain e where e: "expression_of c = Some e" "get_next K e z t = Some u"
    by (auto simp: next_fire_at_Some)
  with assms have "get_next K e z v = Some u" unfolding cron_laws_def by blast
  with e show ?thesis by (auto simp: next_fire_at_Some)
qed

lemma length_intervals [simp]: "length (intervals ts) = length ts - 1"
  by (induction ts rule: intervals.induct) auto

lemma length_occurrences: "occurrences K e z t n = Inr ts \<Longrightarrow> length ts = n"
  by (induction n arbitrary: t ts) (auto split: option.splits)

lemma drop_leading_Nil [simp]: "drop_leading ws [] = []"
  by (subst drop_leading.simps) (auto split: option.splits simp: find_Some_iff starts_with_def)

text \<open>What is left starts with no whitespace.\<close>

lemma drop_leading_clean: "w \<in> set ws \<Longrightarrow> w \<noteq> [] \<Longrightarrow> \<not> starts_with w (drop_leading ws s)"
proof (induction ws s rule: drop_leading.induct)
  case (1 ws s)
  then show ?case
    by (subst drop_leading.simps) (auto split: option.splits simp: find_None_iff)
qed

text \<open>An accepted cadence is a bucket, or an expression whose measured occurrences are at least an
  hour apart.\<close>

lemma validated_cadence:
  assumes "validate_cadence K c = Inr n"
  shows "n = strip c \<and>
    (n \<in> set (map fst BUCKETS) \<or>
     is_valid K n \<and> (\<exists>ts. occurrences K n ''UTC'' PROBE_FROM PROBE_COUNT = Inr ts \<and>
       (\<forall>i\<in>set (intervals ts). MIN_INTERVAL \<le> i)))"
  using assms by (auto simp: validate_cadence_def Let_def split: if_splits) (meson Min_le List.finite_set dual_order.trans linorder_not_less)+

end
