(* ===== verification/Paging.thy ===== *)
theory Paging
  imports Prelude "HOL-Library.Char_ord" "HOL-Library.List_Lexorder"
begin

text \<open>
  \<open>src/agent_runs/store/paging.py\<close>: keyset pages. A store fetches one row more than the page, and
  the page's \<open>after\<close> is the position of its last row. A client that follows \<open>after\<close> from page to page
  gets each row of a listing once, in order. Text is
  ordered by its bytes here; any total order would do.
\<close>

record ('t, 'p) page =
  page_items :: "'t list"
  page_after :: "'p option"

definition page_of :: "nat \<Rightarrow> ('r \<Rightarrow> 't) \<Rightarrow> ('r \<Rightarrow> 'p) \<Rightarrow> 'r list \<Rightarrow> ('t, 'p) page" where
  "page_of limit item position rows =
     (let kept = take limit rows
      in \<lparr>page_items = map item kept,
          page_after = (if length rows > limit \<and> kept \<noteq> [] then Some (position (last kept)) else None)\<rparr>)"

text \<open>\<open>ORDER BY key LIMIT n\<close>, ascending and descending, past a position when one is given.\<close>

definition fetch_asc ::
  "('r \<Rightarrow> bool) \<Rightarrow> ('r \<Rightarrow> 'k::linorder) \<Rightarrow> 'k option \<Rightarrow> nat \<Rightarrow> 'r list \<Rightarrow> 'r list" where
  "fetch_asc cond key after limit rows =
     take limit (sort_key key
       (filter (\<lambda>r. cond r \<and> (case after of None \<Rightarrow> True | Some p \<Rightarrow> p < key r)) rows))"

definition fetch_desc ::
  "('r \<Rightarrow> bool) \<Rightarrow> ('r \<Rightarrow> 'k::linorder) \<Rightarrow> 'k option \<Rightarrow> nat \<Rightarrow> 'r list \<Rightarrow> 'r list" where
  "fetch_desc cond key after limit rows =
     take limit (rev (sort_key key
       (filter (\<lambda>r. cond r \<and> (case after of None \<Rightarrow> True | Some p \<Rightarrow> key r < p)) rows)))"

text \<open>A client that follows the pages: at most \<open>n\<close> of them.\<close>

primrec follow_pages :: "('p option \<Rightarrow> ('t, 'p) page) \<Rightarrow> nat \<Rightarrow> 'p option \<Rightarrow> 't list" where
  "follow_pages get 0 after = []"
| "follow_pages get (Suc n) after =
     (let p = get after
      in page_items p @ (case page_after p of None \<Rightarrow> [] | Some q \<Rightarrow> follow_pages get n (Some q)))"

section \<open>Following the pages of a listing\<close>

text \<open>A listing in its order: \<open>lt\<close> compares positions, each row's key is its position, and a page past
  a position has the rows after it.\<close>

definition rows_from :: "('k \<Rightarrow> 'k \<Rightarrow> bool) \<Rightarrow> ('r \<Rightarrow> 'k) \<Rightarrow> 'r list \<Rightarrow> 'k option \<Rightarrow> 'r list" where
  "rows_from lt key l after = (case after of None \<Rightarrow> l | Some p \<Rightarrow> filter (\<lambda>r. lt p (key r)) l)"

lemma rows_after:
  assumes "asymp lt" "sorted_wrt (\<lambda>a b. lt (key a) (key b)) l" "i < length l"
  shows "filter (\<lambda>r. lt (key (l ! i)) (key r)) l = drop (Suc i) l"
proof -
  let ?P = "\<lambda>r. lt (key (l ! i)) (key r)"
  have ord: "lt (key (l ! m)) (key (l ! n))" if "m < n" "n < length l" for m n
    using assms(2) that by (auto simp: sorted_wrt_iff_nth_less)
  have "\<not> ?P r" if "r \<in> set (take (Suc i) l)" for r
  proof -
    from that obtain j where j: "j < Suc i" "r = l ! j" using assms(3) by (auto simp: in_set_conv_nth)
    show ?thesis using ord [of j i] asympD [OF assms(1)] j assms(3) by (cases "j = i") auto
  qed
  moreover have "?P r" if "r \<in> set (drop (Suc i) l)" for r
  proof -
    from that obtain j where "j < length l - Suc i" "r = l ! (Suc i + j)"
      by (auto simp: in_set_conv_nth)
    with ord [of i "Suc i + j"] show ?thesis by simp
  qed
  ultimately have "filter ?P (take (Suc i) l) = []" "filter ?P (drop (Suc i) l) = drop (Suc i) l"
    by (auto simp: filter_empty_conv filter_id_conv)
  then show ?thesis by (metis append_Nil append_take_drop_id filter_append)
qed

lemma follow_from:
  assumes "asymp lt" "sorted_wrt (\<lambda>a b. lt (key a) (key b)) l"
    and "\<And>q. get q = page_of limit item key (take (Suc limit) (rows_from lt key l q))" "0 < limit"
    and "rows_from lt key l after = drop i l" "length l - i < n"
  shows "follow_pages get n after = map item (drop i l)"
  using assms(5,6)
proof (induction n arbitrary: after i)
  case (Suc n)
  let ?rest = "drop i l"
  have g: "get after = page_of limit item key (take (Suc limit) ?rest)" using assms(3) Suc.prems(1) by simp
  show ?case
  proof (cases "limit < length ?rest")
    case False
    then show ?thesis by (simp add: g page_of_def Let_def)
  next
    case True
    have kept: "take limit (take (Suc limit) ?rest) = take limit ?rest" by (simp add: min_def)
    have some: "take limit ?rest \<noteq> []" using True assms(4) by auto
    then have "last (take limit ?rest) = ?rest ! (limit - 1)" using True by (simp add: last_conv_nth)
    with True assms(4) have last: "last (take limit ?rest) = l ! (i + limit - 1)" by simp
    have pos: "i + limit - 1 < length l" "Suc (i + limit - 1) = i + limit" using True assms(4) by auto
    have "rows_from lt key l (Some (key (l ! (i + limit - 1)))) = drop (i + limit) l"
      using rows_after [OF assms(1,2) pos(1)] pos(2) by (simp add: rows_from_def)
    from Suc.IH [OF this] Suc.prems(2) True assms(4)
    have "follow_pages get n (Some (key (l ! (i + limit - 1)))) = map item (drop (i + limit) l)" by simp
    moreover have "map item ?rest = map item (take limit ?rest) @ map item (drop limit ?rest)"
      by (metis append_take_drop_id map_append)
    moreover have "drop limit ?rest = drop (i + limit) l" by (simp add: add.commute)
    ultimately show ?thesis using True some by (simp add: g page_of_def Let_def kept last)
  qed
qed simp

lemma follow_all:
  assumes "asymp lt" "sorted_wrt (\<lambda>a b. lt (key a) (key b)) l"
    and "\<And>q. get q = page_of limit item key (take (Suc limit) (rows_from lt key l q))" "0 < limit"
    and "length l < n"
  shows "follow_pages get n None = map item l"
  using follow_from [OF assms(1-4), of None 0 n] assms(5) by (simp add: rows_from_def)

text \<open>The two listings of the stores.\<close>

lemma fetch_asc_rows:
  "fetch_asc cond key after n rows = take n (rows_from (<) key (sort_key key (filter cond rows)) after)"
  by (cases after) (simp_all add: fetch_asc_def rows_from_def filter_sort conj_commute)

lemma fetch_desc_rows:
  "fetch_desc cond key after n rows = take n (rows_from (>) key (rev (sort_key key (filter cond rows))) after)"
  by (cases after) (simp_all add: fetch_desc_def rows_from_def filter_sort conj_commute flip: rev_filter)

lemma strict_listing:
  assumes "distinct (map key (filter cond rows))"
  shows "sorted_wrt (\<lambda>a b. key a < key b) (sort_key key (filter cond rows))"
    "sorted_wrt (\<lambda>a b. key b < key a) (rev (sort_key key (filter cond rows)))"
proof -
  let ?s = "sort_key key (filter cond rows)"
  have "mset (map key ?s) = mset (map key (filter cond rows))" by simp
  with assms have "distinct (map key ?s)" by (metis mset_eq_imp_distinct_iff)
  moreover have "sorted (map key ?s)" by simp
  ultimately have "sorted_wrt (<) (map key ?s)" by (simp add: strict_sorted_iff)
  then show *: "sorted_wrt (\<lambda>a b. key a < key b) ?s" by (simp add: sorted_wrt_map)
  then show "sorted_wrt (\<lambda>a b. key b < key a) (rev ?s)" by (simp add: sorted_wrt_rev)
qed

text \<open>Following the pages of either gives the whole listing, each row once.\<close>

lemma follow_asc:
  assumes "distinct (map key (filter cond rows))" "0 < limit" "length (filter cond rows) < n"
    and "\<And>q. get q = page_of limit item key (fetch_asc cond key q (Suc limit) rows)"
  shows "follow_pages get n None = map item (sort_key key (filter cond rows))"
  by (rule follow_all [where lt = "(<)" and key = key and limit = limit])
    (use strict_listing(1) [OF assms(1)] assms(2-) in \<open>auto simp: fetch_asc_rows intro: asympI\<close>)

lemma follow_desc:
  assumes "distinct (map key (filter cond rows))" "0 < limit" "length (filter cond rows) < n"
    and "\<And>q. get q = page_of limit item key (fetch_desc cond key q (Suc limit) rows)"
  shows "follow_pages get n None = map item (rev (sort_key key (filter cond rows)))"
  by (rule follow_all [where lt = "(>)" and key = key and limit = limit])
    (use strict_listing(2) [OF assms(1)] assms(2-) in \<open>auto simp: fetch_desc_rows intro: asympI\<close>)

end
