(* ===== verification/Schedule_Rows.thy ===== *)
theory Schedule_Rows
  imports Contracts Cadence Paging Retry
begin

text \<open>
  The schedules' data: the contracts' \<open>ScheduleSpec\<close> and \<open>Schedule\<close> (their fields as
  \<open>docs/openapi.json\<close> publishes them), \<open>ScheduleRow\<close> of \<open>store/tables.py\<close>, the requests of
  \<open>domain/schedules.py\<close>, and the row-level helpers of \<open>store/schedules.py\<close> (\<open>_schedule\<close>, \<open>_checked\<close>,
  \<open>_apply\<close>, \<open>_arm\<close>, \<open>_rearm\<close>). What is not part of the repository is the record \<open>schedule_lib\<close>: the
  cron library, the contracts' validation of a spec, SHA-256 and \<open>AgentError.of\<close>.
\<close>

type_synonym metadata = "(string \<times> json) list"

record schedule_spec =
  ss_tenant_id :: string
  ss_agent_id :: string
  ss_name :: string
  ss_cadence :: string
  ss_timezone :: string
  ss_input :: json
  ss_on_behalf_of :: string
  ss_workspace_id :: "string option"
  ss_enabled :: bool
  ss_timeout_seconds :: "seconds option"
  ss_agent_version :: "string option"
  ss_priority :: int
  ss_concurrency_key :: "string option"
  ss_metadata :: metadata

record schedule =
  sd_schedule_id :: string
  sd_tenant_id :: string
  sd_agent_id :: string
  sd_name :: string
  sd_cadence :: string
  sd_timezone :: string
  sd_input :: json
  sd_on_behalf_of :: string
  sd_workspace_id :: "string option"
  sd_created_by :: "string option"
  sd_enabled :: bool
  sd_timeout_seconds :: "seconds option"
  sd_agent_version :: "string option"
  sd_priority :: int
  sd_concurrency_key :: "string option"
  sd_next_fire_at :: "instant option"
  sd_last_fired_at :: "instant option"
  sd_last_run_id :: "string option"
  sd_consecutive_failures :: int
  sd_last_error :: "agent_error option"
  sd_retry_after :: "instant option"
  sd_metadata :: metadata
  sd_created_at :: instant
  sd_updated_at :: instant

record schedule_row =
  schedule_id :: string
  sc_tenant_id :: string
  sc_agent_id :: string
  sc_name :: string
  sc_cadence :: string
  sc_timezone :: string
  sc_input :: json
  sc_input_sha256 :: string
  sc_on_behalf_of :: string
  sc_workspace_id :: "string option"
  sc_created_by :: "string option"
  sc_enabled :: bool
  sc_timeout_seconds :: "seconds option"
  sc_agent_version :: "string option"
  sc_priority :: int
  sc_concurrency_key :: "string option"
  sc_next_fire_at :: "instant option"
  sc_last_fired_at :: "instant option"
  sc_last_run_id :: "string option"
  sc_consecutive_failures :: int
  sc_last_error :: "agent_error option"
  sc_retry_after :: "instant option"
  sc_metadata :: "metadata option"
  sc_created_at :: instant
  sc_updated_at :: instant

section \<open>What is not part of the repository\<close>

text \<open>What a database error says of itself: whether it is an \<open>OperationalError\<close>, and its text.\<close>

record db_fault =
  operational :: bool
  fault_text :: string

record schedule_lib =
  cron :: cron_lib
  validate_spec :: "schedule_spec \<Rightarrow> schedule_spec option"  \<comment> \<open>none: a \<open>ValidationError\<close>\<close>
  sha256 :: "string \<Rightarrow> string"  \<comment> \<open>the hex digest\<close>
  error_of :: "db_fault \<Rightarrow> error_category \<Rightarrow> string \<Rightarrow> bool \<Rightarrow> agent_error"
    \<comment> \<open>\<open>AgentError.of(exc, category, source, retryable)\<close>\<close>

text \<open>The contracts keep the identity of a spec they accept, and the error keeps the flag it is
  given.\<close>

definition spec_laws :: "schedule_lib \<Rightarrow> bool" where
  "spec_laws L \<longleftrightarrow>
     (\<forall>s s'. validate_spec L s = Some s' \<longrightarrow>
        ss_tenant_id s' = ss_tenant_id s \<and> ss_on_behalf_of s' = ss_on_behalf_of s) \<and>
     (\<forall>f c src r. ae_retryable (error_of L f c src r) = r)"

section \<open>Requests\<close>

text \<open>A field of a partial update: not sent, sent as null, or sent.\<close>

datatype 'a sent = Unset | Null | Sent 'a

record schedule_update =
  su_agent_id :: "string sent"
  su_name :: "string sent"
  su_cadence :: "string sent"
  su_timezone :: "string sent"
  su_input :: "json sent"
  su_workspace_id :: "string sent"
  su_enabled :: "bool sent"
  su_timeout_seconds :: "seconds sent"
  su_agent_version :: "string sent"
  su_priority :: "int sent"
  su_concurrency_key :: "string sent"
  su_metadata :: "metadata sent"

record fire_result =
  fr_schedule_id :: string
  fr_run_id :: string
  fr_fire_time :: instant
  fr_idempotency_key :: string
  fr_schedule :: schedule

text \<open>A field that may not be null keeps its value, takes the one sent, or makes the spec invalid;
  one that may be null takes what was sent.\<close>

fun required :: "'a sent \<Rightarrow> 'a \<Rightarrow> 'a result" where
  "required Unset old = Inr old"
| "required Null old = Inl Unprocessable"
| "required (Sent v) old = Inr v"

fun nullable :: "'a sent \<Rightarrow> 'a option \<Rightarrow> 'a option" where
  "nullable Unset old = old"
| "nullable Null old = None"
| "nullable (Sent v) old = Some v"

text \<open>\<open>{**a, **b}\<close>, kept in key order.\<close>

definition merged :: "metadata \<Rightarrow> metadata \<Rightarrow> metadata" where
  "merged a b = sort_key fst (filter (\<lambda>m. fst m \<notin> fst ` set b) a @ b)"

section \<open>Rows\<close>

definition input_sha256 :: "schedule_lib \<Rightarrow> json \<Rightarrow> string" where
  "input_sha256 L v = sha256 L (dumps v)"

definition kept_metadata :: "schedule_row \<Rightarrow> metadata" where
  "kept_metadata row = (case sc_metadata row of None \<Rightarrow> [] | Some m \<Rightarrow> m)"

definition schedule_of :: "schedule_row \<Rightarrow> schedule" where
  "schedule_of row = \<lparr>
     sd_schedule_id = schedule_id row, sd_tenant_id = sc_tenant_id row, sd_agent_id = sc_agent_id row,
     sd_name = sc_name row, sd_cadence = sc_cadence row, sd_timezone = sc_timezone row,
     sd_input = sc_input row, sd_on_behalf_of = sc_on_behalf_of row,
     sd_workspace_id = sc_workspace_id row, sd_created_by = sc_created_by row,
     sd_enabled = sc_enabled row, sd_timeout_seconds = sc_timeout_seconds row,
     sd_agent_version = sc_agent_version row, sd_priority = sc_priority row,
     sd_concurrency_key = sc_concurrency_key row, sd_next_fire_at = sc_next_fire_at row,
     sd_last_fired_at = sc_last_fired_at row, sd_last_run_id = sc_last_run_id row,
     sd_consecutive_failures = sc_consecutive_failures row, sd_last_error = sc_last_error row,
     sd_retry_after = sc_retry_after row, sd_metadata = kept_metadata row,
     sd_created_at = sc_created_at row, sd_updated_at = sc_updated_at row\<rparr>"

definition checked :: "schedule_lib \<Rightarrow> schedule_spec \<Rightarrow> schedule_spec result" where
  "checked L sent =
     (case validate_spec L sent of
        None \<Rightarrow> Inl Unprocessable
      | Some spec \<Rightarrow>
          bind_result (validate_cadence (cron L) (ss_cadence spec)) (\<lambda>c. Inr (spec\<lparr>ss_cadence := c\<rparr>)))"

definition apply_spec :: "schedule_lib \<Rightarrow> schedule_row \<Rightarrow> schedule_spec \<Rightarrow> schedule_row" where
  "apply_spec L row spec = row\<lparr>
     sc_tenant_id := ss_tenant_id spec, sc_agent_id := ss_agent_id spec, sc_name := ss_name spec,
     sc_cadence := ss_cadence spec, sc_timezone := ss_timezone spec, sc_input := ss_input spec,
     sc_on_behalf_of := ss_on_behalf_of spec, sc_workspace_id := ss_workspace_id spec,
     sc_enabled := ss_enabled spec, sc_timeout_seconds := ss_timeout_seconds spec,
     sc_agent_version := ss_agent_version spec, sc_priority := ss_priority spec,
     sc_concurrency_key := ss_concurrency_key spec,
     sc_metadata := (if ss_metadata spec = [] then None else Some (ss_metadata spec)),
     sc_input_sha256 := input_sha256 L (ss_input spec)\<rparr>"

definition arm :: "schedule_lib \<Rightarrow> schedule_row \<Rightarrow> instant \<Rightarrow> schedule_row result" where
  "arm L row after =
     bind_result (next_fire_at (cron L) (sc_cadence row) after (sc_timezone row))
       (\<lambda>t. Inr (row\<lparr>sc_next_fire_at := t\<rparr>))"

definition rearm :: "schedule_lib \<Rightarrow> schedule_row \<Rightarrow> instant \<Rightarrow> schedule_row result" where
  "rearm L row now =
     (case sc_next_fire_at row of
        None \<Rightarrow> arm L row now
      | Some pending \<Rightarrow>
          bind_result (next_fire_at (cron L) (sc_cadence row) pending (sc_timezone row)) (\<lambda>following.
            if pending > now \<or> (case following of None \<Rightarrow> False | Some f \<Rightarrow> f > now) then Inr row
            else arm L row now))"

text \<open>The columns of \<open>uq_schedules_identity\<close>.\<close>

definition schedule_identity :: "schedule_row \<Rightarrow> string \<times> string \<times> string \<times> string \<times> string" where
  "schedule_identity r =
     (sc_tenant_id r, sc_agent_id r, sc_on_behalf_of r, sc_cadence r, sc_input_sha256 r)"

section \<open>Lemmas\<close>

lemma arm_Inr:
  assumes "arm L row after = Inr row'"
  obtains t where "row' = row\<lparr>sc_next_fire_at := t\<rparr>"
    "next_fire_at (cron L) (sc_cadence row) after (sc_timezone row) = Inr t"
  using assms by (auto simp: arm_def)

text \<open>An armed schedule is not due: its next fire is after the instant it was armed from.\<close>

lemma arm_not_due:
  assumes "cron_laws (cron L)" "arm L row after = Inr row'" "sc_next_fire_at row' = Some t"
  shows "after < t"
  using assms by (elim arm_Inr) (auto dest: next_fire_after)

lemma rearm_Inr:
  assumes "rearm L row now = Inr row'"
  shows "(row' = row \<and> sc_next_fire_at row \<noteq> None) \<or> arm L row now = Inr row'"
  using assms by (auto simp: rearm_def split: option.splits if_splits)

lemma checked_Inr:
  assumes "spec_laws L" "checked L sent = Inr spec"
  shows "ss_tenant_id spec = ss_tenant_id sent \<and> ss_on_behalf_of spec = ss_on_behalf_of sent"
  using assms by (auto simp: checked_def spec_laws_def split: option.splits)

end
