(* ===== verification/Schedule_Store.thy ===== *)
theory Schedule_Store
  imports Schedule_Rows
begin

text \<open>
  \<open>src/agent_runs/store/schedules.py\<close>, \<open>ScheduleStore\<close>: every operation on the table of schedules, a
  function from the table to an answer and the table it leaves. A raise leaves the table as it was:
  the caller rolls back. \<open>schedules_ok\<close> is what the table promises (its keys, the failure count of a
  schedule that still fires below \<open>MAX_CONSECUTIVE_FAILURES\<close>, the digest of its input), and
  \<open>schedule_operation\<close> the contract every operation keeps: that promise, and a schedule's tenant,
  principal and creator for good.
\<close>

definition MAX_CONSECUTIVE_FAILURES :: int where
  "MAX_CONSECUTIVE_FAILURES = 3"

section \<open>Internals\<close>

definition schedule_found :: "string \<Rightarrow> string \<Rightarrow> schedule_row list \<Rightarrow> schedule_row result" where
  "schedule_found tenant sid rows =
     (case find (\<lambda>r. sc_tenant_id r = tenant \<and> schedule_id r = sid) rows of
        None \<Rightarrow> Inl NotFound
      | Some r \<Rightarrow> Inr r)"

definition schedule_claimed :: "string \<Rightarrow> schedule_row list \<Rightarrow> schedule_row result" where
  "schedule_claimed sid rows =
     (case find (\<lambda>r. schedule_id r = sid) rows of None \<Rightarrow> Inl NotFound | Some r \<Rightarrow> Inr r)"

section \<open>Creating, reading, changing and deleting\<close>

definition blank_schedule :: "string \<Rightarrow> string \<Rightarrow> instant \<Rightarrow> schedule_row" where
  "blank_schedule sid creator now = \<lparr>
     schedule_id = sid, sc_tenant_id = [], sc_agent_id = [], sc_name = [], sc_cadence = [],
     sc_timezone = [], sc_input = JNull, sc_input_sha256 = [], sc_on_behalf_of = [],
     sc_workspace_id = None, sc_created_by = Some creator, sc_enabled = True,
     sc_timeout_seconds = None, sc_agent_version = None, sc_priority = 0, sc_concurrency_key = None,
     sc_next_fire_at = None, sc_last_fired_at = None, sc_last_run_id = None,
     sc_consecutive_failures = 0, sc_last_error = None, sc_retry_after = None, sc_metadata = None,
     sc_created_at = now, sc_updated_at = now\<rparr>"

text \<open>The id is the one \<open>new_id\<close> draws. \<open>ON CONFLICT\<close> names the identity only: another row with the
  same primary key is an error of the database.\<close>

definition upsert_schedule ::
  "schedule_lib \<Rightarrow> string \<Rightarrow> schedule_spec \<Rightarrow> string \<Rightarrow> instant \<Rightarrow> schedule_row list \<Rightarrow>
   ((schedule \<times> bool) \<times> schedule_row list) result" where
  "upsert_schedule L sid spec creator now rows =
     bind_result (checked L spec) (\<lambda>spec.
       bind_result (arm L (apply_spec L (blank_schedule sid creator now) spec) now) (\<lambda>row.
         case find (\<lambda>r. schedule_identity r = schedule_identity row) rows of
           Some existing \<Rightarrow> Inr ((schedule_of existing, False), rows)
         | None \<Rightarrow>
             if sid \<in> schedule_id ` set rows then Inl IntegrityError
             else Inr ((schedule_of row, True), rows @ [row])))"

definition get_schedule :: "string \<Rightarrow> string \<Rightarrow> schedule_row list \<Rightarrow> schedule result" where
  "get_schedule tenant sid rows =
     bind_result (schedule_found tenant sid rows) (\<lambda>r. Inr (schedule_of r))"

definition listed_schedule ::
  "string \<Rightarrow> bool option \<Rightarrow> string option \<Rightarrow> string option \<Rightarrow> schedule_row \<Rightarrow> bool" where
  "listed_schedule tenant en agent behalf r \<longleftrightarrow>
     sc_tenant_id r = tenant \<and> (en = None \<or> en = Some (sc_enabled r)) \<and>
     (agent = None \<or> agent = Some (sc_agent_id r)) \<and> (behalf = None \<or> behalf = Some (sc_on_behalf_of r))"

definition schedule_position :: "schedule_row \<Rightarrow> instant \<times> string" where
  "schedule_position r = (sc_created_at r, schedule_id r)"

definition list_schedules ::
  "string \<Rightarrow> bool option \<Rightarrow> string option \<Rightarrow> string option \<Rightarrow> nat \<Rightarrow> (instant \<times> string) option \<Rightarrow>
   schedule_row list \<Rightarrow> (schedule, instant \<times> string) page" where
  "list_schedules tenant en agent behalf limit after rows =
     page_of limit schedule_of schedule_position
       (fetch_desc (listed_schedule tenant en agent behalf) schedule_position after (limit + 1) rows)"

text \<open>The fields sent over the fields kept, as the spec that is validated again.\<close>

definition changed_spec :: "schedule_update \<Rightarrow> schedule_row \<Rightarrow> schedule_spec result" where
  "changed_spec u row =
     bind_result (required (su_agent_id u) (sc_agent_id row)) (\<lambda>agent.
     bind_result (required (su_name u) (sc_name row)) (\<lambda>nm.
     bind_result (required (su_cadence u) (sc_cadence row)) (\<lambda>cad.
     bind_result (required (su_timezone u) (sc_timezone row)) (\<lambda>zone.
     bind_result (required (su_enabled u) (sc_enabled row)) (\<lambda>en.
     bind_result (required (su_priority u) (sc_priority row)) (\<lambda>prio.
       Inr \<lparr>ss_tenant_id = sc_tenant_id row, ss_agent_id = agent, ss_name = nm, ss_cadence = cad,
          ss_timezone = zone,
          ss_input = (case su_input u of Unset \<Rightarrow> sc_input row | Null \<Rightarrow> JNull | Sent v \<Rightarrow> v),
          ss_on_behalf_of = sc_on_behalf_of row,
          ss_workspace_id = nullable (su_workspace_id u) (sc_workspace_id row),
          ss_enabled = en,
          ss_timeout_seconds = nullable (su_timeout_seconds u) (sc_timeout_seconds row),
          ss_agent_version = nullable (su_agent_version u) (sc_agent_version row),
          ss_priority = prio,
          ss_concurrency_key = nullable (su_concurrency_key u) (sc_concurrency_key row),
          ss_metadata = (case su_metadata u of Unset \<Rightarrow> kept_metadata row
            | Null \<Rightarrow> kept_metadata row | Sent m \<Rightarrow> merged (kept_metadata row) m)\<rparr>))))))"

definition update_schedule ::
  "schedule_lib \<Rightarrow> string \<Rightarrow> string \<Rightarrow> schedule_update \<Rightarrow> instant \<Rightarrow> schedule_row list \<Rightarrow>
   (schedule \<times> schedule_row list) result" where
  "update_schedule L tenant sid u now rows =
     bind_result (schedule_found tenant sid rows) (\<lambda>row.
     bind_result (bind_result (changed_spec u row) (checked L)) (\<lambda>spec.
       let retimed = (ss_cadence spec, ss_timezone spec) \<noteq> (sc_cadence row, sc_timezone row);
           re_enabled = (ss_enabled spec \<and> \<not> sc_enabled row);
           row1 = apply_spec L row spec
       in bind_result (if retimed then arm L row1 now
                       else if re_enabled then rearm L row1 now else Inr row1) (\<lambda>row2.
          let row3 = (if re_enabled
                then row2\<lparr>sc_consecutive_failures := 0, sc_last_error := None, sc_retry_after := None\<rparr>
                else row2)\<lparr>sc_updated_at := now\<rparr>
          in if \<exists>x\<in>set rows. schedule_id x \<noteq> schedule_id row3 \<and> schedule_identity x = schedule_identity row3
             then Inl (Conflict [])
             else Inr (schedule_of row3, put_row schedule_id row3 rows))))"

definition delete_schedule ::
  "string \<Rightarrow> string \<Rightarrow> schedule_row list \<Rightarrow> (unit \<times> schedule_row list) result" where
  "delete_schedule tenant sid rows =
     bind_result (schedule_found tenant sid rows) (\<lambda>row.
       Inr ((), filter (\<lambda>r. schedule_id r \<noteq> schedule_id row) rows))"

section \<open>Firing\<close>

definition claim_schedule :: "string \<Rightarrow> string \<Rightarrow> schedule_row list \<Rightarrow> schedule result" where
  "claim_schedule tenant sid rows =
     bind_result (schedule_found tenant sid rows) (\<lambda>r. Inr (schedule_of r))"

definition due_schedule :: "instant \<Rightarrow> schedule_row \<Rightarrow> bool" where
  "due_schedule now r \<longleftrightarrow>
     sc_enabled r \<and> (case sc_next_fire_at r of None \<Rightarrow> False | Some t \<Rightarrow> t \<le> now) \<and>
     (case sc_retry_after r of None \<Rightarrow> True | Some t \<Rightarrow> t \<le> now)"

text \<open>\<open>SKIP LOCKED\<close>: the schedules another transaction holds are \<open>busy\<close>.\<close>

definition free_and_due :: "(string \<Rightarrow> bool) \<Rightarrow> instant \<Rightarrow> schedule_row \<Rightarrow> bool" where
  "free_and_due busy now r \<longleftrightarrow> due_schedule now r \<and> \<not> busy (schedule_id r)"

definition claim_due_schedule :: "(string \<Rightarrow> bool) \<Rightarrow> instant \<Rightarrow> schedule_row list \<Rightarrow> schedule option" where
  "claim_due_schedule busy now rows =
     (case query (free_and_due busy now) (nulls_last \<circ> sc_next_fire_at) 1 rows of
        [] \<Rightarrow> None
      | r # _ \<Rightarrow> Some (schedule_of r))"

definition record_fire_success ::
  "schedule_lib \<Rightarrow> string \<Rightarrow> instant \<Rightarrow> string \<Rightarrow> instant \<Rightarrow> schedule_row list \<Rightarrow>
   (schedule \<times> schedule_row list) result" where
  "record_fire_success L sid fire_time rid now rows =
     bind_result (schedule_claimed sid rows) (\<lambda>row.
     bind_result (arm L (row\<lparr>sc_last_fired_at := Some fire_time, sc_last_run_id := Some rid,
         sc_consecutive_failures := 0, sc_last_error := None, sc_retry_after := None\<rparr>)
       (max fire_time now)) (\<lambda>row.
       let row = row\<lparr>sc_updated_at := now\<rparr>
       in Inr (schedule_of row, put_row schedule_id row rows)))"

definition failed_row :: "agent_error \<Rightarrow> instant \<Rightarrow> schedule_row \<Rightarrow> schedule_row" where
  "failed_row err now row =
     (let n = sc_consecutive_failures row + 1;
          row = row\<lparr>sc_consecutive_failures := n, sc_last_error := Some err\<rparr>;
          row = (if \<not> ae_retryable err \<or> n \<ge> MAX_CONSECUTIVE_FAILURES
                 then row\<lparr>sc_enabled := False, sc_retry_after := None\<rparr>
                 else row\<lparr>sc_retry_after := Some (now + backoff FIRE_RETRY_BASE n FIRE_RETRY_CAP)\<rparr>)
      in row\<lparr>sc_updated_at := now\<rparr>)"

definition record_fire_failure ::
  "string \<Rightarrow> agent_error \<Rightarrow> instant \<Rightarrow> schedule_row list \<Rightarrow> (schedule \<times> schedule_row list) result" where
  "record_fire_failure sid err now rows =
     bind_result (schedule_claimed sid rows) (\<lambda>row.
       let row = failed_row err now row
       in Inr (schedule_of row, put_row schedule_id row rows))"

section \<open>The contract of an operation\<close>

definition schedule_row_ok :: "schedule_lib \<Rightarrow> schedule_row \<Rightarrow> bool" where
  "schedule_row_ok L r \<longleftrightarrow>
     0 \<le> sc_consecutive_failures r \<and> sc_consecutive_failures r \<le> MAX_CONSECUTIVE_FAILURES \<and>
     (sc_enabled r \<longrightarrow> sc_consecutive_failures r < MAX_CONSECUTIVE_FAILURES) \<and>
     sc_input_sha256 r = input_sha256 L (sc_input r)"

text \<open>\<open>uq_schedules_identity\<close>.\<close>

definition unique_identities :: "schedule_row list \<Rightarrow> bool" where
  "unique_identities rows \<longleftrightarrow>
     (\<forall>a\<in>set rows. \<forall>b\<in>set rows. schedule_identity a = schedule_identity b \<longrightarrow> schedule_id a = schedule_id b)"

definition schedules_ok :: "schedule_lib \<Rightarrow> schedule_row list \<Rightarrow> bool" where
  "schedules_ok L rows \<longleftrightarrow>
     distinct (map schedule_id rows) \<and> unique_identities rows \<and> (\<forall>r\<in>set rows. schedule_row_ok L r)"

text \<open>What no operation changes of a schedule: whose it is, whom its runs act for, who made it.\<close>

definition schedule_owner :: "schedule_row \<Rightarrow> string \<times> string \<times> string \<times> string option \<times> instant" where
  "schedule_owner r =
     (schedule_id r, sc_tenant_id r, sc_on_behalf_of r, sc_created_by r, sc_created_at r)"

lemma schedules_okD:
  assumes "schedules_ok L rows"
  shows "distinct (map schedule_id rows)" "\<And>r. r \<in> set rows \<Longrightarrow> schedule_row_ok L r"
    "\<And>a b. a \<in> set rows \<Longrightarrow> b \<in> set rows \<Longrightarrow> schedule_identity a = schedule_identity b \<Longrightarrow> schedule_id a = schedule_id b"
  using assms unfolding schedules_ok_def unique_identities_def by blast+

lemma schedule_by_id:
  assumes "schedules_ok L rows" "a \<in> set rows" "b \<in> set rows" "schedule_id a = schedule_id b"
  shows "a = b"
  using schedules_okD(1) [OF assms(1)] assms(2-) by (simp add: distinct_map inj_on_def)

locale schedule_operation =
  fixes L :: schedule_lib and op :: "schedule_row list \<Rightarrow> ('a \<times> schedule_row list) result"
  assumes keeps_ok: "\<lbrakk>schedules_ok L rows; op rows = Inr (a, rows')\<rbrakk> \<Longrightarrow> schedules_ok L rows'"
    and keeps_owner: "\<lbrakk>spec_laws L; schedules_ok L rows; op rows = Inr (a, rows'); r' \<in> set rows'\<rbrakk> \<Longrightarrow>
      (\<exists>r\<in>set rows. schedule_owner r' = schedule_owner r) \<or> schedule_id r' \<notin> schedule_id ` set rows"
begin

text \<open>A schedule that was there keeps its owner.\<close>

lemma owner_for_good:
  assumes "spec_laws L" "schedules_ok L rows" "op rows = Inr (a, rows')" "r \<in> set rows" "r' \<in> set rows'"
    and "schedule_id r' = schedule_id r"
  shows "schedule_owner r' = schedule_owner r"
proof -
  from keeps_owner [OF assms(1,2,3,5)] assms(4,6) obtain x where
    x: "x \<in> set rows" "schedule_owner r' = schedule_owner x" by (metis image_eqI)
  then have "schedule_id x = schedule_id r" using assms(6) by (simp add: schedule_owner_def)
  with x schedule_by_id [OF assms(2) x(1) assms(4)] show ?thesis by simp
qed

end

text \<open>A row is written back under its own key, valid and with an identity no other row has.\<close>

lemma schedules_ok_put:
  assumes "schedules_ok L rows" "schedule_row_ok L r'"
    and "\<And>x. x \<in> set rows \<Longrightarrow> schedule_id x \<noteq> schedule_id r' \<Longrightarrow> schedule_identity x \<noteq> schedule_identity r'"
  shows "schedules_ok L (put_row schedule_id r' rows)"
proof -
  have in_new: "x = r' \<or> (x \<in> set rows \<and> schedule_id x \<noteq> schedule_id r')" if "x \<in> set (put_row schedule_id r' rows)" for x
    using that by (rule in_put_row)
  have uniq: "schedule_id a = schedule_id b"
    if ab: "a \<in> set (put_row schedule_id r' rows)" "b \<in> set (put_row schedule_id r' rows)" "schedule_identity a = schedule_identity b" for a b
  proof -
    consider "a = r'" "b = r'" | "a = r'" "b \<in> set rows" "schedule_id b \<noteq> schedule_id r'"
      | "b = r'" "a \<in> set rows" "schedule_id a \<noteq> schedule_id r'" | "a \<in> set rows" "b \<in> set rows"
      using in_new [OF ab(1)] in_new [OF ab(2)] by blast
    then show ?thesis
      using assms(3) [of a] assms(3) [of b] schedules_okD(3) [OF assms(1)] ab(3) by cases metis+
  qed
  have "schedule_row_ok L x" if "x \<in> set (put_row schedule_id r' rows)" for x
    using in_new [OF that] assms(2) schedules_okD(2) [OF assms(1)] by auto
  moreover from uniq have "unique_identities (put_row schedule_id r' rows)" unfolding unique_identities_def by blast
  ultimately show ?thesis using schedules_okD(1) [OF assms(1)] by (simp add: schedules_ok_def)
qed

lemma schedules_ok_snoc:
  assumes "schedules_ok L rows" "schedule_row_ok L r" "schedule_id r \<notin> schedule_id ` set rows"
    and "\<forall>x\<in>set rows. schedule_identity x \<noteq> schedule_identity r"
  shows "schedules_ok L (rows @ [r])"
proof -
  have "unique_identities (rows @ [r])"
    using assms(4) schedules_okD(3) [OF assms(1)] unfolding unique_identities_def by (metis Un_iff empty_iff insert_iff list.set set_append)
  then show ?thesis
    using assms(2,3) schedules_okD(1,2) [OF assms(1)] by (simp add: schedules_ok_def)
qed

text \<open>Replacing a row by one of the same owner keeps every owner.\<close>

lemma owners_put:
  assumes "r \<in> set rows" "schedule_owner r' = schedule_owner r" "x \<in> set (put_row schedule_id r' rows)"
  shows "(\<exists>y\<in>set rows. schedule_owner x = schedule_owner y) \<or> schedule_id x \<notin> schedule_id ` set rows"
  using in_put_row [OF assms(3)] assms(1,2) by auto

lemma schedule_found_Inr:
  "schedule_found tenant sid rows = Inr r \<Longrightarrow> r \<in> set rows \<and> sc_tenant_id r = tenant \<and> schedule_id r = sid"
  by (auto simp: schedule_found_def find_Some_iff split: option.splits)

lemma schedule_claimed_Inr: "schedule_claimed sid rows = Inr r \<Longrightarrow> r \<in> set rows \<and> schedule_id r = sid"
  by (auto simp: schedule_claimed_def find_Some_iff split: option.splits)

lemma schedule_claimed_in:
  assumes "distinct (map schedule_id rows)" "r \<in> set rows"
  shows "schedule_claimed (schedule_id r) rows = Inr r"
proof -
  have "find (\<lambda>x. schedule_id x = schedule_id r) rows = Some r"
    using assms by (induction rows) auto
  then show ?thesis by (simp add: schedule_claimed_def)
qed

section \<open>Every operation keeps the contract\<close>

lemma apply_spec_owner:
  "schedule_owner (apply_spec L row spec) =
     (schedule_id row, ss_tenant_id spec, ss_on_behalf_of spec, sc_created_by row, sc_created_at row)"
  by (simp add: schedule_owner_def apply_spec_def)

lemma apply_spec_sha [simp]: "sc_input_sha256 (apply_spec L row spec) = input_sha256 L (sc_input (apply_spec L row spec))"
  by (simp add: apply_spec_def)

lemma armed_keeps:
  assumes "arm L row t = Inr row'"
  shows "schedule_owner row' = schedule_owner row" "schedule_identity row' = schedule_identity row"
    "schedule_row_ok L row' = schedule_row_ok L row" "sc_enabled row' = sc_enabled row"
    "sc_consecutive_failures row' = sc_consecutive_failures row"
  using assms by (auto elim!: arm_Inr simp: schedule_owner_def schedule_identity_def schedule_row_ok_def)

lemma rearmed_keeps:
  assumes "rearm L row t = Inr row'"
  shows "schedule_owner row' = schedule_owner row" "schedule_identity row' = schedule_identity row"
    "schedule_row_ok L row' = schedule_row_ok L row" "sc_enabled row' = sc_enabled row"
    "sc_consecutive_failures row' = sc_consecutive_failures row"
  using rearm_Inr [OF assms] by (auto simp: armed_keeps)

lemma changed_spec_Inr:
  "changed_spec u row = Inr spec \<Longrightarrow> ss_tenant_id spec = sc_tenant_id row \<and> ss_on_behalf_of spec = sc_on_behalf_of row"
  by (auto simp: changed_spec_def)

lemma upsert_schedule_Inr:
  assumes "upsert_schedule L sid spec creator now rows = Inr ((s, created), rows')"
  obtains (existing) r where "r \<in> set rows" "s = schedule_of r" "\<not> created" "rows' = rows"
  | (created) spec' row where "checked L spec = Inr spec'"
      "arm L (apply_spec L (blank_schedule sid creator now) spec') now = Inr row" "s = schedule_of row"
      created "rows' = rows @ [row]" "sid \<notin> schedule_id ` set rows"
      "\<forall>r\<in>set rows. schedule_identity r \<noteq> schedule_identity row"
proof -
  from assms obtain spec' row where a: "checked L spec = Inr spec'"
    "arm L (apply_spec L (blank_schedule sid creator now) spec') now = Inr row"
    "(case find (\<lambda>r. schedule_identity r = schedule_identity row) rows of
        Some e \<Rightarrow> Inr ((schedule_of e, False), rows)
      | None \<Rightarrow> if sid \<in> schedule_id ` set rows then Inl IntegrityError
               else Inr ((schedule_of row, True), rows @ [row])) = Inr ((s, created), rows')"
    by (auto simp: upsert_schedule_def)
  show thesis
  proof (cases "find (\<lambda>r. schedule_identity r = schedule_identity row) rows")
    case None
    with a show thesis by (intro created [of spec' row]) (auto simp: find_None_iff split: if_splits)
  next
    case (Some e)
    then have "e \<in> set rows" by (auto simp: find_Some_iff)
    with Some a(3) show thesis by (intro existing [of e]) auto
  qed
qed

interpretation upserting: schedule_operation L "upsert_schedule L sid spec creator now"
  for L sid spec creator now
proof
  fix rows a rows' r'
  assume ok: "schedules_ok L rows" and run: "upsert_schedule L sid spec creator now rows = Inr (a, rows')"
  obtain s created where a: "a = (s, created)" by (cases a)
  have "schedules_ok L rows' \<and> (r' \<in> set rows' \<longrightarrow>
      (\<exists>r\<in>set rows. schedule_owner r' = schedule_owner r) \<or> schedule_id r' \<notin> schedule_id ` set rows)"
    using run [unfolded a]
  proof (cases rule: upsert_schedule_Inr)
    case existing
    with ok show ?thesis by auto
  next
    case (created spec' row)
    have "schedule_id row = sid"
      using armed_keeps(1) [OF created(2)] by (simp add: apply_spec_owner blank_schedule_def) (simp add: schedule_owner_def)
    moreover have "schedule_row_ok L row"
      unfolding armed_keeps(3) [OF created(2)]
      by (simp add: schedule_row_ok_def MAX_CONSECUTIVE_FAILURES_def) (simp add: apply_spec_def blank_schedule_def)
    ultimately show ?thesis using schedules_ok_snoc [OF ok] created(5-) by auto
  qed
  then show "schedules_ok L rows'"
    and "r' \<in> set rows' \<Longrightarrow> (\<exists>r\<in>set rows. schedule_owner r' = schedule_owner r) \<or> schedule_id r' \<notin> schedule_id ` set rows"
    by auto
qed

text \<open>A row after an update: the spec it was given, armed as the change asks, its failures cleared
  when it was enabled again.\<close>

lemma update_schedule_Inr:
  assumes "update_schedule L tenant sid u now rows = Inr (s, rows')"
  obtains row sent spec row2 row3 where "schedule_found tenant sid rows = Inr row"
    "changed_spec u row = Inr sent" "checked L sent = Inr spec"
    "(if (ss_cadence spec, ss_timezone spec) \<noteq> (sc_cadence row, sc_timezone row) then arm L (apply_spec L row spec) now
      else if ss_enabled spec \<and> \<not> sc_enabled row then rearm L (apply_spec L row spec) now
      else Inr (apply_spec L row spec)) = Inr row2"
    "row3 = (if ss_enabled spec \<and> \<not> sc_enabled row
       then row2\<lparr>sc_consecutive_failures := 0, sc_last_error := None, sc_retry_after := None\<rparr> else row2)\<lparr>sc_updated_at := now\<rparr>"
    "\<forall>x\<in>set rows. schedule_id x \<noteq> schedule_id row3 \<longrightarrow> schedule_identity x \<noteq> schedule_identity row3"
    "s = schedule_of row3" "rows' = put_row schedule_id row3 rows"
proof -
  from assms obtain row sent spec where a: "schedule_found tenant sid rows = Inr row"
    "changed_spec u row = Inr sent" "checked L sent = Inr spec"
    by (auto simp: update_schedule_def)
  define row1 where "row1 = apply_spec L row spec"
  note b = assms [unfolded update_schedule_def a bind_result_simps Let_def, folded row1_def]
  from b obtain row2 where r2: "(if (ss_cadence spec, ss_timezone spec) \<noteq> (sc_cadence row, sc_timezone row) then arm L row1 now
      else if ss_enabled spec \<and> \<not> sc_enabled row then rearm L row1 now else Inr row1) = Inr row2"
    unfolding bind_result_Inr_iff by blast
  define row3 where "row3 = (if ss_enabled spec \<and> \<not> sc_enabled row
       then row2\<lparr>sc_consecutive_failures := 0, sc_last_error := None, sc_retry_after := None\<rparr> else row2)\<lparr>sc_updated_at := now\<rparr>"
  note c = b [unfolded r2 bind_result_simps, folded row3_def]
  show thesis
    using that [OF a r2 [unfolded row1_def] row3_def] c by (auto split: if_splits)
qed

lemma update_row_keeps:
  assumes "(if retimed then arm L (apply_spec L row spec) now
      else if re_enabled then rearm L (apply_spec L row spec) now else Inr (apply_spec L row spec)) = Inr row2"
    and "row3 = (if ss_enabled spec \<and> \<not> sc_enabled row
       then row2\<lparr>sc_consecutive_failures := 0, sc_last_error := None, sc_retry_after := None\<rparr> else row2)\<lparr>sc_updated_at := now\<rparr>"
  shows "schedule_owner row3 = schedule_owner (apply_spec L row spec)"
    and "schedule_row_ok L row \<Longrightarrow> schedule_row_ok L row3" and "schedule_id row3 = schedule_id row"
proof -
  have k: "schedule_owner row2 = schedule_owner (apply_spec L row spec)" "sc_enabled row2 = ss_enabled spec"
    "schedule_row_ok L row2 = schedule_row_ok L (apply_spec L row spec)"
    "sc_consecutive_failures row2 = sc_consecutive_failures row"
    using assms(1) by (auto split: if_splits simp: armed_keeps rearmed_keeps) (auto simp: apply_spec_def armed_keeps rearmed_keeps)
  show owner: "schedule_owner row3 = schedule_owner (apply_spec L row spec)"
    using k(1) by (auto simp: assms(2) schedule_owner_def)
  then show "schedule_id row3 = schedule_id row" by (simp add: apply_spec_owner) (simp add: schedule_owner_def)
  show "schedule_row_ok L row3" if "schedule_row_ok L row"
  proof -
    have sha: "sc_input_sha256 row2 = input_sha256 L (sc_input row2)"
      using assms(1) by (auto split: if_splits elim!: arm_Inr dest!: rearm_Inr)
    show ?thesis using that k(2,4) sha
      by (auto simp: assms(2) schedule_row_ok_def MAX_CONSECUTIVE_FAILURES_def)
  qed
qed

interpretation updating: schedule_operation L "update_schedule L tenant sid u now" for L tenant sid u now
proof
  fix rows a rows' r'
  assume ok: "schedules_ok L rows" and run: "update_schedule L tenant sid u now rows = Inr (a, rows')"
  from run obtain row sent spec row2 row3 where u: "schedule_found tenant sid rows = Inr row"
    "changed_spec u row = Inr sent" "checked L sent = Inr spec"
    "(if (ss_cadence spec, ss_timezone spec) \<noteq> (sc_cadence row, sc_timezone row) then arm L (apply_spec L row spec) now
      else if ss_enabled spec \<and> \<not> sc_enabled row then rearm L (apply_spec L row spec) now
      else Inr (apply_spec L row spec)) = Inr row2"
    "row3 = (if ss_enabled spec \<and> \<not> sc_enabled row
       then row2\<lparr>sc_consecutive_failures := 0, sc_last_error := None, sc_retry_after := None\<rparr> else row2)\<lparr>sc_updated_at := now\<rparr>"
    "\<forall>x\<in>set rows. schedule_id x \<noteq> schedule_id row3 \<longrightarrow> schedule_identity x \<noteq> schedule_identity row3"
    "rows' = put_row schedule_id row3 rows"
    by (rule update_schedule_Inr) metis
  note k = update_row_keeps [OF u(4,5)]
  have row: "row \<in> set rows" using schedule_found_Inr [OF u(1)] by simp
  show "schedules_ok L rows'"
    unfolding u(7) using schedules_ok_put [OF ok] k(2) schedules_okD(2) [OF ok row] u(6) by blast
  assume "r' \<in> set rows'"
  show "(\<exists>r\<in>set rows. schedule_owner r' = schedule_owner r) \<or> schedule_id r' \<notin> schedule_id ` set rows" if "spec_laws L"
  proof -
    have "schedule_owner row3 = schedule_owner row"
      using k(1) checked_Inr [OF that u(3)] changed_spec_Inr [OF u(2)]
      by (simp add: apply_spec_owner) (simp add: schedule_owner_def)
    from owners_put [OF row this] \<open>r' \<in> set rows'\<close> u(7) show ?thesis by simp
  qed
qed

lemma schedules_ok_filter:
  assumes "schedules_ok L rows" shows "schedules_ok L (filter P rows)"
proof -
  have "unique_identities (filter P rows)"
    using schedules_okD(3) [OF assms] unfolding unique_identities_def by (metis filter_is_subset subsetD)
  moreover have "distinct (map schedule_id (filter P rows))"
    using schedules_okD(1) [OF assms] by (auto simp: distinct_map intro: inj_on_subset)
  ultimately show ?thesis using schedules_okD(2) [OF assms] by (auto simp: schedules_ok_def)
qed

interpretation deleting: schedule_operation L "delete_schedule tenant sid" for L tenant sid
  by unfold_locales (auto simp: delete_schedule_def schedules_ok_filter)

section \<open>A fire's bookkeeping\<close>

lemma failed_row_keeps:
  shows "schedule_owner (failed_row err now row) = schedule_owner row"
    "schedule_identity (failed_row err now row) = schedule_identity row"
    "schedule_row_ok L row \<Longrightarrow> sc_enabled row \<Longrightarrow> schedule_row_ok L (failed_row err now row)"
  by (auto simp: failed_row_def Let_def schedule_owner_def schedule_identity_def schedule_row_ok_def
      MAX_CONSECUTIVE_FAILURES_def)

lemma record_fire_success_Inr:
  assumes "record_fire_success L sid fire_time rid now rows = Inr (s, rows')"
  obtains row row' t where "schedule_claimed sid rows = Inr row"
    "next_fire_at (cron L) (sc_cadence row) (max fire_time now) (sc_timezone row) = Inr t"
    "row' = row\<lparr>sc_last_fired_at := Some fire_time, sc_last_run_id := Some rid, sc_consecutive_failures := 0,
       sc_last_error := None, sc_retry_after := None, sc_next_fire_at := t, sc_updated_at := now\<rparr>"
    "s = schedule_of row'" "rows' = put_row schedule_id row' rows"
  using assms by (auto simp: record_fire_success_def Let_def elim!: arm_Inr)

lemma record_fire_failure_Inr:
  assumes "record_fire_failure sid err now rows = Inr (s, rows')"
  obtains row where "schedule_claimed sid rows = Inr row" "s = schedule_of (failed_row err now row)"
    "rows' = put_row schedule_id (failed_row err now row) rows"
  using assms by (auto simp: record_fire_failure_def Let_def)

text \<open>A row written back with its own identity.\<close>

lemma schedules_ok_same_identity:
  assumes "schedules_ok L rows" "row \<in> set rows" "schedule_row_ok L row'"
    and "schedule_id row' = schedule_id row" "schedule_identity row' = schedule_identity row"
  shows "schedules_ok L (put_row schedule_id row' rows)"
  using assms schedules_ok_put [OF assms(1,3)] schedules_okD(3) [OF assms(1)] by metis

end
