(* ===== verification/Firing.thy ===== *)
theory Firing
  imports Schedule_Store Run_Store
begin

text \<open>
  \<open>src/agent_runs/firing.py\<close>: a fire queues one run for one tick and advances the schedule in the same
  transaction. Runs and schedules are separate tables, so a fire takes and leaves both. Two outcomes
  are committed: the fire, and \<open>FireFailed\<close>, which is raised with the failure recorded on the schedule;
  any other raise rolls back. Whether the database refuses the run is the argument \<open>fault\<close>, the id
  the run is minted with is \<open>rid\<close>. Instants are absolute; the tick of a request keeps its offset from
  UTC (in seconds), which the run's metadata spells.
\<close>

definition MAX_FIRE_SKEW :: duration where
  "MAX_FIRE_SKEW = timedelta_seconds 60"

section \<open>\<open>datetime.isoformat()\<close>\<close>

text \<open>The Gregorian date of a day counted from 1 January 1970, by eras of 400 years that start in
  March.\<close>

definition civil :: "int \<Rightarrow> int \<times> int \<times> int" where
  "civil days =
     (let z = days + 719468;
          era = z div 146097;
          doe = z mod 146097;
          yoe = (doe - doe div 1460 + doe div 36524 - doe div 146096) div 365;
          doy = doe - (365 * yoe + yoe div 4 - yoe div 100);
          mp = (5 * doy + 2) div 153;
          day = doy - (153 * mp + 2) div 5 + 1;
          month = (if mp < 10 then mp + 3 else mp - 9)
      in (yoe + era * 400 + (if month \<le> 2 then 1 else 0), month, day))"

definition padded :: "nat \<Rightarrow> int \<Rightarrow> string" where
  "padded n k = (let s = show_int k in replicate (n - length s) (CHR ''0'') @ s)"

definition iso_offset :: "int \<Rightarrow> string" where
  "iso_offset secs =
     (let a = \<bar>secs\<bar> in
      (if secs < 0 then ''-'' else ''+'') @ padded 2 (a div 3600) @ '':'' @ padded 2 (a div 60 mod 60) @
      (if a mod 60 = 0 then [] else '':'' @ padded 2 (a mod 60)))"

definition isoformat :: "int \<Rightarrow> instant \<Rightarrow> string" where
  "isoformat secs t =
     (let l = t + timedelta_seconds secs;
          (y, m, d) = civil (l div 86400000000);
          r = l mod 86400000000;
          s = r div 1000000;
          u = r mod 1000000
      in padded 4 y @ ''-'' @ padded 2 m @ ''-'' @ padded 2 d @ ''T'' @ padded 2 (s div 3600) @ '':'' @
         padded 2 (s div 60 mod 60) @ '':'' @ padded 2 (s mod 60) @
         (if u = 0 then [] else ''.'' @ padded 6 u) @ iso_offset secs)"

section \<open>One fire\<close>

definition fire_key :: "string \<Rightarrow> instant \<Rightarrow> string" where
  "fire_key sid fire_time = sid @ ''@'' @ isoformat 0 fire_time"

definition thread_of :: "schedule \<Rightarrow> string option" where
  "thread_of s =
     (case map_of (sd_metadata s) ''thread_id'' of
        Some (JStr t) \<Rightarrow> if t = [] then None else Some t
      | _ \<Rightarrow> None)"

definition fire_start :: "string \<Rightarrow> schedule \<Rightarrow> instant \<Rightarrow> int \<Rightarrow> run_start" where
  "fire_start rid s fire_time offset = \<lparr>
     rs_run_id = rid, rs_tenant_id = sd_tenant_id s, rs_agent_id = sd_agent_id s,
     rs_parent_run_id = None, rs_thread_id = thread_of s, rs_user_id = None,
     rs_workspace_id = sd_workspace_id s, rs_on_behalf_of = Some (sd_on_behalf_of s),
     rs_input = sd_input s, rs_deadline = None, rs_timeout_seconds = sd_timeout_seconds s,
     rs_idempotency_key = Some (fire_key (sd_schedule_id s) fire_time),
     rs_agent_version = sd_agent_version s, rs_priority = sd_priority s,
     rs_concurrency_key = sd_concurrency_key s,
     rs_metadata = merged (sd_metadata s)
       [(''created_by'', case sd_created_by s of None \<Rightarrow> JNull | Some c \<Rightarrow> JStr c),
        (''fire_time'', JStr (isoformat offset fire_time)),
        (''schedule_id'', JStr (sd_schedule_id s)),
        (''schedule_name'', JStr (sd_name s))]\<rparr>"

datatype fired = Fired fire_result | FireFailed schedule agent_error

text \<open>What \<open>FireFailed\<close> is answered as.\<close>

definition fire_failed_error :: "schedule \<Rightarrow> agent_error \<Rightarrow> service_error" where
  "fire_failed_error s err = Unavailable (ae_retryable err \<and> sd_enabled s) RETRY_AFTER_SECONDS"

definition fire_tick ::
  "schedule_lib \<Rightarrow> db_fault option \<Rightarrow> string \<Rightarrow> schedule \<Rightarrow> instant \<Rightarrow> int \<Rightarrow> instant \<Rightarrow> db \<Rightarrow>
   schedule_row list \<Rightarrow> ((fired \<times> db) \<times> schedule_row list) result" where
  "fire_tick L fault rid s fire_time offset now d rows =
     (case fault of
        Some f \<Rightarrow>
          (let err = error_of L f Dependency ''agent-runs'' (operational f)
           in bind_result (record_fire_failure (sd_schedule_id s) err now rows) (\<lambda>(left, rows').
                Inr ((FireFailed left err, d), rows')))
      | None \<Rightarrow>
          bind_result (start (fire_start rid s fire_time offset) True now False d) (\<lambda>((run, _), d').
          bind_result (record_fire_success L (sd_schedule_id s) fire_time (rec_run_id run) now rows)
            (\<lambda>(advanced, rows').
              Inr ((Fired \<lparr>fr_schedule_id = sd_schedule_id s, fr_run_id = rec_run_id run,
                       fr_fire_time = fire_time,
                       fr_idempotency_key = fire_key (sd_schedule_id s) fire_time,
                       fr_schedule = advanced\<rparr>, d'), rows'))))"

definition tick_for :: "(instant \<times> int) option \<Rightarrow> schedule \<Rightarrow> instant \<Rightarrow> instant \<times> int" where
  "tick_for asked s now =
     (case asked of
        Some t \<Rightarrow> t
      | None \<Rightarrow> (case sd_next_fire_at s of
                   None \<Rightarrow> (now, 0)
                 | Some due \<Rightarrow> if due \<le> now then (due, 0) else (now, 0)))"

definition fire ::
  "schedule_lib \<Rightarrow> db_fault option \<Rightarrow> string \<Rightarrow> string \<Rightarrow> string \<Rightarrow> (instant \<times> int) option \<Rightarrow> instant \<Rightarrow> db \<Rightarrow>
   schedule_row list \<Rightarrow> ((fired \<times> db) \<times> schedule_row list) result" where
  "fire L fault rid tenant sid asked now d rows =
     bind_result (claim_schedule tenant sid rows) (\<lambda>s.
       if \<not> sd_enabled s then Inl (Conflict [])
       else if (case asked of None \<Rightarrow> False | Some t \<Rightarrow> fst t > now + MAX_FIRE_SKEW) then Inl Unprocessable
       else let (fire_time, offset) = tick_for asked s now
            in fire_tick L fault rid s fire_time offset now d rows)"

definition fire_due ::
  "schedule_lib \<Rightarrow> (string \<Rightarrow> bool) \<Rightarrow> db_fault option \<Rightarrow> string \<Rightarrow> instant \<Rightarrow> db \<Rightarrow> schedule_row list \<Rightarrow>
   ((fired option \<times> db) \<times> schedule_row list) result" where
  "fire_due L busy fault rid now d rows =
     (case claim_due_schedule busy now rows of
        None \<Rightarrow> Inr ((None, d), rows)
      | Some s \<Rightarrow>
          (case sd_next_fire_at s of
             None \<Rightarrow> Inr ((None, d), rows)
           | Some t \<Rightarrow>
               bind_result (fire_tick L fault rid s t 0 now d rows) (\<lambda>((outcome, d'), rows').
                 Inr ((Some outcome, d'), rows'))))"

section \<open>What a fire does\<close>

lemma schedule_of_simps [simp]:
  "sd_schedule_id (schedule_of r) = schedule_id r" "sd_tenant_id (schedule_of r) = sc_tenant_id r"
  "sd_enabled (schedule_of r) = sc_enabled r" "sd_next_fire_at (schedule_of r) = sc_next_fire_at r"
  "sd_on_behalf_of (schedule_of r) = sc_on_behalf_of r"
  by (simp_all add: schedule_of_def)

lemma fire_start_simps [simp]:
  "rs_tenant_id (fire_start rid s t z) = sd_tenant_id s" "rs_run_id (fire_start rid s t z) = rid"
  "rs_idempotency_key (fire_start rid s t z) = Some (fire_key (sd_schedule_id s) t)"
  by (simp_all add: fire_start_def)

lemma fire_key_nonempty [simp]: "fire_key sid t \<noteq> []"
  by (simp add: fire_key_def)

text \<open>The two committed outcomes of firing the schedule of a row.\<close>

lemma fire_tick_Inr:
  assumes "schedules_ok L rows" "row \<in> set rows"
    and "fire_tick L fault rid (schedule_of row) t z now d rows = Inr ((outcome, d'), rows')"
  obtains (failed) f where "fault = Some f" "d' = d"
      "outcome = FireFailed (schedule_of (failed_row (error_of L f Dependency ''agent-runs'' (operational f)) now row))
         (error_of L f Dependency ''agent-runs'' (operational f))"
      "rows' = put_row schedule_id (failed_row (error_of L f Dependency ''agent-runs'' (operational f)) now row) rows"
  | (fired) run created row' following where "fault = None"
      "start (fire_start rid (schedule_of row) t z) True now False d = Inr ((run, created), d')"
      "next_fire_at (cron L) (sc_cadence row) (max t now) (sc_timezone row) = Inr following"
      "row' = row\<lparr>sc_last_fired_at := Some t, sc_last_run_id := Some (rec_run_id run), sc_consecutive_failures := 0,
         sc_last_error := None, sc_retry_after := None, sc_next_fire_at := following, sc_updated_at := now\<rparr>"
      "outcome = Fired \<lparr>fr_schedule_id = schedule_id row, fr_run_id = rec_run_id run, fr_fire_time = t,
         fr_idempotency_key = fire_key (schedule_id row) t, fr_schedule = schedule_of row'\<rparr>"
      "rows' = put_row schedule_id row' rows"
proof (cases fault)
  case (Some f)
  define err where "err = error_of L f Dependency ''agent-runs'' (operational f)"
  from assms(3) Some schedule_claimed_in [OF schedules_okD(1) [OF assms(1)] assms(2)]
  show thesis
    by (intro failed [of f]) (auto simp: fire_tick_def record_fire_failure_def Let_def)
next
  case None
  from assms(3) obtain run created advanced where
    r: "start (fire_start rid (schedule_of row) t z) True now False d = Inr ((run, created), d')"
       "record_fire_success L (schedule_id row) t (rec_run_id run) now rows = Inr (advanced, rows')"
       "outcome = Fired \<lparr>fr_schedule_id = schedule_id row, fr_run_id = rec_run_id run, fr_fire_time = t,
         fr_idempotency_key = fire_key (schedule_id row) t, fr_schedule = advanced\<rparr>"
    by (auto simp: fire_tick_def None)
  from r(2) show thesis
    by (rule record_fire_success_Inr)
      (use None r schedule_claimed_in [OF schedules_okD(1) [OF assms(1)] assms(2)] in \<open>auto intro: fired\<close>)
qed

lemma fire_tick_evolves:
  assumes "store_inv d" "schedules_ok L rows" "row \<in> set rows"
    and "fire_tick L fault rid (schedule_of row) t z now d rows = Inr ((outcome, d'), rows')"
  shows "evolves d d'"
  using assms(2-4)
proof (cases rule: fire_tick_Inr)
  case failed
  then show ?thesis using evolves_refl [OF assms(1)] by simp
next
  case fired
  show ?thesis using starting.effect [OF demo_laws(1,2) assms(1) fired(2)] .
qed

text \<open>The row a fire leaves in place of the one it fired.\<close>

lemma fire_tick_row:
  assumes "schedules_ok L rows" "row \<in> set rows" "sc_enabled row"
    and "fire_tick L fault rid (schedule_of row) t z now d rows = Inr ((outcome, d'), rows')"
  obtains row' where "rows' = put_row schedule_id row' rows" "schedule_owner row' = schedule_owner row"
    "schedule_identity row' = schedule_identity row" "schedule_row_ok L row'" "schedule_id row' = schedule_id row"
    "cron_laws (cron L) \<Longrightarrow> spec_laws L \<Longrightarrow> \<not> due_schedule now row'"
  using assms(1,2,4)
proof (cases rule: fire_tick_Inr)
  case (failed f)
  define row' where "row' = failed_row (error_of L f Dependency ''agent-runs'' (operational f)) now row"
  have "0 < backoff FIRE_RETRY_BASE n FIRE_RETRY_CAP" for n
    using fire.backoff_lower [of n] fire.base_pos by linarith
  then have "\<not> due_schedule now row'"
    by (auto simp: row'_def failed_row_def due_schedule_def Let_def not_le split: option.splits)
  with failed(4) show thesis
    using that [of row'] failed_row_keeps [where now = now and row = row] schedules_okD(2) [OF assms(1,2)] assms(3)
    by (simp add: row'_def [symmetric]) (metis row'_def schedule_owner_def prod.inject)
next
  case (fired run created row' following)
  have "schedule_row_ok L row'"
    using schedules_okD(2) [OF assms(1,2)] by (simp add: fired(4) schedule_row_ok_def MAX_CONSECUTIVE_FAILURES_def)
  moreover have "\<not> due_schedule now row'" if "cron_laws (cron L)"
    using next_fire_after [OF that, of "sc_cadence row" "max t now" "sc_timezone row"] fired(3)
    by (cases following) (auto simp: fired(4) due_schedule_def)
  ultimately show thesis
    using that [of row'] fired(6) by (simp add: fired(4) schedule_owner_def schedule_identity_def)
qed

lemma fire_tick_keeps:
  assumes "schedules_ok L rows" "row \<in> set rows" "sc_enabled row"
    and "fire_tick L fault rid (schedule_of row) t z now d rows = Inr ((outcome, d'), rows')"
  shows "schedules_ok L rows'"
    and "r' \<in> set rows' \<Longrightarrow> (\<exists>r\<in>set rows. schedule_owner r' = schedule_owner r) \<or> schedule_id r' \<notin> schedule_id ` set rows"
  using fire_tick_row [OF assms] schedules_ok_same_identity [OF assms(1,2)] owners_put [OF assms(2)]
  by (metis (no_types))+

lemma fire_Inr:
  assumes "fire L fault rid tenant sid asked now d rows = Inr ((outcome, d'), rows')"
  obtains row t z where "row \<in> set rows" "sc_tenant_id row = tenant" "schedule_id row = sid" "sc_enabled row"
    "schedule_found tenant sid rows = Inr row" "tick_for asked (schedule_of row) now = (t, z)"
    "fire_tick L fault rid (schedule_of row) t z now d rows = Inr ((outcome, d'), rows')"
  using assms schedule_found_Inr unfolding fire_def claim_schedule_def
  by (auto split: if_splits prod.splits simp: Let_def)

lemma claim_due_Some:
  assumes "claim_due_schedule busy now rows = Some s"
  obtains row where "row \<in> set rows" "s = schedule_of row" "free_and_due busy now row"
    "\<And>x. x \<in> set rows \<Longrightarrow> free_and_due busy now x \<Longrightarrow> nulls_last (sc_next_fire_at row) \<le> nulls_last (sc_next_fire_at x)"
proof -
  from assms obtain row rest where q: "query (free_and_due busy now) (nulls_last \<circ> sc_next_fire_at) 1 rows = row # rest"
    "s = schedule_of row" by (auto simp: claim_due_schedule_def split: list.splits)
  then have "row \<in> set rows \<and> free_and_due busy now row"
    by (metis in_queryD list.set_intros(1))
  with q query_head [OF q(1)] show thesis by (intro that [of row]) auto
qed

lemma claim_due_None: "claim_due_schedule busy now rows = None \<Longrightarrow> x \<in> set rows \<Longrightarrow> \<not> free_and_due busy now x"
  by (auto simp: claim_due_schedule_def split: list.splits dest: query_none [simplified])

lemma due_enabled: "free_and_due busy now r \<Longrightarrow> sc_enabled r \<and> (\<exists>t. sc_next_fire_at r = Some t \<and> t \<le> now)"
  by (auto simp: free_and_due_def due_schedule_def split: option.splits)

lemma fire_due_Inr:
  assumes "fire_due L busy fault rid now d rows = Inr ((answer, d'), rows')"
  obtains (none) "answer = None" "d' = d" "rows' = rows" "\<And>x. x \<in> set rows \<Longrightarrow> \<not> free_and_due busy now x"
  | (some) row t outcome where "row \<in> set rows" "free_and_due busy now row" "sc_next_fire_at row = Some t"
      "\<And>x. x \<in> set rows \<Longrightarrow> free_and_due busy now x \<Longrightarrow> nulls_last (sc_next_fire_at row) \<le> nulls_last (sc_next_fire_at x)"
      "answer = Some outcome"
      "fire_tick L fault rid (schedule_of row) t 0 now d rows = Inr ((outcome, d'), rows')"
proof (cases "claim_due_schedule busy now rows")
  case None
  with assms claim_due_None show thesis by (intro none) (auto simp: fire_due_def)
next
  case (Some s)
  then obtain row where r: "row \<in> set rows" "s = schedule_of row" "free_and_due busy now row"
    "\<And>x. x \<in> set rows \<Longrightarrow> free_and_due busy now x \<Longrightarrow> nulls_last (sc_next_fire_at row) \<le> nulls_last (sc_next_fire_at x)"
    by (rule claim_due_Some) blast
  with due_enabled obtain t where "sc_next_fire_at row = Some t" by blast
  with r Some assms obtain outcome where
    "answer = Some outcome" "fire_tick L fault rid (schedule_of row) t 0 now d rows = Inr ((outcome, d'), rows')"
    by (auto simp: fire_due_def)
  with r \<open>sc_next_fire_at row = Some t\<close> show thesis by (intro some) auto
qed

section \<open>The contracts a fire keeps\<close>

interpretation firing: schedule_operation L "fire L fault rid tenant sid asked now d"
  for L fault rid tenant sid asked now d
  by unfold_locales (auto elim!: fire_Inr dest: fire_tick_keeps)

interpretation firing_due: schedule_operation L "fire_due L busy fault rid now d" for L busy fault rid now d
proof
  fix rows a rows' r'
  assume ok: "schedules_ok L rows" and run: "fire_due L busy fault rid now d rows = Inr (a, rows')"
  obtain answer d' where a: "a = (answer, d')" by (cases a)
  have "schedules_ok L rows' \<and> (r' \<in> set rows' \<longrightarrow>
      (\<exists>r\<in>set rows. schedule_owner r' = schedule_owner r) \<or> schedule_id r' \<notin> schedule_id ` set rows)"
    using run [unfolded a] by (cases rule: fire_due_Inr) (auto dest: due_enabled fire_tick_keeps [OF ok] simp: ok)
  then show "schedules_ok L rows'"
    and "r' \<in> set rows' \<Longrightarrow> (\<exists>r\<in>set rows. schedule_owner r' = schedule_owner r) \<or> schedule_id r' \<notin> schedule_id ` set rows"
    by auto
qed

section \<open>A demonstration schedule\<close>

text \<open>A library whose cron expressions fire on every hour, that accepts every spec and hashes a text
  to itself.\<close>

definition demo_lib :: schedule_lib where
  "demo_lib = \<lparr>
     cron = \<lparr>is_valid = (\<lambda>_. True),
             get_next = (\<lambda>_ _ t. Some ((t div timedelta_seconds 3600 + 1) * timedelta_seconds 3600))\<rparr>,
     validate_spec = Some, sha256 = (\<lambda>s. s),
     error_of = (\<lambda>f c src r. \<lparr>ae_code = ''db'', ae_category = c, ae_message = Text (fault_text f),
        ae_retryable = r, ae_source = Some src, ae_rest = JNull\<rparr>)\<rparr>"

definition demo_schedule :: schedule_row where
  "demo_schedule = (blank_schedule ''sch_1'' ''user:ana'' 0)\<lparr>
     sc_tenant_id := ''acme'', sc_agent_id := ''triage'', sc_name := ''hourly triage'', sc_cadence := ''hourly'',
     sc_timezone := ''UTC'', sc_input_sha256 := ''null'', sc_on_behalf_of := ''user:ana'',
     sc_next_fire_at := Some (timedelta_seconds 3600)\<rparr>"

lemma hour_after:
  fixes h :: int
  assumes "0 < h"
  shows "t < (t div h + 1) * h" "t \<le> v \<Longrightarrow> v < (t div h + 1) * h \<Longrightarrow> v div h = t div h"
proof -
  have "t div h * h + t mod h = t" by simp
  moreover have "t mod h < h" using assms by simp
  ultimately show "t < (t div h + 1) * h" unfolding distrib_right mult_1 by linarith
  assume "t \<le> v" "v < (t div h + 1) * h"
  moreover have "v div h * h + v mod h = v" "0 \<le> v mod h" using assms by simp_all
  ultimately have "v div h * h < (t div h + 1) * h" by linarith
  then have "v div h < t div h + 1" using assms by (simp add: mult_less_cancel_right)
  moreover have "t div h \<le> v div h" using \<open>t \<le> v\<close> assms by (rule zdiv_mono1)
  ultimately show "v div h = t div h" by linarith
qed

lemma demo_lib_laws: "cron_laws (cron demo_lib)" "spec_laws demo_lib"
proof -
  have "0 < timedelta_seconds 3600" by (simp add: timedelta_seconds_def)
  note h = hour_after [OF this]
  show "cron_laws (cron demo_lib)" unfolding cron_laws_def demo_lib_def using h by simp
  show "spec_laws demo_lib" by (simp add: spec_laws_def demo_lib_def)
qed

lemma demo_schedule_ok: "schedules_ok demo_lib [demo_schedule]"
  by (simp add: schedules_ok_def unique_identities_def schedule_row_ok_def demo_schedule_def blank_schedule_def
      MAX_CONSECUTIVE_FAILURES_def input_sha256_def demo_lib_def)

end
