(* ===== verification/Schedule_Properties.thy ===== *)
theory Schedule_Properties
  imports Firing
begin

text \<open>
  What the schedules promise: one run for one tick however often it is fired, a run built from the
  stored schedule alone, a schedule that is never due again at the instant it was fired, three
  failures and a pause, and an owner no operation changes.
\<close>

section \<open>One run for one tick\<close>

text \<open>The run a fire queued carries the tick's key.\<close>

lemma fired_run:
  assumes "store_inv d" "rid \<notin> run_id ` set (runs d)"
    and "start (fire_start rid (schedule_of row) t z) True now False d = Inr ((run, created), d')"
  obtains q where "q \<in> set (runs d')" "run_id q = rec_run_id run" "tenant_id q = sc_tenant_id row"
    "idempotency_key q = Some (fire_key (schedule_id row) t)"
    "created \<Longrightarrow> q = new_row (fire_start rid (schedule_of row) t z) True now"
proof (cases created)
  case True
  with start_cases [OF assms(3)] show thesis
    by (intro that [of "new_row (fire_start rid (schedule_of row) t z) True now"])
      (auto simp: new_row_def record_of_def)
next
  case False
  with start_cases [OF assms(3)] obtain q where q: "q \<in> set (runs d)" "tenant_id q = sc_tenant_id row"
    "run = record_of q now" "run_id q = rid \<or> idempotency_key q = Some (fire_key (schedule_id row) t)" "d' = d"
    by auto
  with assms(2) have "idempotency_key q = Some (fire_key (schedule_id row) t)" by auto
  with q False show thesis by (intro that [of q]) (auto simp: record_of_def)
qed

text \<open>Firing that tick again finds it.\<close>

lemma fire_tick_keyed:
  assumes "store_inv d" "q \<in> set (runs d)" "tenant_id q = sc_tenant_id row"
    and "idempotency_key q = Some (fire_key (schedule_id row) t)"
  shows "fire_tick L None rid (schedule_of row) t z now d rows =
    bind_result (record_fire_success L (schedule_id row) t (run_id q) now rows) (\<lambda>(advanced, rows').
      Inr ((Fired \<lparr>fr_schedule_id = schedule_id row, fr_run_id = run_id q, fr_fire_time = t,
               fr_idempotency_key = fire_key (schedule_id row) t, fr_schedule = advanced\<rparr>, d), rows'))"
  using start_keyed [OF assms(1,2), of "fire_start rid (schedule_of row) t z" "fire_key (schedule_id row) t" True now False] assms(3,4)
  by (simp add: fire_tick_def record_of_def)

lemma schedule_found_in:
  assumes "distinct (map schedule_id rows)" "r \<in> set rows" "sc_tenant_id r = tenant" "schedule_id r = sid"
  shows "schedule_found tenant sid rows = Inr r"
proof -
  have "find (\<lambda>x. sc_tenant_id x = tenant \<and> schedule_id x = sid) rows = Some r"
    using assms by (induction rows) auto
  then show ?thesis by (simp add: schedule_found_def)
qed

text \<open>C10. One schedule, one tick, one run: a fire that queued a run leaves exactly one run of the tenant
  under the tick's key, and firing the same tick again, at any time it may be and however its
  instant is spelled, answers that run, queues none, and only advances the schedule.\<close>

theorem fire_once:
  assumes "store_inv d" "schedules_ok L rows" "rid \<notin> run_id ` set (runs d)"
    and "fire L None rid tenant sid asked now d rows = Inr ((Fired r, d1), rows1)"
    and "fr_fire_time r \<le> now' + MAX_FIRE_SKEW"
  shows "(\<exists>!q. q \<in> set (runs d1) \<and> tenant_id q = tenant \<and> idempotency_key q = Some (fr_idempotency_key r)) \<and>
    (\<exists>q\<in>set (runs d1). tenant_id q = tenant \<and> idempotency_key q = Some (fr_idempotency_key r) \<and> run_id q = fr_run_id r) \<and>
    fire L None rid' tenant sid (Some (fr_fire_time r, z')) now' d1 rows1 =
      bind_result (record_fire_success L sid (fr_fire_time r) (fr_run_id r) now' rows1)
        (\<lambda>(advanced, rows2). Inr ((Fired (r\<lparr>fr_schedule := advanced\<rparr>), d1), rows2))"
proof -
  from assms(4) obtain row t z where row: "row \<in> set rows" "sc_tenant_id row = tenant" "schedule_id row = sid"
    "sc_enabled row" "fire_tick L None rid (schedule_of row) t z now d rows = Inr ((Fired r, d1), rows1)"
    by (rule fire_Inr)
  have inv1: "store_inv d1" using fire_tick_evolves [OF assms(1,2) row(1,5)] evolves_inv by blast
  from assms(2) row(1,5) show ?thesis
  proof (cases rule: fire_tick_Inr)
    case (fired run created row' following)
    from fired_run [OF assms(1,3) fired(2)] obtain q where q: "q \<in> set (runs d1)" "run_id q = rec_run_id run"
      "tenant_id q = tenant" "idempotency_key q = Some (fire_key sid t)" using row(2,3) by metis
    have r: "fr_fire_time r = t" "fr_idempotency_key r = fire_key sid t" "fr_run_id r = run_id q" "fr_schedule_id r = sid"
      using fired(5) row(3) q(2) by auto
    have only: "x = q" if "x \<in> set (runs d1)" "tenant_id x = tenant" "idempotency_key x = Some (fire_key sid t)" for x
      using find_keyed [OF inv1 that(1,3)] find_keyed [OF inv1 q(1,4)] that(2) q(3) by simp
    have row': "schedule_id row' = sid" "sc_tenant_id row' = tenant" "sc_enabled row'"
      using row by (simp_all add: fired(4))
    have "row' \<in> set rows1" unfolding fired(6) using row(1,3) row'(1) by (intro put_row_in [of row]) auto
    moreover have "distinct (map schedule_id rows1)" unfolding fired(6) using schedules_okD(1) [OF assms(2)] by simp
    ultimately have "schedule_found tenant sid rows1 = Inr row'" using row' by (intro schedule_found_in)
    then have "fire L None rid' tenant sid (Some (t, z')) now' d1 rows1 = fire_tick L None rid' (schedule_of row') t z' now' d1 rows1"
      using row'(3) assms(5) by (simp add: fire_def claim_schedule_def tick_for_def r(1))
    also have "\<dots> = bind_result (record_fire_success L sid t (run_id q) now' rows1) (\<lambda>(advanced, rows2).
        Inr ((Fired (r\<lparr>fr_schedule := advanced\<rparr>), d1), rows2))"
      using fire_tick_keyed [OF inv1 q(1), of row' t L rid' z' now' rows1] q(3,4) row'
      by (simp add: fired(5) [simplified] q(2) row(3))
    finally have again: "fire L None rid' tenant sid (Some (fr_fire_time r, z')) now' d1 rows1 =
      bind_result (record_fire_success L sid (fr_fire_time r) (fr_run_id r) now' rows1)
        (\<lambda>(advanced, rows2). Inr ((Fired (r\<lparr>fr_schedule := advanced\<rparr>), d1), rows2))" by (simp only: r)
    have "\<exists>!q. q \<in> set (runs d1) \<and> tenant_id q = tenant \<and> idempotency_key q = Some (fr_idempotency_key r)"
      unfolding r(2) using only q(1,3,4) by (intro ex1I [of _ q]) blast+
    moreover have "\<exists>q\<in>set (runs d1). tenant_id q = tenant \<and> idempotency_key q = Some (fr_idempotency_key r) \<and> run_id q = fr_run_id r"
      by (rule bexI [of _ q]) (use q r in simp_all)
    ultimately show ?thesis using again by blast
  qed simp
qed

lemma demo_next_fire: "next_fire_at (cron demo_lib) ''hourly'' t z = Inr (Some ((t div 3600000000 + 1) * 3600000000))"
  by (simp add: next_fire_at_def expression_of_def BUCKETS_def demo_lib_def timedelta_seconds_def)

lemma demo_schedule_simps [simp]:
  "schedule_id demo_schedule = ''sch_1''" "sc_tenant_id demo_schedule = ''acme''" "sc_enabled demo_schedule"
  "sc_next_fire_at demo_schedule = Some 3600000000" "sc_cadence demo_schedule = ''hourly''"
  "sc_retry_after demo_schedule = None" "sc_consecutive_failures demo_schedule = 0"
  by (simp_all add: demo_schedule_def blank_schedule_def timedelta_seconds_def)

definition demo_fired :: db where
  "demo_fired = empty_db\<lparr>runs := [new_row (fire_start ''run_1'' (schedule_of demo_schedule) 3600000000 0) True 4000000000]\<rparr>"

lemma demo_fire:
  "\<exists>r rows'. fire demo_lib None ''run_1'' ''acme'' ''sch_1'' None 4000000000 empty_db [demo_schedule] = Inr ((Fired r, demo_fired), rows') \<and>
     fr_fire_time r = 3600000000 \<and> fr_run_id r = ''run_1''"
proof -
  define s where "s = fire_start ''run_1'' (schedule_of demo_schedule) 3600000000 0"
  have "start s True 4000000000 False empty_db = Inr ((record_of (new_row s True 4000000000) 4000000000, True), demo_fired)"
    by (simp add: start_def Let_def empty_db_def demo_fired_def s_def)
  moreover have "rec_run_id (record_of (new_row s True 4000000000) 4000000000) = ''run_1''"
    by (simp add: record_of_def new_row_def s_def)
  moreover have "schedule_found ''acme'' ''sch_1'' [demo_schedule] = Inr demo_schedule"
    "schedule_claimed ''sch_1'' [demo_schedule] = Inr demo_schedule"
    by (simp_all add: schedule_found_def schedule_claimed_def)
  ultimately show ?thesis
    by (simp add: fire_def claim_schedule_def tick_for_def fire_tick_def s_def [symmetric]
        record_fire_success_def arm_def demo_next_fire Let_def)
qed

theorem fire_once_witness:
  "\<exists>r rows1. fire demo_lib None ''run_2'' ''acme'' ''sch_1'' (Some (3600000000, 7200)) 5000000000 demo_fired rows1 =
     bind_result (record_fire_success demo_lib ''sch_1'' 3600000000 ''run_1'' 5000000000 rows1)
       (\<lambda>(advanced, rows2). Inr ((Fired (r\<lparr>fr_schedule := advanced\<rparr>), demo_fired), rows2))"
proof -
  from demo_fire obtain r rows1 where
    f: "fire demo_lib None ''run_1'' ''acme'' ''sch_1'' None 4000000000 empty_db [demo_schedule] = Inr ((Fired r, demo_fired), rows1)"
    and r: "fr_fire_time r = 3600000000" "fr_run_id r = ''run_1''" by blast
  have "''run_1'' \<notin> run_id ` set (runs empty_db)" by (simp add: empty_db_def)
  from fire_once [OF store_inv_empty demo_schedule_ok this f, of 5000000000 "''run_2''" 7200] show ?thesis
    by (auto simp: r MAX_FIRE_SKEW_def timedelta_seconds_def)
qed

section \<open>A run from the stored schedule\<close>

lemma set_merged: "set (merged a b) = {m \<in> set a. fst m \<notin> fst ` set b} \<union> set b"
  by (auto simp: merged_def)

lemma merged_nonempty: "b \<noteq> [] \<Longrightarrow> merged a b \<noteq> []"
  using set_merged [of a b] by (cases b) auto

lemma fired_row:
  fixes row :: schedule_row and rid :: string and t z now :: int
  defines "q \<equiv> new_row (fire_start rid (schedule_of row) t z) True now"
  shows "run_id q = rid" "status q = QUEUED" "tenant_id q = sc_tenant_id row" "agent_id q = sc_agent_id row"
    "on_behalf_of q = Some (sc_on_behalf_of row)" "run_input q = sc_input row"
    "timeout_seconds q = sc_timeout_seconds row" "priority q = sc_priority row"
    "concurrency_key q = sc_concurrency_key row" "workspace_id q = sc_workspace_id row"
    "run_metadata q = Some (rs_metadata (fire_start rid (schedule_of row) t z))"
  unfolding q_def
  by (simp_all add: new_row_def fire_start_def merged_nonempty) (simp_all add: schedule_of_def)

lemma fired_metadata:
  fixes row :: schedule_row and rid :: string and t z :: int
  defines "m \<equiv> rs_metadata (fire_start rid (schedule_of row) t z)"
  shows "(''schedule_id'', JStr (schedule_id row)) \<in> set m"
    "(k, v) \<in> set m \<Longrightarrow> (k, v) \<in> set (kept_metadata row) \<or>
       k \<in> {''created_by'', ''fire_time'', ''schedule_id'', ''schedule_name''}"
    "(''schedule_id'', v) \<in> set m \<Longrightarrow> v = JStr (schedule_id row)"
  unfolding m_def by (auto simp: fire_start_def set_merged) (auto simp: schedule_of_def)

text \<open>The run a fire queues is built from the stored schedule and nothing else: its tenant, agent,
  principal, input, limits and lane are the schedule's, it waits on the queue, its metadata are the
  schedule's under the fire's own keys, which win, and firing keeps the invariants of both tables.\<close>

lemma fired_run_is_the_schedules:
  assumes "store_inv d" "schedules_ok L rows" "rid \<notin> run_id ` set (runs d)"
    and "fire L None rid tenant sid asked now d rows = Inr ((Fired r, d'), rows')" "fr_run_id r = rid"
  shows "\<exists>row\<in>set rows. schedule_id row = sid \<and> sc_tenant_id row = tenant \<and> sc_enabled row \<and>
    (\<exists>q\<in>set (runs d'). run_id q = rid \<and> status q = QUEUED \<and> tenant_id q = tenant \<and>
       agent_id q = sc_agent_id row \<and> on_behalf_of q = Some (sc_on_behalf_of row) \<and>
       run_input q = sc_input row \<and> timeout_seconds q = sc_timeout_seconds row \<and> priority q = sc_priority row \<and>
       concurrency_key q = sc_concurrency_key row \<and> workspace_id q = sc_workspace_id row \<and>
       (\<exists>m. run_metadata q = Some m \<and> (''schedule_id'', JStr sid) \<in> set m \<and>
          (\<forall>k v. (k, v) \<in> set m \<longrightarrow> (k, v) \<in> set (kept_metadata row) \<or>
             k \<in> {''created_by'', ''fire_time'', ''schedule_id'', ''schedule_name''}) \<and>
          (\<forall>v. (''schedule_id'', v) \<in> set m \<longrightarrow> v = JStr sid))) \<and>
    store_inv d' \<and> schedules_ok L rows'"
proof -
  from assms(4) obtain row t z where row: "row \<in> set rows" "sc_tenant_id row = tenant" "schedule_id row = sid"
    "sc_enabled row" "fire_tick L None rid (schedule_of row) t z now d rows = Inr ((Fired r, d'), rows')"
    by (rule fire_Inr)
  have "store_inv d'" using fire_tick_evolves [OF assms(1,2) row(1,5)] evolves_inv by blast
  moreover have "schedules_ok L rows'" using fire_tick_keeps(1) [OF assms(2) row(1,4,5)] .
  moreover obtain q where "q \<in> set (runs d')" "q = new_row (fire_start rid (schedule_of row) t z) True now"
    using assms(2) row(1,5)
  proof (cases rule: fire_tick_Inr)
    case (fired run created row' following)
    with assms(5) have "rec_run_id run = rid" by simp
    with start_cases [OF fired(2)] assms(3) show thesis
      by (cases created) (auto simp: record_of_def intro: that)
  qed simp
  ultimately show ?thesis
    using row(1-4) fired_row [where row = row and rid = rid and t = t and z = z and now = now]
      fired_metadata [where row = row and rid = rid and t = t and z = z] by (metis (no_types, lifting))
qed

section \<open>The ticker's step\<close>

lemma length_filter_put_row_less:
  assumes "distinct (map key rows)" "r \<in> set rows" "key r' = key r" "P r" "\<not> P r'"
  shows "length (filter P (put_row key r' rows)) < length (filter P rows)"
  using assms(1,2)
proof (induction rows)
  case (Cons x rows)
  show ?case
  proof (cases "x = r")
    case True
    with Cons.prems(1) assms(3) have "key y \<noteq> key r'" if "y \<in> set rows" for y
      using that by (metis distinct.simps(2) image_eqI list.simps(9) set_map)
    then have "put_row key r' rows = rows" by (simp add: put_row_def map_idI)
    with True assms(3-5) show ?thesis by (simp add: put_row_def)
  next
    case False
    with Cons.prems have "r \<in> set rows" "key x \<noteq> key r'" using assms(3) by auto
    with Cons show ?thesis by (simp add: put_row_def)
  qed
qed simp

lemma fire_due_takes:
  assumes "cron_laws (cron L)" "spec_laws L" "schedules_ok L rows"
    and "fire_due L busy fault rid now d rows = Inr ((answer, d'), rows')"
  shows "if answer = None then rows' = rows \<and> (\<forall>x\<in>set rows. \<not> free_and_due busy now x)
    else length (filter (free_and_due busy now) rows') < length (filter (free_and_due busy now) rows) \<and>
      (\<exists>x\<in>set rows. free_and_due busy now x) \<and>
      (\<forall>x\<in>set rows. \<not> free_and_due busy now x \<longrightarrow> x \<in> set rows')"
  using assms(4)
proof (cases rule: fire_due_Inr)
  case none
  then show ?thesis by auto
next
  case (some row t outcome)
  have en: "sc_enabled row" using due_enabled [OF some(2)] by simp
  from fire_tick_row [OF assms(3) some(1) en some(6)] obtain row' where
    r': "rows' = put_row schedule_id row' rows" "schedule_id row' = schedule_id row" "\<not> free_and_due busy now row'"
    using assms(1,2) unfolding free_and_due_def by metis
  have less: "length (filter (free_and_due busy now) rows') < length (filter (free_and_due busy now) rows)"
    unfolding r'(1) using schedules_okD(1) [OF assms(3)] some(1) r'(2) some(2) r'(3) by (rule length_filter_put_row_less)
  have "x \<in> set rows'" if "x \<in> set rows" "\<not> free_and_due busy now x" for x
  proof -
    have "schedule_id x \<noteq> schedule_id row'" using schedule_by_id [OF assms(3) that(1) some(1)] that(2) some(2) r'(2) by auto
    with that(1) show ?thesis unfolding r'(1) by (rule put_row_keeps)
  qed
  with less some(1,2,5) show ?thesis by auto
qed

text \<open>The ticker's step ends: it answers none exactly when no schedule another
  ticker does not hold is due; otherwise it fires
  the most overdue one, for the tick it is due for, and leaves strictly fewer due at that instant
  (the one it fired is armed past it, backing off, or paused: no backlog is replayed), every schedule
  that was not due, or is held, untouched.\<close>

lemma fire_due_progress:
  assumes "cron_laws (cron L)" "spec_laws L" "schedules_ok L rows"
    and "fire_due L busy fault rid now d rows = Inr ((answer, d'), rows')"
  shows "(answer = None \<longleftrightarrow> (\<forall>x\<in>set rows. \<not> free_and_due busy now x)) \<and>
    (answer \<noteq> None \<longrightarrow> length (filter (free_and_due busy now) rows') < length (filter (free_and_due busy now) rows)) \<and>
    (\<forall>r. answer = Some (Fired r) \<longrightarrow> (\<exists>row\<in>set rows. schedule_id row = fr_schedule_id r \<and> free_and_due busy now row \<and>
       sc_next_fire_at row = Some (fr_fire_time r) \<and>
       (\<forall>x\<in>set rows. free_and_due busy now x \<longrightarrow> nulls_last (Some (fr_fire_time r)) \<le> nulls_last (sc_next_fire_at x)))) \<and>
    (\<forall>x\<in>set rows. \<not> free_and_due busy now x \<longrightarrow> x \<in> set rows')"
proof -
  have "\<exists>row\<in>set rows. schedule_id row = fr_schedule_id r \<and> free_and_due busy now row \<and>
       sc_next_fire_at row = Some (fr_fire_time r) \<and>
       (\<forall>x\<in>set rows. free_and_due busy now x \<longrightarrow> nulls_last (Some (fr_fire_time r)) \<le> nulls_last (sc_next_fire_at x))"
    if "answer = Some (Fired r)" for r
    using assms(4)
  proof (cases rule: fire_due_Inr)
    case none
    with that show ?thesis by simp
  next
    case (some row t outcome)
    have "fr_schedule_id r = schedule_id row \<and> fr_fire_time r = t"
      using assms(3) some(1,6) by (cases rule: fire_tick_Inr) (use that some(5) in auto)
    with some(1-4) show ?thesis by metis
  qed
  then show ?thesis using fire_due_takes [OF assms] by (auto split: if_splits)
qed

text \<open>A fire the database refuses queues nothing and is recorded: the failure is counted, the tick
  stays owed, and the schedule backs off (five minutes, doubling) when the cause may pass and fewer
  than three fires in a row have failed, and is paused otherwise; the answer says retry exactly
  when it still fires.\<close>

lemma fire_failure_outcome:
  assumes "schedules_ok L rows" "spec_laws L" "schedule_found tenant sid rows = Inr row" "sc_enabled row"
    and "\<forall>t. asked = Some t \<longrightarrow> fst t \<le> now + MAX_FIRE_SKEW"
  shows "\<exists>row' err. fire L (Some f) rid tenant sid asked now d rows =
      Inr ((FireFailed (schedule_of row') err, d), put_row schedule_id row' rows) \<and>
    sc_consecutive_failures row' = sc_consecutive_failures row + 1 \<and> sc_next_fire_at row' = sc_next_fire_at row \<and>
    (if operational f \<and> sc_consecutive_failures row < 2
     then sc_enabled row' \<and> sc_retry_after row' = Some (now + FIRE_RETRY_BASE * 2 ^ nat (sc_consecutive_failures row))
     else \<not> sc_enabled row' \<and> sc_retry_after row' = None) \<and>
    retryable_of (fire_failed_error (schedule_of row') err) = sc_enabled row'"
proof -
  define err where "err = error_of L f Dependency ''agent-runs'' (operational f)"
  have retry: "ae_retryable err = operational f" using assms(2) by (simp add: err_def spec_laws_def)
  have row: "row \<in> set rows" "schedule_id row = sid" using schedule_found_Inr [OF assms(3)] by auto
  have n: "0 \<le> sc_consecutive_failures row" "sc_consecutive_failures row < 3"
    using schedules_okD(2) [OF assms(1) row(1)] assms(4) by (auto simp: schedule_row_ok_def MAX_CONSECUTIVE_FAILURES_def)
  have small: "backoff FIRE_RETRY_BASE (sc_consecutive_failures row + 1) FIRE_RETRY_CAP =
      FIRE_RETRY_BASE * 2 ^ nat (sc_consecutive_failures row)" if "sc_consecutive_failures row < 2"
  proof -
    from that n consider "sc_consecutive_failures row = 0" | "sc_consecutive_failures row = 1" by linarith
    then show ?thesis
      by cases (simp_all add: backoff_def FIRE_RETRY_BASE_def FIRE_RETRY_CAP_def timedelta_seconds_def)
  qed
  have "record_fire_failure sid err now rows = Inr (schedule_of (failed_row err now row), put_row schedule_id (failed_row err now row) rows)"
    using schedule_claimed_in [OF schedules_okD(1) [OF assms(1)] row(1)] row(2) by (simp add: record_fire_failure_def Let_def)
  then have "fire L (Some f) rid tenant sid asked now d rows =
      Inr ((FireFailed (schedule_of (failed_row err now row)) err, d), put_row schedule_id (failed_row err now row) rows)"
    using assms(3-5) row(2)
    by (auto simp: fire_def claim_schedule_def fire_tick_def err_def [symmetric] Let_def not_less split: option.splits prod.splits)
  then show ?thesis using small n retry assms(4)
    by (intro exI [of _ "failed_row err now row"] exI [of _ err])
      (auto simp: failed_row_def Let_def MAX_CONSECUTIVE_FAILURES_def fire_failed_error_def)
qed

lemma fire_failure_outcome_witness:
  "\<exists>row' err. fire demo_lib (Some \<lparr>operational = True, fault_text = []\<rparr>) ''run_1'' ''acme'' ''sch_1'' None 4000000000 empty_db [demo_schedule] =
      Inr ((FireFailed (schedule_of row') err, empty_db), put_row schedule_id row' [demo_schedule]) \<and>
    sc_enabled row' \<and> sc_retry_after row' = Some 4300000000"
proof -
  have "schedule_found ''acme'' ''sch_1'' [demo_schedule] = Inr demo_schedule" by (simp add: schedule_found_def)
  from fire_failure_outcome [OF demo_schedule_ok demo_lib_laws(2) this, of None 4000000000 "\<lparr>operational = True, fault_text = []\<rparr>" "''run_1''" empty_db]
  show ?thesis by (auto simp: FIRE_RETRY_BASE_def timedelta_seconds_def)
qed

section \<open>Every history of the table\<close>

inductive schedule_step :: "schedule_lib \<Rightarrow> schedule_row list \<Rightarrow> schedule_row list \<Rightarrow> bool" for L where
  upserts: "upsert_schedule L sid spec creator now rows = Inr (a, rows') \<Longrightarrow> schedule_step L rows rows'"
| updates: "update_schedule L tenant sid u now rows = Inr (b, rows') \<Longrightarrow> schedule_step L rows rows'"
| deletes: "delete_schedule tenant sid rows = Inr (c, rows') \<Longrightarrow> schedule_step L rows rows'"
| fires: "fire L fault rid tenant sid asked now d rows = Inr (x, rows') \<Longrightarrow> schedule_step L rows rows'"
| ticks: "fire_due L busy fault rid now d rows = Inr (y, rows') \<Longrightarrow> schedule_step L rows rows'"

lemma schedule_step_ok: "schedule_step L rows rows' \<Longrightarrow> schedules_ok L rows \<Longrightarrow> schedules_ok L rows'"
  by (induction rule: schedule_step.induct)
    (auto intro: upserting.keeps_ok updating.keeps_ok deleting.keeps_ok firing.keeps_ok firing_due.keeps_ok)

interpretation schedules: transition_system "\<lambda>rows. rows = []" "schedule_step L" "schedules_ok L" for L
proof
  show "schedules_ok L s" if "s = []" for s using that by (simp add: schedules_ok_def unique_identities_def)
qed (rule schedule_step_ok)

text \<open>C22. However schedules are created, changed, deleted and fired, ids and identities stay unique, a
  schedule that still fires has failed fewer than three times in a row, and no operation changes
  the tenant, the principal, the creator or the creation time of a schedule.\<close>

theorem schedule_owner_for_good:
  assumes "reach (\<lambda>rows. rows = []) (schedule_step L) rows" "spec_laws L"
  shows "schedules_ok L rows \<and>
    (\<forall>rows' r r'. schedule_step L rows rows' \<and> r \<in> set rows \<and> r' \<in> set rows' \<and> schedule_id r' = schedule_id r \<longrightarrow>
       schedule_owner r' = schedule_owner r)"
proof -
  have ok: "schedules_ok L rows" using schedules.reach_inv [OF assms(1)] .
  have "schedule_owner r' = schedule_owner r"
    if "schedule_step L rows rows'" "r \<in> set rows" "r' \<in> set rows'" "schedule_id r' = schedule_id r" for rows' r r'
    using that(1)
  proof cases
    case upserts then show ?thesis using upserting.owner_for_good [OF assms(2) ok] that by blast
  next
    case updates then show ?thesis using updating.owner_for_good [OF assms(2) ok] that by blast
  next
    case deletes then show ?thesis using deleting.owner_for_good [OF assms(2) ok] that by blast
  next
    case fires then show ?thesis using firing.owner_for_good [OF assms(2) ok] that by blast
  next
    case ticks then show ?thesis using firing_due.owner_for_good [OF assms(2) ok] that by blast
  qed
  with ok show ?thesis by blast
qed

definition demo_spec :: schedule_spec where
  "demo_spec = \<lparr>ss_tenant_id = ''acme'', ss_agent_id = ''triage'', ss_name = ''hourly triage'', ss_cadence = ''hourly'',
     ss_timezone = ''UTC'', ss_input = JNull, ss_on_behalf_of = ''user:ana'', ss_workspace_id = None, ss_enabled = True,
     ss_timeout_seconds = None, ss_agent_version = None, ss_priority = 0, ss_concurrency_key = None, ss_metadata = []\<rparr>"

lemma demo_upsert: "\<exists>a. upsert_schedule demo_lib ''sch_1'' demo_spec ''user:ana'' 0 [] = Inr (a, [demo_schedule])"
proof -
  have "strip ''hourly'' = ''hourly''"
    by (simp add: strip_def drop_leading.simps WHITESPACE_def starts_with_def char_of_def upt_rec)
  then have "checked demo_lib demo_spec = Inr demo_spec"
    by (simp add: checked_def demo_lib_def validate_cadence_def demo_spec_def BUCKETS_def)
  then show ?thesis
    by (simp add: upsert_schedule_def arm_def apply_spec_def demo_spec_def blank_schedule_def demo_next_fire demo_schedule_def
        input_sha256_def timedelta_seconds_def) (auto simp: demo_lib_def)
qed

theorem schedule_owner_for_good_witness:
  "\<not> (\<exists>rows' r'. schedule_step demo_lib [demo_schedule] rows' \<and> r' \<in> set rows' \<and> schedule_id r' = ''sch_1'' \<and>
     schedule_owner r' \<noteq> (''sch_1'', ''acme'', ''user:ana'', Some ''user:ana'', 0))"
proof -
  have "reach (\<lambda>rows. rows = []) (schedule_step demo_lib) [demo_schedule]"
    using demo_upsert by (auto intro: reach_init reach_step [of _ _ "[]"] schedule_step.upserts)
  from schedule_owner_for_good [OF this demo_lib_laws(2)] show ?thesis
    by (auto simp: schedule_owner_def demo_schedule_def blank_schedule_def)
qed

end
