(* ===== verification/Run_Reads.thy ===== *)
theory Run_Reads
  imports Run_Log Paging
begin

text \<open>
  \<open>src/agent_runs/store/runs.py\<close>, the reads: \<open>get\<close>, \<open>list\<close> and \<open>resolutions\<close>. A position is the
  pair of columns a listing is ordered by.
\<close>

record run_summary =
  sum_run_id :: string
  sum_agent_id :: string
  sum_status :: run_status
  sum_awaiting :: "interrupt option"
  sum_assignee :: "string option"
  sum_deadline :: "instant option"
  sum_thread_id :: "string option"
  sum_updated_at :: instant

definition summary_of :: "run_row \<Rightarrow> run_summary" where
  "summary_of r = \<lparr>sum_run_id = run_id r, sum_agent_id = agent_id r, sum_status = status r,
     sum_awaiting = awaiting r, sum_assignee = assignee r, sum_deadline = deadline r,
     sum_thread_id = thread_id r, sum_updated_at = updated_at r\<rparr>"

record resolution_entry =
  ent_interrupt :: interrupt
  ent_resolution :: interrupt_resolution
  ent_attempt :: int
  ent_recorded_at :: instant

definition entry_of :: "resolution_row \<Rightarrow> resolution_entry" where
  "entry_of k = \<lparr>ent_interrupt = rr_interrupt k, ent_resolution = rr_resolution k,
     ent_attempt = rr_attempt k, ent_recorded_at = rr_recorded_at k\<rparr>"

definition get_run :: "string \<Rightarrow> string \<Rightarrow> instant \<Rightarrow> db \<Rightarrow> run_record result" where
  "get_run tenant rid now d = bind_result (found tenant rid d) (\<lambda>row. Inr (record_of row now))"

record run_filters =
  by_status :: "run_status option"
  by_assignee :: "string option"
  by_agent :: "string option"
  by_thread :: "string option"
  by_parent :: "string option"
  top_level :: bool

text \<open>A filter that was sent must hold of the column; a null column equals nothing.\<close>

definition asked_for :: "string option \<Rightarrow> string option \<Rightarrow> bool" where
  "asked_for wanted column = (wanted = None \<or> column = wanted)"

definition listed :: "string \<Rightarrow> run_filters \<Rightarrow> run_row \<Rightarrow> bool" where
  "listed tenant f r \<longleftrightarrow>
     tenant_id r = tenant \<and>
     (by_status f = None \<or> by_status f = Some (status r)) \<and>
     asked_for (by_assignee f) (assignee r) \<and>
     (by_agent f = None \<or> by_agent f = Some (agent_id r)) \<and>
     asked_for (by_thread f) (thread_id r) \<and>
     asked_for (by_parent f) (parent_run_id r) \<and>
     (top_level f \<longrightarrow> parent_run_id r = None)"

definition run_position :: "run_row \<Rightarrow> instant \<times> string" where
  "run_position r = (created_at r, run_id r)"

definition list_runs ::
  "string \<Rightarrow> run_filters \<Rightarrow> nat \<Rightarrow> (instant \<times> string) option \<Rightarrow> db \<Rightarrow> (run_summary, instant \<times> string) page" where
  "list_runs tenant f limit after d =
     page_of limit summary_of run_position
       (fetch_desc (listed tenant f) run_position after (limit + 1) (runs d))"

definition resolution_position :: "resolution_row \<Rightarrow> instant \<times> string" where
  "resolution_position k = (rr_recorded_at k, resolution_id k)"

definition list_resolutions ::
  "string \<Rightarrow> string \<Rightarrow> nat \<Rightarrow> (instant \<times> string) option \<Rightarrow> db \<Rightarrow>
   (resolution_entry, instant \<times> string) page result" where
  "list_resolutions tenant rid limit after d =
     bind_result (found tenant rid d) (\<lambda>_.
       Inr (page_of limit entry_of resolution_position
         (fetch_asc (\<lambda>k. rr_tenant_id k = tenant \<and> rr_run_id k = rid) resolution_position after
            (limit + 1) (resolutions d))))"

section \<open>Properties\<close>

lemma distinct_by_id: "distinct (map i (filter P xs)) \<Longrightarrow> distinct (map (\<lambda>r. (c r, i r)) (filter P xs))"
  by (auto simp: distinct_map inj_on_def)

lemma distinct_filtered: "distinct (map i xs) \<Longrightarrow> distinct (map i (filter P xs))"
  by (auto simp: distinct_map intro: inj_on_subset)

lemma list_runs_pages:
  assumes "store_inv d" "0 < limit" "length (runs d) < n"
  shows "follow_pages (\<lambda>after. list_runs tenant f limit after d) n None =
    map summary_of (rev (sort_key run_position (filter (listed tenant f) (runs d))))"
proof -
  have "distinct (map run_position (filter (listed tenant f) (runs d)))"
    unfolding run_position_def using distinct_by_id distinct_filtered store_invD(3) [OF assms(1)] by blast
  then show ?thesis using assms(2)
    by (rule follow_desc) (use le_less_trans [OF length_filter_le assms(3)] in \<open>simp_all add: list_runs_def\<close>)
qed

text \<open>A client that follows the pages of a listing, from the first and at any page size, gets every
  run of its tenant that matches once, newest first, and no run of another tenant; and of a run's
  answers every one once, oldest first.\<close>

lemma pages_cover_the_listing:
  assumes "store_inv d" "0 < limit" "found tenant rid d = Inr r"
  shows "follow_pages (\<lambda>after. list_runs tenant f limit after d) (length (runs d) + 1) None =
      map summary_of (rev (sort_key run_position (filter (listed tenant f) (runs d)))) \<and>
    follow_pages (\<lambda>after. projr (list_resolutions tenant rid limit after d)) (length (resolutions d) + 1) None =
      map entry_of (sort_key resolution_position
        (filter (\<lambda>k. rr_tenant_id k = tenant \<and> rr_run_id k = rid) (resolutions d)))"
proof
  show "follow_pages (\<lambda>after. list_runs tenant f limit after d) (length (runs d) + 1) None =
      map summary_of (rev (sort_key run_position (filter (listed tenant f) (runs d))))"
    by (rule list_runs_pages [OF assms(1,2)]) simp
  have "distinct (map resolution_id (resolutions d))"
    using store_invD(1) [OF assms(1)] by (simp add: db_ok_def)
  then have "distinct (map resolution_position (filter (\<lambda>k. rr_tenant_id k = tenant \<and> rr_run_id k = rid) (resolutions d)))"
    unfolding resolution_position_def using distinct_by_id distinct_filtered by blast
  then show "follow_pages (\<lambda>after. projr (list_resolutions tenant rid limit after d)) (length (resolutions d) + 1) None =
      map entry_of (sort_key resolution_position
        (filter (\<lambda>k. rr_tenant_id k = tenant \<and> rr_run_id k = rid) (resolutions d)))"
    using assms(2) by (rule follow_asc) (simp_all add: list_resolutions_def assms(3) le_imp_less_Suc)
qed

lemma pages_cover_the_listing_witness:
  "follow_pages (\<lambda>after. list_runs ''acme'' \<lparr>by_status = None, by_assignee = None, by_agent = None, by_thread = None,
       by_parent = None, top_level = True\<rparr> 1 after demo_leased) 2 None = [summary_of demo_leased_row]"
proof -
  have "found ''acme'' ''run_1'' demo_leased = Inr demo_leased_row"
    by (simp add: found_def one_def demo_leased_def demo_leased_row_def new_row_def demo_start_def)
  from pages_cover_the_listing [OF demo_leased_inv _ this, of 1] show ?thesis
    by (simp add: demo_leased_def listed_def asked_for_def demo_leased_row_def new_row_def demo_start_def numeral_2_eq_2)
qed

end
