(* ===== verification/Webhook_Store.thy ===== *)
theory Webhook_Store
  imports Run_Reads Retry
begin

text \<open>
  \<open>src/agent_runs/store/webhooks.py\<close> and \<open>domain/webhooks.py\<close>: the subscriptions of a tenant and the
  outbox of deliveries owed to them. An event's payload is kept as the record the envelope is built
  from. Ids and secrets are drawn at random in the code; here they are arguments. The rows another
  ticker holds are \<open>busy\<close>.
\<close>

definition MAX_WEBHOOKS_PER_TENANT :: nat where
  "MAX_WEBHOOKS_PER_TENANT = 20"

definition WEBHOOK_LEASE :: duration where
  "WEBHOOK_LEASE = timedelta_seconds 20"

definition WEBHOOK_ATTEMPTS :: int where
  "WEBHOOK_ATTEMPTS = 7"

section \<open>Events, subscriptions, deliveries\<close>

datatype webhook_event = RunPaused | RunEscalated | RunFinished

fun event_value :: "webhook_event \<Rightarrow> string" where
  "event_value RunPaused = ''run.paused''"
| "event_value RunEscalated = ''run.escalated''"
| "event_value RunFinished = ''run.finished''"

definition event_of :: "contracts \<Rightarrow> run_record \<Rightarrow> webhook_event option" where
  "event_of C run =
     (if rec_status run = PAUSED then Some RunPaused
      else if final C (rec_status run) then Some RunFinished else None)"

record webhook_create =
  wc_url :: string
  wc_events :: "webhook_event list"

text \<open>The validator of \<open>events\<close>: sorted, duplicates dropped.\<close>

definition distinct_events :: "webhook_event list \<Rightarrow> webhook_event list" where
  "distinct_events es = sort_key event_value (remdups es)"

record webhook_row =
  webhook_id :: string
  wh_tenant_id :: string
  wh_url :: string
  wh_events :: "webhook_event list"
  wh_secret :: string
  wh_previous_secret :: "string option"
  wh_previous_secret_expires_at :: "instant option"
  wh_created_by :: string
  wh_created_at :: instant

record webhook =
  wb_webhook_id :: string
  wb_url :: string
  wb_events :: "webhook_event list"
  wb_created_by :: string
  wb_created_at :: instant
  wb_previous_secret_expires_at :: "instant option"

definition webhook_of :: "webhook_row \<Rightarrow> webhook" where
  "webhook_of row = \<lparr>wb_webhook_id = webhook_id row, wb_url = wh_url row, wb_events = wh_events row,
     wb_created_by = wh_created_by row, wb_created_at = wh_created_at row,
     wb_previous_secret_expires_at = wh_previous_secret_expires_at row\<rparr>"

record event_envelope =
  en_event_id :: string
  en_type :: webhook_event
  en_tenant_id :: string
  en_workspace_id :: "string option"
  en_occurred_at :: instant
  en_run :: run_summary

fun status_value :: "run_status \<Rightarrow> string" where
  "status_value QUEUED = ''QUEUED''"
| "status_value RUNNING = ''RUNNING''"
| "status_value PAUSED = ''PAUSED''"
| "status_value SUCCESS = ''SUCCESS''"
| "status_value PARTIAL = ''PARTIAL''"
| "status_value ERROR = ''ERROR''"
| "status_value TIMEOUT = ''TIMEOUT''"
| "status_value CANCELLED = ''CANCELLED''"
| "status_value REJECTED = ''REJECTED''"

text \<open>The summary is built without the run's thread, whose default is null.\<close>

definition envelope :: "contracts \<Rightarrow> run_record \<Rightarrow> webhook_event \<Rightarrow> event_envelope" where
  "envelope C run event =
     (let asked = (case rec_awaiting run of None \<Rightarrow> None | Some i \<Rightarrow> i_assignee i)
      in \<lparr>en_event_id = stable_id C ''whd_''
            [PStr (rec_run_id run), PInt (rec_attempt run), PStr (status_value (rec_status run)),
             PStr (event_value event), part_of asked],
          en_type = event, en_tenant_id = rec_tenant_id run, en_workspace_id = rec_workspace_id run,
          en_occurred_at = rec_updated_at run,
          en_run = \<lparr>sum_run_id = rec_run_id run, sum_agent_id = rec_agent_id run, sum_status = rec_status run,
            sum_awaiting = rec_awaiting run, sum_assignee = asked, sum_deadline = rec_deadline run,
            sum_thread_id = None, sum_updated_at = rec_updated_at run\<rparr>\<rparr>)"

record webhook_delivery_row =
  delivery_id :: string
  dv_webhook_id :: string
  payload :: event_envelope
  attempts :: int
  next_attempt_at :: instant
  dv_last_error :: "string option"
  dead_at :: "instant option"
  dv_created_at :: instant

datatype delivery_state = Pending | Dead

record delivery_record =
  dr_delivery_id :: string
  dr_webhook_id :: string
  dr_event_id :: string
  dr_type :: webhook_event
  dr_run_id :: string
  dr_state :: delivery_state
  dr_attempts :: int
  dr_last_error :: "string option"
  dr_next_attempt_at :: "instant option"
  dr_dead_at :: "instant option"
  dr_created_at :: instant

definition delivery_of :: "webhook_delivery_row \<Rightarrow> delivery_record" where
  "delivery_of row =
     (let dead = (dead_at row \<noteq> None)
      in \<lparr>dr_delivery_id = delivery_id row, dr_webhook_id = dv_webhook_id row,
          dr_event_id = en_event_id (payload row), dr_type = en_type (payload row),
          dr_run_id = sum_run_id (en_run (payload row)), dr_state = (if dead then Dead else Pending),
          dr_attempts = attempts row, dr_last_error = dv_last_error row,
          dr_next_attempt_at = (if dead then None else Some (next_attempt_at row)),
          dr_dead_at = dead_at row, dr_created_at = dv_created_at row\<rparr>)"

record held_delivery =
  hd_delivery_id :: string
  hd_url :: string
  hd_secret :: string
  hd_payload :: event_envelope
  hd_attempts :: int
  hd_previous_secret :: "string option"

record attempt_outcome =
  att_error :: "string option"
  att_retry :: bool

definition accepted :: "attempt_outcome \<Rightarrow> bool" where
  "accepted a \<longleftrightarrow> att_error a = None"

record outbox =
  webhooks :: "webhook_row list"
  deliveries :: "webhook_delivery_row list"

section \<open>Subscriptions\<close>

definition create_webhook ::
  "string \<Rightarrow> string \<Rightarrow> string \<Rightarrow> webhook_create \<Rightarrow> string \<Rightarrow> instant \<Rightarrow> outbox \<Rightarrow>
   ((webhook \<times> string) \<times> outbox) result" where
  "create_webhook wid secret tenant body creator now b =
     (if length (filter (\<lambda>w. wh_tenant_id w = tenant) (webhooks b)) \<ge> MAX_WEBHOOKS_PER_TENANT
      then Inl (Conflict [])
      else if wid \<in> webhook_id ` set (webhooks b) then Inl IntegrityError
      else let row = \<lparr>webhook_id = wid, wh_tenant_id = tenant, wh_url = wc_url body, wh_events = wc_events body,
             wh_secret = secret, wh_previous_secret = None, wh_previous_secret_expires_at = None,
             wh_created_by = creator, wh_created_at = now\<rparr>
           in Inr ((webhook_of row, secret), b\<lparr>webhooks := webhooks b @ [row]\<rparr>))"

definition webhook_position :: "webhook_row \<Rightarrow> instant \<times> string" where
  "webhook_position w = (wh_created_at w, webhook_id w)"

definition list_webhooks ::
  "string \<Rightarrow> nat \<Rightarrow> (instant \<times> string) option \<Rightarrow> outbox \<Rightarrow> (webhook, instant \<times> string) page" where
  "list_webhooks tenant limit after b =
     page_of limit webhook_of webhook_position
       (fetch_asc (\<lambda>w. wh_tenant_id w = tenant) webhook_position after (limit + 1) (webhooks b))"

definition subscription :: "string \<Rightarrow> string \<Rightarrow> outbox \<Rightarrow> webhook_row result" where
  "subscription tenant wid b =
     (case find (\<lambda>w. wh_tenant_id w = tenant \<and> webhook_id w = wid) (webhooks b) of
        None \<Rightarrow> Inl NotFound
      | Some w \<Rightarrow> Inr w)"

definition get_webhook :: "string \<Rightarrow> string \<Rightarrow> outbox \<Rightarrow> webhook result" where
  "get_webhook tenant wid b = bind_result (subscription tenant wid b) (\<lambda>w. Inr (webhook_of w))"

definition rotate_secret ::
  "string \<Rightarrow> string \<Rightarrow> string \<Rightarrow> duration \<Rightarrow> instant \<Rightarrow> outbox \<Rightarrow> ((webhook \<times> string) \<times> outbox) result" where
  "rotate_secret secret tenant wid overlap now b =
     bind_result (subscription tenant wid b) (\<lambda>w.
       let w' = w\<lparr>wh_previous_secret := Some (wh_secret w), wh_secret := secret,
                  wh_previous_secret_expires_at := Some (now + overlap)\<rparr>
       in Inr ((webhook_of w', secret), b\<lparr>webhooks := put_row webhook_id w' (webhooks b)\<rparr>))"

text \<open>\<open>ON DELETE CASCADE\<close>: the deliveries owed to it go with it.\<close>

definition delete_webhook :: "string \<Rightarrow> string \<Rightarrow> outbox \<Rightarrow> (unit \<times> outbox) result" where
  "delete_webhook tenant wid b =
     bind_result (subscription tenant wid b) (\<lambda>w.
       Inr ((), \<lparr>webhooks = filter (\<lambda>x. webhook_id x \<noteq> wid) (webhooks b),
                 deliveries = filter (\<lambda>x. dv_webhook_id x \<noteq> wid) (deliveries b)\<rparr>))"

section \<open>The outbox\<close>

definition wanting :: "string \<Rightarrow> webhook_event \<Rightarrow> webhook_row \<Rightarrow> bool" where
  "wanting tenant event w \<longleftrightarrow> wh_tenant_id w = tenant \<and> event \<in> set (wh_events w)"

definition new_delivery :: "contracts \<Rightarrow> event_envelope \<Rightarrow> instant \<Rightarrow> string \<Rightarrow> webhook_delivery_row" where
  "new_delivery C p now hook = \<lparr>
     delivery_id = stable_id C ''dlv_'' [PStr (en_event_id p), PStr hook], dv_webhook_id = hook,
     payload = p, attempts = 0, next_attempt_at = now, dv_last_error = None, dead_at = None,
     dv_created_at = now\<rparr>"

text \<open>\<open>INSERT ... ON CONFLICT DO NOTHING\<close>, row by row.\<close>

definition insert_new :: "webhook_delivery_row \<Rightarrow> webhook_delivery_row list \<Rightarrow> webhook_delivery_row list" where
  "insert_new r rows = (if delivery_id r \<in> delivery_id ` set rows then rows else rows @ [r])"

definition announce :: "contracts \<Rightarrow> run_record \<Rightarrow> webhook_event option \<Rightarrow> instant \<Rightarrow> outbox \<Rightarrow> outbox" where
  "announce C run event now b =
     (case (case event of Some e \<Rightarrow> Some e | None \<Rightarrow> event_of C run) of
        None \<Rightarrow> b
      | Some e \<Rightarrow>
          (let p = envelope C run e;
               hooks = map webhook_id (filter (wanting (rec_tenant_id run) e) (webhooks b))
           in b\<lparr>deliveries := fold insert_new (map (new_delivery C p now) hooks) (deliveries b)\<rparr>))"

definition hook_of :: "outbox \<Rightarrow> webhook_delivery_row \<Rightarrow> webhook_row option" where
  "hook_of b r = find (\<lambda>w. webhook_id w = dv_webhook_id r) (webhooks b)"

definition owed_now :: "(string \<Rightarrow> bool) \<Rightarrow> instant \<Rightarrow> outbox \<Rightarrow> webhook_delivery_row \<Rightarrow> bool" where
  "owed_now busy now b r \<longleftrightarrow>
     hook_of b r \<noteq> None \<and> dead_at r = None \<and> next_attempt_at r \<le> now \<and> \<not> busy (delivery_id r)"

definition attempted :: "instant \<Rightarrow> webhook_delivery_row \<Rightarrow> webhook_delivery_row" where
  "attempted now r = r\<lparr>attempts := attempts r + 1, next_attempt_at := now + WEBHOOK_LEASE\<rparr>"

definition held_of :: "instant \<Rightarrow> webhook_row \<Rightarrow> webhook_delivery_row \<Rightarrow> held_delivery" where
  "held_of now w r =
     (let overlapping = ((case wh_previous_secret_expires_at w of None \<Rightarrow> now | Some t \<Rightarrow> t) > now)
      in \<lparr>hd_delivery_id = delivery_id r, hd_url = wh_url w, hd_secret = wh_secret w,
          hd_payload = payload r, hd_attempts = attempts r,
          hd_previous_secret = (if overlapping then wh_previous_secret w else None)\<rparr>)"

definition claim_due_deliveries ::
  "(string \<Rightarrow> bool) \<Rightarrow> instant \<Rightarrow> nat \<Rightarrow> outbox \<Rightarrow> held_delivery list \<times> outbox" where
  "claim_due_deliveries busy now limit b =
     (let rows = map (attempted now) (query (owed_now busy now b) next_attempt_at limit (deliveries b))
      in (map (\<lambda>r. held_of now (the (hook_of b r)) r) rows,
          b\<lparr>deliveries := put_rows delivery_id rows (deliveries b)\<rparr>))"

definition settled_row :: "held_delivery \<Rightarrow> attempt_outcome \<Rightarrow> instant \<Rightarrow> webhook_delivery_row \<Rightarrow> webhook_delivery_row" where
  "settled_row held a now row =
     (let row = row\<lparr>dv_last_error := att_error a\<rparr>
      in if att_retry a \<and> hd_attempts held < WEBHOOK_ATTEMPTS
         then row\<lparr>next_attempt_at := now + backoff WEBHOOK_RETRY_BASE (hd_attempts held) WEBHOOK_RETRY_CAP\<rparr>
         else row\<lparr>dead_at := Some now\<rparr>)"

definition settle :: "held_delivery \<Rightarrow> attempt_outcome \<Rightarrow> instant \<Rightarrow> outbox \<Rightarrow> bool \<times> outbox" where
  "settle held a now b =
     (if accepted a
      then (False, b\<lparr>deliveries := filter (\<lambda>r. delivery_id r \<noteq> hd_delivery_id held) (deliveries b)\<rparr>)
      else case find (\<lambda>r. delivery_id r = hd_delivery_id held) (deliveries b) of
             None \<Rightarrow> (False, b)
           | Some row \<Rightarrow>
               (let row = settled_row held a now row
                in (dead_at row \<noteq> None, b\<lparr>deliveries := put_row delivery_id row (deliveries b)\<rparr>)))"

definition delivery_tenant :: "outbox \<Rightarrow> webhook_delivery_row \<Rightarrow> string option" where
  "delivery_tenant b r = map_option wh_tenant_id (hook_of b r)"

definition delivery_position :: "webhook_delivery_row \<Rightarrow> instant \<times> string" where
  "delivery_position r = (dv_created_at r, delivery_id r)"

definition listed_delivery ::
  "outbox \<Rightarrow> string \<Rightarrow> delivery_state option \<Rightarrow> string option \<Rightarrow> webhook_delivery_row \<Rightarrow> bool" where
  "listed_delivery b tenant state wid r \<longleftrightarrow>
     delivery_tenant b r = Some tenant \<and>
     (case state of None \<Rightarrow> True | Some Dead \<Rightarrow> dead_at r \<noteq> None | Some Pending \<Rightarrow> dead_at r = None) \<and>
     (wid = None \<or> wid = Some (dv_webhook_id r))"

definition list_deliveries ::
  "string \<Rightarrow> delivery_state option \<Rightarrow> string option \<Rightarrow> nat \<Rightarrow> (instant \<times> string) option \<Rightarrow> outbox \<Rightarrow>
   (delivery_record, instant \<times> string) page" where
  "list_deliveries tenant state wid limit after b =
     page_of limit delivery_of delivery_position
       (fetch_desc (listed_delivery b tenant state wid) delivery_position after (limit + 1) (deliveries b))"

definition redeliver :: "string \<Rightarrow> string \<Rightarrow> instant \<Rightarrow> outbox \<Rightarrow> (delivery_record \<times> outbox) result" where
  "redeliver tenant did now b =
     (case find (\<lambda>r. delivery_tenant b r = Some tenant \<and> delivery_id r = did) (deliveries b) of
        None \<Rightarrow> Inl NotFound
      | Some row \<Rightarrow>
          if dead_at row = None then Inl (Conflict [])
          else let row = row\<lparr>dead_at := None, attempts := 0, next_attempt_at := now\<rparr>
               in Inr (delivery_of row, b\<lparr>deliveries := put_row delivery_id row (deliveries b)\<rparr>))"

definition drop_dead :: "(string \<Rightarrow> bool) \<Rightarrow> instant \<Rightarrow> nat \<Rightarrow> outbox \<Rightarrow> nat \<times> outbox" where
  "drop_dead busy before limit b =
     (let gone = map delivery_id (query (\<lambda>r. sql_less (dead_at r) before \<and> \<not> busy (delivery_id r))
                   (nulls_last \<circ> dead_at) limit (deliveries b))
      in (length (filter (\<lambda>r. delivery_id r \<in> set gone) (deliveries b)),
          b\<lparr>deliveries := filter (\<lambda>r. delivery_id r \<notin> set gone) (deliveries b)\<rparr>))"

end
