(* ===== verification/Outbox.thy ===== *)
theory Outbox
  imports Webhook_Store
begin

text \<open>
  The outbox against its specification. Abstractly an outbox is a partial map from pairs of an event
  and a subscription to what is owed: so many attempts made, or given up on. \<open>owes\<close> abstracts the
  table; every operation is shown to do to the table what its specification does to the map.
  \<open>outbox_ok\<close> is the invariant the abstraction rests on (ids that spell the event and the
  subscription, deliveries only to subscriptions that exist, the tenants' caps), and
  \<open>outbox_operation\<close> the contract every operation keeps.
\<close>

section \<open>The specification\<close>

datatype mark = Owed int | GivenUp int

type_synonym debts = "string \<times> string \<Rightarrow> mark option"

definition spec_announce :: "string \<Rightarrow> string set \<Rightarrow> debts \<Rightarrow> debts" where
  "spec_announce e hooks m =
     (\<lambda>k. if fst k = e \<and> snd k \<in> hooks \<and> m k = None then Some (Owed 0) else m k)"

fun counted_again :: "mark \<Rightarrow> mark" where
  "counted_again (Owed n) = Owed (n + 1)"
| "counted_again (GivenUp n) = GivenUp n"

definition spec_claim :: "(string \<times> string) set \<Rightarrow> debts \<Rightarrow> debts" where
  "spec_claim ks m = (\<lambda>k. if k \<in> ks then map_option counted_again (m k) else m k)"

fun given_up :: "mark \<Rightarrow> mark" where
  "given_up (Owed n) = GivenUp n"
| "given_up (GivenUp n) = GivenUp n"

definition spec_settle :: "string \<times> string \<Rightarrow> attempt_outcome \<Rightarrow> int \<Rightarrow> debts \<Rightarrow> debts" where
  "spec_settle k a n m =
     (if accepted a then m(k := None)
      else if att_retry a \<and> n < WEBHOOK_ATTEMPTS then m
      else m(k := map_option given_up (m k)))"

definition spec_redeliver :: "string \<times> string \<Rightarrow> debts \<Rightarrow> debts" where
  "spec_redeliver k m = m(k \<mapsto> Owed 0)"

section \<open>The abstraction\<close>

definition delivery_key :: "webhook_delivery_row \<Rightarrow> string \<times> string" where
  "delivery_key r = (en_event_id (payload r), dv_webhook_id r)"

definition mark_of :: "webhook_delivery_row \<Rightarrow> mark" where
  "mark_of r = (if dead_at r = None then Owed (attempts r) else GivenUp (attempts r))"

definition marks :: "webhook_delivery_row list \<Rightarrow> debts" where
  "marks rows = map_of (map (\<lambda>r. (delivery_key r, mark_of r)) rows)"

definition owes :: "outbox \<Rightarrow> debts" where
  "owes b = marks (deliveries b)"

definition id_for :: "contracts \<Rightarrow> string \<times> string \<Rightarrow> string" where
  "id_for C k = stable_id C ''dlv_'' [PStr (fst k), PStr (snd k)]"

definition keyed :: "contracts \<Rightarrow> webhook_delivery_row \<Rightarrow> bool" where
  "keyed C r \<longleftrightarrow> delivery_id r = id_for C (delivery_key r)"

definition outbox_ok :: "contracts \<Rightarrow> outbox \<Rightarrow> bool" where
  "outbox_ok C b \<longleftrightarrow>
     distinct (map webhook_id (webhooks b)) \<and> distinct (map delivery_id (deliveries b)) \<and>
     (\<forall>r\<in>set (deliveries b). dv_webhook_id r \<in> webhook_id ` set (webhooks b) \<and> keyed C r \<and> 0 \<le> attempts r) \<and>
     (\<forall>tenant. length (filter (\<lambda>w. wh_tenant_id w = tenant) (webhooks b)) \<le> MAX_WEBHOOKS_PER_TENANT)"

lemma outbox_okD:
  assumes "outbox_ok C b"
  shows "distinct (map webhook_id (webhooks b))" "distinct (map delivery_id (deliveries b))"
    "\<And>r. r \<in> set (deliveries b) \<Longrightarrow> dv_webhook_id r \<in> webhook_id ` set (webhooks b)"
    "\<And>r. r \<in> set (deliveries b) \<Longrightarrow> keyed C r" "\<And>r. r \<in> set (deliveries b) \<Longrightarrow> 0 \<le> attempts r"
    "length (filter (\<lambda>w. wh_tenant_id w = tenant) (webhooks b)) \<le> MAX_WEBHOOKS_PER_TENANT"
  using assms by (auto simp: outbox_ok_def)

lemma id_for_eq [simp]: "id_laws C \<Longrightarrow> id_for C j = id_for C k \<longleftrightarrow> j = k"
  by (auto simp: id_for_def prod_eq_iff)

lemma same_key: "id_laws C \<Longrightarrow> keyed C r \<Longrightarrow> keyed C x \<Longrightarrow> delivery_id r = delivery_id x \<longleftrightarrow> delivery_key r = delivery_key x"
  by (simp add: keyed_def)

section \<open>How the table's changes look abstractly\<close>

lemma marks_Nil [simp]: "marks [] = Map.empty"
  by (simp add: marks_def)

lemma marks_Cons [simp]: "marks (r # rows) = (marks rows)(delivery_key r \<mapsto> mark_of r)"
  by (simp add: marks_def)

lemma marks_append: "marks (xs @ ys) = marks ys ++ marks xs"
  by (simp add: marks_def)

lemma marks_None: "marks rows k = None \<longleftrightarrow> k \<notin> delivery_key ` set rows"
  by (induction rows) auto

lemma find_SomeD: "find P xs = Some x \<Longrightarrow> x \<in> set xs \<and> P x"
  by (auto simp: find_Some_iff)

lemma put_row_Cons: "put_row key r (x # rows) = (if key x = key r then r else x) # put_row key r rows"
  by (simp add: put_row_def)

lemma marks_put:
  assumes "id_laws C" "\<forall>x\<in>set rows. keyed C x" "keyed C r" "delivery_id r \<in> delivery_id ` set rows"
  shows "marks (put_row delivery_id r rows) = (marks rows)(delivery_key r \<mapsto> mark_of r)"
  using assms(2,4)
proof (induction rows)
  case (Cons x rows)
  have x: "delivery_id x = delivery_id r \<longleftrightarrow> delivery_key x = delivery_key r"
    using same_key [OF assms(1), of x r] Cons.prems(1) assms(3) by simp
  show ?case
  proof (cases "delivery_id r \<in> delivery_id ` set rows")
    case True
    have ih: "marks (put_row delivery_id r rows) = (marks rows)(delivery_key r \<mapsto> mark_of r)"
      by (rule Cons.IH) (use Cons.prems True in auto)
    show ?thesis
    proof (cases "delivery_id x = delivery_id r")
      case True
      with x show ?thesis by (simp only: put_row_Cons if_True marks_Cons ih fun_upd_upd simp_thms)
    next
      case False
      with x have "delivery_key r \<noteq> delivery_key x" by simp
      from fun_upd_twist [OF this] False show ?thesis by (simp only: put_row_Cons if_False marks_Cons ih simp_thms)
    qed
  next
    case False
    then have "put_row delivery_id r rows = rows" unfolding put_row_def by (intro map_idI) (auto simp: image_iff)
    moreover from False Cons.prems(2) have "delivery_id x = delivery_id r" by auto
    ultimately show ?thesis using x by (simp only: put_row_Cons if_True marks_Cons fun_upd_upd simp_thms)
  qed
qed simp

lemma marks_filter:
  assumes "id_laws C" "\<forall>x\<in>set rows. keyed C x"
  shows "marks (filter (\<lambda>x. delivery_id x \<noteq> id_for C k) rows) = (marks rows)(k := None)"
  using assms(2) by (induction rows) (auto simp: keyed_def assms(1) fun_eq_iff)

lemma marks_insert_new:
  assumes "id_laws C" "\<forall>x\<in>set rows. keyed C x" "keyed C r"
  shows "marks (insert_new r rows) = (\<lambda>k. if k = delivery_key r \<and> marks rows k = None then Some (mark_of r) else marks rows k)"
proof -
  have "delivery_id r \<in> delivery_id ` set rows \<longleftrightarrow> delivery_key r \<in> delivery_key ` set rows"
    unfolding image_iff using same_key [OF assms(1,3)] assms(2) by (intro bex_cong) auto
  then have "delivery_id r \<in> delivery_id ` set rows \<longleftrightarrow> marks rows (delivery_key r) \<noteq> None" by (simp add: marks_None)
  then show ?thesis
    by (auto simp: insert_new_def marks_append map_add_def fun_eq_iff split: option.split)
qed

lemma keyed_new_delivery [simp]: "keyed C (new_delivery C p now h)"
  by (simp add: keyed_def new_delivery_def id_for_def delivery_key_def)

lemma new_delivery_simps [simp]:
  "delivery_key (new_delivery C p now h) = (en_event_id p, h)" "mark_of (new_delivery C p now h) = Owed 0"
  "dv_webhook_id (new_delivery C p now h) = h" "attempts (new_delivery C p now h) = 0"
  by (simp_all add: new_delivery_def delivery_key_def mark_of_def)

lemma set_insert_new: "set (insert_new r rows) \<subseteq> insert r (set rows)" "set rows \<subseteq> set (insert_new r rows)"
  by (auto simp: insert_new_def)

lemma distinct_insert_new: "distinct (map delivery_id rows) \<Longrightarrow> distinct (map delivery_id (insert_new r rows))"
  by (auto simp: insert_new_def)

lemma fold_insert_new:
  assumes "id_laws C" "\<forall>x\<in>set rows. keyed C x" "distinct (map delivery_id rows)"
    and "out = fold insert_new (map (new_delivery C p now) hooks) rows"
  shows "marks out = spec_announce (en_event_id p) (set hooks) (marks rows) \<and> distinct (map delivery_id out) \<and>
    set rows \<subseteq> set out \<and> set out \<subseteq> set rows \<union> new_delivery C p now ` set hooks"
  using assms(2-4)
proof (induction hooks arbitrary: rows)
  case (Cons h hooks)
  define rows' where "rows' = insert_new (new_delivery C p now h) rows"
  have step: "\<forall>x\<in>set rows'. keyed C x" "distinct (map delivery_id rows')" "set rows \<subseteq> set rows'"
    "set rows' \<subseteq> insert (new_delivery C p now h) (set rows)"
    using Cons.prems set_insert_new [where r = "new_delivery C p now h" and rows = rows] distinct_insert_new
    by (auto simp: rows'_def)
  have "out = fold insert_new (map (new_delivery C p now) hooks) rows'"
    using Cons.prems(3) by (simp add: rows'_def)
  note ih = Cons.IH [OF step(1,2) this]
  have "spec_announce (en_event_id p) (set hooks) (marks rows') = spec_announce (en_event_id p) (set (h # hooks)) (marks rows)"
    unfolding rows'_def marks_insert_new [OF assms(1) Cons.prems(1) keyed_new_delivery]
    by (auto simp: spec_announce_def fun_eq_iff)
  with ih step(3,4) show ?case by auto
qed (auto simp: spec_announce_def)

section \<open>Every operation keeps the invariant\<close>

locale outbox_operation =
  fixes C :: contracts and op :: "outbox \<Rightarrow> ('a \<times> outbox) result"
  assumes keeps: "id_laws C \<Longrightarrow> outbox_ok C b \<Longrightarrow> op b = Inr (a, b') \<Longrightarrow> outbox_ok C b'"

lemma subscription_Inr:
  "subscription tenant wid b = Inr w \<Longrightarrow> w \<in> set (webhooks b) \<and> wh_tenant_id w = tenant \<and> webhook_id w = wid"
  by (auto simp: subscription_def find_Some_iff split: option.splits)

lemma length_filter_same:
  assumes "\<And>x. x \<in> set rows \<Longrightarrow> P (f x) = P x"
  shows "length (filter P (map f rows)) = length (filter P rows)"
  using assms by (induction rows) auto

interpretation creating: outbox_operation C "create_webhook wid secret tenant body creator now"
  for C wid secret tenant body creator now
  by unfold_locales (auto simp: create_webhook_def outbox_ok_def Let_def split: if_splits)

lemma ok_rewritten_hook:
  assumes "outbox_ok C b" "w \<in> set (webhooks b)" "webhook_id w' = webhook_id w" "wh_tenant_id w' = wh_tenant_id w"
  shows "outbox_ok C (b\<lparr>webhooks := put_row webhook_id w' (webhooks b)\<rparr>)"
proof -
  have same: "x = w" if "x \<in> set (webhooks b)" "webhook_id x = webhook_id w" for x
    using outbox_okD(1) [OF assms(1)] assms(2) that by (auto simp: distinct_map inj_on_def)
  have "length (filter (\<lambda>w. wh_tenant_id w = t) (put_row webhook_id w' (webhooks b))) = length (filter (\<lambda>w. wh_tenant_id w = t) (webhooks b))" for t
    unfolding put_row_def by (rule length_filter_same) (use same assms(3,4) in auto)
  moreover have "webhook_id ` set (put_row webhook_id w' (webhooks b)) = webhook_id ` set (webhooks b)"
    by (metis keys_put_row set_map)
  ultimately show ?thesis using assms(1) by (simp add: outbox_ok_def)
qed

interpretation rotating: outbox_operation C "rotate_secret secret tenant wid overlap now"
  for C secret tenant wid overlap now
  by unfold_locales (auto simp: rotate_secret_def Let_def dest!: subscription_Inr intro: ok_rewritten_hook)

lemma ok_filtered:
  assumes "outbox_ok C b"
    and "\<And>r. r \<in> set (deliveries b) \<Longrightarrow> Q r \<Longrightarrow> \<exists>w\<in>set (webhooks b). P w \<and> webhook_id w = dv_webhook_id r"
  shows "outbox_ok C \<lparr>webhooks = filter P (webhooks b), deliveries = filter Q (deliveries b)\<rparr>"
proof -
  have "length (filter (\<lambda>w. wh_tenant_id w = t) (filter P (webhooks b))) \<le> MAX_WEBHOOKS_PER_TENANT" for t
    using outbox_okD(6) [OF assms(1), of t] length_filter_le [of P "filter (\<lambda>w. wh_tenant_id w = t) (webhooks b)"]
    by (simp add: conj_commute)
  moreover have "distinct (map webhook_id (filter P (webhooks b)))" "distinct (map delivery_id (filter Q (deliveries b)))"
    using outbox_okD(1,2) [OF assms(1)] by (auto simp: distinct_map intro: inj_on_subset)
  moreover have "dv_webhook_id r \<in> webhook_id ` set (filter P (webhooks b))" if "r \<in> set (deliveries b)" "Q r" for r
    using assms(2) [OF that] by force
  ultimately show ?thesis using outbox_okD(4,5) [OF assms(1)] by (simp add: outbox_ok_def)
qed

lemma ok_filtered_deliveries:
  assumes "outbox_ok C b" shows "outbox_ok C (b\<lparr>deliveries := filter Q (deliveries b)\<rparr>)"
proof -
  have "outbox_ok C \<lparr>webhooks = filter (\<lambda>_. True) (webhooks b), deliveries = filter Q (deliveries b)\<rparr>"
    by (rule ok_filtered [OF assms]) (use outbox_okD(3) [OF assms] in force)
  then show ?thesis by (cases b) simp
qed

interpretation unsubscribing: outbox_operation C "delete_webhook tenant wid" for C tenant wid
proof
  fix b a b'
  assume ok: "outbox_ok C b" and run: "delete_webhook tenant wid b = Inr (a, b')"
  then have b': "b' = \<lparr>webhooks = filter (\<lambda>x. webhook_id x \<noteq> wid) (webhooks b), deliveries = filter (\<lambda>x. dv_webhook_id x \<noteq> wid) (deliveries b)\<rparr>"
    by (auto simp: delete_webhook_def)
  show "outbox_ok C b'" unfolding b' by (rule ok_filtered [OF ok]) (use outbox_okD(3) [OF ok] in force)
qed

text \<open>Rewriting deliveries in place.\<close>

lemma ok_put_delivery:
  assumes "outbox_ok C b" "dv_webhook_id r \<in> webhook_id ` set (webhooks b)" "keyed C r" "0 \<le> attempts r"
  shows "outbox_ok C (b\<lparr>deliveries := put_row delivery_id r (deliveries b)\<rparr>)"
  using assms set_put_row_subset [of delivery_id r "deliveries b"] unfolding outbox_ok_def by auto

lemma ok_put_deliveries:
  assumes "outbox_ok C b" "\<And>r. r \<in> set rs \<Longrightarrow> dv_webhook_id r \<in> webhook_id ` set (webhooks b) \<and> keyed C r \<and> 0 \<le> attempts r"
  shows "outbox_ok C (b\<lparr>deliveries := put_rows delivery_id rs (deliveries b)\<rparr>)"
  using assms
proof (induction rs arbitrary: b)
  case (Cons r rs)
  from Cons.prems have "outbox_ok C (b\<lparr>deliveries := put_row delivery_id r (deliveries b)\<rparr>)"
    by (intro ok_put_delivery) auto
  from Cons.IH [OF this] Cons.prems(2) show ?case by (simp add: put_rows_def)
qed (simp add: put_rows_def)

lemma announce_Some:
  assumes "(case event of Some e \<Rightarrow> Some e | None \<Rightarrow> event_of C run) = Some e"
  shows "announce C run event now b = b\<lparr>deliveries := fold insert_new
     (map (new_delivery C (envelope C run e) now) (map webhook_id (filter (wanting (rec_tenant_id run) e) (webhooks b)))) (deliveries b)\<rparr>"
  using assms by (simp add: announce_def Let_def)

lemma announce_ok:
  assumes "id_laws C" "outbox_ok C b" shows "outbox_ok C (announce C run event now b)"
proof (cases "case event of Some e \<Rightarrow> Some e | None \<Rightarrow> event_of C run")
  case None
  then show ?thesis using assms(2) by (simp add: announce_def)
next
  case (Some e)
  define hooks where "hooks = map webhook_id (filter (wanting (rec_tenant_id run) e) (webhooks b))"
  define out where "out = fold insert_new (map (new_delivery C (envelope C run e) now) hooks) (deliveries b)"
  have "\<forall>x\<in>set (deliveries b). keyed C x" using outbox_okD(4) [OF assms(2)] by blast
  note f = fold_insert_new [OF assms(1) this outbox_okD(2) [OF assms(2)] out_def]
  have "set hooks \<subseteq> webhook_id ` set (webhooks b)" by (auto simp: hooks_def)
  with f have "outbox_ok C (b\<lparr>deliveries := out\<rparr>)"
    using assms(2) unfolding outbox_ok_def by (auto dest!: subsetD)
  then show ?thesis unfolding announce_Some [OF Some] hooks_def [symmetric] out_def .
qed

interpretation announcing: outbox_operation C "\<lambda>b. Inr ((), announce C run event now b)" for C run event now
  by unfold_locales (auto intro: announce_ok)

interpretation claiming_deliveries: outbox_operation C "\<lambda>b. Inr (claim_due_deliveries busy now limit b)"
  for C busy now limit
proof
  fix b a b'
  assume ok: "outbox_ok C b" and run: "Inr (claim_due_deliveries busy now limit b) = Inr (a, b')"
  define rows where "rows = query (owed_now busy now b) next_attempt_at limit (deliveries b)"
  have "r \<in> set (deliveries b)" if "r \<in> set rows" for r using that in_queryD unfolding rows_def by fast
  then have "outbox_ok C (b\<lparr>deliveries := put_rows delivery_id (map (attempted now) rows) (deliveries b)\<rparr>)"
    using outbox_okD(3-5) [OF ok] by (intro ok_put_deliveries [OF ok]) (auto simp: attempted_def keyed_def delivery_key_def)
  with run show "outbox_ok C b'" by (simp add: claim_due_deliveries_def Let_def rows_def)
qed

lemma settled_row_simps [simp]:
  "delivery_id (settled_row h a now r) = delivery_id r" "dv_webhook_id (settled_row h a now r) = dv_webhook_id r"
  "payload (settled_row h a now r) = payload r" "attempts (settled_row h a now r) = attempts r"
  "delivery_key (settled_row h a now r) = delivery_key r" "keyed C (settled_row h a now r) = keyed C r"
  by (auto simp: settled_row_def Let_def delivery_key_def keyed_def)

interpretation settling: outbox_operation C "\<lambda>b. Inr (settle held a now b)" for C held a now
proof
  fix b x b'
  assume ok: "outbox_ok C b" and run: "Inr (settle held a now b) = Inr (x, b')"
  show "outbox_ok C b'"
  proof (cases "accepted a")
    case True
    with run show ?thesis using ok_filtered_deliveries [OF ok] by (auto simp: settle_def)
  next
    case False
    with run ok show ?thesis
      by (auto simp: settle_def Let_def dest!: find_SomeD split: option.splits
          intro!: ok_put_delivery dest: outbox_okD(3-5) [OF ok])
  qed
qed

interpretation redelivering: outbox_operation C "redeliver tenant did now" for C tenant did now
  by unfold_locales (auto simp: redeliver_def Let_def keyed_def delivery_key_def split: option.splits if_splits
    intro!: ok_put_delivery dest!: find_SomeD dest: outbox_okD(3) outbox_okD(4) [unfolded keyed_def delivery_key_def])

interpretation dropping: outbox_operation C "\<lambda>b. Inr (drop_dead busy before limit b)" for C busy before limit
proof
  fix b x b'
  assume ok: "outbox_ok C b" and run: "Inr (drop_dead busy before limit b) = Inr (x, b')"
  then show "outbox_ok C b'" using ok_filtered_deliveries [OF ok] by (auto simp: drop_dead_def Let_def)
qed

section \<open>Refinement\<close>

lemma distinct_keys:
  assumes "id_laws C" "\<forall>x\<in>set rows. keyed C x" "distinct (map delivery_id rows)"
  shows "distinct (map delivery_key rows)"
  using assms(2,3) by (auto simp: distinct_map inj_on_def keyed_def)

lemma marks_in:
  assumes "distinct (map delivery_key rows)" "r \<in> set rows"
  shows "marks rows (delivery_key r) = Some (mark_of r)"
proof -
  have "map fst (map (\<lambda>r. (delivery_key r, mark_of r)) rows) = map delivery_key rows" by simp
  with assms(1) have "distinct (map fst (map (\<lambda>r. (delivery_key r, mark_of r)) rows))" by (simp only:)
  with assms(2) show ?thesis unfolding marks_def by (intro map_of_is_SomeI) auto
qed

lemma marks_put_rows:
  assumes "id_laws C" "\<forall>x\<in>set rows. keyed C x" "\<forall>r\<in>set rs. keyed C r \<and> delivery_id r \<in> delivery_id ` set rows"
    and "distinct (map delivery_key rs)"
  shows "marks (put_rows delivery_id rs rows) = marks rows ++ marks rs"
  using assms(2-4)
proof (induction rs arbitrary: rows)
  case (Cons r rs)
  define rows' where "rows' = put_row delivery_id r rows"
  have m: "marks rows' = (marks rows)(delivery_key r \<mapsto> mark_of r)"
    unfolding rows'_def using Cons.prems by (intro marks_put [OF assms(1)]) auto
  have "\<forall>x\<in>set rows'. keyed C x" using Cons.prems set_put_row_subset [of delivery_id r rows] by (auto simp: rows'_def)
  moreover have "delivery_id ` set rows' = delivery_id ` set rows"
    unfolding rows'_def by (metis keys_put_row set_map)
  ultimately have "marks (put_rows delivery_id rs rows') = marks rows' ++ marks rs"
    using Cons.prems by (intro Cons.IH) auto
  moreover have "delivery_key r \<notin> dom (marks rs)" using Cons.prems(3) by (simp add: domIff marks_None)
  ultimately have "marks (put_rows delivery_id rs rows') = (marks rows ++ marks rs)(delivery_key r \<mapsto> mark_of r)"
    by (simp add: m map_add_upd_left)
  moreover have "put_rows delivery_id (r # rs) rows = put_rows delivery_id rs rows'" by (simp add: put_rows_def rows'_def)
  ultimately show ?case by (simp only: marks_Cons map_add_upd)
qed (simp add: put_rows_def)

lemma owes_claim:
  assumes "id_laws C" "outbox_ok C b"
  shows "owes (snd (claim_due_deliveries busy now limit b)) =
    spec_claim (delivery_key ` set (query (owed_now busy now b) next_attempt_at limit (deliveries b))) (owes b)"
proof -
  define rows where "rows = query (owed_now busy now b) next_attempt_at limit (deliveries b)"
  have k: "\<forall>x\<in>set (deliveries b). keyed C x" using outbox_okD(4) [OF assms(2)] by blast
  have dk: "distinct (map delivery_key (deliveries b))" using distinct_keys [OF assms(1) k outbox_okD(2) [OF assms(2)]] .
  have sub: "r \<in> set (deliveries b)" "dead_at r = None" if "r \<in> set rows" for r
    using that in_queryD [of r "owed_now busy now b"] by (auto simp: rows_def owed_now_def)
  have drows: "distinct (map delivery_key rows)" unfolding rows_def using dk by (rule distinct_query)
  have same: "delivery_key (attempted now r) = delivery_key r" "delivery_id (attempted now r) = delivery_id r" for r
    by (simp_all add: attempted_def delivery_key_def)
  have datt: "distinct (map delivery_key (map (attempted now) rows))" using drows by (simp add: same comp_def)
  have "\<forall>r\<in>set (map (attempted now) rows). keyed C r \<and> delivery_id r \<in> delivery_id ` set (deliveries b)"
    using sub(1) k by (auto simp: keyed_def same)
  from marks_put_rows [OF assms(1) k this datt]
  have put: "marks (put_rows delivery_id (map (attempted now) rows) (deliveries b)) = marks (deliveries b) ++ marks (map (attempted now) rows)" .
  have "(marks (deliveries b) ++ marks (map (attempted now) rows)) j = spec_claim (delivery_key ` set rows) (marks (deliveries b)) j" for j
  proof (cases "j \<in> delivery_key ` set rows")
    case True
    then obtain r where r: "r \<in> set rows" "j = delivery_key r" by blast
    with marks_in [OF datt, of "attempted now r"] have "marks (map (attempted now) rows) j = Some (Owed (attempts r + 1))"
      using sub(2) by (simp add: same) (simp add: mark_of_def attempted_def)
    moreover from marks_in [OF dk sub(1) [OF r(1)]] r sub(2) have "marks (deliveries b) j = Some (Owed (attempts r))"
      by (simp add: mark_of_def)
    ultimately show ?thesis using True by (simp add: spec_claim_def map_add_def)
  next
    case False
    then have "marks (map (attempted now) rows) j = None" by (auto simp: marks_None same)
    with False show ?thesis by (simp add: spec_claim_def map_add_def)
  qed
  then show ?thesis
    using put by (simp add: owes_def claim_due_deliveries_def Let_def rows_def fun_eq_iff)
qed

lemma owes_announce:
  assumes "id_laws C" "outbox_ok C b" "(case event of Some e \<Rightarrow> Some e | None \<Rightarrow> event_of C run) = Some e"
  shows "owes (announce C run event now b) =
    spec_announce (en_event_id (envelope C run e)) (webhook_id ` {w \<in> set (webhooks b). wanting (rec_tenant_id run) e w}) (owes b)"
proof -
  define hooks where "hooks = map webhook_id (filter (wanting (rec_tenant_id run) e) (webhooks b))"
  define out where "out = fold insert_new (map (new_delivery C (envelope C run e) now) hooks) (deliveries b)"
  have "\<forall>x\<in>set (deliveries b). keyed C x" using outbox_okD(4) [OF assms(2)] by blast
  from fold_insert_new [OF assms(1) this outbox_okD(2) [OF assms(2)] out_def]
  have "marks out = spec_announce (en_event_id (envelope C run e)) (set hooks) (marks (deliveries b))" by blast
  then show ?thesis
    unfolding announce_Some [OF assms(3)] hooks_def [symmetric] out_def [symmetric]
    by (simp add: owes_def hooks_def)
qed

lemma owes_settle:
  assumes "id_laws C" "outbox_ok C b" "hd_delivery_id held = id_for C k"
    and "\<forall>r\<in>set (deliveries b). delivery_key r = k \<longrightarrow> dead_at r = None"
  shows "owes (snd (settle held a now b)) = spec_settle k a (hd_attempts held) (owes b)"
proof (cases "accepted a")
  case True
  have kd: "\<forall>x\<in>set (deliveries b). keyed C x" using outbox_okD(4) [OF assms(2)] by blast
  with True marks_filter [OF assms(1) kd, of k] show ?thesis by (simp add: settle_def owes_def spec_settle_def assms(3))
next
  case False
  have kd: "\<forall>x\<in>set (deliveries b). keyed C x" using outbox_okD(4) [OF assms(2)] by blast
  have dk: "distinct (map delivery_key (deliveries b))" using distinct_keys [OF assms(1) kd outbox_okD(2) [OF assms(2)]] .
  show ?thesis
  proof (cases "find (\<lambda>r. delivery_id r = hd_delivery_id held) (deliveries b)")
    case None
    then have "k \<notin> delivery_key ` set (deliveries b)" using kd assms(3) by (auto simp: find_None_iff keyed_def)
    with None False show ?thesis by (auto simp: settle_def owes_def spec_settle_def marks_None [symmetric] fun_eq_iff)
  next
    case (Some row)
    then have row: "row \<in> set (deliveries b)" "delivery_id row = hd_delivery_id held" by (auto dest: find_SomeD)
    with kd assms(1,3) have key: "delivery_key row = k" by (simp add: keyed_def)
    then have alive: "dead_at row = None" using assms(4) row(1) by blast
    have "marks (put_row delivery_id (settled_row held a now row) (deliveries b)) = (marks (deliveries b))(k \<mapsto> mark_of (settled_row held a now row))"
      using marks_put [OF assms(1) kd, of "settled_row held a now row"] kd row(1) key by simp
    moreover have "marks (deliveries b) k = Some (Owed (attempts row))" using marks_in [OF dk row(1)] key alive by (simp add: mark_of_def)
    ultimately show ?thesis using False Some alive
      by (auto simp: settle_def Let_def owes_def spec_settle_def settled_row_def mark_of_def fun_eq_iff)
  qed
qed

lemma owes_redeliver:
  assumes "id_laws C" "outbox_ok C b" "redeliver tenant did now b = Inr (a, b')"
  shows "\<exists>k n. did = id_for C k \<and> owes b k = Some (GivenUp n) \<and> owes b' = spec_redeliver k (owes b)"
proof -
  have kd: "\<forall>x\<in>set (deliveries b). keyed C x" using outbox_okD(4) [OF assms(2)] by blast
  have dk: "distinct (map delivery_key (deliveries b))" using distinct_keys [OF assms(1) kd outbox_okD(2) [OF assms(2)]] .
  from assms(3) obtain row where row: "row \<in> set (deliveries b)" "delivery_id row = did" "dead_at row \<noteq> None"
    "b' = b\<lparr>deliveries := put_row delivery_id (row\<lparr>dead_at := None, attempts := 0, next_attempt_at := now\<rparr>) (deliveries b)\<rparr>"
    by (auto simp: redeliver_def Let_def dest!: find_SomeD split: option.splits if_splits)
  define row' where "row' = row\<lparr>dead_at := None, attempts := 0, next_attempt_at := now\<rparr>"
  have row': "keyed C row'" "delivery_id row' = did" "delivery_key row' = delivery_key row" "mark_of row' = Owed 0"
    using kd row(1,2) by (auto simp: row'_def keyed_def delivery_key_def mark_of_def)
  have "marks (put_row delivery_id row' (deliveries b)) = (marks (deliveries b))(delivery_key row \<mapsto> Owed 0)"
    using marks_put [OF assms(1) kd row'(1)] image_eqI [OF _ row(1), of did delivery_id] by (simp add: row' row(2))
  moreover have "owes b (delivery_key row) = Some (GivenUp (attempts row))"
    using marks_in [OF dk row(1)] row(3) by (simp add: owes_def mark_of_def)
  moreover have "did = id_for C (delivery_key row)" using kd row(1,2) by (auto simp: keyed_def)
  ultimately show ?thesis
    by (intro exI [of _ "delivery_key row"] exI [of _ "attempts row"]) (simp add: row(4) row'_def [symmetric] owes_def spec_redeliver_def)
qed

section \<open>Properties\<close>

text \<open>C6. The outbox refines its specification: written to the table, announcing an event owes it once to
  every subscription of the run's tenant that wants it and to which it is not owed yet; claiming
  counts an attempt for what it holds; settling an attempt clears what was accepted, gives up on
  what was refused for good or tried seven times, and leaves the rest owed; redelivering owes afresh
  what was given up on.\<close>

theorem outbox_refines:
  assumes "id_laws C" "outbox_ok C b"
  shows "((case event of Some e \<Rightarrow> Some e | None \<Rightarrow> event_of C run) = Some e \<longrightarrow>
      owes (announce C run event now b) = spec_announce (en_event_id (envelope C run e))
        (webhook_id ` {w \<in> set (webhooks b). wanting (rec_tenant_id run) e w}) (owes b)) \<and>
    owes (snd (claim_due_deliveries busy now limit b)) =
      spec_claim (delivery_key ` set (query (owed_now busy now b) next_attempt_at limit (deliveries b))) (owes b) \<and>
    (hd_delivery_id held = id_for C k \<and> (\<forall>r\<in>set (deliveries b). delivery_key r = k \<longrightarrow> dead_at r = None) \<longrightarrow>
      owes (snd (settle held a now b)) = spec_settle k a (hd_attempts held) (owes b)) \<and>
    (redeliver tenant did now b = Inr (x, b') \<longrightarrow>
      (\<exists>j n. did = id_for C j \<and> owes b j = Some (GivenUp n) \<and> owes b' = spec_redeliver j (owes b)))"
  using owes_announce [OF assms] owes_claim [OF assms] owes_settle [OF assms] owes_redeliver [OF assms] by blast

definition demo_hook :: webhook_row where
  "demo_hook = \<lparr>webhook_id = ''wh_1'', wh_tenant_id = ''acme'', wh_url = ''https://acme.test/hook'', wh_events = [RunFinished, RunPaused],
     wh_secret = ''s1'', wh_previous_secret = None, wh_previous_secret_expires_at = None, wh_created_by = ''key:1'', wh_created_at = 0\<rparr>"

definition demo_outbox :: outbox where
  "demo_outbox = \<lparr>webhooks = [demo_hook], deliveries = []\<rparr>"

lemma demo_outbox_ok: "outbox_ok demo_contracts demo_outbox"
  by (simp add: outbox_ok_def demo_outbox_def MAX_WEBHOOKS_PER_TENANT_def)

definition demo_paused_run :: run_record where
  "demo_paused_run = record_of ((new_row demo_start True 0)\<lparr>status := PAUSED\<rparr>) 5"

theorem outbox_refines_witness:
  "owes (announce demo_contracts demo_paused_run None 5 demo_outbox)
     (en_event_id (envelope demo_contracts demo_paused_run RunPaused), ''wh_1'') = Some (Owed 0)"
proof -
  have e: "event_of demo_contracts demo_paused_run = Some RunPaused" "rec_tenant_id demo_paused_run = ''acme''"
    by (simp_all add: event_of_def demo_paused_run_def record_of_def new_row_def demo_start_def)
  have "wanting ''acme'' RunPaused demo_hook" by (simp add: wanting_def demo_hook_def)
  then have "''wh_1'' \<in> webhook_id ` {w \<in> set (webhooks demo_outbox). wanting (rec_tenant_id demo_paused_run) RunPaused w}"
    by (simp add: demo_outbox_def e(2) demo_hook_def)
  then show ?thesis
    using outbox_refines [OF demo_laws(3) demo_outbox_ok, where event = None and run = demo_paused_run and e = RunPaused and now = 5] e(1)
    by (simp add: spec_announce_def owes_def demo_outbox_def)
qed

end
