(* ===== verification/Webhook_Properties.thy ===== *)
theory Webhook_Properties
  imports Outbox
begin

text \<open>
  What the webhooks promise beyond the outbox's refinement: its invariant in every history, an
  announcement repeated that changes nothing, seven attempts and no more, a secret rotated without a
  gap, and what an event says of its run.
\<close>

section \<open>Every history of the outbox\<close>

inductive outbox_step :: "contracts \<Rightarrow> outbox \<Rightarrow> outbox \<Rightarrow> bool" for C where
  creates: "create_webhook wid secret tenant body creator now b = Inr (x, b') \<Longrightarrow> outbox_step C b b'"
| rotates: "rotate_secret secret tenant wid overlap now b = Inr (x, b') \<Longrightarrow> outbox_step C b b'"
| unsubscribes: "delete_webhook tenant wid b = Inr (y, b') \<Longrightarrow> outbox_step C b b'"
| announces: "outbox_step C b (announce C run event now b)"
| claims: "outbox_step C b (snd (claim_due_deliveries busy now limit b))"
| settles: "outbox_step C b (snd (settle held a now b))"
| redelivers: "redeliver tenant did now b = Inr (z, b') \<Longrightarrow> outbox_step C b b'"
| drops: "outbox_step C b (snd (drop_dead busy before limit b))"

lemma outbox_step_ok: "outbox_step C b b' \<Longrightarrow> id_laws C \<Longrightarrow> outbox_ok C b \<Longrightarrow> outbox_ok C b'"
  by (induction rule: outbox_step.induct)
    (auto intro: creating.keeps rotating.keeps unsubscribing.keeps announce_ok redelivering.keeps
      claiming_deliveries.keeps [OF _ _ arg_cong [OF prod.collapse [symmetric]]]
      settling.keeps [OF _ _ arg_cong [OF prod.collapse [symmetric]]]
      dropping.keeps [OF _ _ arg_cong [OF prod.collapse [symmetric]]])

interpretation outboxes: transition_system "\<lambda>b. b = \<lparr>webhooks = [], deliveries = []\<rparr>"
  "\<lambda>b b'. id_laws C \<and> outbox_step C b b'" "outbox_ok C" for C
proof
  show "outbox_ok C b" if "b = \<lparr>webhooks = [], deliveries = []\<rparr>" for b using that by (simp add: outbox_ok_def)
qed (auto intro: outbox_step_ok)

lemma insert_new_again: "(\<forall>r\<in>set rs. delivery_id r \<in> delivery_id ` set rows) \<Longrightarrow> fold insert_new rs rows = rows"
  by (induction rs) (auto simp: insert_new_def)

lemma insert_new_ids: "delivery_id ` set (fold insert_new rs rows) = delivery_id ` set rows \<union> delivery_id ` set rs"
  by (induction rs arbitrary: rows) (auto simp: insert_new_def)

lemma announce_again: "announce C run event now' (announce C run event now b) = announce C run event now b"
proof (cases "case event of Some e \<Rightarrow> Some e | None \<Rightarrow> event_of C run")
  case None
  then show ?thesis by (simp add: announce_def)
next
  case (Some e)
  define hooks where "hooks = map webhook_id (filter (wanting (rec_tenant_id run) e) (webhooks b))"
  define out where "out = fold insert_new (map (new_delivery C (envelope C run e) now) hooks) (deliveries b)"
  have same: "delivery_id (new_delivery C p now' h) = delivery_id (new_delivery C p now h)" for p h
    by (simp add: new_delivery_def)
  have "fold insert_new (map (new_delivery C (envelope C run e) now') hooks) out = out"
    unfolding out_def by (rule insert_new_again) (auto simp: insert_new_ids same)
  then show ?thesis unfolding announce_Some [OF Some]
    by (simp add: hooks_def [symmetric] out_def [symmetric])
qed



section \<open>Attempts\<close>

text \<open>One round of a delivery: it is claimed and its attempt fails, in a way worth another.\<close>

definition failed_round :: "webhook_row \<Rightarrow> string \<Rightarrow> instant \<Rightarrow> webhook_delivery_row \<Rightarrow> webhook_delivery_row" where
  "failed_round w e now r =
     settled_row (held_of now w (attempted now r)) \<lparr>att_error = Some e, att_retry = True\<rparr> now (attempted now r)"

lemma failed_round_effect:
  "attempts (failed_round w e now r) = attempts r + 1"
  "dead_at (failed_round w e now r) = (if attempts r + 1 < WEBHOOK_ATTEMPTS then dead_at r else Some now)"
  by (auto simp: failed_round_def settled_row_def held_of_def attempted_def Let_def)

text \<open>A delivery is tried seven times: while its attempts fail in a way worth another it stays owed, due
  again after a wait between fifteen seconds and ten minutes, and the seventh failure is the one it
  is given up on; an attempt refused for good gives it up at once, and an accepted one removes it and
  touches no other.\<close>

lemma delivery_attempts:
  assumes "outbox_ok C b" "row \<in> set (deliveries b)" "hd_delivery_id held = delivery_id row"
  shows "(attempts r = 0 \<and> dead_at r = None \<and> length ts \<le> 7 \<longrightarrow>
      attempts (fold (failed_round w e) ts r) = int (length ts) \<and>
      (dead_at (fold (failed_round w e) ts r) \<noteq> None \<longleftrightarrow> length ts = 7)) \<and>
    (accepted a \<longrightarrow> settle held a now b = (False, b\<lparr>deliveries := filter (\<lambda>x. x \<noteq> row) (deliveries b)\<rparr>)) \<and>
    (\<not> accepted a \<longrightarrow> settle held a now b =
       (dead_at (settled_row held a now row) \<noteq> None, b\<lparr>deliveries := put_row delivery_id (settled_row held a now row) (deliveries b)\<rparr>)) \<and>
    (\<not> accepted a \<and> \<not> att_retry a \<longrightarrow> dead_at (settled_row held a now row) = Some now) \<and>
    (att_retry a \<and> hd_attempts held < WEBHOOK_ATTEMPTS \<longrightarrow> dead_at (settled_row held a now row) = dead_at row \<and>
       (\<exists>wait. next_attempt_at (settled_row held a now row) = now + wait \<and> timedelta_seconds 15 \<le> wait \<and> wait \<le> timedelta_seconds 600))"
proof -
  have uniq: "x = row" if "x \<in> set (deliveries b)" "delivery_id x = delivery_id row" for x
    using outbox_okD(2) [OF assms(1)] assms(2) that by (auto simp: distinct_map inj_on_def)
  have "attempts (fold (failed_round w e) ts r) = int (length ts) \<and>
      (dead_at (fold (failed_round w e) ts r) \<noteq> None \<longleftrightarrow> length ts = 7)" if "attempts r = 0" "dead_at r = None" "length ts \<le> 7"
    using that(3)
  proof (induction ts rule: rev_induct)
    case (snoc t ts)
    then have "attempts (fold (failed_round w e) ts r) = int (length ts)" "dead_at (fold (failed_round w e) ts r) = None" by auto
    with snoc.prems show ?case by (auto simp: failed_round_effect WEBHOOK_ATTEMPTS_def)
  qed (use that in simp)
  moreover have "filter (\<lambda>x. delivery_id x \<noteq> hd_delivery_id held) (deliveries b) = filter (\<lambda>x. x \<noteq> row) (deliveries b)"
    using uniq assms(3) by (intro filter_cong) auto
  moreover have "find (\<lambda>x. delivery_id x = hd_delivery_id held) (deliveries b) = Some row"
    using uniq assms(2,3) by (cases "find (\<lambda>x. delivery_id x = hd_delivery_id held) (deliveries b)")
      (auto simp: find_None_iff dest!: find_SomeD)
  moreover have "\<exists>wait. next_attempt_at (settled_row held a now row) = now + wait \<and> timedelta_seconds 15 \<le> wait \<and> wait \<le> timedelta_seconds 600"
    if "att_retry a" "hd_attempts held < WEBHOOK_ATTEMPTS"
    using that hook.backoff_lower hook.backoff_upper
    by (auto simp: settled_row_def WEBHOOK_RETRY_BASE_def WEBHOOK_RETRY_CAP_def)
  ultimately show ?thesis by (auto simp: settle_def settled_row_def accepted_def Let_def)
qed

definition demo_owed :: webhook_delivery_row where
  "demo_owed = new_delivery demo_contracts (envelope demo_contracts demo_paused_run RunPaused) 5 ''wh_1''"

lemma demo_owed_ok: "outbox_ok demo_contracts (demo_outbox\<lparr>deliveries := [demo_owed]\<rparr>)"
  by (simp add: outbox_ok_def demo_outbox_def MAX_WEBHOOKS_PER_TENANT_def demo_owed_def demo_hook_def)

lemma delivery_attempts_witness:
  "settle \<lparr>hd_delivery_id = delivery_id demo_owed, hd_url = [], hd_secret = [], hd_payload = payload demo_owed, hd_attempts = 1,
      hd_previous_secret = None\<rparr> \<lparr>att_error = None, att_retry = False\<rparr> 9 (demo_outbox\<lparr>deliveries := [demo_owed]\<rparr>) =
     (False, demo_outbox\<lparr>deliveries := []\<rparr>) \<and>
   dead_at (fold (failed_round demo_hook ''answered 503'') [1, 2, 3, 4, 5, 6, 7] demo_owed) \<noteq> None"
proof -
  have d: "attempts demo_owed = 0 \<and> dead_at demo_owed = None" by (simp add: demo_owed_def new_delivery_def)
  let ?held = "\<lparr>hd_delivery_id = delivery_id demo_owed, hd_url = [], hd_secret = [], hd_payload = payload demo_owed, hd_attempts = 1,
      hd_previous_secret = None\<rparr>"
  have "demo_owed \<in> set (deliveries (demo_outbox\<lparr>deliveries := [demo_owed]\<rparr>))" "hd_delivery_id ?held = delivery_id demo_owed" by simp_all
  note t = delivery_attempts [OF demo_owed_ok this, where a = "\<lparr>att_error = None, att_retry = False\<rparr>" and now = 9]
  from t [where r = demo_owed and ts = "[1, 2, 3, 4, 5, 6, 7]" and w = demo_hook and e = "''answered 503''"] d
  show ?thesis by (simp add: accepted_def del: fold.simps)
qed

section \<open>Secrets\<close>

text \<open>A rotation leaves no gap: from it on every delivery to the subscription is signed with the new
  secret, and, until the overlap is over and not a moment longer, with the one it replaced too; every
  other subscription keeps its secret.\<close>

lemma rotation_overlap:
  assumes "outbox_ok C b" "rotate_secret secret tenant wid overlap t b = Inr (x, b')"
    and "subscription tenant wid b = Inr w" "r \<in> set (deliveries b')"
  shows "hook_of b' r \<noteq> None \<and>
    (if dv_webhook_id r = wid
     then hd_secret (held_of now (the (hook_of b' r)) r) = secret \<and>
       hd_previous_secret (held_of now (the (hook_of b' r)) r) = (if now < t + overlap then Some (wh_secret w) else None)
     else hook_of b' r = hook_of b r)"
proof -
  define w' where "w' = w\<lparr>wh_previous_secret := Some (wh_secret w), wh_secret := secret, wh_previous_secret_expires_at := Some (t + overlap)\<rparr>"
  have b': "b' = b\<lparr>webhooks := put_row webhook_id w' (webhooks b)\<rparr>"
    using assms(2,3) by (auto simp: rotate_secret_def Let_def w'_def)
  have w: "w \<in> set (webhooks b)" "webhook_id w = wid" using subscription_Inr [OF assms(3)] by auto
  have id: "webhook_id w' = wid" using w(2) by (simp add: w'_def)
  have found: "find (\<lambda>x. webhook_id x = wid) (put_row webhook_id w' rows) = Some w'"
    if "w \<in> set rows" for rows using that w(2) id by (induction rows) (auto simp: put_row_Cons)
  have other: "find (\<lambda>x. webhook_id x = h) (put_row webhook_id w' rows) = find (\<lambda>x. webhook_id x = h) rows" if "h \<noteq> wid" for h rows
    using that id by (induction rows) (auto simp: put_row_Cons put_row_def)
  have "dv_webhook_id r \<in> webhook_id ` set (webhooks b)" using outbox_okD(3) [OF assms(1)] assms(4) by (simp add: b')
  then have "find (\<lambda>x. webhook_id x = dv_webhook_id r) (webhooks b) \<noteq> None" by (auto simp: find_None_iff)
  then show ?thesis using found [OF w(1)] other [of "dv_webhook_id r" "webhooks b"]
    by (cases "dv_webhook_id r = wid") (auto simp: hook_of_def b' held_of_def Let_def w'_def)
qed

section \<open>What an event says\<close>

lemma status_value_inj [simp]: "status_value s = status_value t \<longleftrightarrow> s = t"
  by (cases s; cases t) simp_all

lemma event_value_inj [simp]: "event_value e = event_value f \<longleftrightarrow> e = f"
  by (cases e; cases f) simp_all

lemma event_id_parts:
  "en_event_id (envelope C (record_of r now) e) = stable_id C ''whd_''
     [PStr (run_id r), PInt (attempt r), PStr (status_value (status r)), PStr (event_value e),
      part_of (case awaiting r of None \<Rightarrow> None | Some i \<Rightarrow> i_assignee i)]"
  by (simp add: envelope_def Let_def record_of_def)

text \<open>An event carries the run's summary as the listing shows it, except that it never says which
  conversation the run is a turn of; runs, attempts, statuses and assignees that differ are different events.\<close>

lemma event_summary:
  assumes "row_ok r" "id_laws C"
  shows "en_run (envelope C (record_of r now) e) = (summary_of r)\<lparr>sum_thread_id := None\<rparr> \<and>
    en_tenant_id (envelope C (record_of r now) e) = tenant_id r \<and>
    (en_event_id (envelope C (record_of r now) e) = en_event_id (envelope C (record_of r' now') e') \<longrightarrow>
       run_id r = run_id r' \<and> attempt r = attempt r' \<and> status r = status r' \<and> e = e')"
proof -
  have who: "(case awaiting r of None \<Rightarrow> None | Some i \<Rightarrow> i_assignee i) = assignee r"
    using assms(1) by (simp add: row_ok_def pause_columns_ok_def)
  have "en_run (envelope C (record_of r now) e) = (summary_of r)\<lparr>sum_thread_id := None\<rparr>"
    by (simp add: envelope_def Let_def summary_of_def record_of_def who)
  moreover have "run_id r = run_id r' \<and> attempt r = attempt r' \<and> status r = status r' \<and> e = e'"
    if "en_event_id (envelope C (record_of r now) e) = en_event_id (envelope C (record_of r' now') e')"
  proof -
    have "[PStr (run_id r), PInt (attempt r), PStr (status_value (status r)), PStr (event_value e)] =
        [PStr (run_id r'), PInt (attempt r'), PStr (status_value (status r')), PStr (event_value e')]"
      using arg_cong [OF that [unfolded event_id_parts stable_id_eq [OF assms(2)]], of "take 4"] by simp
    then show ?thesis by simp
  qed
  moreover have "en_tenant_id (envelope C (record_of r now) e) = tenant_id r" by (simp add: envelope_def Let_def record_of_def)
  ultimately show ?thesis by blast
qed

end
