(* ===== verification/Signatures.thy ===== *)
theory Signatures
  imports Cadence Json
begin

text \<open>
  \<open>sdk/python/src/trellis/runs/webhooks.py\<close>: the signature every delivery carries, which the service
  writes (\<open>sign\<close>) and a receiver checks (\<open>verify_signature\<close>). HMAC-SHA256 in hex is the argument \<open>H\<close>; what
  the format relies on is that a digest is a non-empty word of hex digits. A string is its UTF-8
  bytes. \<open>int(stamp)\<close> raises on more than 4300 digits, the limit of the language's own conversion.
\<close>

type_synonym hmac = "string \<Rightarrow> string \<Rightarrow> string"  \<comment> \<open>the key, the message\<close>

definition hex_char :: "char \<Rightarrow> bool" where
  "hex_char c \<longleftrightarrow> c \<in> set ''0123456789abcdef''"

definition hmac_laws :: "hmac \<Rightarrow> bool" where
  "hmac_laws H \<longleftrightarrow> (\<forall>k m. H k m \<noteq> [] \<and> list_all hex_char (H k m))"

definition TOLERANCE_SECONDS :: int where
  "TOLERANCE_SECONDS = 300"

section \<open>The language's string operations\<close>

fun split_on :: "char \<Rightarrow> string \<Rightarrow> string list" where
  "split_on c [] = [[]]"
| "split_on c (x # xs) =
     (if x = c then [] # split_on c xs
      else case split_on c xs of [] \<Rightarrow> [[x]] | y # ys \<Rightarrow> (x # y) # ys)"

definition partition_on :: "char \<Rightarrow> string \<Rightarrow> string \<times> string \<times> string" where
  "partition_on c s =
     (case dropWhile (\<lambda>x. x \<noteq> c) s of
        [] \<Rightarrow> (s, [], [])
      | x # rest \<Rightarrow> (takeWhile (\<lambda>x. x \<noteq> c) s, [x], rest))"

definition is_digit :: "char \<Rightarrow> bool" where
  "is_digit c \<longleftrightarrow> 48 \<le> (of_char c :: nat) \<and> (of_char c :: nat) \<le> 57"

definition read_nat :: "string \<Rightarrow> nat" where
  "read_nat s = foldl (\<lambda>n c. 10 * n + (of_char c - 48)) 0 s"

definition MAX_INT_DIGITS :: nat where
  "MAX_INT_DIGITS = 4300"

section \<open>Signing and verifying\<close>

definition digest_of :: "hmac \<Rightarrow> string \<Rightarrow> int \<Rightarrow> string \<Rightarrow> string" where
  "digest_of H secret timestamp body = H secret (show_int timestamp @ ''.'' @ body)"

definition sign :: "hmac \<Rightarrow> string \<Rightarrow> int \<Rightarrow> string \<Rightarrow> string option \<Rightarrow> string" where
  "sign H secret timestamp body previous =
     (let keys = (case previous of None \<Rightarrow> [secret] | Some p \<Rightarrow> [secret, p])
      in commas ((''t='' @ show_int timestamp) # map (\<lambda>k. ''v1='' @ digest_of H k timestamp body) keys))"

definition read_part :: "string \<times> string list \<Rightarrow> string \<Rightarrow> string \<times> string list" where
  "read_part acc part =
     (let (stamp, digests) = acc; (name, separator, val) = partition_on (CHR ''='') part;
          name = strip name; separator = strip separator; val = strip val
      in if separator \<noteq> [] \<and> name = ''t'' then (val, digests)
         else if separator \<noteq> [] \<and> name = ''v1'' \<and> val \<noteq> [] then (stamp, digests @ [val])
         else (stamp, digests))"

definition read_header :: "string option \<Rightarrow> string \<times> string list" where
  "read_header header =
     foldl read_part ([], []) (split_on (CHR '','') (case header of None \<Rightarrow> [] | Some h \<Rightarrow> h))"

text \<open>The digest is what follows \<open>",v1="\<close> in the one-key signature, which is the digest itself: the part
  before it has no comma.\<close>

definition verify_signature :: "hmac \<Rightarrow> string \<Rightarrow> string option \<Rightarrow> string \<Rightarrow> int \<Rightarrow> int \<Rightarrow> bool result" where
  "verify_signature H secret header body now tolerance =
     (let (stamp, digests) = read_header header
      in if \<not> (stamp \<noteq> [] \<and> list_all is_digit stamp) \<or> digests = [] then Inr False
         else if length stamp > MAX_INT_DIGITS then Inl Crashed
         else if \<bar>now - int (read_nat stamp)\<bar> > tolerance then Inr False
         else Inr (list_ex (\<lambda>d. digest_of H secret (int (read_nat stamp)) body = d) digests))"

section \<open>What the pieces read back\<close>

lemma split_on_plain: "c \<notin> set s \<Longrightarrow> split_on c s = [s]"
  by (induction s) auto

lemma split_on_append: "c \<notin> set s \<Longrightarrow> split_on c (s @ c # t) = s # split_on c t"
  by (induction s) auto

lemma split_commas:
  "xs \<noteq> [] \<Longrightarrow> \<forall>x\<in>set xs. CHR '','' \<notin> set x \<Longrightarrow> split_on (CHR '','') (commas xs) = xs"
  by (induction xs rule: commas.induct) (auto simp: split_on_plain split_on_append)

lemma partition_on_append: "c \<notin> set s \<Longrightarrow> partition_on c (s @ c # t) = (s, [c], t)"
proof -
  assume "c \<notin> set s"
  then have "\<forall>x\<in>set s. x \<noteq> c" by auto
  then have "dropWhile (\<lambda>x. x \<noteq> c) (s @ c # t) = c # t" "takeWhile (\<lambda>x. x \<noteq> c) (s @ c # t) = s" by auto
  then show ?thesis by (simp add: partition_on_def)
qed

text \<open>A string of visible ASCII characters strips to itself.\<close>

definition visible :: "char \<Rightarrow> bool" where
  "visible c \<longleftrightarrow> 33 \<le> (of_char c :: nat) \<and> (of_char c :: nat) < 127"

lemma whitespace_ends:
  assumes "w \<in> set WHITESPACE" shows "w \<noteq> []" "\<not> visible (hd w)" "\<not> visible (last w)"
  using assms by (auto simp: WHITESPACE_def visible_def upt_rec)

lemma drop_leading_keeps:
  assumes "\<forall>w\<in>set ws. w \<noteq> [] \<longrightarrow> \<not> visible (hd w)" "\<forall>c\<in>set s. visible c"
  shows "drop_leading ws s = s"
proof -
  have "\<not> (w \<noteq> [] \<and> starts_with w s)" if "w \<in> set ws" for w
  proof
    assume a: "w \<noteq> [] \<and> starts_with w s"
    then have "hd w = hd s \<and> s \<noteq> []" unfolding starts_with_def by (metis hd_take length_greater_0_conv take_eq_Nil)
    with a that assms show False by auto
  qed
  then have "find (\<lambda>w. w \<noteq> [] \<and> starts_with w s) ws = None" by (auto simp: find_None_iff)
  then show ?thesis by (subst drop_leading.simps) simp
qed

lemma strip_visible: "\<forall>c\<in>set s. visible c \<Longrightarrow> strip s = s"
  unfolding strip_def using whitespace_ends
  by (subst (1 2) drop_leading_keeps) (auto simp: hd_rev)

lemma show_nat_digits: "show_nat n \<noteq> [] \<and> list_all is_digit (show_nat n) \<and> read_nat (show_nat n) = n"
proof (induction n rule: show_nat.induct)
  case (1 n)
  have d: "of_char (digit k) = 48 + k" if "k < 10" for k using that by (simp add: digit_def)
  show ?case
  proof (cases "n < 10")
    case True
    then show ?thesis by (subst (1 2 3) show_nat.simps) (simp add: d read_nat_def is_digit_def)
  next
    case False
    with 1 have ih: "show_nat (n div 10) \<noteq> []" "list_all is_digit (show_nat (n div 10))" "read_nat (show_nat (n div 10)) = n div 10" by auto
    from ih show ?thesis
      by (subst (1 2 3) show_nat.simps) (use False in \<open>simp add: d read_nat_def is_digit_def\<close>)
  qed
qed

lemma digit_visible: "is_digit c \<Longrightarrow> visible c \<and> c \<noteq> CHR '','' \<and> c \<noteq> CHR ''=''"
  by (auto simp: is_digit_def visible_def)

lemma hex_visible: "hex_char c \<Longrightarrow> visible c \<and> c \<noteq> CHR '','' \<and> c \<noteq> CHR ''=''"
  by (auto simp: visible_def hex_char_def)

section \<open>Properties\<close>

lemma partition_member:
  "partition_on (CHR ''='') (''t='' @ v) = (''t'', ''='', v)" "partition_on (CHR ''='') (''v1='' @ v) = (''v1'', ''='', v)"
  using partition_on_append [of "CHR ''=''" "''t''" v] partition_on_append [of "CHR ''=''" "''v1''" v] by simp_all

lemma strip_names: "strip ''t'' = ''t''" "strip ''v1'' = ''v1''" "strip ''='' = ''=''"
  by (auto intro!: strip_visible simp: visible_def)

lemma read_part_t: "\<forall>c\<in>set v. visible c \<Longrightarrow> read_part (stamp, ds) (''t='' @ v) = (v, ds)"
  unfolding read_part_def partition_member by (simp add: strip_names strip_visible)

lemma read_part_v1: "v \<noteq> [] \<Longrightarrow> \<forall>c\<in>set v. visible c \<Longrightarrow> read_part (stamp, ds) (''v1='' @ v) = (stamp, ds @ [v])"
  unfolding read_part_def partition_member by (simp add: strip_names strip_visible)

lemma read_parts_v1:
  "\<forall>v\<in>set vs. v \<noteq> [] \<and> (\<forall>c\<in>set v. visible c) \<Longrightarrow>
   foldl read_part (stamp, ds) (map (\<lambda>v. ''v1='' @ v) vs) = (stamp, ds @ vs)"
  by (induction vs arbitrary: ds) (simp_all add: read_part_v1 del: append.simps)

text \<open>What a receiver reads in the header the service writes.\<close>

lemma read_signed:
  assumes "hmac_laws H" "0 \<le> t"
  shows "read_header (Some (sign H secret t body previous)) =
    (show_int t, map (\<lambda>k. digest_of H k t body) (case previous of None \<Rightarrow> [secret] | Some p \<Rightarrow> [secret, p]))"
proof -
  define keys where "keys = (case previous of None \<Rightarrow> [secret] | Some p \<Rightarrow> [secret, p])"
  define vs where "vs = map (\<lambda>k. digest_of H k t body) keys"
  have st: "list_all is_digit (show_int t)" using show_nat_digits assms(2) by (simp add: show_int_def)
  have st_ok: "visible c \<and> c \<noteq> CHR '',''" if "c \<in> set (show_int t)" for c
    using st that digit_visible by (auto simp: list_all_iff)
  have vs_ok: "v \<noteq> [] \<and> (\<forall>c\<in>set v. visible c \<and> c \<noteq> CHR '','')" if "v \<in> set vs" for v
  proof -
    from that obtain k m where v: "v = H k m" by (auto simp: vs_def digest_of_def)
    have "H k m \<noteq> []" "\<forall>c\<in>set (H k m). hex_char c" using assms(1) by (auto simp: hmac_laws_def list_all_iff)
    then show ?thesis unfolding v using hex_visible by blast
  qed
  have signed: "sign H secret t body previous = commas ((''t='' @ show_int t) # map (\<lambda>v. ''v1='' @ v) vs)"
    by (simp add: sign_def keys_def vs_def Let_def comp_def)
  have "split_on (CHR '','') (sign H secret t body previous) = (''t='' @ show_int t) # map (\<lambda>v. ''v1='' @ v) vs"
    unfolding signed using st_ok vs_ok by (intro split_commas) auto
  moreover have "read_part ([], []) (''t='' @ show_int t) = (show_int t, [])" using st_ok by (intro read_part_t) auto
  moreover have "foldl read_part (show_int t, []) (map (\<lambda>v. ''v1='' @ v) vs) = (show_int t, [] @ vs)"
    using vs_ok by (intro read_parts_v1) auto
  ultimately show ?thesis by (simp add: read_header_def vs_def keys_def del: append.simps)
qed

text \<open>C26. A delivery the service signed verifies at the receiver, with the secret and, during a rotation,
  with the one it replaced, for as long as the tolerance lasts; and what verifies carries the digest
  of exactly the body received, under the receiver's secret, stamped with a time within the tolerance.\<close>

theorem signature_round_trip:
  assumes "hmac_laws H" "0 \<le> t" "length (show_int t) \<le> MAX_INT_DIGITS"
  shows "(key = secret \<or> previous = Some key \<longrightarrow>
      verify_signature H key (Some (sign H secret t body previous)) body now tolerance = Inr (\<bar>now - t\<bar> \<le> tolerance)) \<and>
    (verify_signature H key header body' now tolerance = Inr True \<longrightarrow>
      (\<exists>stamp. \<bar>now - stamp\<bar> \<le> tolerance \<and> digest_of H key stamp body' \<in> set (snd (read_header header))))"
proof
  show "key = secret \<or> previous = Some key \<longrightarrow>
      verify_signature H key (Some (sign H secret t body previous)) body now tolerance = Inr (\<bar>now - t\<bar> \<le> tolerance)"
  proof
    assume "key = secret \<or> previous = Some key"
    then have mem: "digest_of H key t body \<in> set (map (\<lambda>k. digest_of H k t body) (case previous of None \<Rightarrow> [secret] | Some p \<Rightarrow> [secret, p]))"
      by (auto split: option.split)
    have "show_int t \<noteq> []" "list_all is_digit (show_int t)" "int (read_nat (show_int t)) = t"
      using show_nat_digits [of "nat t"] assms(2) by (simp_all add: show_int_def)
    with mem assms(3) show "verify_signature H key (Some (sign H secret t body previous)) body now tolerance = Inr (\<bar>now - t\<bar> \<le> tolerance)"
      unfolding verify_signature_def read_signed [OF assms(1,2)] by (auto simp: list_ex_iff)
  qed
  show "verify_signature H key header body' now tolerance = Inr True \<longrightarrow>
      (\<exists>stamp. \<bar>now - stamp\<bar> \<le> tolerance \<and> digest_of H key stamp body' \<in> set (snd (read_header header)))"
    by (auto simp: verify_signature_def list_ex_iff split: prod.splits if_splits) (metis linorder_not_less)
qed

definition demo_hmac :: hmac where
  "demo_hmac k m = (if k = ''s1'' then ''ab'' else ''cd'')"

lemma demo_hmac_laws: "hmac_laws demo_hmac"
  by (simp add: hmac_laws_def demo_hmac_def hex_char_def)

theorem signature_round_trip_witness:
  "verify_signature demo_hmac ''s1'' (Some (sign demo_hmac ''s2'' 1000 ''{}'' (Some ''s1''))) ''{}'' 1200 300 = Inr True"
proof -
  have "length (show_int 1000) \<le> MAX_INT_DIGITS"
    by (simp add: show_int_def show_nat.simps MAX_INT_DIGITS_def)
  from signature_round_trip [OF demo_hmac_laws _ this, where key = "''s1''" and previous = "Some ''s1''"] show ?thesis by simp
qed

text \<open>A header whose stamp has more digits than the language converts is not answered \<open>False\<close>: the
  conversion raises.\<close>

lemma long_stamp_raises:
  assumes "MAX_INT_DIGITS < n" "d \<noteq> []" "\<forall>c\<in>set d. visible c \<and> c \<noteq> CHR '',''"
  shows "verify_signature H secret (Some (''t='' @ replicate n (CHR ''7'') @ '',v1='' @ d)) body now tolerance = Inl Crashed"
proof -
  have "split_on (CHR '','') (''t='' @ replicate n (CHR ''7'') @ '',v1='' @ d) = [''t='' @ replicate n (CHR ''7''), ''v1='' @ d]"
    using split_on_append [of "CHR '',''" "''t='' @ replicate n (CHR ''7'')" "''v1='' @ d"]
      split_on_plain [of "CHR '',''" "''v1='' @ d"] assms(3) by auto
  moreover have "\<forall>c\<in>set (replicate n (CHR ''7'')). visible c" by (auto simp: visible_def)
  ultimately have "read_header (Some (''t='' @ replicate n (CHR ''7'') @ '',v1='' @ d)) = (replicate n (CHR ''7''), [d])"
    using assms(2,3) by (simp add: read_header_def read_part_t read_part_v1 del: append.simps)
  moreover have "0 < n" using assms(1) by simp
  ultimately show ?thesis
    using assms(1) by (simp add: verify_signature_def list_all_iff is_digit_def del: append.simps)
qed

end
