(* ===== verification/Webhook_Sender.thy ===== *)
theory Webhook_Sender
  imports Signatures Webhook_Store
begin

text \<open>
  \<open>src/agent_runs/egress.py\<close> (where a webhook may be delivered) and \<open>src/agent_runs/webhooks.py\<close> (one
  attempt of a delivery). What answers from outside the program is the record \<open>network\<close>: the URL and
  address parsers (the registry of special-purpose addresses is the language's own), the resolver,
  and the exchange a POST to a target ends in. An address is its canonical text; the JSON text of a
  payload is the argument \<open>encode\<close>, the clock \<open>clock\<close>. An attempt also says which targets it tried, in order.
\<close>

section \<open>Targets\<close>

record target =
  tg_url :: string
  tg_host_header :: "string option"
  tg_sni :: "string option"

datatype exchange =
  ConnectFailed string  \<comment> \<open>\<open>ConnectError\<close>, \<open>ConnectTimeout\<close>\<close>
| Failed string  \<comment> \<open>any other \<open>HTTPError\<close>\<close>
| Answered int

record network =
  url_scheme :: "string \<Rightarrow> string"
  url_hostname :: "string \<Rightarrow> string option"
  url_netloc :: "string \<Rightarrow> string"
  url_host :: "string \<Rightarrow> string"
  with_host :: "string \<Rightarrow> string \<Rightarrow> string"  \<comment> \<open>\<open>copy_with(host=...)\<close>\<close>
  getaddrinfo :: "string \<Rightarrow> string + string list"  \<comment> \<open>an \<open>OSError\<close>, or the addresses in order\<close>
  ipv4_mapped :: "string \<Rightarrow> string option"
  is_global :: "string \<Rightarrow> bool"
  is_multicast :: "string \<Rightarrow> bool"
  exchange_with :: "target \<Rightarrow> (string \<times> string) list \<Rightarrow> string \<Rightarrow> exchange"

datatype egress_error = Unresolved string | NotPublic string string  \<comment> \<open>the host, the address\<close>

fun checked_addresses :: "network \<Rightarrow> string \<Rightarrow> string list \<Rightarrow> string list \<Rightarrow> egress_error + string list" where
  "checked_addresses N host [] seen = Inr seen"
| "checked_addresses N host (a # rest) seen =
     (let address = (case ipv4_mapped N a of Some m \<Rightarrow> m | None \<Rightarrow> a)
      in if \<not> is_global N address \<or> is_multicast N address then Inl (NotPublic host address)
         else checked_addresses N host rest (if address \<in> set seen then seen else seen @ [address]))"

definition public_addresses :: "network \<Rightarrow> string \<Rightarrow> egress_error + string list" where
  "public_addresses N url =
     (let host = (case url_hostname N url of None \<Rightarrow> [] | Some h \<Rightarrow> h)
      in case getaddrinfo N host of
           Inl e \<Rightarrow> Inl (Unresolved e)
         | Inr resolved \<Rightarrow> checked_addresses N host resolved [])"

definition pinned :: "network \<Rightarrow> string \<Rightarrow> string \<Rightarrow> target" where
  "pinned N url address =
     \<lparr>tg_url = with_host N url address, tg_host_header = Some (url_netloc N url), tg_sni = Some (url_host N url)\<rparr>"

definition require_public :: "network \<Rightarrow> string \<Rightarrow> unit result" where
  "require_public N url = (case public_addresses N url of Inl _ \<Rightarrow> Inl Unprocessable | Inr _ \<Rightarrow> Inr ())"

text \<open>\<open>WebhookCreate.check_url\<close>.\<close>

definition check_url :: "network \<Rightarrow> bool \<Rightarrow> string \<Rightarrow> unit result" where
  "check_url N allow_http url =
     (if url_scheme N url \<notin> (if allow_http then {''https'', ''http''} else {''https''}) \<or>
         \<not> truthy (url_hostname N url)
      then Inl Unprocessable else Inr ())"

section \<open>One attempt\<close>

definition WEBHOOK_RETRYABLE :: "int list" where
  "WEBHOOK_RETRYABLE = [408, 429, 500, 502, 503, 504]"

record sender =
  snd_schemes :: "string list"
  snd_allow_private :: bool

definition new_sender :: "bool \<Rightarrow> bool \<Rightarrow> sender" where
  "new_sender allow_http allow_private =
     \<lparr>snd_schemes = (if allow_http then [''https'', ''http''] else [''https'']), snd_allow_private = allow_private\<rparr>"

definition targets :: "sender \<Rightarrow> network \<Rightarrow> string \<Rightarrow> egress_error + target list" where
  "targets S N url =
     (if snd_allow_private S then Inr [\<lparr>tg_url = url, tg_host_header = None, tg_sni = None\<rparr>]
      else case public_addresses N url of
             Inl e \<Rightarrow> Inl e
           | Inr as \<Rightarrow> Inr (map (pinned N url) as))"

definition send_to :: "network \<Rightarrow> string \<Rightarrow> (string \<times> string) list \<Rightarrow> target \<Rightarrow> exchange" where
  "send_to N body headers t =
     exchange_with N t (headers @ (case tg_host_header t of None \<Rightarrow> [] | Some h \<Rightarrow> [(''Host'', h)])) body"

text \<open>Each target in turn until one takes the connection; an empty list of targets cannot be unpacked.\<close>

fun post :: "network \<Rightarrow> string \<Rightarrow> (string \<times> string) list \<Rightarrow> target list \<Rightarrow> (target list \<times> exchange) result" where
  "post N body headers [] = Inl Crashed"
| "post N body headers [t] = Inr ([t], send_to N body headers t)"
| "post N body headers (t # u # ts) =
     (case send_to N body headers t of
        ConnectFailed e \<Rightarrow> bind_result (post N body headers (u # ts)) (\<lambda>(tried, x). Inr (t # tried, x))
      | x \<Rightarrow> Inr ([t], x))"

definition delivery_headers :: "hmac \<Rightarrow> int \<Rightarrow> string \<Rightarrow> held_delivery \<Rightarrow> (string \<times> string) list" where
  "delivery_headers H clock body d =
     [(''Content-Type'', ''application/json''), (''X-Trellis-Event'', event_value (en_type (hd_payload d))),
      (''X-Trellis-Delivery'', en_event_id (hd_payload d)),
      (''X-Trellis-Signature'', sign H (hd_secret d) clock body (hd_previous_secret d))]"

definition refused :: "string \<Rightarrow> attempt_outcome" where
  "refused e = \<lparr>att_error = Some e, att_retry = False\<rparr>"

definition unreachable :: "string \<Rightarrow> attempt_outcome" where
  "unreachable e = \<lparr>att_error = Some (''unreachable: '' @ e), att_retry = True\<rparr>"

fun outcome_of :: "exchange \<Rightarrow> attempt_outcome" where
  "outcome_of (ConnectFailed e) = unreachable e"
| "outcome_of (Failed e) = unreachable e"
| "outcome_of (Answered code) =
     (if 200 \<le> code \<and> code \<le> 299 then \<lparr>att_error = None, att_retry = False\<rparr>
      else \<lparr>att_error = Some (''answered '' @ show_int code), att_retry = code \<in> set WEBHOOK_RETRYABLE\<rparr>)"

definition send ::
  "hmac \<Rightarrow> (event_envelope \<Rightarrow> string) \<Rightarrow> int \<Rightarrow> sender \<Rightarrow> network \<Rightarrow> held_delivery \<Rightarrow>
   (target list \<times> attempt_outcome) result" where
  "send H encode clock S N d =
     (if url_scheme N (hd_url d) \<notin> set (snd_schemes S)
      then Inr ([], refused ''refused: this deployment delivers only to https URLs'')
      else case targets S N (hd_url d) of
             Inl (Unresolved e) \<Rightarrow> Inr ([], unreachable (''the host does not resolve ('' @ e @ '')''))
           | Inl (NotPublic host address) \<Rightarrow>
               Inr ([], refused (''refused: '' @ host @ '' resolves to '' @ address @ '', which is not a public address''))
           | Inr ts \<Rightarrow>
               (let body = encode (hd_payload d)
                in bind_result (post N body (delivery_headers H clock body d) ts) (\<lambda>(tried, x).
                     Inr (tried, outcome_of x))))"

section \<open>Properties\<close>

text \<open>The checked addresses are what the resolver answered, each judged as itself, and all public.\<close>

definition judged :: "network \<Rightarrow> string \<Rightarrow> string" where
  "judged N a = (case ipv4_mapped N a of Some m \<Rightarrow> m | None \<Rightarrow> a)"

definition public :: "network \<Rightarrow> string \<Rightarrow> bool" where
  "public N a \<longleftrightarrow> is_global N a \<and> \<not> is_multicast N a"

lemma checked_addresses_Inr:
  "checked_addresses N host as seen = Inr out \<longleftrightarrow>
     (\<forall>a\<in>set as. public N (judged N a)) \<and> out = fold (\<lambda>a seen. if judged N a \<in> set seen then seen else seen @ [judged N a]) as seen"
  by (induction N host as seen rule: checked_addresses.induct)
    (auto simp: Let_def public_def judged_def split: option.splits)

lemma checked_addresses_Inl: "checked_addresses N host as seen = Inl e \<Longrightarrow> \<exists>b. e = NotPublic host b"
  by (induction N host as seen rule: checked_addresses.induct) (auto simp: Let_def split: if_splits)

lemma set_fold_seen:
  "set (fold (\<lambda>a seen. if f a \<in> set seen then seen else seen @ [f a]) as seen) = set seen \<union> f ` set as"
  by (induction as arbitrary: seen) auto

lemma post_tried: "post N body headers ts = Inr (tried, x) \<Longrightarrow> set tried \<subseteq> set ts \<and> tried \<noteq> []"
proof (induction N body headers ts arbitrary: tried x rule: post.induct)
  case (3 N body headers t u ts)
  then show ?case by (cases "send_to N body headers t") fastforce+
qed auto

text \<open>C27. A delivery goes only where it may: without leave for private targets an attempt connects only to
  addresses its URL's host resolved to, each of them public (an IPv4 address mapped into IPv6 judged
  as itself), pinned so that no later answer of the resolver matters; when one of them is not public,
  or the scheme is not allowed, it connects nowhere and is refused for good.\<close>

theorem send_only_to_public:
  assumes "\<not> snd_allow_private S" "send H encode clock S N d = Inr (tried, a)"
  shows "(\<forall>t\<in>set tried. \<exists>as x. getaddrinfo N (case url_hostname N (hd_url d) of None \<Rightarrow> [] | Some h \<Rightarrow> h) = Inr as \<and>
      x \<in> set as \<and> public N (judged N x) \<and> t = pinned N (hd_url d) (judged N x)) \<and>
    (url_scheme N (hd_url d) \<notin> set (snd_schemes S) \<longrightarrow> tried = [] \<and> \<not> accepted a \<and> \<not> att_retry a) \<and>
    (\<forall>as. url_scheme N (hd_url d) \<in> set (snd_schemes S) \<and>
       getaddrinfo N (case url_hostname N (hd_url d) of None \<Rightarrow> [] | Some h \<Rightarrow> h) = Inr as \<and> (\<exists>x\<in>set as. \<not> public N (judged N x)) \<longrightarrow>
       tried = [] \<and> \<not> accepted a \<and> \<not> att_retry a)"
proof (cases "url_scheme N (hd_url d) \<in> set (snd_schemes S)")
  case False
  with assms(2) show ?thesis by (auto simp: send_def refused_def accepted_def)
next
  case True
  define host where "host = (case url_hostname N (hd_url d) of None \<Rightarrow> [] | Some h \<Rightarrow> h)"
  show ?thesis
  proof (cases "public_addresses N (hd_url d)")
    case (Inl e)
    then have e: "(\<exists>m. e = Unresolved m \<and> getaddrinfo N host = Inl m) \<or> (\<exists>h b. e = NotPublic h b)"
      by (auto simp: public_addresses_def Let_def host_def split: sum.splits dest: checked_addresses_Inl)
    then show ?thesis
    proof (elim disjE exE conjE)
      fix m
      assume "e = Unresolved m" "getaddrinfo N host = Inl m"
      with True Inl assms show ?thesis unfolding host_def [symmetric] by (simp add: send_def targets_def)
    next
      fix h b
      assume "e = NotPublic h b"
      with True Inl assms show ?thesis unfolding host_def [symmetric]
        by (auto simp: send_def targets_def refused_def accepted_def)
    qed
  next
    case (Inr addrs)
    then obtain as where as: "getaddrinfo N host = Inr as" "\<forall>x\<in>set as. public N (judged N x)" "set addrs = judged N ` set as"
      by (auto simp: public_addresses_def Let_def host_def checked_addresses_Inr set_fold_seen split: sum.splits)
    from True Inr assms obtain x where p: "post N (encode (hd_payload d)) (delivery_headers H clock (encode (hd_payload d)) d)
        (map (pinned N (hd_url d)) addrs) = Inr (tried, x)"
      by (auto simp: send_def targets_def Let_def)
    have "\<exists>y\<in>set as. t = pinned N (hd_url d) (judged N y)" if "t \<in> set tried" for t
      using post_tried [OF p] that as(3) by auto
    with as True show ?thesis unfolding host_def [symmetric] by (auto, blast)
  qed
qed

text \<open>A network with one public host and one that resolves into the service's own.\<close>

definition demo_network :: network where
  "demo_network = \<lparr>url_scheme = (\<lambda>_. ''https''), url_hostname = Some, url_netloc = (\<lambda>u. u), url_host = (\<lambda>u. u),
     with_host = (\<lambda>u a. a), getaddrinfo = (\<lambda>h. Inr (if h = ''in.test'' then [''10.0.0.1''] else [''93.184.216.34''])),
     ipv4_mapped = (\<lambda>_. None), is_global = (\<lambda>a. a \<noteq> ''10.0.0.1''), is_multicast = (\<lambda>_. False),
     exchange_with = (\<lambda>_ _ _. Answered 200)\<rparr>"

definition demo_held :: held_delivery where
  "demo_held = \<lparr>hd_delivery_id = ''d'', hd_url = ''in.test'', hd_secret = ''s'',
     hd_payload = envelope demo_contracts (record_of (new_row demo_start True 0) 5) RunPaused, hd_attempts = 1, hd_previous_secret = None\<rparr>"

theorem send_only_to_public_witness:
  "send (\<lambda>_ _. ''00'') (\<lambda>_. ''{}'') 0 (new_sender False False) demo_network demo_held =
     Inr ([], refused ''refused: in.test resolves to 10.0.0.1, which is not a public address'') \<and>
   \<not> att_retry (refused ''refused: in.test resolves to 10.0.0.1, which is not a public address'')"
proof -
  have r: "send (\<lambda>_ _. ''00'') (\<lambda>_. ''{}'') 0 (new_sender False False) demo_network demo_held =
     Inr ([], refused ''refused: in.test resolves to 10.0.0.1, which is not a public address'')"
    by (simp add: send_def demo_network_def demo_held_def new_sender_def targets_def public_addresses_def)
  have "\<not> snd_allow_private (new_sender False False)" by (simp add: new_sender_def)
  from send_only_to_public [OF this r] r show ?thesis
    by (simp add: demo_network_def demo_held_def new_sender_def public_def judged_def)
qed

end
