(* ===== verification/Ticker.thy ===== *)
theory Ticker
  imports Run_System Schedule_Properties Webhook_Properties Webhook_Sender
begin

text \<open>
  \<open>src/agent_runs/ticker.py\<close> and \<open>heartbeat.py\<close>: the one background loop over the three stores. A step
  takes the service's state and leaves the state its committed transactions left, with how many it
  did or what it raised (\<open>None\<close>: the database or the network is down). What the world decides is the
  record \<open>tick_world\<close>: the rows other tickers hold, the faults and minted ids of each fire, the
  jitter, how each delivery's attempt went (\<open>WebhookSender.send\<close>), which blob deletions fail, and at
  which steps the database is down.
\<close>

definition SWEEP_BATCH :: nat where
  "SWEEP_BATCH = 100"

definition BREAKER_THRESHOLD :: int where
  "BREAKER_THRESHOLD = 5"

definition BREAKER_COOLDOWN :: duration where
  "BREAKER_COOLDOWN = timedelta_seconds 120"

definition HEARTBEAT_MAX_AGE_SECONDS :: rat where
  "HEARTBEAT_MAX_AGE_SECONDS = 60"

record service =
  store :: db
  schedules :: "schedule_row list"
  box :: outbox

record tick_world =
  tw_lib :: schedule_lib
  tw_busy :: "string \<Rightarrow> bool"
  tw_fault :: "nat \<Rightarrow> db_fault option"
  tw_rid :: "nat \<Rightarrow> string"
  tw_jitter :: "string \<Rightarrow> rat"
  tw_attempt :: "held_delivery \<Rightarrow> attempt_outcome result"
  tw_blob_fails :: "string \<Rightarrow> bool"
  tw_down :: "nat \<Rightarrow> bool"

record tick_report =
  fired :: nat
  timed_out :: nat
  overworked :: nat
  requeued :: nat
  escalated :: nat
  sent :: nat
  dropped :: nat
  purged :: nat
  runs_purged :: nat

definition empty_report :: tick_report where
  "empty_report = \<lparr>fired = 0, timed_out = 0, overworked = 0, requeued = 0, escalated = 0, sent = 0,
     dropped = 0, purged = 0, runs_purged = 0\<rparr>"

record ticker =
  tk_limits :: store_limits
  tk_dead_retention :: duration
  tk_run_retention :: "duration option"
  tk_breaker :: breaker

definition new_ticker :: "store_limits \<Rightarrow> duration \<Rightarrow> duration option \<Rightarrow> ticker" where
  "new_ticker limits dead_retention run_retention =
     \<lparr>tk_limits = limits, tk_dead_retention = dead_retention, tk_run_retention = run_retention,
      tk_breaker = new_breaker BREAKER_THRESHOLD BREAKER_COOLDOWN\<rparr>"

type_synonym raised = "service_error option"
type_synonym 'a step = "service \<Rightarrow> service \<times> (raised + 'a)"

definition then_step :: "'a step \<Rightarrow> ('a \<Rightarrow> 'b step) \<Rightarrow> 'b step" where
  "then_step f g s = (case f s of (s', Inl e) \<Rightarrow> (s', Inl e) | (s', Inr n) \<Rightarrow> g n s')"

text \<open>The \<open>n\<close>-th transaction of a tick, when the database is up.\<close>

definition when_up :: "tick_world \<Rightarrow> nat \<Rightarrow> 'a step \<Rightarrow> 'a step" where
  "when_up W n f s = (if tw_down W n then (s, Inl None) else f s)"

section \<open>The steps\<close>

primrec fire_loop :: "tick_world \<Rightarrow> instant \<Rightarrow> nat \<Rightarrow> nat \<Rightarrow> nat step" where
  "fire_loop W now k 0 s = (s, Inr k)"
| "fire_loop W now k (Suc n) s =
     (case fire_due (tw_lib W) (tw_busy W) (tw_fault W n) (tw_rid W n) now (store s) (schedules s) of
        Inl e \<Rightarrow> (s, Inl (Some e))
      | Inr ((answer, d), rows) \<Rightarrow>
          (let s' = s\<lparr>store := d, schedules := rows\<rparr>
           in case answer of
                None \<Rightarrow> (s', Inr k)
              | Some (FireFailed _ _) \<Rightarrow> fire_loop W now k n s'
              | Some (Fired _) \<Rightarrow> fire_loop W now (Suc k) n s'))"

definition fire_due_schedules :: "tick_world \<Rightarrow> instant \<Rightarrow> nat step" where
  "fire_due_schedules W now = fire_loop W now 0 SWEEP_BATCH"

definition sweep_event :: "run_record \<Rightarrow> webhook_event option" where
  "sweep_event run = (if rec_status run = PAUSED then Some RunEscalated else None)"

definition announce_all :: "contracts \<Rightarrow> instant \<Rightarrow> run_record list \<Rightarrow> outbox \<Rightarrow> outbox" where
  "announce_all C now changed b = fold (\<lambda>run. announce C run (sweep_event run) now) changed b"

definition sweep_runs :: "contracts \<Rightarrow> (db \<Rightarrow> (run_record list \<times> db) result) \<Rightarrow> instant \<Rightarrow> nat step" where
  "sweep_runs C by_sweep now s =
     (case by_sweep (store s) of
        Inl e \<Rightarrow> (s, Inl (Some e))
      | Inr (changed, d) \<Rightarrow>
          (s\<lparr>store := d, box := announce_all C now changed (box s)\<rparr>, Inr (length changed)))"

fun send_all :: "(held_delivery \<Rightarrow> attempt_outcome result) \<Rightarrow> held_delivery list \<Rightarrow> attempt_outcome list result" where
  "send_all f [] = Inr []"
| "send_all f (d # ds) =
     bind_result (f d) (\<lambda>a. bind_result (send_all f ds) (\<lambda>as. Inr (a # as)))"

definition settle_all :: "instant \<Rightarrow> (held_delivery \<times> attempt_outcome) list \<Rightarrow> outbox \<Rightarrow> outbox" where
  "settle_all now done b = fold (\<lambda>(d, a) b. snd (settle d a now b)) done b"

definition send_webhooks :: "tick_world \<Rightarrow> instant \<Rightarrow> nat step" where
  "send_webhooks W now s =
     (let (due, b) = claim_due_deliveries (tw_busy W) now SWEEP_BATCH (box s); s' = s\<lparr>box := b\<rparr>
      in if due = [] then (s', Inr 0)
         else case send_all (tw_attempt W) due of
                Inl e \<Rightarrow> (s', Inl (Some e))
              | Inr outs \<Rightarrow>
                  when_up W 9 (\<lambda>s. (s\<lparr>box := settle_all now (zip due outs) (box s)\<rparr>,
                                    Inr (length (filter accepted outs)))) s')"

definition drop_dead_deliveries :: "tick_world \<Rightarrow> ticker \<Rightarrow> instant \<Rightarrow> nat step" where
  "drop_dead_deliveries W T now s =
     (let (n, b) = drop_dead (tw_busy W) (now - tk_dead_retention T) SWEEP_BATCH (box s)
      in (s\<lparr>box := b\<rparr>, Inr n))"

definition purge_artifacts :: "tick_world \<Rightarrow> instant \<Rightarrow> nat step" where
  "purge_artifacts W now s =
     (let gone = map artifact_id (filter (\<lambda>a. \<not> tw_blob_fails W (blob_key a))
                   (expired_artifacts (tw_busy W) now SWEEP_BATCH (store s)))
      in (s\<lparr>store := remove_artifacts gone (store s)\<rparr>, Inr (length gone)))"

definition purge_runs :: "contracts \<Rightarrow> tick_world \<Rightarrow> ticker \<Rightarrow> instant \<Rightarrow> nat step" where
  "purge_runs C W T now s =
     (case tk_run_retention T of
        None \<Rightarrow> (s, Inr 0)
      | Some retention \<Rightarrow>
          (case purge_ended C (tw_busy W) (now - retention) SWEEP_BATCH (store s) of
             Inl e \<Rightarrow> (s, Inl (Some e))
           | Inr (n, d) \<Rightarrow> (s\<lparr>store := d\<rparr>, Inr n)))"

section \<open>A tick\<close>

definition tick_pass :: "contracts \<Rightarrow> tick_world \<Rightarrow> ticker \<Rightarrow> instant \<Rightarrow> tick_report step" where
  "tick_pass C W T now =
     then_step (when_up W 0 (fire_due_schedules W now)) (\<lambda>n0.
     then_step (when_up W 1 (sweep_runs C (time_out_past_deadline C (tw_busy W) now SWEEP_BATCH) now)) (\<lambda>n1.
     then_step (when_up W 2 (sweep_runs C (time_out_overworked C (tk_limits T) (tw_busy W) now SWEEP_BATCH) now)) (\<lambda>n2.
     then_step (when_up W 3 (sweep_runs C (requeue_lapsed C (tw_jitter W) (tw_busy W) now SWEEP_BATCH) now)) (\<lambda>n3.
     then_step (when_up W 4 (sweep_runs C (escalate_overdue C (tw_busy W) now SWEEP_BATCH) now)) (\<lambda>n4.
     then_step (when_up W 5 (send_webhooks W now)) (\<lambda>n5.
     then_step (when_up W 6 (drop_dead_deliveries W T now)) (\<lambda>n6.
     then_step (when_up W 7 (purge_artifacts W now)) (\<lambda>n7.
     then_step (when_up W 8 (purge_runs C W T now)) (\<lambda>n8 s.
       (s, Inr \<lparr>fired = n0, timed_out = n1, overworked = n2, requeued = n3, escalated = n4, sent = n5,
          dropped = n6, purged = n7, runs_purged = n8\<rparr>))))))))))"

text \<open>\<open>except (DBAPIError, OSError)\<close>: an integrity error is one of the database's.\<close>

definition caught :: "raised \<Rightarrow> bool" where
  "caught r \<longleftrightarrow> r = None \<or> r = Some IntegrityError"

definition tick ::
  "contracts \<Rightarrow> tick_world \<Rightarrow> instant \<Rightarrow> ticker \<Rightarrow> service \<Rightarrow> ticker \<times> service \<times> (raised + tick_report)" where
  "tick C W now T s =
     (if \<not> allows (tk_breaker T) now then (T, s, Inr empty_report)
      else case tick_pass C W T now s of
             (s', Inl r) \<Rightarrow>
               if caught r then (T\<lparr>tk_breaker := record_failure (tk_breaker T) now\<rparr>, s', Inr empty_report)
               else (T, s', Inl r)
           | (s', Inr report) \<Rightarrow> (T\<lparr>tk_breaker := record_success (tk_breaker T)\<rparr>, s', Inr report))"

section \<open>The loop and its liveness\<close>

text \<open>The heartbeat file: the time it says, none when it cannot be read as one.\<close>

definition beat :: "bool \<Rightarrow> rat \<Rightarrow> rat option \<Rightarrow> rat option" where
  "beat writable clock file = (if writable then Some clock else file)"

definition alive :: "rat \<Rightarrow> rat option \<Rightarrow> bool" where
  "alive clock file = (case file of None \<Rightarrow> False | Some t \<Rightarrow> clock - t \<le> HEARTBEAT_MAX_AGE_SECONDS)"

text \<open>One round before \<open>stop\<close> is set: the world of its tick, the tick's instant, the clock at its beat and
  whether the file could be written. What a tick raises is logged and forgotten.\<close>

type_synonym round = "tick_world \<times> instant \<times> rat \<times> bool"

fun run_forever :: "contracts \<Rightarrow> round list \<Rightarrow> ticker \<Rightarrow> service \<Rightarrow> rat option \<Rightarrow> ticker \<times> service \<times> rat option" where
  "run_forever C [] T s file = (T, s, file)"
| "run_forever C ((W, now, clock, writable) # rounds) T s file =
     (let (T', s', _) = tick C W now T s
      in run_forever C rounds T' s' (beat writable clock file))"

section \<open>What every step keeps\<close>

definition service_ok :: "contracts \<Rightarrow> schedule_lib \<Rightarrow> service \<Rightarrow> bool" where
  "service_ok C L s \<longleftrightarrow> store_inv (store s) \<and> schedules_ok L (schedules s) \<and> outbox_ok C (box s)"

definition keeps_service :: "contracts \<Rightarrow> schedule_lib \<Rightarrow> 'a step \<Rightarrow> bool" where
  "keeps_service C L f \<longleftrightarrow> (\<forall>s. service_ok C L s \<longrightarrow> service_ok C L (fst (f s)))"

lemma keeps_then_step:
  "keeps_service C L f \<Longrightarrow> (\<And>n. keeps_service C L (g n)) \<Longrightarrow> keeps_service C L (then_step f g)"
  by (auto simp: keeps_service_def then_step_def split: prod.split sum.split)

lemma keeps_when_up: "keeps_service C L f \<Longrightarrow> keeps_service C L (when_up W n f)"
  by (auto simp: keeps_service_def when_up_def)

lemma fire_due_store:
  assumes "store_inv d" "schedules_ok L rows" "fire_due L busy fault rid now d rows = Inr ((answer, d'), rows')"
  shows "store_inv d'"
  using assms(3)
proof (cases rule: fire_due_Inr)
  case none
  then show ?thesis using assms(1) by simp
next
  case some
  then show ?thesis using fire_tick_evolves [OF assms(1,2)] evolves_inv by blast
qed

lemma fire_loop_keeps:
  assumes "service_ok C (tw_lib W) s"
  shows "service_ok C (tw_lib W) (fst (fire_loop W now k n s))"
  using assms
proof (induction n arbitrary: k s)
  case (Suc n)
  show ?case
  proof (cases "fire_due (tw_lib W) (tw_busy W) (tw_fault W n) (tw_rid W n) now (store s) (schedules s)")
    case (Inl e)
    with Suc.prems show ?thesis by simp
  next
    case (Inr x)
    then obtain answer d rows where x: "fire_due (tw_lib W) (tw_busy W) (tw_fault W n) (tw_rid W n) now (store s) (schedules s) = Inr ((answer, d), rows)"
      by (metis surj_pair)
    have "service_ok C (tw_lib W) (s\<lparr>store := d, schedules := rows\<rparr>)"
      using Suc.prems fire_due_store [OF _ _ x] firing_due.keeps_ok [OF _ x] by (simp add: service_ok_def)
    from Suc.IH [OF this] this x show ?thesis
      by (auto simp: Let_def split: option.split fired.split)
  qed
qed simp

lemma announce_all_ok: "id_laws C \<Longrightarrow> outbox_ok C b \<Longrightarrow> outbox_ok C (announce_all C now rs b)"
  by (induction rs arbitrary: b) (auto simp: announce_all_def announce_ok)

lemma sweep_runs_keeps:
  assumes "id_laws C" "\<And>d x d'. store_inv d \<Longrightarrow> by_sweep d = Inr (x, d') \<Longrightarrow> store_inv d'"
  shows "keeps_service C L (sweep_runs C by_sweep now)"
  using assms by (auto simp: keeps_service_def sweep_runs_def service_ok_def announce_all_ok split: sum.split)

lemma settle_all_ok: "id_laws C \<Longrightarrow> outbox_ok C b \<Longrightarrow> outbox_ok C (settle_all now outs b)"
proof (induction outs arbitrary: b)
  case (Cons x outs)
  obtain d a where x: "x = (d, a)" by (cases x)
  have "outbox_ok C (snd (settle d a now b))"
    using settling.keeps [OF Cons.prems, of d a now _ "snd (settle d a now b)"] by (metis prod.collapse)
  with Cons.IH [OF Cons.prems(1)] show ?case by (simp add: settle_all_def x)
qed (simp add: settle_all_def)

lemma send_webhooks_keeps: "id_laws C \<Longrightarrow> keeps_service C L (send_webhooks W now)"
proof (unfold keeps_service_def, intro allI impI)
  fix s
  assume laws: "id_laws C" and ok: "service_ok C L s"
  obtain due b where c: "claim_due_deliveries (tw_busy W) now SWEEP_BATCH (box s) = (due, b)" by (cases "claim_due_deliveries (tw_busy W) now SWEEP_BATCH (box s)")
  have "outbox_ok C b" using claiming_deliveries.keeps [OF laws, of "box s"] ok c by (simp add: service_ok_def)
  then show "service_ok C L (fst (send_webhooks W now s))"
    using ok settle_all_ok [OF laws] by (auto simp: send_webhooks_def c service_ok_def when_up_def Let_def split: sum.split)
qed

lemma drop_dead_keeps: "id_laws C \<Longrightarrow> keeps_service C L (drop_dead_deliveries W T now)"
  using dropping.keeps [of C] by (auto simp: keeps_service_def drop_dead_deliveries_def service_ok_def split: prod.split)

lemma purge_artifacts_keeps: "keeps_service C L (purge_artifacts W now)"
  using evolves_remove_artifacts evolves_inv by (auto simp: keeps_service_def purge_artifacts_def service_ok_def Let_def)

lemma purge_runs_keeps:
  "lifecycle_laws C \<Longrightarrow> interrupt_laws C \<Longrightarrow> keeps_service C L (purge_runs C W T now)"
  by (auto simp: keeps_service_def purge_runs_def service_ok_def split: option.split sum.split
      dest!: by_purge intro: store_step_inv)

lemma tick_pass_keeps:
  assumes "lifecycle_laws C" "interrupt_laws C" "id_laws C"
  shows "keeps_service C (tw_lib W) (tick_pass C W T now)"
proof -
  note laws = assms(1,2)
  have fire: "keeps_service C (tw_lib W) (fire_due_schedules W now)"
    unfolding keeps_service_def fire_due_schedules_def using fire_loop_keeps by blast
  have last: "keeps_service C (tw_lib W) (\<lambda>s. (s, Inr r))" for r :: tick_report by (simp add: keeps_service_def)
  note sweeps = deadlines.keeps_inv [OF laws] overworked.keeps_inv [OF laws] lapses.keeps_inv [OF laws] escalations.keeps_inv [OF laws]
  show ?thesis
    unfolding tick_pass_def
    by (intro keeps_then_step keeps_when_up fire last send_webhooks_keeps drop_dead_keeps purge_artifacts_keeps
        purge_runs_keeps sweep_runs_keeps assms; erule (1) sweeps)
qed

section \<open>Properties\<close>

lemma tick_keeps:
  assumes "lifecycle_laws C" "interrupt_laws C" "id_laws C" "service_ok C (tw_lib W) s" "tick C W now T s = (T', s', r)"
  shows "service_ok C (tw_lib W) s'"
proof -
  have "service_ok C (tw_lib W) (fst (tick_pass C W T now s))"
    using tick_pass_keeps [OF assms(1-3)] assms(4) unfolding keeps_service_def by blast
  with assms(4,5) show ?thesis
    by (auto simp: tick_def split: if_splits prod.splits sum.splits)
qed

text \<open>The breaker of a ticker at work: open exactly when the database has failed five times in a row.\<close>

definition breaker_counts :: "breaker \<Rightarrow> bool" where
  "breaker_counts b \<longleftrightarrow> threshold b = 5 \<and> cooldown b = timedelta_seconds 120 \<and> 0 \<le> failures b \<and>
     (opened_at b = None \<longleftrightarrow> failures b < 5)"

lemma tick_breaker:
  assumes "breaker_counts (tk_breaker T)" "tick C W now T s = (T', s', r)"
  shows "breaker_counts (tk_breaker T')"
  using assms
  by (auto simp: breaker_counts_def tick_def record_success_def record_failure_def Let_def
      split: if_splits prod.splits sum.splits)

lemma run_forever_keeps:
  assumes "lifecycle_laws C" "interrupt_laws C" "id_laws C" "\<forall>x\<in>set rounds. tw_lib (fst x) = L"
    and "service_ok C L s" "breaker_counts (tk_breaker T)" "run_forever C rounds T s hb = (T', s', hb')"
  shows "service_ok C L s' \<and> breaker_counts (tk_breaker T')"
  using assms(4-)
proof (induction rounds arbitrary: T s hb)
  case (Cons x rounds)
  obtain W now clock writable where x: "x = (W, now, clock, writable)" by (metis surj_pair)
  obtain T1 s1 r where t: "tick C W now T s = (T1, s1, r)" by (metis surj_pair)
  have "service_ok C L s1" "breaker_counts (tk_breaker T1)"
    using tick_keeps [OF assms(1-3) _ t] tick_breaker [OF _ t] Cons.prems x by auto
  with Cons x t show ?case by (auto simp: Let_def)
qed simp

text \<open>C12. A service that starts well stays well under its ticker, for however many rounds and whatever each
  tick meets: rows other tickers hold, fires that fail, deliveries refused, blobs that will not go, a
  database that goes down between any two of a tick's transactions. After any such history the breaker is
  closed with fewer than five failures or open; opened at t it lets no tick of the next 120 seconds touch
  anything; a tick it lets run reports what it did and closes the breaker, or met a database error (an outage, or an
  integrity error, which the code counts too), is reported as an empty tick and counted, and opens the
  breaker from that moment when it was the fifth in a row or the probe of an open one; anything else a tick
  raises is not counted.\<close>

theorem tick_survives:
  assumes "lifecycle_laws C" "interrupt_laws C" "id_laws C" "\<forall>x\<in>set rounds. tw_lib (fst x) = tw_lib W"
    and "service_ok C (tw_lib W) s" "run_forever C rounds (new_ticker limits dead_retention run_retention) s file = (T, s', file')"
    and "tick C W now T s' = (T', s'', r)"
  shows "service_ok C (tw_lib W) s'' \<and>
    (case opened_at (tk_breaker T) of
       None \<Rightarrow> failures (tk_breaker T) < 5
     | Some t \<Rightarrow> 5 \<le> failures (tk_breaker T) \<and>
         (now < t + timedelta_seconds 120 \<longrightarrow> T' = T \<and> s'' = s' \<and> r = Inr empty_report)) \<and>
    ((\<forall>t. opened_at (tk_breaker T) = Some t \<longrightarrow> t + timedelta_seconds 120 \<le> now) \<longrightarrow>
      (case snd (tick_pass C W T now s') of
         Inr report \<Rightarrow> r = Inr report \<and> failures (tk_breaker T') = 0 \<and> opened_at (tk_breaker T') = None
       | Inl e \<Rightarrow> if e = None \<or> e = Some IntegrityError
                  then r = Inr empty_report \<and> failures (tk_breaker T') = failures (tk_breaker T) + 1 \<and>
                    opened_at (tk_breaker T') = (if 4 \<le> failures (tk_breaker T) then Some now else None)
                  else r = Inl e \<and> T' = T))"
proof -
  have "breaker_counts (tk_breaker (new_ticker limits dead_retention run_retention))"
    by (simp add: breaker_counts_def new_ticker_def new_breaker_def BREAKER_THRESHOLD_def BREAKER_COOLDOWN_def)
  with run_forever_keeps [OF assms(1-5) _ assms(6)] have ok: "service_ok C (tw_lib W) s'" and b: "breaker_counts (tk_breaker T)"
    by blast+
  from tick_keeps [OF assms(1-3) ok assms(7)] b assms(7) show ?thesis
    by (auto simp: tick_def allows_def breaker_counts_def caught_def record_success_def record_failure_def Let_def
        split: if_splits prod.splits sum.splits option.splits)
qed

definition demo_world :: tick_world where
  "demo_world = \<lparr>tw_lib = demo_lib, tw_busy = (\<lambda>_. False), tw_fault = (\<lambda>_. None), tw_rid = (\<lambda>_. ''run_9''), tw_jitter = (\<lambda>_. 0),
     tw_attempt = (\<lambda>_. Inl Crashed), tw_blob_fails = (\<lambda>_. False), tw_down = (\<lambda>_. True)\<rparr>"

definition demo_service :: service where
  "demo_service = \<lparr>store = demo_queued, schedules = [demo_schedule], box = demo_outbox\<rparr>"

lemma demo_service_ok: "service_ok demo_contracts demo_lib demo_service"
  by (simp add: service_ok_def demo_service_def demo_queued_inv demo_schedule_ok demo_outbox_ok)

theorem tick_survives_witness:
  "\<exists>T'. tick demo_contracts demo_world 7 (new_ticker demo_limits 0 None) demo_service = (T', demo_service, Inr empty_report) \<and>
     failures (tk_breaker T') = 1"
proof -
  let ?T = "new_ticker demo_limits 0 None"
  have pass: "tick_pass demo_contracts demo_world ?T 7 demo_service = (demo_service, Inl None)"
    by (simp add: tick_pass_def then_step_def when_up_def demo_world_def)
  have closed: "opened_at (tk_breaker ?T) = None" "failures (tk_breaker ?T) = 0" by (simp_all add: new_ticker_def new_breaker_def)
  obtain T' s' r where t: "tick demo_contracts demo_world 7 ?T demo_service = (T', s', r)" by (metis surj_pair)
  moreover have "s' = demo_service" using t pass by (auto simp: tick_def caught_def split: if_splits)
  ultimately show ?thesis
    using tick_survives [OF demo_laws _ _ run_forever.simps(1) t] demo_service_ok pass closed
    by (auto simp: demo_world_def)
qed

lemma fire_loop_catches_up:
  assumes "cron_laws (cron (tw_lib W))" "spec_laws (tw_lib W)"
    and "fire_loop W now k m s = (s', Inr n)" "service_ok C (tw_lib W) s"
  shows "n \<le> k + m \<and> box s' = box s \<and>
    (length (filter (free_and_due (tw_busy W) now) (schedules s)) < m \<longrightarrow>
      (\<forall>r\<in>set (schedules s'). \<not> free_and_due (tw_busy W) now r))"
  using assms(3,4)
proof (induction m arbitrary: k s)
  case (Suc m)
  from Suc.prems(1) obtain answer d rows where
    x: "fire_due (tw_lib W) (tw_busy W) (tw_fault W m) (tw_rid W m) now (store s) (schedules s) = Inr ((answer, d), rows)"
    by (auto split: sum.splits)
  define t where "t = s\<lparr>store := d, schedules := rows\<rparr>"
  have sched: "schedules_ok (tw_lib W) (schedules s)" and inv: "store_inv (store s)" using Suc.prems(2) by (auto simp: service_ok_def)
  have t: "service_ok C (tw_lib W) t"
    using Suc.prems(2) fire_due_store [OF inv sched x] firing_due.keeps_ok [OF sched x] by (simp add: service_ok_def t_def)
  note step = fire_due_takes [OF assms(1,2) sched x]
  show ?case
  proof (cases answer)
    case None
    then have "\<forall>r\<in>set rows. \<not> free_and_due (tw_busy W) now r" "s' = t" "n = k"
      using step Suc.prems(1) x by (auto simp: t_def Let_def)
    then show ?thesis by (simp add: t_def)
  next
    case (Some outcome)
    define k' where "k' = (case outcome of Fired _ \<Rightarrow> Suc k | FireFailed _ _ \<Rightarrow> k)"
    have "fire_loop W now k' m t = (s', Inr n)"
      using Suc.prems(1) x Some by (cases outcome) (simp_all add: t_def k'_def Let_def)
    moreover have "k' \<le> Suc k" by (simp add: k'_def split: fired.split)
    ultimately have k': "k' \<le> Suc k" "fire_loop W now k' m t = (s', Inr n)" by blast+
    have fewer: "length (filter (free_and_due (tw_busy W) now) rows) < length (filter (free_and_due (tw_busy W) now) (schedules s))"
      using step Some by simp
    have "n \<le> k' + m" "box s' = box s" using Suc.IH [OF k'(2) t] by (simp_all add: t_def)
    moreover have "\<forall>r\<in>set (schedules s'). \<not> free_and_due (tw_busy W) now r"
      if "length (filter (free_and_due (tw_busy W) now) (schedules s)) < Suc m"
      using Suc.IH [OF k'(2) t] fewer that by (simp add: t_def)
    ultimately show ?thesis using k'(1) by simp
  qed
qed simp

text \<open>C23. The firing step ends and catches up: it fires at most a hundred times, and leaves no schedule due
  that no other ticker holds, when fewer than a hundred were, however many of the fires fail; what it
  could not do it left as its last committed fire did.\<close>

theorem fire_step_catches_up:
  assumes "cron_laws (cron (tw_lib W))" "spec_laws (tw_lib W)" "service_ok C (tw_lib W) s"
    and "fire_due_schedules W now s = (s', Inr n)"
  shows "n \<le> 100 \<and> service_ok C (tw_lib W) s' \<and> box s' = box s \<and>
    (length (filter (free_and_due (tw_busy W) now) (schedules s)) < 100 \<longrightarrow>
      (\<forall>r\<in>set (schedules s'). \<not> free_and_due (tw_busy W) now r))"
  using fire_loop_catches_up [OF assms(1,2) _ assms(3), of now 0 SWEEP_BATCH s' n] assms(4)
    fire_loop_keeps [OF assms(3), of now 0 SWEEP_BATCH]
  by (simp add: fire_due_schedules_def SWEEP_BATCH_def)

definition demo_up :: tick_world where
  "demo_up = demo_world\<lparr>tw_down := (\<lambda>_. False), tw_fault := (\<lambda>_. Some \<lparr>operational = True, fault_text = []\<rparr>)\<rparr>"

theorem fire_step_catches_up_witness:
  "\<exists>s' n. fire_due_schedules demo_up 4000000000 demo_service = (s', Inr n) \<and>
     filter (free_and_due (tw_busy demo_up) 4000000000) (schedules s') = []"
proof -
  define row where "row = failed_row (error_of demo_lib \<lparr>operational = True, fault_text = []\<rparr> Dependency ''agent-runs'' True) 4000000000 demo_schedule"
  have w: "tw_lib demo_up = demo_lib" "tw_busy demo_up = (\<lambda>_. False)" "tw_fault demo_up = (\<lambda>_. Some \<lparr>operational = True, fault_text = []\<rparr>)"
    by (simp_all add: demo_up_def demo_world_def)
  have one: "\<exists>x. fire_due demo_lib (\<lambda>_. False) (Some \<lparr>operational = True, fault_text = []\<rparr>) rid 4000000000 d [demo_schedule] =
      Inr ((Some (FireFailed (fst x) (snd x)), d), [row])" for d rid
    by (simp add: fire_due_def claim_due_schedule_def query_def free_and_due_def due_schedule_def fire_tick_def record_fire_failure_def
        schedule_claimed_def Let_def row_def put_row_def) (simp add: failed_row_def Let_def)
  have "\<not> free_and_due (\<lambda>_. False) 4000000000 row"
    by (simp add: row_def free_and_due_def due_schedule_def failed_row_def Let_def demo_lib_def MAX_CONSECUTIVE_FAILURES_def
        backoff_def FIRE_RETRY_BASE_def FIRE_RETRY_CAP_def timedelta_seconds_def)
  then have two: "fire_due demo_lib (\<lambda>_. False) f rid 4000000000 d [row] = Inr ((None, d), [row])" for d rid f
    by (simp add: fire_due_def claim_due_schedule_def query_def)
  have "fire_due_schedules demo_up 4000000000 demo_service = fire_loop demo_up 4000000000 0 (Suc (Suc 98)) demo_service"
    by (simp add: fire_due_schedules_def SWEEP_BATCH_def)
  also have "\<dots> = (demo_service\<lparr>schedules := [row]\<rparr>, Inr 0)"
    unfolding fire_loop.simps using one [of "tw_rid demo_up 99" demo_queued] by (auto simp: w two demo_service_def Let_def)
  finally have f: "fire_due_schedules demo_up 4000000000 demo_service = (demo_service\<lparr>schedules := [row]\<rparr>, Inr 0)" .
  have "service_ok demo_contracts (tw_lib demo_up) demo_service" using demo_service_ok by (simp add: w)
  from fire_step_catches_up [OF _ _ this f] demo_lib_laws show ?thesis
    using f by (auto simp: w demo_service_def)
qed

section \<open>No event is lost\<close>

text \<open>What a run announces after a sweep.\<close>

definition announced :: "contracts \<Rightarrow> run_record \<Rightarrow> webhook_event option" where
  "announced C run = (case sweep_event run of Some e \<Rightarrow> Some e | None \<Rightarrow> event_of C run)"

lemma announce_hooks [simp]: "webhooks (announce C run event now b) = webhooks b"
  by (simp add: announce_def Let_def split: option.split)

lemma announce_keeps_debts:
  assumes "id_laws C" "outbox_ok C b" "owes b k \<noteq> None"
  shows "owes (announce C run event now b) k = owes b k"
proof (cases "case event of Some e \<Rightarrow> Some e | None \<Rightarrow> event_of C run")
  case None
  then show ?thesis by (simp add: announce_def)
next
  case (Some e)
  from owes_announce [OF assms(1,2) Some] assms(3) show ?thesis by (simp add: spec_announce_def)
qed

lemma announce_all_keeps_debts:
  "id_laws C \<Longrightarrow> outbox_ok C b \<Longrightarrow> owes b k \<noteq> None \<Longrightarrow> owes (announce_all C now rs b) k = owes b k"
proof (induction rs arbitrary: b)
  case (Cons r rs)
  have "owes (announce C r (sweep_event r) now b) k = owes b k" using announce_keeps_debts [OF Cons.prems] .
  with Cons.IH [of "announce C r (sweep_event r) now b"] Cons.prems announce_ok show ?case by (simp add: announce_all_def)
qed (simp add: announce_all_def)

lemma announce_all_owes:
  assumes "id_laws C" "outbox_ok C b" "run \<in> set rs" "announced C run = Some e"
    and "w \<in> set (webhooks b)" "wanting (rec_tenant_id run) e w"
  shows "owes (announce_all C now rs b) (en_event_id (envelope C run e), webhook_id w) \<noteq> None"
  using assms(2,3,5)
proof (induction rs arbitrary: b)
  case (Cons r rs)
  define b' where "b' = announce C r (sweep_event r) now b"
  have ok: "outbox_ok C b'" unfolding b'_def using announce_ok [OF assms(1) Cons.prems(1)] .
  have all: "announce_all C now (r # rs) b = announce_all C now rs b'" by (simp add: announce_all_def b'_def)
  show ?case
  proof (cases "run = r")
    case True
    have "owes b' (en_event_id (envelope C run e), webhook_id w) \<noteq> None"
      unfolding b'_def True using owes_announce [OF assms(1) Cons.prems(1), where event = "sweep_event r" and run = r and e = e and now = now] assms(4,6) Cons.prems(3) True
      by (auto simp: announced_def spec_announce_def)
    then show ?thesis unfolding all using announce_all_keeps_debts [OF assms(1) ok] by simp
  next
    case False
    with Cons.prems have "run \<in> set rs" "w \<in> set (webhooks b')" by (auto simp: b'_def)
    from Cons.IH [OF ok this] show ?thesis unfolding all .
  qed
qed simp

text \<open>C13. No event of a sweep is lost: in the transaction that moved its runs, every run that ended and
  every question that was escalated is owed to every subscription of the run's tenant that wants it,
  and nothing owed before is forgotten.\<close>

theorem sweep_announces:
  assumes "id_laws C" "outbox_ok C (box s)" "sweep_runs C by_sweep now s = (s', Inr n)"
    and "by_sweep (store s) = Inr (changed, d)"
  shows "store s' = d \<and> n = length changed \<and>
    (\<forall>run\<in>set changed. \<forall>w\<in>set (webhooks (box s)). \<forall>e.
       (rec_status run = PAUSED \<and> e = RunEscalated \<or> rec_status run \<noteq> PAUSED \<and> final C (rec_status run) \<and> e = RunFinished) \<and>
       wh_tenant_id w = rec_tenant_id run \<and> e \<in> set (wh_events w) \<longrightarrow>
       owes (box s') (en_event_id (envelope C run e), webhook_id w) \<noteq> None) \<and>
    (\<forall>k. owes (box s) k \<noteq> None \<longrightarrow> owes (box s') k = owes (box s) k)"
proof -
  have s': "s' = s\<lparr>store := d, box := announce_all C now changed (box s)\<rparr>" "n = length changed"
    using assms(3,4) by (auto simp: sweep_runs_def)
  have "owes (box s') (en_event_id (envelope C run e), webhook_id w) \<noteq> None"
    if "run \<in> set changed" "w \<in> set (webhooks (box s))" "wh_tenant_id w = rec_tenant_id run" "e \<in> set (wh_events w)"
      "rec_status run = PAUSED \<and> e = RunEscalated \<or> rec_status run \<noteq> PAUSED \<and> final C (rec_status run) \<and> e = RunFinished" for run w e
  proof -
    have "announced C run = Some e" using that(5) by (auto simp: announced_def sweep_event_def event_of_def)
    then show ?thesis using announce_all_owes [OF assms(1,2) that(1) _ that(2)] that(3,4) by (simp add: s' wanting_def)
  qed
  moreover have "owes (box s') k = owes (box s) k" if "owes (box s) k \<noteq> None" for k
    using announce_all_keeps_debts [OF assms(1,2) that] by (simp add: s')
  ultimately show ?thesis using s' by simp
qed

definition demo_timed_out :: run_record where
  "demo_timed_out = record_of ((moved demo_contracts (new_row demo_start True 0) TIMEOUT 9000001)
     \<lparr>run_error := Some (run_deadline_error (Some 9000000))\<rparr>) 9000001"

lemma demo_time_out:
  "\<exists>d. time_out_past_deadline demo_contracts (\<lambda>_. False) 9000001 SWEEP_BATCH demo_queued = Inr ([demo_timed_out], d)"
  by (simp add: time_out_past_deadline_def swept_def sweep_def query_def demo_queued_def empty_db_def new_row_def
      demo_start_def SWEEP_BATCH_def move_def Let_def demo_timed_out_def ended_def expire_with_def save_def sql_less_def)

theorem sweep_announces_witness:
  "\<exists>s'. sweep_runs demo_contracts (time_out_past_deadline demo_contracts (\<lambda>_. False) 9000001 SWEEP_BATCH) 9000001 demo_service
       = (s', Inr 1) \<and>
     owes (box s') (en_event_id (envelope demo_contracts demo_timed_out RunFinished), ''wh_1'') \<noteq> None"
proof -
  let ?sweep = "time_out_past_deadline demo_contracts (\<lambda>_. False) 9000001 SWEEP_BATCH"
  obtain d where d: "?sweep demo_queued = Inr ([demo_timed_out], d)" using demo_time_out ..
  then have st: "?sweep (store demo_service) = Inr ([demo_timed_out], d)" by (simp add: demo_service_def)
  then obtain s' where s': "sweep_runs demo_contracts ?sweep 9000001 demo_service = (s', Inr 1)"
    by (simp add: sweep_runs_def)
  have run: "rec_status demo_timed_out = TIMEOUT" "rec_tenant_id demo_timed_out = ''acme''"
    by (simp_all add: demo_timed_out_def record_of_def new_row_def demo_start_def)
  have hook: "demo_hook \<in> set (webhooks (box demo_service))" "wh_tenant_id demo_hook = ''acme''"
    "RunFinished \<in> set (wh_events demo_hook)" "webhook_id demo_hook = ''wh_1''"
    by (simp_all add: demo_service_def demo_outbox_def demo_hook_def)
  have "owes (box s') (en_event_id (envelope demo_contracts demo_timed_out RunFinished), webhook_id demo_hook) \<noteq> None"
    using sweep_announces [OF demo_laws(3) _ s' st] demo_outbox_ok hook(1-3) run by (auto simp: demo_service_def)
  then show ?thesis using s' hook(4) by auto
qed

end
