(* ===== verification/Rate_Limit.thy ===== *)
theory Rate_Limit
  imports Prelude
begin

text \<open>
  \<open>src/agent_runs/api/ratelimit.py\<close>: a tenant's request budget as a GCRA bucket, the instant the budget
  would be full again. \<open>take_request\<close> is the one upsert of \<open>TenantRateLimiter.take\<close> with the decision
  read back from it; the table is the map from bucket to instant and the instant the database's own
  clock. The floats of the source are rationals here, a \<open>timedelta\<close> of them is rounded to the
  microsecond as Python rounds it.
\<close>

record rate_settings =
  per_minute :: int
  burst :: int

type_synonym buckets = "string \<rightharpoonup> instant"

record decision =
  allowed :: bool
  limit_per_minute :: int
  remaining :: int
  retry_after :: int

definition SECONDS_PER_MINUTE :: rat where
  "SECONDS_PER_MINUTE = 60"

definition interval :: "rate_settings \<Rightarrow> rat" where
  "interval L = SECONDS_PER_MINUTE / of_int (per_minute L)"

definition tolerance :: "rate_settings \<Rightarrow> rat" where
  "tolerance L = interval L * of_int (burst L - 1)"

text \<open>\<open>timedelta(seconds=x)\<close>, and \<open>round(x, 6)\<close>: the same microseconds, as a duration and as seconds.\<close>

definition timedelta :: "rat \<Rightarrow> duration" where
  "timedelta x = round_half_even (x * 1000000)"

definition to_precision :: "rat \<Rightarrow> rat" where
  "to_precision x = total_seconds (timedelta x)"

definition enabled :: "rate_settings \<Rightarrow> bool" where
  "enabled L \<longleftrightarrow> per_minute L > 0"

definition due_at :: "instant option \<Rightarrow> instant \<Rightarrow> instant" where
  "due_at tat now = (case tat of None \<Rightarrow> now | Some t \<Rightarrow> max t now)"

definition took :: "rate_settings \<Rightarrow> instant \<Rightarrow> instant \<Rightarrow> decision" where
  "took L now tat =
     (let left = to_precision (of_int (burst L) - total_seconds (tat - now) / interval L)
      in \<lparr>allowed = True, limit_per_minute = per_minute L, remaining = max 0 \<lfloor>left\<rfloor>, retry_after = 0\<rparr>)"

definition turned_away :: "rate_settings \<Rightarrow> instant \<Rightarrow> instant \<Rightarrow> decision" where
  "turned_away L now tat =
     (let wait = to_precision (total_seconds (tat - now) - tolerance L)
      in \<lparr>allowed = False, limit_per_minute = per_minute L, remaining = 0, retry_after = max 1 \<lceil>wait\<rceil>\<rparr>)"

definition take_request :: "rate_settings \<Rightarrow> string \<Rightarrow> instant \<Rightarrow> buckets \<Rightarrow> decision \<times> buckets" where
  "take_request L tenant now B =
     (case B tenant of
        None \<Rightarrow>
          (let tat = now + timedelta (interval L) in (took L now tat, B(tenant \<mapsto> tat)))
      | Some t \<Rightarrow>
          (let due = max t now
           in if due - now \<le> timedelta (tolerance L)
              then (let tat = due + timedelta (interval L) in (took L now tat, B(tenant \<mapsto> tat)))
              else (turned_away L now t, B)))"

section \<open>Requests one after another\<close>

text \<open>The decisions on a sequence of requests, whatever tenants they are of: each takes its row's lock,
  so the requests on one bucket are in some order.\<close>

fun serve :: "rate_settings \<Rightarrow> (string \<times> instant) list \<Rightarrow> buckets \<Rightarrow> decision list \<times> buckets" where
  "serve L [] B = ([], B)"
| "serve L ((tenant, now) # rest) B =
     (let (d, B') = take_request L tenant now B; (ds, B'') = serve L rest B'
      in (d # ds, B''))"

definition admitted :: "rate_settings \<Rightarrow> string \<Rightarrow> (string \<times> instant) list \<Rightarrow> buckets \<Rightarrow> nat" where
  "admitted L tenant reqs B =
     length (filter (\<lambda>(q, d). fst q = tenant \<and> allowed d) (zip reqs (fst (serve L reqs B))))"

lemma round_half_even_near: "\<bar>of_int (round_half_even x) - x\<bar> \<le> 1 / 2"
  by (simp add: round_half_even_def Let_def abs_if) linarith

lemma allowed_simps [simp]: "allowed (took L now tat)" "\<not> allowed (turned_away L now tat)"
  by (simp_all add: took_def turned_away_def Let_def)

lemma take_other [simp]: "q \<noteq> tenant \<Longrightarrow> snd (take_request L q now B) tenant = B tenant"
  by (auto simp: take_request_def Let_def split: option.split)

lemma take_refused [simp]: "\<not> allowed (fst (take_request L tenant now B)) \<Longrightarrow> snd (take_request L tenant now B) = B"
  by (auto simp: take_request_def Let_def split: option.splits if_splits)

lemma take_allowed:
  assumes "allowed (fst (take_request L tenant now B))" "0 \<le> timedelta (tolerance L)"
  shows "snd (take_request L tenant now B) tenant = Some (due_at (B tenant) now + timedelta (interval L))"
    and "due_at (B tenant) now - now \<le> timedelta (tolerance L)"
  using assms by (auto simp: take_request_def due_at_def Let_def split: option.splits if_splits)

lemma admitted_Nil [simp]: "admitted L tenant [] B = 0"
  by (simp add: admitted_def)

lemma admitted_Cons:
  "admitted L tenant ((q, now) # reqs) B =
     (if q = tenant \<and> allowed (fst (take_request L q now B)) then 1 else 0) + admitted L tenant reqs (snd (take_request L q now B))"
  by (auto simp: admitted_def Let_def case_prod_beta)

lemma serve_other: "tenant \<notin> fst ` set reqs \<Longrightarrow> snd (serve L reqs B) tenant = B tenant"
  by (induction reqs arbitrary: B) (auto simp: Let_def case_prod_beta)

text \<open>Each request admitted moves the bucket one interval further from the first.\<close>

lemma admitted_spread:
  assumes "0 \<le> timedelta (interval L)" "0 \<le> timedelta (tolerance L)"
    and "\<forall>(q, t)\<in>set reqs. t \<le> last_at \<and> b \<le> due_at (B tenant) t"
  shows "admitted L tenant reqs B = 0 \<or>
    b + (int (admitted L tenant reqs B) - 1) * timedelta (interval L) \<le> last_at + timedelta (tolerance L)"
  using assms(3)
proof (induction reqs arbitrary: B b)
  case (Cons x reqs)
  obtain q now where x: "x = (q, now)" by (cases x)
  let ?B = "snd (take_request L q now B)"
  show ?case
  proof (cases "q = tenant \<and> allowed (fst (take_request L q now B))")
    case True
    let ?I = "timedelta (interval L)"
    have new: "?B tenant = Some (due_at (B tenant) now + ?I)" and near: "due_at (B tenant) now - now \<le> timedelta (tolerance L)"
      using take_allowed [OF _ assms(2)] True by auto
    have "\<forall>(q, t)\<in>set reqs. t \<le> last_at \<and> b + ?I \<le> due_at (?B tenant) t"
      using Cons.prems new by (auto simp: due_at_def x)
    from Cons.IH [where b = "b + ?I" and B = ?B, OF this] have ih: "admitted L tenant reqs ?B = 0 \<or>
      b + ?I + (int (admitted L tenant reqs ?B) - 1) * ?I \<le> last_at + timedelta (tolerance L)" .
    have "b \<le> last_at + timedelta (tolerance L)" using Cons.prems near by (auto simp: x)
    with ih True show ?thesis by (auto simp: x admitted_Cons algebra_simps)
  next
    case False
    then have same: "?B tenant = B tenant" by (cases "q = tenant") auto
    then have "\<forall>(q, t)\<in>set reqs. t \<le> last_at \<and> b \<le> due_at (?B tenant) t" using Cons.prems by auto
    from Cons.IH [where b = b and B = ?B, OF this] False show ?thesis by (auto simp: x admitted_Cons)
  qed
qed simp

lemma timedelta_interval_nonneg: "0 < per_minute L \<Longrightarrow> 0 \<le> timedelta (interval L)"
  using round_half_even_mono [of 0 "interval L * 1000000"] round_half_even_of_int [of 0]
  by (simp add: timedelta_def interval_def SECONDS_PER_MINUTE_def)

lemma timedelta_tolerance_nonneg: "0 < per_minute L \<Longrightarrow> 1 \<le> burst L \<Longrightarrow> 0 \<le> timedelta (tolerance L)"
  using round_half_even_mono [of 0 "tolerance L * 1000000"] round_half_even_of_int [of 0]
  by (simp add: timedelta_def tolerance_def interval_def SECONDS_PER_MINUTE_def)

lemma exact_interval:
  assumes "0 < per_minute L" "per_minute L dvd 60000000"
  shows "timedelta (interval L) = 60000000 div per_minute L" "timedelta (tolerance L) = 60000000 div per_minute L * (burst L - 1)"
proof -
  obtain k where k: "60000000 = per_minute L * k" using assms(2) by blast
  have "(60000000 :: rat) = of_int (per_minute L) * of_int k" unfolding of_int_mult [symmetric] k [symmetric] by simp
  then have "interval L * 1000000 = of_int k" using assms(1) by (simp add: interval_def SECONDS_PER_MINUTE_def field_simps)
  moreover from this have "tolerance L * 1000000 = of_int (k * (burst L - 1))" by (simp add: tolerance_def)
  moreover have "60000000 div per_minute L = k" unfolding k using assms(1) by simp
  ultimately show "timedelta (interval L) = 60000000 div per_minute L"
    "timedelta (tolerance L) = 60000000 div per_minute L * (burst L - 1)"
    by (simp_all only: timedelta_def round_half_even_of_int)
qed

section \<open>Properties\<close>

text \<open>C16. No tenant gets more than its budget: of the requests served within any stretch of time, in any
  order and between whatever requests of other tenants, those admitted beyond the first are spread one
  interval apart but for the burst; when a minute is a whole number of microsecond intervals that is at most
  the burst and one request for each interval that has passed. What one tenant takes is never from
  another's budget.\<close>

theorem budget_bounded:
  assumes "0 < per_minute L" "1 \<le> burst L" "\<forall>(q, t)\<in>set reqs. start_at \<le> t \<and> t \<le> start_at + stretch"
  shows "(0 < admitted L tenant reqs B \<longrightarrow>
      (int (admitted L tenant reqs B) - 1) * timedelta (interval L) \<le> stretch + timedelta (tolerance L)) \<and>
    (per_minute L dvd 60000000 \<and> 0 \<le> stretch \<longrightarrow>
      int (admitted L tenant reqs B) \<le> burst L + stretch div (60000000 div per_minute L)) \<and>
    (tenant \<notin> fst ` set reqs \<longrightarrow> snd (serve L reqs B) tenant = B tenant)"
proof -
  let ?n = "int (admitted L tenant reqs B)" and ?I = "60000000 div per_minute L"
  note nonneg = timedelta_interval_nonneg [OF assms(1)] timedelta_tolerance_nonneg [OF assms(1,2)]
  have "\<forall>(q, t)\<in>set reqs. t \<le> start_at + stretch \<and> start_at \<le> due_at (B tenant) t"
    using assms(3) by (fastforce simp: due_at_def split: option.split)
  from admitted_spread [where tenant = tenant and B = B and b = start_at, OF nonneg this]
  have spread: "?n = 0 \<or> (?n - 1) * timedelta (interval L) \<le> stretch + timedelta (tolerance L)" by auto
  moreover have "?n \<le> burst L + stretch div ?I" if "per_minute L dvd 60000000" "0 \<le> stretch"
  proof (cases "?n = 0")
    case True
    then show ?thesis using that assms(1,2) by (simp add: pos_imp_zdiv_nonneg_iff div_int_pos_iff)
  next
    case False
    have pos: "0 < ?I" using zdvd_imp_le [OF that(1)] assms(1) by (simp add: pos_imp_zdiv_pos_iff)
    have "(?n - burst L) * ?I \<le> stretch"
      using spread False exact_interval [OF assms(1) that(1)] by (simp add: algebra_simps)
    then have "?n - burst L \<le> stretch div ?I" using pos by (metis zdiv_mono1 nonzero_mult_div_cancel_right less_irrefl)
    then show ?thesis by simp
  qed
  moreover have "tenant \<notin> fst ` set reqs \<Longrightarrow> snd (serve L reqs B) tenant = B tenant"
    by (rule serve_other)
  ultimately show ?thesis by auto
qed

definition demo_rate :: rate_settings where
  "demo_rate = \<lparr>per_minute = 60, burst = 2\<rparr>"

theorem budget_bounded_witness:
  "int (admitted demo_rate ''acme'' [(''acme'', 0), (''acme'', 1), (''other'', 1), (''acme'', 2), (''acme'', 1000001)] Map.empty) \<le> 3"
  using budget_bounded [of demo_rate "[(''acme'', 0), (''acme'', 1), (''other'', 1), (''acme'', 2), (''acme'', 1000001)]" 0 1000001 "''acme''" Map.empty]
  by (simp add: demo_rate_def)

text \<open>A refusal is honest: it takes nothing, and asks for a wait of at least a second that is right to
  the microsecond: a request that comes after it, when nobody took the tenant's budget in between, is
  admitted, and one that comes a second before it is refused again, unless the wait is the one second
  that is the least there is.\<close>

lemma refusal_is_honest:
  assumes "take_request L tenant now B = (d, B')" "\<not> allowed d" "0 < per_minute L" "1 \<le> burst L"
  shows "B' = B \<and> 1 \<le> retry_after d \<and>
    (\<forall>t > now + timedelta_seconds (retry_after d). allowed (fst (take_request L tenant t B))) \<and>
    (1 < retry_after d \<longrightarrow>
      (\<forall>t < now + timedelta_seconds (retry_after d - 1). \<not> allowed (fst (take_request L tenant t B))))"
proof -
  let ?tol = "timedelta (tolerance L)"
  obtain tat where tat: "B tenant = Some tat" and late: "tat - now > ?tol" and d: "d = turned_away L now tat" and "B' = B"
    using assms(1,2) timedelta_tolerance_nonneg [OF assms(3,4)]
    by (auto simp: take_request_def Let_def max_def split: option.splits if_splits)
  have scaled: "(total_seconds x - tolerance L) * 1000000 = of_int x - tolerance L * 1000000" for x
    by (simp add: total_seconds_def left_diff_distrib)
  define w where "w = timedelta (total_seconds (tat - now) - tolerance L)"
  have "\<bar>of_int w - (of_int (tat - now) - tolerance L * 1000000)\<bar> \<le> 1 / 2"
    unfolding w_def timedelta_def scaled by (rule round_half_even_near)
  moreover have "\<bar>of_int ?tol - tolerance L * 1000000\<bar> \<le> 1 / 2"
    using round_half_even_near [of "tolerance L * 1000000"] by (simp add: timedelta_def)
  ultimately have "\<bar>(of_int w - of_int (tat - now - ?tol) :: rat)\<bar> \<le> 1" unfolding of_int_diff by linarith
  then have near: "\<bar>w - (tat - now - ?tol)\<bar> \<le> 1"
    by (metis (no_types) of_int_1 of_int_abs of_int_diff of_int_le_iff)
  define s where "s = \<lceil>total_seconds w\<rceil>"
  have r: "retry_after d = max 1 s" by (simp add: d turned_away_def Let_def to_precision_def w_def s_def)
  have "total_seconds w \<le> of_int s" "of_int s - 1 < total_seconds w" unfolding s_def by linarith+
  then have s: "w \<le> s * 1000000" "(s - 1) * 1000000 < w" by (simp_all add: total_seconds_def field_simps)
  have admit: "allowed (fst (take_request L tenant t B)) \<longleftrightarrow> max tat t - t \<le> ?tol" for t
    by (simp add: take_request_def tat Let_def)
  have "max tat t - t \<le> ?tol" if "t > now + timedelta_seconds (retry_after d)" for t
    using that near s(1) r timedelta_tolerance_nonneg [OF assms(3,4)] by (auto simp: timedelta_seconds_def max_def split: if_splits)
  moreover have "\<not> max tat t - t \<le> ?tol" if "1 < retry_after d" "t < now + timedelta_seconds (retry_after d - 1)" for t
    using that near s(2) r by (auto simp: timedelta_seconds_def max_def split: if_splits)
  ultimately show ?thesis using admit r \<open>B' = B\<close> by auto
qed

lemma refusal_is_honest_witness:
  "\<exists>d. take_request demo_rate ''acme'' 0 [''acme'' \<mapsto> 3500000] = (d, [''acme'' \<mapsto> 3500000]) \<and> retry_after d = 3 \<and>
     allowed (fst (take_request demo_rate ''acme'' 3000001 [''acme'' \<mapsto> 3500000]))"
proof -
  have rate: "timedelta (tolerance demo_rate) = 1000000" "tolerance demo_rate = 1"
    using exact_interval [of demo_rate] by (simp_all add: demo_rate_def tolerance_def interval_def SECONDS_PER_MINUTE_def)
  define d where "d = turned_away demo_rate 0 3500000"
  have t: "take_request demo_rate ''acme'' 0 [''acme'' \<mapsto> 3500000] = (d, [''acme'' \<mapsto> 3500000])"
    by (simp add: take_request_def rate(1) d_def Let_def del: One_nat_def)
  have "retry_after d = 3"
    by (simp add: d_def turned_away_def rate to_precision_def timedelta_def total_seconds_def round_half_even_def Let_def ceiling_unique)
  moreover have "\<not> allowed d" by (simp add: d_def)
  ultimately show ?thesis
    using refusal_is_honest [OF t] t by (simp add: demo_rate_def timedelta_seconds_def)
qed

end
