(* ===== verification/Access.thy ===== *)
theory Access
  imports Keys Rate_Limit
begin

text \<open>
  \<open>src/agent_runs/api/deps.py\<close>: who is calling, in which tenant, and whether its budget allows it. A
  request brings its two headers (\<open>X-API-Key\<close>, \<open>X-Trellis-Tenant\<close>); the world, what the key registry
  would answer, the monotonic clock the key cache uses and the database's clock the budget uses. The
  state the gate keeps is the registry's cache and the buckets.
\<close>

record arrival =
  arr_api_key :: "string option"
  arr_digest :: string  \<comment> \<open>the SHA-256 of the key\<close>
  arr_tenant :: "string option"
  arr_reply :: registry_reply
  arr_monotonic :: instant
  arr_clock :: instant

record gate =
  gate_keys :: key_cache
  gate_buckets :: buckets

record caller =
  credential :: key_info
  acting_tenant :: string

record claimer =
  claim_credential :: key_info
  claim_tenant :: "string option"

definition require_tenant :: "caller \<Rightarrow> string \<Rightarrow> unit result" where
  "require_tenant who tenant = (if tenant \<noteq> acting_tenant who then Inl Forbidden else Inr ())"

definition require_may_act_for :: "caller \<Rightarrow> string option \<Rightarrow> unit result" where
  "require_may_act_for who p =
     (case p of None \<Rightarrow> Inr () | Some q \<Rightarrow> if may_act_for (credential who) q then Inr () else Inl Forbidden)"

definition MAX_TENANT_HEADER :: nat where
  "MAX_TENANT_HEADER = 128"

definition acting :: "arrival \<Rightarrow> key_cache \<Rightarrow> key_cache \<times> claimer result" where
  "acting a cache =
     (if \<not> truthy (arr_api_key a) then (cache, Inl Unauthorized)
      else let (cache', answer) = resolve (arr_digest a) (arr_monotonic a) (arr_reply a) cache
           in (cache', bind_result answer (\<lambda>key.
                case key_tenant key of
                  None \<Rightarrow> Inr \<lparr>claim_credential = key, claim_tenant = (if truthy (arr_tenant a) then arr_tenant a else None)\<rparr>
                | Some t \<Rightarrow>
                    if arr_tenant a \<noteq> None \<and> arr_tenant a \<noteq> Some t then Inl Forbidden
                    else Inr \<lparr>claim_credential = key, claim_tenant = Some t\<rparr>)))"

text \<open>The budget headers go on the response either way: the decision, when one was taken.\<close>

definition within_budget :: "rate_settings \<Rightarrow> string \<Rightarrow> instant \<Rightarrow> buckets \<Rightarrow> (decision option \<times> unit result) \<times> buckets" where
  "within_budget L bucket now B =
     (if \<not> enabled L then ((None, Inr ()), B)
      else let (d, B') = take_request L bucket now B
           in ((Some d, if allowed d then Inr () else Inl (RateLimited (retry_after d))), B'))"

definition caller_of :: "rate_settings \<Rightarrow> arrival \<Rightarrow> gate \<Rightarrow> (decision option \<times> caller result) \<times> gate" where
  "caller_of L a g =
     (if \<exists>t. arr_tenant a = Some t \<and> length t > MAX_TENANT_HEADER then ((None, Inl Unprocessable), g)
      else let (cache, answer) = acting a (gate_keys g); g' = g\<lparr>gate_keys := cache\<rparr>
           in case answer of
                Inl e \<Rightarrow> ((None, Inl e), g')
              | Inr c \<Rightarrow>
                  (case claim_tenant c of
                     None \<Rightarrow> ((None, Inl BadRequest), g')
                   | Some t \<Rightarrow>
                       let ((d, ok), B) = within_budget L t (arr_clock a) (gate_buckets g)
                       in ((d, bind_result ok (\<lambda>_. Inr \<lparr>credential = claim_credential c, acting_tenant = t\<rparr>)),
                           g'\<lparr>gate_buckets := B\<rparr>)))"

definition claim_bucket :: "claimer \<Rightarrow> string" where
  "claim_bucket c = (if truthy (claim_tenant c) then the (claim_tenant c) else ''key:'' @ key_id (claim_credential c))"

definition claimer_of :: "rate_settings \<Rightarrow> arrival \<Rightarrow> gate \<Rightarrow> (decision option \<times> claimer result) \<times> gate" where
  "claimer_of L a g =
     (if \<exists>t. arr_tenant a = Some t \<and> length t > MAX_TENANT_HEADER then ((None, Inl Unprocessable), g)
      else let (cache, answer) = acting a (gate_keys g); g' = g\<lparr>gate_keys := cache\<rparr>
           in case answer of
                Inl e \<Rightarrow> ((None, Inl e), g')
              | Inr c \<Rightarrow>
                  (let ((d, ok), B) = within_budget L (claim_bucket c) (arr_clock a) (gate_buckets g)
                   in ((d, bind_result ok (\<lambda>_. Inr c)), g'\<lparr>gate_buckets := B\<rparr>)))"

section \<open>Properties\<close>

lemma acting_Inr:
  assumes "acting a cache = (cache', Inr c)"
  shows "arr_api_key a \<noteq> None \<and> arr_api_key a \<noteq> Some [] \<and>
    snd (resolve (arr_digest a) (arr_monotonic a) (arr_reply a) cache) = Inr (claim_credential c) \<and>
    (case key_tenant (claim_credential c) of
       Some t \<Rightarrow> claim_tenant c = Some t \<and> (arr_tenant a = None \<or> arr_tenant a = Some t)
     | None \<Rightarrow> claim_tenant c = (if arr_tenant a = Some [] then None else arr_tenant a))"
  using assms by (auto simp: acting_def truthy_def Let_def split: if_splits prod.splits option.splits)

lemma within_budget_cases:
  assumes "within_budget L bucket now B = ((d, ok), B')"
  shows "(ok = Inr () \<and>
      (if enabled L then \<exists>s. d = Some s \<and> allowed s \<and> take_request L bucket now B = (s, B') else B' = B) \<and>
      (\<forall>t. t \<noteq> bucket \<longrightarrow> B' t = B t)) \<or>
    (\<exists>s. d = Some s \<and> \<not> allowed s \<and> 1 \<le> retry_after s \<and> ok = Inl (RateLimited (retry_after s)) \<and> B' = B)"
  using assms by (auto simp: within_budget_def take_request_def turned_away_def Let_def split: if_splits prod.splits option.splits)

text \<open>C14. Nobody acts outside the tenant of the key: a request is let in only with a key the registry (or
  its cache) vouches for, in that key's own tenant, which the header may only repeat, or, with a key of
  no tenant, in the one the header names; the budget it took from is that tenant's and no other's. A claim
  (\<open>POST /v1/runs/claim\<close>) is let in on the same terms, except that a key of no tenant need name none: it then
  claims over all tenants and takes from the key's own bucket. A request refused for its key or its header has
  taken none, and a budget that is spent is a 429 saying how long to wait.\<close>

theorem let_in:
  assumes "caller_of L a g = ((d, r), g')" "claimer_of L a g = ((dc, rc), gc)"
  shows "(case r of
      Inr who \<Rightarrow>
        snd (resolve (arr_digest a) (arr_monotonic a) (arr_reply a) (gate_keys g)) = Inr (credential who) \<and>
        (case key_tenant (credential who) of
           Some t \<Rightarrow> acting_tenant who = t \<and> (arr_tenant a = None \<or> arr_tenant a = Some t)
         | None \<Rightarrow> arr_tenant a = Some (acting_tenant who) \<and> acting_tenant who \<noteq> []) \<and>
        (if enabled L
         then \<exists>s. d = Some s \<and> allowed s \<and>
                take_request L (acting_tenant who) (arr_clock a) (gate_buckets g) = (s, gate_buckets g')
         else gate_buckets g' = gate_buckets g) \<and>
        (\<forall>t. t \<noteq> acting_tenant who \<longrightarrow> gate_buckets g' t = gate_buckets g t)
    | Inl e \<Rightarrow>
        gate_buckets g' = gate_buckets g \<and>
        (d = None \<or> (\<exists>s. d = Some s \<and> \<not> allowed s \<and> 1 \<le> retry_after s \<and> e = RateLimited (retry_after s)))) \<and>
    (case rc of
      Inr c \<Rightarrow>
        snd (resolve (arr_digest a) (arr_monotonic a) (arr_reply a) (gate_keys g)) = Inr (claim_credential c) \<and>
        (case key_tenant (claim_credential c) of
           Some t \<Rightarrow> claim_tenant c = Some t \<and> (arr_tenant a = None \<or> arr_tenant a = Some t)
         | None \<Rightarrow> claim_tenant c = (if arr_tenant a = Some [] then None else arr_tenant a)) \<and>
        (\<exists>bucket. (case claim_tenant c of
              Some t \<Rightarrow> bucket = (if t = [] then ''key:'' @ key_id (claim_credential c) else t)
            | None \<Rightarrow> bucket = ''key:'' @ key_id (claim_credential c)) \<and>
          (if enabled L
           then \<exists>s. dc = Some s \<and> allowed s \<and> take_request L bucket (arr_clock a) (gate_buckets g) = (s, gate_buckets gc)
           else gate_buckets gc = gate_buckets g) \<and>
          (\<forall>t. t \<noteq> bucket \<longrightarrow> gate_buckets gc t = gate_buckets g t))
    | Inl e \<Rightarrow>
        gate_buckets gc = gate_buckets g \<and>
        (dc = None \<or> (\<exists>s. dc = Some s \<and> \<not> allowed s \<and> 1 \<le> retry_after s \<and> e = RateLimited (retry_after s))))"
    (is "?caller \<and> ?claimer")
proof (cases "(\<exists>t. arr_tenant a = Some t \<and> length t > MAX_TENANT_HEADER) \<or> isl (snd (acting a (gate_keys g)))")
  case True
  then show ?thesis using assms
    by (auto simp: caller_of_def claimer_of_def isl_def Let_def split: if_splits prod.splits sum.splits)
next
  case False
  then have short: "\<not> (\<exists>t. arr_tenant a = Some t \<and> length t > MAX_TENANT_HEADER)" by blast
  from False obtain cache c where c: "acting a (gate_keys g) = (cache, Inr c)"
    by (metis prod.collapse sum.collapse(2))
  note in_tenant = acting_Inr [OF c]
  have ?caller
  proof (cases "claim_tenant c")
    case None
    then show ?thesis using assms(1) unfolding caller_of_def if_not_P [OF short] c by auto
  next
    case (Some t)
    obtain d' ok B where b: "within_budget L t (arr_clock a) (gate_buckets g) = ((d', ok), B)" by (metis surj_pair)
    have parts: "d = d'" "r = bind_result ok (\<lambda>_. Inr \<lparr>credential = claim_credential c, acting_tenant = t\<rparr>)" "gate_buckets g' = B"
      using assms(1) Some b unfolding caller_of_def if_not_P [OF short] c by auto
    have tenant: "case key_tenant (claim_credential c) of
        Some u \<Rightarrow> t = u \<and> (arr_tenant a = None \<or> arr_tenant a = Some u) | None \<Rightarrow> arr_tenant a = Some t \<and> t \<noteq> []"
      using in_tenant Some by (auto split: option.splits if_splits)
    show ?thesis
    proof (cases ok)
      case (Inl e)
      with within_budget_cases [OF b] parts show ?thesis by auto
    next
      case (Inr u)
      then have "ok = Inr ()" by simp
      with within_budget_cases [OF b] have taken:
        "if enabled L then \<exists>s. d' = Some s \<and> allowed s \<and> take_request L t (arr_clock a) (gate_buckets g) = (s, B) else B = gate_buckets g"
        "\<forall>u. u \<noteq> t \<longrightarrow> B u = gate_buckets g u"
        by simp_all
      have r: "r = Inr \<lparr>credential = claim_credential c, acting_tenant = t\<rparr>" using parts(2) Inr by simp
      show ?thesis
        unfolding r sum.case caller.simps using in_tenant tenant taken parts(1,3) by (intro conjI) simp_all
    qed
  qed
  moreover have ?claimer
  proof -
    obtain d' ok B where b: "within_budget L (claim_bucket c) (arr_clock a) (gate_buckets g) = ((d', ok), B)" by (metis surj_pair)
    have parts: "dc = d'" "rc = bind_result ok (\<lambda>_. Inr c)" "gate_buckets gc = B"
      using assms(2) b unfolding claimer_of_def if_not_P [OF short] c by auto
    have bucket: "case claim_tenant c of
        Some t \<Rightarrow> claim_bucket c = (if t = [] then ''key:'' @ key_id (claim_credential c) else t)
      | None \<Rightarrow> claim_bucket c = ''key:'' @ key_id (claim_credential c)"
      by (simp add: claim_bucket_def truthy_def split: option.split)
    show ?thesis
    proof (cases ok)
      case (Inl e)
      with within_budget_cases [OF b] parts show ?thesis by auto
    next
      case (Inr u)
      then have "ok = Inr ()" by simp
      with within_budget_cases [OF b] have taken:
        "if enabled L then \<exists>s. d' = Some s \<and> allowed s \<and> take_request L (claim_bucket c) (arr_clock a) (gate_buckets g) = (s, B) else B = gate_buckets g"
        "\<forall>t. t \<noteq> claim_bucket c \<longrightarrow> B t = gate_buckets g t"
        by simp_all
      have rc: "rc = Inr c" using parts(2) Inr by simp
      show ?thesis
        unfolding rc sum.case using in_tenant bucket taken parts(1,3)
        by (intro conjI exI [of _ "claim_bucket c"]) simp_all
    qed
  qed
  ultimately show ?thesis ..
qed

definition demo_arrival :: arrival where
  "demo_arrival = \<lparr>arr_api_key = Some ''k'', arr_digest = ''d'', arr_tenant = Some ''acme'',
     arr_reply = Replied 200 (Some \<lparr>key_id = ''1'', key_tenant = None, principal = ''key:1'', role = ''platform'', may_act_as = [''*'']\<rparr>),
     arr_monotonic = 0, arr_clock = 0\<rparr>"

theorem let_in_witness:
  "\<exists>d who g'. caller_of demo_rate demo_arrival \<lparr>gate_keys = [], gate_buckets = Map.empty\<rparr> = ((d, Inr who), g') \<and>
     acting_tenant who = ''acme'' \<and> gate_buckets g' ''other'' = None \<and>
     (case snd (fst (claimer_of demo_rate demo_arrival \<lparr>gate_keys = [], gate_buckets = Map.empty\<rparr>)) of
        Inl _ \<Rightarrow> True | Inr c \<Rightarrow> claim_tenant c \<noteq> Some ''other'')"
proof -
  let ?g = "\<lparr>gate_keys = [], gate_buckets = Map.empty\<rparr>"
  have "\<exists>d who g'. caller_of demo_rate demo_arrival ?g = ((d, Inr who), g')"
    by (simp add: caller_of_def acting_def demo_arrival_def MAX_TENANT_HEADER_def truthy_def resolve_def introspect_def Let_def
        within_budget_def take_request_def split: prod.split)
  then obtain d who g' where w: "caller_of demo_rate demo_arrival ?g = ((d, Inr who), g')" by blast
  obtain dc rc gc where cl: "claimer_of demo_rate demo_arrival ?g = ((dc, rc), gc)" by (metis surj_pair)
  note let_in = let_in [OF w cl]
  from let_in have who: "acting_tenant who = ''acme''" by (auto simp: demo_arrival_def split: option.splits)
  with let_in have other: "gate_buckets g' ''other'' = None" by simp
  have "case rc of Inl _ \<Rightarrow> True | Inr c \<Rightarrow> claim_tenant c \<noteq> Some ''other''"
    using let_in by (auto simp: demo_arrival_def split: sum.splits option.splits)
  with w who other cl show ?thesis by auto
qed

end
