(* ===== verification/Store_Properties.thy ===== *)
theory Store_Properties
  imports Run_System
begin

text \<open>
  What the operations of the run store promise to callers and workers: fencing, repeats, tenants,
  answers, cancellation, retries and leases, each proved of the operations through the contracts
  they were shown to keep.
\<close>

section \<open>Fencing and tenants\<close>

text \<open>C3. A worker that does not hold the run's lease changes nothing of the run: its heartbeat and its events
  are refused, its finish, pause or release, when answered at all, is answered as a repeat with the
  database as it was, and its artifact is refused too, unless the run is paused and the key it comes with is a
  service's, which may add one to a paused run whatever worker it names.\<close>

theorem stale_worker_changes_nothing:
  assumes "store_inv d" "found tenant rid d = Inr r" "lease_owner r \<noteq> Some w"
  shows "(\<forall>l d'. hb_worker_id hb = w \<longrightarrow> heartbeat L tenant rid hb now d \<noteq> Inr (l, d')) \<and>
    (\<forall>x d'. append_events tenant rid es (Some w) d \<noteq> Inr (x, d')) \<and>
    (\<forall>a changed d'. finish_run C u tenant rid e (Some w) now d = Inr ((a, changed), d') \<longrightarrow>
       \<not> changed \<and> d' = d) \<and>
    (\<forall>a changed d'. pause C S tenant rid p (Some w) now d = Inr ((a, changed), d') \<longrightarrow>
       \<not> changed \<and> d' = d) \<and>
    (\<forall>a changed d'. rl_worker_id rl = w \<longrightarrow> release C tenant rid rl now d = Inr ((a, changed), d') \<longrightarrow>
       \<not> changed \<and> d' = d) \<and>
    (check_artifact_writer tenant rid (Some w) key_role d = Inr () \<longrightarrow> status r = PAUSED \<and> key_role = ''service'')"
proof (intro conjI allI impI)
  fix l d' assume "hb_worker_id hb = w"
  with assms show "heartbeat L tenant rid hb now d \<noteq> Inr (l, d')"
    by (auto elim!: heartbeat_Inr)
next
  fix x d' from assms show "append_events tenant rid es (Some w) d \<noteq> Inr (x, d')"
    by (auto simp: append_events_Inr_iff)
next
  fix a changed d' assume "finish_run C u tenant rid e (Some w) now d = Inr ((a, changed), d')"
  then have "finish C u tenant rid e (Some w) now d = Inr ((a, changed), d')"
    by (simp add: finish_run_def split: if_splits)
  then show "\<not> changed" "d' = d" using assms(2,3) by (cases rule: finish_Inr; simp)+
next
  fix a changed d' assume "pause C S tenant rid p (Some w) now d = Inr ((a, changed), d')"
  then show "\<not> changed" "d' = d" using assms(2,3) by (cases rule: pause_Inr; simp)+
next
  fix a changed d' assume "rl_worker_id rl = w" "release C tenant rid rl now d = Inr ((a, changed), d')"
  then show "\<not> changed" "d' = d" using assms(2,3) by (cases rule: release_Inr [OF \<open>release _ _ _ _ _ _ = _\<close>]; simp)+
next
  assume "check_artifact_writer tenant rid (Some w) key_role d = Inr ()"
  with assms(2,3) show "status r = PAUSED" "key_role = ''service''"
    by (auto simp: check_artifact_writer_def held_by_def PAUSED_ARTIFACT_ROLE_def split: if_splits)
qed

theorem stale_worker_changes_nothing_witness:
  "\<forall>l d'. heartbeat demo_limits ''acme'' ''run_1''
     \<lparr>hb_worker_id = ''w2'', hb_lease_seconds = 60, hb_checkpoint = None\<rparr> 2 demo_leased \<noteq> Inr (l, d')"
proof -
  have "found ''acme'' ''run_1'' demo_leased = Inr demo_leased_row"
    by (simp add: found_def one_def demo_leased_def demo_leased_row_def new_row_def demo_start_def)
  moreover have "lease_owner demo_leased_row \<noteq> Some ''w2''" by (simp add: demo_leased_row_def)
  ultimately show ?thesis using stale_worker_changes_nothing [OF demo_leased_inv] by simp
qed

text \<open>C9. An operation of one tenant reads and writes that tenant's runs only: the runs, the answers
  and the events of every other tenant are exactly what they were.\<close>

theorem tenant_isolation:
  assumes "lifecycle_laws C" "interrupt_laws C" "store_inv d"
    and "(rs_tenant_id s = tenant \<and> start s queue now strict d = Inr (x, d')) \<or>
      pause C S tenant rid p w now d = Inr (x, d') \<or>
      resume C S tenant rid a key now d = Inr (x, d') \<or>
      cancel C tenant rid reason key now d = Inr (x, d') \<or>
      finish_run C u tenant rid e w now d = Inr (x, d') \<or>
      claim C L E (Some tenant) req now d = Inr (y, d') \<or>
      heartbeat L tenant rid hb now d = Inr (l, d') \<or>
      release C tenant rid rl now d = Inr (x, d') \<or>
      append_events tenant rid es w d = Inr (z, d')"
  shows "filter (\<lambda>r. tenant_id r \<noteq> tenant) (runs d') = filter (\<lambda>r. tenant_id r \<noteq> tenant) (runs d) \<and>
    filter (\<lambda>k. rr_tenant_id k \<noteq> tenant) (resolutions d') = filter (\<lambda>k. rr_tenant_id k \<noteq> tenant) (resolutions d) \<and>
    filter (\<lambda>e. re_tenant_id e \<noteq> tenant) (run_events d') = filter (\<lambda>e. re_tenant_id e \<noteq> tenant) (run_events d)"
proof -
  from assms(4) have "others tenant d' = others tenant d"
    using starting.isolated [OF assms(1-3)] pausing.isolated [OF assms(1-3)]
      resuming.isolated [OF assms(1-3)] cancelling.isolated [OF assms(1-3)]
      finishing.isolated [OF assms(1-3)] claiming_in.isolated [OF assms(1-3)]
      heartbeats.isolated [OF assms(1-3)] releasing.isolated [OF assms(1-3)]
      appending.isolated [OF assms(1-3)]
    by (elim disjE conjE) blast+
  then show ?thesis by (simp add: others_def)
qed

theorem tenant_isolation_witness:
  "filter (\<lambda>r. tenant_id r \<noteq> ''acme'') (runs demo_queued) = filter (\<lambda>r. tenant_id r \<noteq> ''acme'') (runs empty_db)"
proof -
  from demo_queued_start obtain x where
    "rs_tenant_id demo_start = ''acme'' \<and> start demo_start True 0 True empty_db = Inr (x, demo_queued)"
    by (auto simp: demo_start_def)
  from tenant_isolation [OF demo_laws(1,2) store_inv_empty disjI1 [OF this]] show ?thesis by simp
qed

section \<open>Repeats\<close>

text \<open>Starting is idempotent: whatever a start answered, the same start sent again, at any later
  time, answers a run of the store and changes nothing, so a run is never started twice.\<close>

lemma start_repeat:
  assumes "store_inv d" "start s queue t strict d = Inr ((run, created), d')"
  shows "\<exists>run'. start s queue t' strict d' = Inr ((run', False), d')"
  using starting_again.again [OF demo_laws(1,2) assms] by simp

lemma start_repeat_witness: "\<exists>run'. start demo_start True 5 True demo_queued = Inr ((run', False), demo_queued)"
proof -
  from demo_queued_start obtain a c where "start demo_start True 0 True empty_db = Inr ((a, c), demo_queued)"
    by auto
  from start_repeat [OF store_inv_empty this] show ?thesis .
qed

text \<open>The endings are idempotent: a finish repeated by the worker that made it (or, when it ended
  the run, by its caller) and a cancel repeated by the same principal answer the stored run and
  change nothing.\<close>

lemma ending_repeat:
  assumes "lifecycle_laws C" "interrupt_laws C" "store_inv d"
  shows "(finish_run C u tenant rid e w t d = Inr ((run, changed), d') \<longrightarrow>
       w \<noteq> None \<or> rec_status run \<noteq> QUEUED \<longrightarrow>
       (\<exists>run'. finish_run C u tenant rid e w t' d' = Inr ((run', False), d'))) \<and>
    (cancel C tenant rid reason key t d = Inr ((run, changed), d') \<longrightarrow>
       (\<exists>run'. cancel C tenant rid reason key t' d' = Inr ((run', False), d')))"
  using finishing_again.again [OF assms, of u tenant rid e w t run changed d' t']
    cancelling_again.again [OF assms, of tenant rid reason key t run changed d' t'] by blast

definition demo_finish :: run_finish where
  "demo_finish = \<lparr>fin_status = SUCCESS, fin_output = JInt 7, fin_error = None\<rparr>"

lemma demo_finished:
  "\<exists>run d'. finish_run demo_contracts 0 ''acme'' ''run_1'' demo_finish (Some ''w1'') 9 demo_leased =
     Inr ((run, True), d')"
  by (simp add: finish_run_def is_an_ending_def finish_def locked_def found_def one_def fence_def Let_def
      settled_def demo_leased_def demo_leased_row_def new_row_def demo_start_def demo_finish_def retried_def
      move_def)

lemma ending_repeat_witness:
  "\<exists>run' d'. finish_run demo_contracts 0 ''acme'' ''run_1'' demo_finish (Some ''w1'') 20 d' = Inr ((run', False), d')"
proof -
  from demo_finished obtain run d' where
    "finish_run demo_contracts 0 ''acme'' ''run_1'' demo_finish (Some ''w1'') 9 demo_leased = Inr ((run, True), d')"
    by auto
  with ending_repeat [OF demo_laws(1,2) demo_leased_inv] show ?thesis by blast
qed

text \<open>A pause that paused the run and a release that put it back on the queue are idempotent too:
  repeated by the same caller they answer the stored run and change nothing.\<close>

lemma pause_release_repeat:
  assumes "lifecycle_laws C" "interrupt_laws C" "store_inv d"
  shows "(pause C S tenant rid p w t d = Inr ((run, changed), d') \<longrightarrow> rec_status run = PAUSED \<longrightarrow>
       (\<exists>run'. pause C S tenant rid p w t' d' = Inr ((run', False), d'))) \<and>
    (release C tenant rid rl t d = Inr ((run, changed), d') \<longrightarrow> rec_status run = QUEUED \<longrightarrow>
       (\<exists>run'. release C tenant rid rl t' d' = Inr ((run', False), d')))"
  using pausing_again.again [OF assms, of S tenant rid p w t run changed d' t']
    releasing_again.again [OF assms, of tenant rid rl t run changed d' t'] by blast

section \<open>Answers\<close>

text \<open>What answering does: only the interrupt the run waits on is answered, only by a key that may,
  and only with an answer that fits; then the answer is recorded with the question, \<open>CANCEL\<close> ends the
  run, and any other decision starts the next attempt, on the queue when the run is durable and in
  its caller's process otherwise.\<close>

lemma resume_effect:
  assumes "lifecycle_laws C" "interrupt_laws C" "store_inv d"
    and "resume C S tenant rid r key now d = Inr ((run, True), d')"
  shows "\<exists>row asked row'. found tenant rid d = Inr row \<and> status row = PAUSED \<and> awaiting row = Some asked \<and>
    i_interrupt_id asked = res_interrupt_id r \<and>
    require_may_answer key (i_assignee asked) (res_reviewer r) = Inr () \<and> answer_problem S C asked r = None \<and>
    found tenant rid d' = Inr row' \<and> run = record_of row' now \<and> last_resolution row' = Some r \<and>
    awaiting row' = None \<and>
    (if res_decision r = CANCEL then status row' = CANCELLED \<and> attempt row' = attempt row
     else status row' = (if queued_at row \<noteq> None then QUEUED else RUNNING) \<and> attempt row' = attempt row + 1) \<and>
    resolutions d' = resolutions d @ [new_resolution C tenant rid r asked (attempt row) now]"
  using assms(4)
proof (cases rule: resume_Inr)
  case (answered row asked)
  have row: "row \<in> set (runs d)" using foundD [OF answered(1)] by simp
  have paused: "status row = PAUSED" using awaiting_paused [OF store_invD(2) [OF assms(3) row] answered(4)] .
  have "row_evolves row (resumed_row C row r now)"
    using row_evolves_resumed store_invD(2) [OF assms(3) row] assms(1) answered(8) paused by blast
  from found_saved(3) [OF assms(3) answered(1) this] answered
  have "found tenant rid d' = Inr (resumed_row C row r now)" by simp
  with answered paused show ?thesis by (auto simp: resumed_row_def resumed_status_def Let_def)
qed simp

text \<open>The recorded answer decides what \<open>answered_by\<close> says of any other to the same interrupt.\<close>

lemma answered_by_kept:
  assumes "store_inv d" "k \<in> set (resolutions d)" "resolution_id k = resolution_id_of C r'" "rr_tenant_id k = tenant"
  shows "answered_by C tenant r' d \<longleftrightarrow> rr_resolution k = r'"
proof -
  have "distinct (map resolution_id (resolutions d))" using store_invD(1) [OF assms(1)] by (simp add: db_ok_def)
  then have "x = k" if "x \<in> set (resolutions d)" "resolution_id x = resolution_id_of C r'" for x
    using that assms(2,3) by (auto simp: distinct_map inj_on_def)
  moreover obtain x where x: "find (\<lambda>k. rr_tenant_id k = tenant \<and> resolution_id k = resolution_id_of C r') (resolutions d) = Some x"
    using assms(2-4) by (cases "find (\<lambda>k. rr_tenant_id k = tenant \<and> resolution_id k = resolution_id_of C r') (resolutions d)")
      (auto simp: find_None_iff)
  moreover have "x \<in> set (resolutions d)" "resolution_id x = resolution_id_of C r'"
    using x by (auto simp: find_Some_iff)
  ultimately have "x = k" by blast
  with x show ?thesis by (simp add: answered_by_def)
qed

text \<open>What every answer to an interrupt meets once an answer to it is on record.\<close>

lemma answers_on_record:
  assumes "store_inv d" "k \<in> set (resolutions d)" "resolution_id k = resolution_id_of C r" "rr_tenant_id k = tenant"
    and "rr_resolution k = r" "found tenant rid d = Inr row" "res_run_id r' = rid" "res_run_id r = rid" "res_interrupt_id r' = res_interrupt_id r"
  shows "if waiting_on row = Some (res_interrupt_id r) then \<exists>e. resume C S tenant rid r' key' t' d = Inl e
    else if r' = r then resume C S tenant rid r' key' t' d = Inr ((record_of row t', False), d)
    else resume C S tenant rid r' key' t' d = Inl (Conflict [])"
proof (cases "waiting_on row = Some (res_interrupt_id r)")
  case True
  have id: "resolution_id_of C r' \<in> resolution_id ` set (resolutions d)"
    using assms(2,3,7-9) by (auto simp: resolution_id_of_def intro!: rev_image_eqI)
  have "\<exists>e. resume C S tenant rid r' key' t' d = Inl e"
  proof (cases "resume C S tenant rid r' key' t' d")
    case (Inr y)
    obtain run' changed d3 where y: "y = ((run', changed), d3)" by (metis surj_pair)
    from Inr [unfolded y] id True assms(6,9) show ?thesis by (cases rule: resume_Inr) auto
  qed blast
  with True show ?thesis by simp
next
  case False
  have kept: "answered_by C tenant r' d \<longleftrightarrow> r' = r"
    using answered_by_kept [OF assms(1,2), of C r' tenant] assms(3-5,7-9)
    by (auto simp: resolution_id_of_def)
  with False kept assms(6,7,9) show ?thesis by (cases "r' = r") (simp_all add: resume_def locked_def fence_def)
qed

text \<open>An answer that was taken stays on record as long as its run is there.\<close>

lemma answer_stays:
  assumes "lifecycle_laws C" "interrupt_laws C" "store_inv d"
    and "resume C S tenant rid r key t d = Inr ((run, True), d')" "(keeps_run C rid)\<^sup>*\<^sup>* d' d''"
  obtains row' k row where "found tenant rid d' = Inr row'" "awaiting row' = None" "res_run_id r = rid"
    "store_inv d''" "k \<in> set (resolutions d'')" "resolution_id k = resolution_id_of C r" "rr_tenant_id k = tenant"
    "rr_resolution k = r" "found tenant rid d'' = Inr row"
proof -
  have inv': "store_inv d'" using resuming.keeps_inv [OF assms(1-4)] .
  have rid: "res_run_id r = rid" using assms(4) by (cases rule: resume_Inr) simp_all
  from resume_effect [OF assms(1-4)] obtain row' asked n where row': "found tenant rid d' = Inr row'" "awaiting row' = None"
    and res: "resolutions d' = resolutions d @ [new_resolution C tenant rid r asked n t]" by blast
  define k where "k = new_resolution C tenant rid r asked n t"
  have k: "rr_run_id k = rid" "resolution_id k = resolution_id_of C r" "rr_tenant_id k = tenant" "rr_resolution k = r"
    by (simp_all add: k_def new_resolution_def)
  have "k \<in> set (resolutions d')" by (simp add: res k_def)
  moreover have "{k \<in> set (resolutions d'). rr_run_id k = rid} \<subseteq> set (resolutions d'')"
    using keeping_row [OF assms(5,1,2) inv'] foundD [OF row'(1)] by blast
  ultimately have "k \<in> set (resolutions d'')" using k(1) by blast
  moreover obtain row where "found tenant rid d'' = Inr row" using keeping_found [OF assms(5,1,2) inv' row'(1)] by blast
  ultimately show thesis using that row' rid k keeping_inv [OF assms(5,1,2) inv'] by blast
qed

text \<open>C4. An interrupt is answered once: whatever transactions follow the resume that answered it, retention's
  too as long as they do not delete the run, the very same resolution sent again answers the run and changes nothing, and any other
  answer to that interrupt, from anyone and at any time, is a conflict, so no second click continues a run
  twice; except that, when the run was meanwhile paused on that interrupt again, every answer to it, the same
  one too, is refused.\<close>

theorem answered_once:
  assumes "lifecycle_laws C" "interrupt_laws C" "store_inv d"
    and "resume C S tenant rid r key t d = Inr ((run, True), d')" "(keeps_run C rid)\<^sup>*\<^sup>* d' d''"
    and "res_run_id r' = res_run_id r" "res_interrupt_id r' = res_interrupt_id r"
  shows "\<exists>row. found tenant rid d'' = Inr row \<and> (d'' = d' \<longrightarrow> awaiting row = None) \<and>
    (if waiting_on row = Some (res_interrupt_id r) then \<exists>e. resume C S tenant rid r' key' t' d'' = Inl e
     else if r' = r then \<exists>run'. resume C S tenant rid r' key' t' d'' = Inr ((run', False), d'')
     else resume C S tenant rid r' key' t' d'' = Inl (Conflict []))"
proof -
  obtain row' k row where "found tenant rid d' = Inr row'" "awaiting row' = None" and rid: "res_run_id r = rid"
    and k: "store_inv d''" "k \<in> set (resolutions d'')" "resolution_id k = resolution_id_of C r" "rr_tenant_id k = tenant"
      "rr_resolution k = r" and row: "found tenant rid d'' = Inr row"
    by (rule answer_stays [OF assms(1-5)])
  moreover have "res_run_id r' = rid" using assms(6) rid by simp
  note answers_on_record [OF k row this rid assms(7), of S key' t']
  ultimately show ?thesis by (auto split: if_splits)
qed

definition demo_schemas :: schema_lib where
  "demo_schemas = \<lparr>valid_schema = (\<lambda>_. True), accepts = (\<lambda>_ _. True)\<rparr>"

definition demo_pause :: run_pause where
  "demo_pause = \<lparr>pause_interrupt = demo_interrupt, pause_checkpoint = None\<rparr>"

text \<open>A run in its caller's process that pauses, is answered, and pauses again.\<close>

definition demo_running :: db where
  "demo_running = empty_db\<lparr>runs := [new_row demo_start False 0]\<rparr>"

definition demo_paused_row :: "run_row \<Rightarrow> instant \<Rightarrow> run_row" where
  "demo_paused_row r t = (moved demo_contracts r PAUSED t)\<lparr>checkpoint := None, awaiting := Some demo_interrupt,
     assignee := None, awaiting_deadline := Some 5000000, settled_by := None\<rparr>"

definition demo_paused :: db where
  "demo_paused = demo_running\<lparr>runs := [demo_paused_row (new_row demo_start False 0) 1]\<rparr>"

definition demo_resumed_row :: run_row where
  "demo_resumed_row = resumed_row demo_contracts (demo_paused_row (new_row demo_start False 0) 1) demo_resolution 2"

definition demo_resumed :: db where
  "demo_resumed = demo_paused\<lparr>runs := [demo_resumed_row],
     resolutions := [new_resolution demo_contracts ''acme'' ''run_1'' demo_resolution demo_interrupt 1 2]\<rparr>"

lemma demo_running_inv: "store_inv demo_running"
proof -
  have "\<exists>x. start demo_start False 0 True empty_db = Inr (x, demo_running)"
    by (auto simp: start_def Let_def empty_db_def demo_running_def)
  then show ?thesis using starting.keeps_inv [OF demo_laws(1,2) store_inv_empty] by blast
qed

lemma demo_pausing:
  "pause demo_contracts demo_schemas ''acme'' ''run_1'' demo_pause None 1 demo_running =
     Inr ((record_of (demo_paused_row (new_row demo_start False 0) 1) 1, True), demo_paused)"
  by (simp add: pause_def Let_def locked_def found_def one_def fence_def settled_def cancelled_instead_def
      move_def demo_paused_row_def demo_paused_def demo_running_def empty_db_def new_row_def demo_start_def
      demo_pause_def demo_interrupt_def schema_problem_def save_def put_row_def)

lemma demo_paused_inv: "store_inv demo_paused"
  using pausing.keeps_inv [OF demo_laws(1,2) demo_running_inv demo_pausing] .

lemma demo_resuming:
  "resume demo_contracts demo_schemas ''acme'' ''run_1'' demo_resolution demo_key 2 demo_paused =
     Inr ((record_of demo_resumed_row 2, True), demo_resumed)"
  by (simp add: resume_def Let_def locked_def found_def one_def fence_def waiting_on_def
      move_def demo_paused_row_def demo_paused_def demo_running_def empty_db_def new_row_def demo_start_def
      demo_interrupt_def demo_resolution_def save_def put_row_def require_may_answer_def ADMINISTERING_ROLES_def
      demo_key_def answer_problem_def add_resolution_def new_resolution_def ended_def expire_with_def
      demo_resumed_def demo_resumed_row_def resumed_row_def resumed_status_def)

lemma resume_effect_witness:
  "\<exists>row'. found ''acme'' ''run_1'' demo_resumed = Inr row' \<and> last_resolution row' = Some demo_resolution"
  using resume_effect [OF demo_laws(1,2) demo_paused_inv demo_resuming] by blast

theorem answered_once_witness:
  "\<exists>e. resume demo_contracts demo_schemas ''acme'' ''run_1'' (demo_resolution\<lparr>res_decision := REJECT\<rparr>) demo_key 3
     demo_resumed = Inl e"
  using answered_once [OF demo_laws(1,2) demo_paused_inv demo_resuming rtranclp.rtrancl_refl,
      of "demo_resolution\<lparr>res_decision := REJECT\<rparr>" demo_key 3]
  by (auto simp: demo_resolution_def split: if_splits)


definition demo_asked_again :: db where
  "demo_asked_again = demo_resumed\<lparr>runs := [demo_paused_row demo_resumed_row 3]\<rparr>"

lemma demo_pausing_again:
  "pause demo_contracts demo_schemas ''acme'' ''run_1'' demo_pause None 3 demo_resumed =
     Inr ((record_of (demo_paused_row demo_resumed_row 3) 3, True), demo_asked_again)"
  by (simp add: pause_def Let_def locked_def found_def one_def fence_def settled_def cancelled_instead_def
      move_def demo_paused_row_def demo_paused_def demo_running_def empty_db_def new_row_def demo_start_def
      demo_pause_def demo_interrupt_def schema_problem_def save_def put_row_def demo_resumed_def
      demo_resumed_row_def resumed_row_def resumed_status_def demo_resolution_def demo_asked_again_def)


section \<open>Starting with a key\<close>

text \<open>A start whose idempotency key a run of the tenant already has never makes another run: it
  answers that run, or, when it asks for something else, it is a conflict that names the fields
  that differ.\<close>

lemma start_with_used_key:
  assumes "store_inv d" "r \<in> set (runs d)" "tenant_id r = rs_tenant_id s"
    and "rs_idempotency_key s = Some k" "k \<noteq> []" "idempotency_key r = Some k"
  shows "start s queue now strict d =
    (let diff = differing (record_of r now) s queue (queued_at r \<noteq> None)
     in if strict \<and> diff \<noteq> [] then Inl (Conflict diff) else Inr ((record_of r now, False), d))"
  using start_keyed [OF assms] .

text \<open>The empty idempotency key is kept and unique but never looked up: a start that sends it
  again, as a client retrying the start that sent no run id does (another id is minted), is refused
  instead of being answered with the run the key started.\<close>

lemma start_with_empty_key:
  assumes "store_inv d" "r \<in> set (runs d)" "tenant_id r = rs_tenant_id s"
    and "rs_idempotency_key s = Some []" "idempotency_key r = Some []"
    and "\<forall>x\<in>set (runs d). run_id x \<noteq> rs_run_id s"
  shows "start s queue now strict d = Inl (Conflict [])"
proof -
  have "collides (new_row s queue now) r"
    using assms(3-5) by (simp add: collides_def same_idempotency_def new_row_def)
  then have "\<exists>x\<in>set (runs d). collides (new_row s queue now) x" using assms(2) by blast
  moreover have "find (\<lambda>x. tenant_id x = rs_tenant_id s \<and> run_id x = rs_run_id s) (runs d) = None"
    using assms(6) by (auto simp: find_None_iff)
  ultimately show ?thesis using assms(4) by (simp add: start_def one_def Let_def truthy_def)
qed

section \<open>Retries and lapses\<close>

text \<open>A worker that ends its run with a retryable error: up to three times the run goes back on the
  queue instead, as the next attempt, held back by a wait that is positive and no longer than the
  doubled backoff; the fourth time the error stands, saying how often the run was retried.\<close>

lemma retryable_error_retried:
  assumes "lifecycle_laws C" "interrupt_laws C" "store_inv d" "found tenant rid d = Inr r"
    and "lease_owner r = Some w" "cancel_requested_at r = None"
    and "fin_status e = ERROR" "fin_error e = Some err" "ae_retryable err" "0 \<le> u" "u \<le> 1 / 2"
  shows "\<exists>r' d'. finish_run C u tenant rid e (Some w) now d = Inr ((record_of r' now, True), d') \<and>
    found tenant rid d' = Inr r' \<and>
    (if error_retries r < 3
     then status r' = QUEUED \<and> attempt r' = attempt r + 1 \<and> error_retries r' = error_retries r + 1 \<and>
       (\<exists>t. available_at r' = Some t \<and> now < t \<and>
            t \<le> now + backoff ERROR_RETRY_BASE (error_retries r + 1) ERROR_RETRY_CAP)
     else status r' = ERROR \<and> run_error r' = Some (err\<lparr>ae_message := Counted (ae_message err) 3\<rparr>))"
proof -
  have ok: "row_ok r" using foundD [OF assms(4)] store_invD(2) [OF assms(3)] by blast
  with assms(5) have r: "status r = RUNNING" "queued_at r \<noteq> None" "error_retries r \<le> 3"
    by (auto simp: row_ok_defs MAX_ERROR_RETRIES_def)
  have e: "is_an_ending C e" using assms(1,7,8) by (simp add: is_an_ending_def)
  let ?q = "retried_row C u r (Some w) now" and ?x = "ended_row C r e (Some w) now"
  have retry: "retried r e \<longleftrightarrow> error_retries r < 3"
    using r assms(6-9) by (auto simp: retried_def MAX_ERROR_RETRIES_def)
  show ?thesis
  proof (cases "error_retries r < 3")
    case True
    have "row_evolves r ?q" using row_evolves_retried [OF ok assms(1)] retry True assms(1) r(1) by auto
    note fd = found_saved(1) [OF assms(3,4) this]
    have "finish_run C u tenant rid e (Some w) now d = Inr ((record_of ?q now, True), save ?q d)"
      using assms r e retry True
      by (simp add: finish_run_def finish_def Let_def locked_def fence_def settled_def requeue_def move_def
          retried_row_def)
    with fd True err.jittered_positive [OF assms(10,11), of "error_retries r + 1"]
      err.jittered_within(2) [OF assms(10,11), of "error_retries r + 1"]
    show ?thesis by (intro exI [of _ ?q] exI [of _ "save ?q d"]) (auto simp: retried_row_def)
  next
    case False
    have "row_evolves r ?x" using row_evolves_finished [OF ok assms(1) _ e] r(1) assms(1,7) by auto
    note fd = found_saved(2) [OF assms(3,4) this]
    have "finish_run C u tenant rid e (Some w) now d =
        Inr ((record_of ?x now, True), ended C [?x] now (save ?x d))"
      using assms r e retry False
      by (simp add: finish_run_def finish_def Let_def locked_def fence_def settled_def move_def ended_row_def)
    with fd False r(3) assms(7,8) show ?thesis
      by (intro exI [of _ ?x] exI [of _ "ended C [?x] now (save ?x d)"]) (auto simp: ended_row_def counted_def)
  qed
qed

definition demo_failure :: run_finish where
  "demo_failure = \<lparr>fin_status = ERROR, fin_output = JNull, fin_error =
     Some \<lparr>ae_code = ''dependency'', ae_category = Dependency, ae_message = Text ''down'', ae_retryable = True,
           ae_source = None, ae_rest = JNull\<rparr>\<rparr>"

lemma demo_leased_found: "found ''acme'' ''run_1'' demo_leased = Inr demo_leased_row"
  by (simp add: found_def one_def demo_leased_def demo_leased_row_def new_row_def demo_start_def)

lemma retryable_error_retried_witness:
  "\<exists>r' d'. finish_run demo_contracts (1 / 4) ''acme'' ''run_1'' demo_failure (Some ''w1'') 9 demo_leased =
     Inr ((record_of r' 9, True), d') \<and> status r' = QUEUED"
  using retryable_error_retried [OF demo_laws(1,2) demo_leased_inv demo_leased_found, of "''w1''" demo_failure _ "1 / 4" 9]
  by (auto simp: demo_leased_row_def new_row_def demo_failure_def)

text \<open>What becomes of a run whose lease lapsed: cancelled, if its cancel was asked for; ended with
  \<open>lease_expired\<close> at its fifth lapse; otherwise back on the queue as the next attempt, after a
  positive wait no longer than the backoff. No worker holds it any more in any case.\<close>

lemma lapse_outcome:
  assumes "lifecycle_laws C" "row_ok r" "status r = RUNNING" "0 \<le> u" "u \<le> 1 / 2"
  shows "\<exists>r'. lapse_row C u now r = Inr r' \<and> run_id r' = run_id r \<and> lease_owner r' = None \<and>
    (if cancel_requested_at r \<noteq> None then status r' = CANCELLED \<and> lease_lapses r' = lease_lapses r
     else lease_lapses r' = lease_lapses r + 1 \<and>
       (if lease_lapses r + 1 = 5
        then status r' = ERROR \<and> run_error r' = Some (lease_expired_error C 5)
        else status r' = QUEUED \<and> lease_lapses r' < 5 \<and> attempt r' = attempt r + 1 \<and>
          (\<exists>t. available_at r' = Some t \<and> now < t \<and>
               t \<le> now + backoff LAPSE_RETRY_BASE (lease_lapses r + 1) LAPSE_RETRY_CAP)))"
proof -
  have "lease_lapses r < 5" using row_ok_live(3) [OF assms(2)] assms(3) by (simp add: MAX_LEASE_LAPSES_def)
  then show ?thesis
    using assms lapse.jittered_positive [OF assms(4,5), of "lease_lapses r + 1"]
      lapse.jittered_within(2) [OF assms(4,5), of "lease_lapses r + 1"]
    by (cases "cancel_requested_at r = None"; cases "lease_lapses r = 4")
      (auto simp: lapse_row_def cancelled_instead_def move_def requeue_def Let_def MAX_LEASE_LAPSES_def)
qed

lemma lapse_outcome_witness:
  "\<exists>r'. lapse_row demo_contracts 0 70000000 demo_leased_row = Inr r' \<and> status r' = QUEUED"
proof -
  have "row_ok demo_leased_row" using demo_leased_inv by (simp add: store_inv_def demo_leased_def)
  from lapse_outcome [OF demo_laws(1) this, of 0 70000000] show ?thesis
    by (auto simp: demo_leased_row_def new_row_def)
qed

section \<open>Sweeps\<close>

text \<open>The sweep of lapsed leases never fails, and with room for the runs that lapsed it leaves none
  behind: after it, a running run whose lease is over is one another transaction was holding.\<close>

lemma lapses_swept:
  assumes "lifecycle_laws C" "store_inv d"
  shows "\<exists>answered d'. requeue_lapsed C u busy now limit d = Inr (answered, d') \<and>
    (length (filter (\<lambda>r. status r = RUNNING \<and> sql_less (lease_expires_at r) now) (runs d)) \<le> limit \<longrightarrow>
     (\<forall>r\<in>set (runs d'). status r = RUNNING \<and> sql_less (lease_expires_at r) now \<longrightarrow> busy (run_id r)))"
proof -
  let ?c = "\<lambda>r. status r = RUNNING \<and> sql_less (lease_expires_at r) now"
  let ?f = "\<lambda>r. lapse_row C (u (run_id r)) now r"
  have gone: "run_id r' = run_id r \<and> \<not> ?c r'" if "row_ok r" "?c r" "?f r = Inr r'" for r r'
  proof -
    have "lease_owner r \<noteq> None" using that(1,2) by (auto simp: row_ok_defs sql_less_def split: option.splits)
    from row_evolves_lapsed [OF that(1) assms(1) _ this that(3)] that(2) have "row_evolves r r'" by blast
    moreover have "status r' \<noteq> RUNNING"
      using that(2,3) assms(1) by (auto simp: lapse_row_def cancelled_instead_def requeue_Inr_iff Let_def split: if_splits)
    ultimately show ?thesis by auto
  qed
  have "\<exists>x d'. swept C ?f (sweep busy ?c (\<lambda>r. nulls_last (lease_expires_at r)) limit d) now d = Inr (x, d')"
    by (rule swept_succeeds [OF assms(2)]) (auto intro: lapse_row_Inr assms(1))
  then obtain x d' where run: "swept C ?f (sweep busy ?c (\<lambda>r. nulls_last (lease_expires_at r)) limit d) now d = Inr (x, d')"
    by blast
  from swept_complete [OF assms(2) run _ gone] run show ?thesis
    unfolding requeue_lapsed_def by blast
qed

lemma lapses_swept_witness: "\<exists>answered d'. requeue_lapsed demo_contracts (\<lambda>_. 0) (\<lambda>_. False) 70000000 100 demo_leased = Inr (answered, d')"
  using lapses_swept [OF demo_laws(1) demo_leased_inv, of "\<lambda>_. 0" "\<lambda>_. False" 70000000 100] by blast

lemma timed_out_gone:
  assumes "bind_result (move C r TIMEOUT now) (\<lambda>r. Inr (r\<lparr>run_error := e r\<rparr>)) = Inr r'"
  shows "run_id r' = run_id r \<and> status r' = TIMEOUT"
  using assms by auto

text \<open>The two sweeps of time limits never fail, and with room for them leave behind no run past its
  deadline that has not ended, and no running run past its working time, but those another
  transaction was holding.\<close>

lemma time_limits_swept:
  assumes "lifecycle_laws C" "store_inv d"
  shows "(\<exists>answered d'. time_out_past_deadline C busy now limit d = Inr (answered, d') \<and>
      (length (filter (\<lambda>r. status r \<in> {QUEUED, RUNNING, PAUSED} \<and> sql_less (deadline r) now) (runs d)) \<le> limit \<longrightarrow>
       (\<forall>r\<in>set (runs d'). \<not> documented_final (status r) \<and> sql_less (deadline r) now \<longrightarrow> busy (run_id r)))) \<and>
    (\<exists>answered d'. time_out_overworked C L busy now limit d = Inr (answered, d') \<and>
      (length (filter (\<lambda>r. status r = RUNNING \<and> working_past L now r) (runs d)) \<le> limit \<longrightarrow>
       (\<forall>r\<in>set (runs d'). status r = RUNNING \<and> working_past L now r \<longrightarrow> busy (run_id r))))"
proof
  let ?c = "\<lambda>r. status r \<in> {QUEUED, RUNNING, PAUSED} \<and> sql_less (deadline r) now"
  let ?f = "\<lambda>row. bind_result (move C row TIMEOUT now) (\<lambda>row. Inr (row\<lparr>run_error := Some (run_deadline_error (deadline row))\<rparr>))"
  have "\<exists>x d'. swept C ?f (sweep busy ?c (\<lambda>r. nulls_last (deadline r)) limit d) now d = Inr (x, d')"
    by (rule swept_succeeds [OF assms(2)]) (use assms(1) in \<open>auto simp: move_def\<close>)
  then obtain x d' where run: "swept C ?f (sweep busy ?c (\<lambda>r. nulls_last (deadline r)) limit d) now d = Inr (x, d')"
    by blast
  have "run_id r' = run_id r \<and> \<not> ?c r'" if "?f r = Inr r'" for r r' using timed_out_gone [OF that] by simp
  from swept_complete [OF assms(2) run _ this] run
  show "\<exists>answered d'. time_out_past_deadline C busy now limit d = Inr (answered, d') \<and>
      (length (filter ?c (runs d)) \<le> limit \<longrightarrow>
       (\<forall>r\<in>set (runs d'). \<not> documented_final (status r) \<and> sql_less (deadline r) now \<longrightarrow> busy (run_id r)))"
    unfolding time_out_past_deadline_def documented_final_iff by blast
next
  let ?c = "\<lambda>r. status r = RUNNING \<and> working_past L now r"
  let ?f = "\<lambda>row. bind_result (move C row TIMEOUT now) (\<lambda>row.
      Inr (row\<lparr>run_error := Some (run_timeout_error (worked_seconds row) (limit_of L row))\<rparr>))"
  have "\<exists>x d'. swept C ?f (sweep busy ?c (\<lambda>r. nulls_last (running_since r)) limit d) now d = Inr (x, d')"
    by (rule swept_succeeds [OF assms(2)]) (use assms(1) in \<open>auto simp: move_def\<close>)
  then obtain x d' where run: "swept C ?f (sweep busy ?c (\<lambda>r. nulls_last (running_since r)) limit d) now d = Inr (x, d')"
    by blast
  have "run_id r' = run_id r \<and> \<not> ?c r'" if "?f r = Inr r'" for r r' using timed_out_gone [OF that] by simp
  from swept_complete [OF assms(2) run _ this] run
  show "\<exists>answered d'. time_out_overworked C L busy now limit d = Inr (answered, d') \<and>
      (length (filter ?c (runs d)) \<le> limit \<longrightarrow>
       (\<forall>r\<in>set (runs d'). status r = RUNNING \<and> working_past L now r \<longrightarrow> busy (run_id r)))"
    unfolding time_out_overworked_def by blast
qed

text \<open>A question nobody answered in time goes to whoever it names to escalate to, once (the new
  question has no deadline and names nobody further), or ends the run as \<open>TIMEOUT\<close>; the sweep never
  fails, and with room for them leaves no overdue question behind but those another transaction was
  holding.\<close>

lemma overdue_escalated:
  assumes "lifecycle_laws C" "interrupt_laws C" "store_inv d"
  shows "(\<forall>r\<in>set (runs d). status r = PAUSED \<longrightarrow> (\<exists>i r'. awaiting r = Some i \<and> escalate_row C now r = Inr r' \<and>
      (if truthy (i_escalate_to i)
       then status r' = PAUSED \<and> assignee r' = i_escalate_to i \<and> awaiting_deadline r' = None \<and>
         (\<exists>j. awaiting r' = Some j \<and> i_interrupt_id j = i_interrupt_id i \<and> i_assignee j = i_escalate_to i \<and>
              i_escalate_to j = None \<and> i_deadline j = None)
       else status r' = TIMEOUT \<and> run_error r' = Some (interrupt_deadline_error C (i_deadline i))))) \<and>
    (\<exists>answered d'. escalate_overdue C busy now limit d = Inr (answered, d') \<and>
      (length (filter (\<lambda>r. status r = PAUSED \<and> sql_less (awaiting_deadline r) now) (runs d)) \<le> limit \<longrightarrow>
       (\<forall>r\<in>set (runs d'). status r = PAUSED \<and> sql_less (awaiting_deadline r) now \<longrightarrow> busy (run_id r))))"
proof -
  let ?c = "\<lambda>r. status r = PAUSED \<and> sql_less (awaiting_deadline r) now"
  let ?f = "escalate_row C now"
  have waiting: "\<exists>i. awaiting r = Some i" if "row_ok r" "status r = PAUSED" for r
    using that by (auto simp: row_ok_defs)
  have outcome: "\<exists>i r'. awaiting r = Some i \<and> ?f r = Inr r' \<and>
      (if truthy (i_escalate_to i)
       then status r' = PAUSED \<and> assignee r' = i_escalate_to i \<and> awaiting_deadline r' = None \<and>
         (\<exists>j. awaiting r' = Some j \<and> i_interrupt_id j = i_interrupt_id i \<and> i_assignee j = i_escalate_to i \<and>
              i_escalate_to j = None \<and> i_deadline j = None)
       else status r' = TIMEOUT \<and> run_error r' = Some (interrupt_deadline_error C (i_deadline i)))"
    if r: "row_ok r" "status r = PAUSED" for r
  proof -
    from waiting [OF r] obtain i where "awaiting r = Some i" ..
    with r(2) assms(1,2) show ?thesis
      by (cases "truthy (i_escalate_to i)") (auto simp: escalate_row_def Let_def move_def)
  qed
  have "\<exists>x d'. swept C ?f (sweep busy ?c (\<lambda>r. nulls_last (awaiting_deadline r)) limit d) now d = Inr (x, d')"
    using outcome by (intro swept_succeeds [OF assms(3)]) blast
  then obtain x d' where run: "swept C ?f (sweep busy ?c (\<lambda>r. nulls_last (awaiting_deadline r)) limit d) now d = Inr (x, d')"
    by blast
  have "run_id r' = run_id r \<and> \<not> ?c r'" if r: "row_ok r" "?c r" "?f r = Inr r'" for r r'
  proof -
    have "row_evolves r r'" using row_evolves_escalated [OF r(1) assms(1,2) _ r(3)] r(2) by blast
    moreover have "\<not> ?c r'" using outcome [of r] r by (auto simp: sql_less_def split: if_splits)
    ultimately show ?thesis by auto
  qed
  from swept_complete [OF assms(3) run _ this] run outcome store_invD(2) [OF assms(3)] show ?thesis
    unfolding escalate_overdue_def by blast
qed

lemma overdue_escalated_witness:
  "\<exists>answered d'. escalate_overdue demo_contracts (\<lambda>_. False) 5000001 100 demo_paused = Inr (answered, d')"
  using overdue_escalated [OF demo_laws(1,2) demo_paused_inv, of 5000001 "\<lambda>_. False" 100] by blast

text \<open>Retention deletes only what it may: runs that ended, last changed before the cutoff, and no
  artifact of which is still kept, with their answers and events and nothing else; it never fails
  and never takes more than its limit.\<close>

lemma purge_deletes_only_ended:
  assumes "lifecycle_laws C" "store_inv d"
  shows "\<exists>n d'. purge_ended C busy before limit d = Inr (n, d') \<and> n \<le> limit \<and> store_inv d' \<and>
    set (runs d') \<subseteq> set (runs d) \<and> run_artifacts d' = run_artifacts d \<and>
    (\<forall>r\<in>set (runs d) - set (runs d'). documented_final (status r) \<and> updated_at r < before \<and>
       (\<forall>a\<in>set (run_artifacts d). art_run_id a \<noteq> run_id r)) \<and>
    set (resolutions d') = {k \<in> set (resolutions d). rr_run_id k \<in> run_id ` set (runs d')} \<and>
    set (run_events d') = {e \<in> set (run_events d). re_run_id e \<in> run_id ` set (runs d')}"
proof -
  define gone where "gone = query (\<lambda>r. final C (status r) \<and> updated_at r < before \<and>
      \<not> (\<exists>a\<in>set (run_artifacts d). art_run_id a = run_id r) \<and> \<not> busy (run_id r)) updated_at limit (runs d)"
  have q: "r \<in> set (runs d)" "documented_final (status r)" "updated_at r < before"
    "\<forall>a\<in>set (run_artifacts d). art_run_id a \<noteq> run_id r" if "r \<in> set gone" for r
    using in_queryD [OF that [unfolded gone_def]] assms(1) by auto
  then have free: "\<not> (\<exists>a\<in>set (run_artifacts d). art_run_id a \<in> run_id ` set gone)" by blast
  define d' where "d' = d\<lparr>resolutions := filter (\<lambda>k. rr_run_id k \<notin> run_id ` set gone) (resolutions d),
      runs := filter (\<lambda>r. run_id r \<notin> run_id ` set gone) (runs d),
      run_events := filter (\<lambda>e. re_run_id e \<notin> run_id ` set gone) (run_events d)\<rparr>"
  have run: "purge_ended C busy before limit d = Inr (length gone, d')"
    unfolding purge_ended_def Let_def set_map length_map gone_def [symmetric] if_not_P [OF free] d'_def ..
  have p: "purges d d'" by (rule purge_purges [OF assms run])
  have "r \<in> set gone" if "r \<in> set (runs d)" "r \<notin> set (runs d')" for r
  proof -
    from that obtain g where "g \<in> set gone" "run_id r = run_id g" by (auto simp: d'_def)
    with q(1) run_id_unique [OF assms(2) that(1)] show ?thesis by metis
  qed
  with q have "\<forall>r\<in>set (runs d) - set (runs d'). documented_final (status r) \<and> updated_at r < before \<and>
       (\<forall>a\<in>set (run_artifacts d). art_run_id a \<noteq> run_id r)" by blast
  moreover have "length gone \<le> limit" by (simp add: gone_def length_query)
  ultimately show ?thesis using run p purges_inv [OF p assms(2)] unfolding purges_def by blast
qed

lemma purge_deletes_only_ended_witness:
  "\<exists>n d'. purge_ended demo_contracts (\<lambda>_. False) 5 10 demo_leased = Inr (n, d') \<and> n \<le> 10"
  using purge_deletes_only_ended [OF demo_laws(1) demo_leased_inv, of "\<lambda>_. False" 5 10] by blast

section \<open>Leases and working time\<close>

text \<open>A cancel asked of a running run reaches its worker within one lease: from then on every
  heartbeat says so, and none makes the lease last beyond the request by more than the lease the
  worker asks for, however often it is sent.\<close>

lemma cancel_bounds_the_lease:
  assumes "store_inv d" "found tenant rid d = Inr r" "cancel_requested_at r = Some t"
    and "heartbeat L tenant rid hb now d = Inr (l, d')"
  shows "cancel_requested l \<and> lease_until l = t + timedelta_seconds (hb_lease_seconds hb) \<and>
    (\<exists>r'. found tenant rid d' = Inr r' \<and> cancel_requested_at r' = Some t \<and>
          lease_expires_at r' = Some (t + timedelta_seconds (hb_lease_seconds hb)))"
proof -
  from assms(4) obtain q r0 row where h: "found tenant rid d = Inr q" "lease_owner q = Some (hb_worker_id hb)"
    "status q = RUNNING"
    "r0 = (if hb_checkpoint hb \<noteq> None then q\<lparr>checkpoint := hb_checkpoint hb, updated_at := now\<rparr> else q)"
    "lease_row L r0 (hb_worker_id hb) (hb_lease_seconds hb) now = (row, l)" "d' = save row d"
    by (rule heartbeat_Inr)
  from h(1) assms(2) have q: "q = r" by simp
  have "row_evolves q row"
    using row_evolves_heartbeat [OF _ h(3,2,4,5)] store_invD(2) [OF assms(1)] foundD [OF h(1)] by blast
  from found_saved(1) [OF assms(1) h(1) this] h(6) have "found tenant rid d' = Inr row" by simp
  moreover have "cancel_requested_at r0 = Some t" using h(4) q assms(3) by simp
  ultimately show ?thesis using h(5) by (auto simp: lease_row_def Let_def)
qed

text \<open>C38. The sweep's SQL and the lease's arithmetic agree on when a run has worked too long: a row is
  selected exactly when its working time passes the lesser of its own limit and the service's, and its
  lease then says no time is left; any other lease says the time left. Only a clock behind the run's start can part them
  (the SQL then counts a negative stretch and the lease none), and only for a run that was past its limit
  before that start: the sweep passes it over although its lease says no time is left.\<close>

theorem overworked_iff:
  assumes "running_since r = Some since" "lease_row L r w secs now = (r', l)"
  shows "(working_past L now r \<longrightarrow> (\<exists>a. limit_of L r = Some a \<and> a < worked r now) \<and> remaining_seconds l = Some 0) \<and>
    (\<forall>a. limit_of L r = Some a \<and> a < worked r now \<and> \<not> working_past L now r \<longrightarrow>
       now < since \<and> a < worked_seconds r \<and> remaining_seconds l = Some 0) \<and>
    (\<forall>a. limit_of L r = Some a \<and> \<not> a < worked r now \<longrightarrow> remaining_seconds l = Some (a - worked r now)) \<and>
    (limit_of L r = None \<longrightarrow> remaining_seconds l = None)"
proof -
  have "limit_of L (r\<lparr>lease_owner := Some w, lease_expires_at := e\<rparr>) = limit_of L r"
    "worked (r\<lparr>lease_owner := Some w, lease_expires_at := e\<rparr>) now = worked r now" for e
    by (auto simp: limit_of_def worked_def split: option.split)
  with assms(2) have l: "remaining_seconds l = map_option (\<lambda>a. max 0 (a - worked r now)) (limit_of L r)"
    by (auto simp: lease_row_def Let_def split: option.splits)
  have same: "allowed_seconds L r = limit_of L r"
    by (auto simp: allowed_seconds_def limit_of_def split: option.split)
  have past: "working_past L now r \<longleftrightarrow> (\<exists>a. limit_of L r = Some a \<and> a < worked_seconds r + total_seconds (now - since))"
    using assms(1) by (auto simp: working_past_def same split: option.splits)
  have worked: "worked r now = worked_seconds r + max 0 (total_seconds (now - since))" using assms(1) by (simp add: worked_def)
  show ?thesis
  proof (cases "since \<le> now")
    case True
    then have "0 \<le> total_seconds (now - since)" by simp
    with l past worked show ?thesis by (auto simp: max_def)
  next
    case False
    then have "total_seconds (now - since) < 0" using total_seconds_nonneg [of "now - since"] by linarith
    with l past worked False show ?thesis by (auto simp: max_def)
  qed
qed

theorem overworked_iff_witness:
  "\<exists>l r'. lease_row demo_limits demo_leased_row ''w1'' 60 70000001 = (r', l) \<and>
     (working_past demo_limits 70000001 demo_leased_row \<longrightarrow> remaining_seconds l = Some 0)"
proof -
  obtain r' l where l: "lease_row demo_limits demo_leased_row ''w1'' 60 70000001 = (r', l)" by fastforce
  from overworked_iff [OF _ l, of 1] l show ?thesis by (simp add: demo_leased_row_def)
qed

end
