(* ===== verification/Run_Routes.thy ===== *)
theory Run_Routes
  imports Ticker Access Run_Reads Store_Properties
begin

text \<open>
  \<open>src/agent_runs/api/routers/runs.py\<close>: the run routes over the service's state. A route runs in one
  transaction: what it raises, or a commit the database does not take (\<open>commits\<close> false), leaves the
  state as it was. A commit that took while its answer was lost is a committed one here: these routes do nothing after
  their commit, so only the caller is not told, and sends again (theory \<open>Retries\<close>). A route that changes a run
  announces it in the same transaction. The parsed and
  validated body, the ids of the path and the authenticated caller are its arguments, \<open>now\<close> the instant
  it reads once.
\<close>

record settings =
  max_payload_bytes :: int
  run_limits :: store_limits

text \<open>What a route answers: the status, the \<open>Location\<close> when one is set, the body.\<close>

record 'a answer =
  an_status :: int
  an_location :: "string option"
  an_body :: 'a

definition ok :: "'a \<Rightarrow> 'a answer" where
  "ok x = \<lparr>an_status = 200, an_location = None, an_body = x\<rparr>"

definition transact :: "bool \<Rightarrow> (service \<Rightarrow> ('a \<times> service) result) \<Rightarrow> service \<Rightarrow> 'a result \<times> service" where
  "transact commits f s =
     (case f s of
        Inl e \<Rightarrow> (Inl e, s)
      | Inr (x, s') \<Rightarrow> if commits then (Inr x, s') else (Inl (Unavailable True RETRY_AFTER_SECONDS), s))"

definition on_store :: "(db \<Rightarrow> ('a \<times> db) result) \<Rightarrow> ('a \<Rightarrow> 'b) \<Rightarrow> service \<Rightarrow> ('b \<times> service) result" where
  "on_store f g s = bind_result (f (store s)) (\<lambda>(x, d). Inr (g x, s\<lparr>store := d\<rparr>))"

definition on_announced ::
  "contracts \<Rightarrow> instant \<Rightarrow> (db \<Rightarrow> ((run_record \<times> bool) \<times> db) result) \<Rightarrow> service \<Rightarrow> (run_record answer \<times> service) result" where
  "on_announced C now f s =
     bind_result (f (store s)) (\<lambda>((run, changed), d).
       Inr (ok run, s\<lparr>store := d, box := (if changed then announce C run None now (box s) else box s)\<rparr>))"

section \<open>The routes\<close>

definition RUNS_PREFIX :: string where
  "RUNS_PREFIX = ''/v1/runs''"

definition start_route ::
  "settings \<Rightarrow> bool \<Rightarrow> caller \<Rightarrow> run_start \<Rightarrow> bool \<Rightarrow> instant \<Rightarrow> service \<Rightarrow> run_record answer result \<times> service" where
  "start_route st commits who body queue now =
     transact commits (\<lambda>s.
       bind_result (require_tenant who (rs_tenant_id body)) (\<lambda>_.
       bind_result (require_may_act_for who (rs_on_behalf_of body)) (\<lambda>_.
       bind_result (bounded_payload (rs_input body) (max_payload_bytes st)) (\<lambda>_.
         on_store (start body queue now True)
           (\<lambda>(run, created).
              if created then \<lparr>an_status = 201, an_location = Some (RUNS_PREFIX @ ''/'' @ rec_run_id run), an_body = run\<rparr>
              else ok run) s))))"

definition claim_route ::
  "contracts \<Rightarrow> settings \<Rightarrow> bool \<Rightarrow> claim_env \<Rightarrow> claimer \<Rightarrow> claim_request \<Rightarrow> instant \<Rightarrow> service \<Rightarrow>
   (run_record \<times> lease) option answer result \<times> service" where
  "claim_route C st commits E who body now =
     transact commits (on_store (claim C (run_limits st) E (claim_tenant who) body now)
       (\<lambda>claimed. (ok claimed)\<lparr>an_status := (if claimed = None then 204 else 200)\<rparr>))"

definition heartbeat_route ::
  "settings \<Rightarrow> bool \<Rightarrow> caller \<Rightarrow> string \<Rightarrow> heartbeat_request \<Rightarrow> instant \<Rightarrow> service \<Rightarrow> lease answer result \<times> service" where
  "heartbeat_route st commits who rid body now =
     transact commits (on_store (heartbeat (run_limits st) (acting_tenant who) rid body now) ok)"

definition release_route ::
  "contracts \<Rightarrow> bool \<Rightarrow> caller \<Rightarrow> string \<Rightarrow> release_request \<Rightarrow> instant \<Rightarrow> service \<Rightarrow> run_record answer result \<times> service" where
  "release_route C commits who rid body now =
     transact commits (on_announced C now (release C (acting_tenant who) rid body now))"

definition pause_route ::
  "contracts \<Rightarrow> schema_lib \<Rightarrow> bool \<Rightarrow> caller \<Rightarrow> string \<Rightarrow> run_pause \<Rightarrow> string option \<Rightarrow> instant \<Rightarrow> service \<Rightarrow>
   run_record answer result \<times> service" where
  "pause_route C S commits who rid body worker_id now =
     transact commits (on_announced C now (pause C S (acting_tenant who) rid body worker_id now))"

definition resume_route ::
  "contracts \<Rightarrow> schema_lib \<Rightarrow> bool \<Rightarrow> caller \<Rightarrow> string \<Rightarrow> interrupt_resolution \<Rightarrow> instant \<Rightarrow> service \<Rightarrow>
   run_record answer result \<times> service" where
  "resume_route C S commits who rid body now =
     transact commits (on_announced C now (resume C S (acting_tenant who) rid body (credential who) now))"

definition cancel_route ::
  "contracts \<Rightarrow> bool \<Rightarrow> caller \<Rightarrow> string \<Rightarrow> string option \<Rightarrow> instant \<Rightarrow> service \<Rightarrow> run_record answer result \<times> service" where
  "cancel_route C commits who rid reason now =
     transact commits (on_announced C now (cancel C (acting_tenant who) rid reason (credential who) now))"

text \<open>\<open>u\<close> is the jitter of a retry's wait.\<close>

definition finish_route ::
  "contracts \<Rightarrow> settings \<Rightarrow> rat \<Rightarrow> bool \<Rightarrow> caller \<Rightarrow> string \<Rightarrow> run_finish \<Rightarrow> string option \<Rightarrow> instant \<Rightarrow> service \<Rightarrow>
   run_record answer result \<times> service" where
  "finish_route C st u commits who rid body worker_id now =
     transact commits (\<lambda>s.
       bind_result (bounded_payload (fin_output body) (max_payload_bytes st)) (\<lambda>_.
         on_announced C now (finish_run C u (acting_tenant who) rid body worker_id now) s))"

definition append_events_route ::
  "bool \<Rightarrow> caller \<Rightarrow> string \<Rightarrow> run_event list \<Rightarrow> string option \<Rightarrow> service \<Rightarrow> (nat \<times> int) answer result \<times> service" where
  "append_events_route commits who rid body worker_id =
     transact commits (on_store (append_events (acting_tenant who) rid body worker_id) ok)"

definition get_route :: "caller \<Rightarrow> string \<Rightarrow> instant \<Rightarrow> service \<Rightarrow> run_record answer result" where
  "get_route who rid now s = bind_result (get_run (acting_tenant who) rid now (store s)) (\<lambda>run. Inr (ok run))"

definition events_route :: "caller \<Rightarrow> string \<Rightarrow> int \<Rightarrow> nat \<Rightarrow> service \<Rightarrow> db \<Rightarrow> (int \<times> run_event) list answer result" where
  "events_route who rid after limit s later =
     bind_result (events (acting_tenant who) rid after limit (store s) later) (\<lambda>(entries, _). Inr (ok entries))"

section \<open>Announced in the same transaction\<close>

text \<open>What the announcing routes rely on: the store's operation answers a run of the tenant, and says
  nothing changed only when nothing did.\<close>

locale announced_operation = tenant_operation C run tenant
  for C :: contracts and run :: "db \<Rightarrow> ((run_record \<times> bool) \<times> db) result" and tenant :: string +
  assumes own: "run d = Inr ((answer, changed), d') \<Longrightarrow> rec_tenant_id answer = tenant"
    and quiet: "run d = Inr ((answer, False), d') \<Longrightarrow> d' = d"

lemma rec_tenant_id_record_of [simp]: "rec_tenant_id (record_of r now) = tenant_id r"
  by (simp add: record_of_def)

lemma move_tenant: "move C r st now = Inr r' \<Longrightarrow> tenant_id r' = tenant_id r"
  by (auto simp: move_def moved_def Let_def split: if_splits)

lemma requeue_tenant: "requeue C r now w = Inr r' \<Longrightarrow> tenant_id r' = tenant_id r"
  by (auto simp: requeue_def Let_def dest!: move_tenant)

lemma cancelled_instead_tenant: "cancelled_instead C r now = Inr (r', c) \<Longrightarrow> tenant_id r' = tenant_id r"
  by (auto simp: cancelled_instead_def dest!: move_tenant split: if_splits)

lemmas tenant_kept = move_tenant requeue_tenant cancelled_instead_tenant

interpretation announced_cancel: announced_operation C "cancel C tenant rid reason key now" tenant for C tenant rid reason key now
  by unfold_locales (auto simp: cancel_def Let_def split: if_splits dest!: tenant_kept foundD)

interpretation announced_finish: announced_operation C "finish_run C u tenant rid e w now" tenant for C u tenant rid e w now
  by unfold_locales (auto simp: finish_run_def finish_def Let_def split: if_splits dest!: tenant_kept foundD)

interpretation announced_pause: announced_operation C "pause C S tenant rid p w now" tenant for C S tenant rid p w now
  by unfold_locales (auto simp: pause_def Let_def split: if_splits dest!: tenant_kept foundD)

interpretation announced_resume: announced_operation C "resume C S tenant rid r key now" tenant for C S tenant rid r key now
  by unfold_locales (auto simp: resume_def Let_def split: if_splits dest!: tenant_kept foundD)

interpretation announced_release: announced_operation C "release C tenant rid req now" tenant for C tenant rid req now
  by unfold_locales (auto simp: release_def Let_def requeue_Inr_iff cancelled_instead_Inr_iff split: if_splits dest!: foundD)

text \<open>What a route of a tenant leaves: nothing when it failed; else its event owed to whoever wants it when
  it changed the run, and nothing else of anybody touched.\<close>

definition announces :: "contracts \<Rightarrow> string \<Rightarrow> run_record \<Rightarrow> service \<Rightarrow> service \<Rightarrow> bool" where
  "announces C tenant run s s' \<longleftrightarrow>
     (\<forall>e w. store s' \<noteq> store s \<and> event_of C run = Some e \<and> w \<in> set (webhooks (box s)) \<and> wanting tenant e w \<longrightarrow>
        owes (box s') (en_event_id (envelope C run e), webhook_id w) \<noteq> None) \<and>
     (\<forall>k. owes (box s) k \<noteq> None \<longrightarrow> owes (box s') k = owes (box s) k) \<and>
     (\<forall>k. owes (box s') k \<noteq> owes (box s) k \<longrightarrow>
        (\<exists>w\<in>set (webhooks (box s)). webhook_id w = snd k \<and> wh_tenant_id w = tenant)) \<and>
     others tenant (store s') = others tenant (store s) \<and> schedules s' = schedules s \<and>
     webhooks (box s') = webhooks (box s)"

lemma announce_debts:
  assumes "id_laws C" "outbox_ok C b"
  shows "event_of C run = Some e \<and> w \<in> set (webhooks b) \<and> wanting (rec_tenant_id run) e w \<longrightarrow>
      owes (announce C run None now b) (en_event_id (envelope C run e), webhook_id w) \<noteq> None"
    and "owes (announce C run None now b) k \<noteq> owes b k \<Longrightarrow>
      \<exists>w\<in>set (webhooks b). webhook_id w = snd k \<and> wh_tenant_id w = rec_tenant_id run"
proof -
  show "event_of C run = Some e \<and> w \<in> set (webhooks b) \<and> wanting (rec_tenant_id run) e w \<longrightarrow>
      owes (announce C run None now b) (en_event_id (envelope C run e), webhook_id w) \<noteq> None"
    using owes_announce [OF assms, where event = None and run = run and e = e and now = now]
    by (auto simp: spec_announce_def)
next
  assume changed: "owes (announce C run None now b) k \<noteq> owes b k"
  then obtain e where e: "event_of C run = Some e" by (cases "event_of C run") (auto simp: announce_def)
  with changed show "\<exists>w\<in>set (webhooks b). webhook_id w = snd k \<and> wh_tenant_id w = rec_tenant_id run"
    using owes_announce [OF assms, where event = None and run = run and e = e and now = now]
    by (auto simp: spec_announce_def wanting_def split: if_splits)
qed

context announced_operation
begin

lemma announced_route:
  assumes "lifecycle_laws C" "interrupt_laws C" "id_laws C" "service_ok C L s"
    and "transact commits (on_announced C now run) s = (r, s')"
  shows "service_ok C L s' \<and> (case r of Inl _ \<Rightarrow> s' = s | Inr a \<Rightarrow> announces C tenant (an_body a) s s')"
proof (cases "\<exists>answer changed d. run (store s) = Inr ((answer, changed), d) \<and> commits")
  case False
  then have "s' = s \<and> isl r"
    using assms(5) by (auto simp: transact_def on_announced_def bind_result_def split: sum.splits prod.splits if_splits)
  with assms(4) show ?thesis by (cases r) auto
next
  case True
  then obtain answer changed d where op: "run (store s) = Inr ((answer, changed), d)" and commits by blast
  define b where "b = (if changed then announce C answer None now (box s) else box s)"
  have r: "r = Inr (ok answer)" and s': "s' = s\<lparr>store := d, box := b\<rparr>"
    using assms(5) op \<open>commits\<close> by (auto simp: transact_def on_announced_def b_def)
  have inv: "store_inv (store s)" and out: "outbox_ok C (box s)" using assms(4) by (auto simp: service_ok_def)
  have "service_ok C L s'"
    using assms(4) keeps_inv [OF assms(1,2) inv op] announce_ok [OF assms(3) out] by (simp add: service_ok_def s' b_def)
  moreover have "announces C tenant answer s s'"
    using isolated [OF assms(1,2) inv op] own [OF op] quiet announce_debts [OF assms(3) out] announce_keeps_debts [OF assms(3) out] op
    unfolding announces_def s' b_def by (cases changed) auto
  ultimately show ?thesis by (simp add: r ok_def)
qed

end

datatype run_write =
  Releases release_request
| Pauses run_pause "string option"
| Resumes interrupt_resolution
| Cancels "string option"
| Finishes run_finish "string option"

fun write_route ::
  "contracts \<Rightarrow> schema_lib \<Rightarrow> settings \<Rightarrow> rat \<Rightarrow> bool \<Rightarrow> caller \<Rightarrow> string \<Rightarrow> run_write \<Rightarrow> instant \<Rightarrow> service \<Rightarrow>
   run_record answer result \<times> service" where
  "write_route C S st u commits who rid (Releases body) now = release_route C commits who rid body now"
| "write_route C S st u commits who rid (Pauses body w) now = pause_route C S commits who rid body w now"
| "write_route C S st u commits who rid (Resumes body) now = resume_route C S commits who rid body now"
| "write_route C S st u commits who rid (Cancels reason) now = cancel_route C commits who rid reason now"
| "write_route C S st u commits who rid (Finishes body w) now = finish_route C st u commits who rid body w now"

text \<open>C5. A run never changes without its event being owed: whatever a caller releases, pauses, answers,
  cancels or finishes, what fails or is not committed leaves the service as it was, and what is
  committed owes the run's event, in the same transaction, to every subscription of the tenant that
  wants it whenever the run changed; nothing owed before is forgotten, and no run, answer, event,
  schedule, subscription or delivery of another tenant is touched.\<close>

theorem change_is_announced:
  assumes "lifecycle_laws C" "interrupt_laws C" "id_laws C" "service_ok C L s"
    and "write_route C S st u commits who rid request now s = (r, s')"
  shows "service_ok C L s' \<and>
    (case r of
       Inl _ \<Rightarrow> s' = s
     | Inr a \<Rightarrow>
         (\<forall>e w. store s' \<noteq> store s \<and> event_of C (an_body a) = Some e \<and> w \<in> set (webhooks (box s)) \<and>
            wh_tenant_id w = acting_tenant who \<and> e \<in> set (wh_events w) \<longrightarrow>
            owes (box s') (en_event_id (envelope C (an_body a) e), webhook_id w) \<noteq> None) \<and>
         (\<forall>k. owes (box s) k \<noteq> None \<longrightarrow> owes (box s') k = owes (box s) k) \<and>
         (\<forall>k. owes (box s') k \<noteq> owes (box s) k \<longrightarrow>
            (\<exists>w\<in>set (webhooks (box s)). webhook_id w = snd k \<and> wh_tenant_id w = acting_tenant who)) \<and>
         others (acting_tenant who) (store s') = others (acting_tenant who) (store s) \<and>
         schedules s' = schedules s \<and> webhooks (box s') = webhooks (box s))"
proof -
  note laws = assms(1-4)
  have "service_ok C L s' \<and> (case r of Inl _ \<Rightarrow> s' = s | Inr a \<Rightarrow> announces C (acting_tenant who) (an_body a) s s')"
  proof (cases request)
    case (Finishes body w)
    then show ?thesis
      using assms(4,5) announced_finish.announced_route [OF laws]
      by (cases "bounded_payload (fin_output body) (max_payload_bytes st)") (auto simp: finish_route_def transact_def)
  qed (use assms(5) announced_release.announced_route [OF laws] announced_pause.announced_route [OF laws]
      announced_resume.announced_route [OF laws] announced_cancel.announced_route [OF laws] in
      \<open>simp_all add: release_route_def pause_route_def resume_route_def cancel_route_def\<close>)
  then show ?thesis by (simp add: announces_def wanting_def split: sum.splits)
qed

definition demo_caller :: caller where
  "demo_caller = \<lparr>credential = demo_key, acting_tenant = ''acme''\<rparr>"

definition demo_settings :: settings where
  "demo_settings = \<lparr>max_payload_bytes = 1048576, run_limits = demo_limits\<rparr>"

theorem change_is_announced_witness:
  "\<exists>a s'. write_route demo_contracts demo_schemas demo_settings 0 True demo_caller ''run_1'' (Cancels None) 1 demo_service = (Inr a, s') \<and>
     rec_status (an_body a) = CANCELLED \<and>
     owes (box s') (en_event_id (envelope demo_contracts (an_body a) RunFinished), ''wh_1'') \<noteq> None"
proof -
  let ?route = "write_route demo_contracts demo_schemas demo_settings 0 True demo_caller ''run_1'' (Cancels None) 1 demo_service"
  obtain run changed where c: "cancel demo_contracts ''acme'' ''run_1'' None demo_key 1 demo_queued =
      Inr ((run, changed), demo_queued\<lparr>runs := [demo_cancelled_row]\<rparr>)" using demo_cancel by (metis surj_pair)
  have run: "run = record_of demo_cancelled_row 1"
    using c by (auto simp: cancel_def locked_def found_def one_def fence_def require_may_cancel_def require_may_answer_def
        ADMINISTERING_ROLES_def Let_def demo_queued_def demo_cancelled_row_def demo_key_def empty_db_def demo_start_def
        new_row_def move_def ended_def expire_with_def save_def put_row_def)
  obtain s' where r: "?route = (Inr (ok run), s')" and st: "store s' = demo_queued\<lparr>runs := [demo_cancelled_row]\<rparr>"
    using c by (simp add: cancel_route_def transact_def on_announced_def demo_caller_def demo_service_def)
  have status: "rec_status run = CANCELLED"
    by (simp add: run record_of_def demo_cancelled_row_def)
  have "store s' \<noteq> store demo_service"
  proof
    assume "store s' = store demo_service"
    then have "map status (runs (store s')) = map status (runs demo_queued)" by (simp add: demo_service_def)
    then show False by (simp add: st demo_queued_def demo_cancelled_row_def new_row_def)
  qed
  moreover have "event_of demo_contracts run = Some RunFinished" by (simp add: event_of_def status)
  moreover have "demo_hook \<in> set (webhooks (box demo_service))" "wh_tenant_id demo_hook = acting_tenant demo_caller"
    "RunFinished \<in> set (wh_events demo_hook)" "webhook_id demo_hook = ''wh_1''"
    by (simp_all add: demo_service_def demo_outbox_def demo_hook_def demo_caller_def)
  ultimately have "owes (box s') (en_event_id (envelope demo_contracts run RunFinished), ''wh_1'') \<noteq> None"
    using change_is_announced [OF demo_laws demo_service_ok r] by (auto simp: ok_def)
  with r status show ?thesis by (auto simp: ok_def)
qed

end
