(* ===== verification/Blob_Store.thy ===== *)
theory Blob_Store
  imports Artifact_Store Signatures
begin

text \<open>
  \<open>src/agent_runs/blob\<close>: where an artifact's bytes are. \<open>port.py\<close>: what a store promises (the locale
  \<open>blob_port\<close>) and the verified read; \<open>filesystem.py\<close>: the store of one machine. SHA-256 is the argument
  \<open>sha\<close>; a file system is the files it has, a directory there whenever a file in it is. What a put and a
  delete can raise of the operating system's is the argument \<open>file_faults\<close>; reads do not fail so.
\<close>

section \<open>The port\<close>

text \<open>What a body or an object came to: its chunks, then nothing more, or what was raised.\<close>

datatype blob_fault =
  BodyRaised service_error  \<comment> \<open>raised by the chunks themselves\<close>
| BlobExists
| BlobNotFound
| BlobCorrupt
| InvalidKey  \<comment> \<open>\<open>ValueError\<close>\<close>
| OsFault

type_synonym chunks = "string list \<times> blob_fault option"

definition stored :: "(string \<Rightarrow> string) \<Rightarrow> string \<Rightarrow> string \<Rightarrow> stored_blob" where
  "stored sha key bytes = \<lparr>sb_key = key, sb_size = int (length bytes), sb_sha256 = sha bytes\<rparr>"

text \<open>\<open>read\<close>: \<open>bytes\<close> is what the digest has taken, \<open>held\<close> the chunk held back.\<close>

definition held_chunks :: "string option \<Rightarrow> string list" where
  "held_chunks held = (case held of None \<Rightarrow> [] | Some c \<Rightarrow> [c])"

fun read_from :: "(string \<Rightarrow> string) \<Rightarrow> string \<Rightarrow> int \<Rightarrow> string \<Rightarrow> string option \<Rightarrow> string list \<Rightarrow> blob_fault option \<Rightarrow> chunks" where
  "read_from sha sha256 len bytes held [] (Some e) = ([], Some e)"
| "read_from sha sha256 len bytes held [] None =
     (if int (length bytes) \<noteq> len \<or> sha bytes \<noteq> sha256 then ([], Some BlobCorrupt) else (held_chunks held, None))"
| "read_from sha sha256 len bytes held (c # cs) e =
     (if c = [] then read_from sha sha256 len bytes held cs e
      else let (sent, r) = read_from sha sha256 len (bytes @ c) (Some c) cs e in (held_chunks held @ sent, r))"

definition read_blob :: "(string \<Rightarrow> string) \<Rightarrow> string \<Rightarrow> int \<Rightarrow> chunks \<Rightarrow> chunks" where
  "read_blob sha sha256 len object = read_from sha sha256 len [] None (fst object) (snd object)"

section \<open>The file system\<close>

type_synonym files = "string list \<Rightarrow> string option"

definition BLOB_CHUNK_BYTES :: nat where
  "BLOB_CHUNK_BYTES = 1048576"

definition blob_path :: "string \<Rightarrow> string list option" where
  "blob_path key =
     (let parts = split_on (CHR ''/'') key
      in if key = [] \<or> (\<exists>p\<in>set parts. p \<in> set [[], ''.'', ''..'']) then None else Some parts)"

text \<open>\<open>mkstemp\<close> tries random names until one is free.\<close>

definition mkstemp :: "string list \<Rightarrow> string list \<Rightarrow> files \<Rightarrow> string list option" where
  "mkstemp names dir fs =
     map_option (\<lambda>n. dir @ [''.tmp-'' @ n @ ''.part'']) (find (\<lambda>n. fs (dir @ [''.tmp-'' @ n @ ''.part'']) = None) names)"

text \<open>Which calls of a request raise an \<open>OSError\<close> of their own (a full or broken disk, a lost volume, a
  permission): \<open>write_fails = Some (n, k)\<close>, the write of chunk \<open>n\<close> after \<open>k\<close> of its bytes were written;
  \<open>close_fails\<close>, the flush, fsync or close.\<close>

record file_faults =
  open_fails :: bool
  write_fails :: "(nat \<times> nat) option"
  close_fails :: bool
  link_fails :: bool
  discard_fails :: bool
  unlink_fails :: bool

text \<open>The pieces of \<open>put_stream\<close>: the bytes as they arrive (and whether a write raised), the create-only link,
  the discarded temporary.\<close>

definition link_file :: "file_faults \<Rightarrow> string list \<Rightarrow> string list \<Rightarrow> files \<Rightarrow> blob_fault option \<times> files" where
  "link_file F tmp path fs =
     (if link_fails F then (Some OsFault, fs)
      else if fs path \<noteq> None then (Some BlobExists, fs)
      else (None, fs(path := fs tmp)))"

definition discard :: "file_faults \<Rightarrow> string list \<Rightarrow> files \<Rightarrow> blob_fault option \<times> files" where
  "discard F path fs = (if discard_fails F then (Some OsFault, fs) else (None, fs(path := None)))"

fun write_chunks :: "(nat \<times> nat) option \<Rightarrow> string list \<Rightarrow> string list \<Rightarrow> files \<Rightarrow> bool \<times> files" where
  "write_chunks f tmp [] fs = (False, fs)"
| "write_chunks (Some (0, k)) tmp (c # cs) fs = (True, fs(tmp := map_option (\<lambda>b. b @ take k c) (fs tmp)))"
| "write_chunks (Some (Suc n, k)) tmp (c # cs) fs = write_chunks (Some (n, k)) tmp cs (fs(tmp := map_option (\<lambda>b. b @ c) (fs tmp)))"
| "write_chunks None tmp (c # cs) fs = write_chunks None tmp cs (fs(tmp := map_option (\<lambda>b. b @ c) (fs tmp)))"

text \<open>Of two errors the later one is raised: that of a \<open>finally\<close> clause takes the place of the body's.\<close>

definition raised_last :: "'a option \<Rightarrow> 'a option \<Rightarrow> 'a option" where
  "raised_last e later = (if later = None then e else later)"

definition put_stream :: "file_faults \<Rightarrow> (string \<Rightarrow> string) \<Rightarrow> string list \<Rightarrow> string \<Rightarrow> chunks \<Rightarrow> files \<Rightarrow> (blob_fault + stored_blob) \<times> files" where
  "put_stream F sha names key body fs =
     (case blob_path key of
        None \<Rightarrow> (Inl InvalidKey, fs)
      | Some path \<Rightarrow>
          (case if open_fails F then None else mkstemp names (butlast path) fs of
             None \<Rightarrow> (Inl OsFault, fs)
           | Some tmp \<Rightarrow>
               (let (broken, fs) = write_chunks (write_fails F) tmp (fst body) (fs(tmp := Some []));
                    fault = raised_last (if broken then Some OsFault else snd body) (if close_fails F then Some OsFault else None);
                    (fault, fs) = (if fault \<noteq> None then (fault, fs) else link_file F tmp path fs);
                    (undiscarded, fs) = discard F tmp fs
                in case raised_last fault undiscarded of
                     Some e \<Rightarrow> (Inl e, fs)
                   | None \<Rightarrow> (Inr (stored sha key (concat (fst body))), fs))))"

definition put_blob :: "file_faults \<Rightarrow> (string \<Rightarrow> string) \<Rightarrow> string list \<Rightarrow> string \<Rightarrow> string \<Rightarrow> files \<Rightarrow> (blob_fault + stored_blob) \<times> files" where
  "put_blob F sha names key bytes = put_stream F sha names key ([bytes], None)"

function pieces :: "nat \<Rightarrow> string \<Rightarrow> string list" where
  "pieces n bytes = (if n = 0 \<or> bytes = [] then [] else take n bytes # pieces n (drop n bytes))"
  by pat_completeness auto
termination by (relation "measure (\<lambda>(n, bytes). length bytes)") auto

declare pieces.simps [simp del]

definition blob_chunks :: "string \<Rightarrow> files \<Rightarrow> chunks" where
  "blob_chunks key fs =
     (case blob_path key of
        None \<Rightarrow> ([], Some InvalidKey)
      | Some path \<Rightarrow> (case fs path of None \<Rightarrow> ([], Some BlobNotFound) | Some bytes \<Rightarrow> (pieces BLOB_CHUNK_BYTES bytes, None)))"

definition delete_blob :: "file_faults \<Rightarrow> string \<Rightarrow> files \<Rightarrow> blob_fault option \<times> files" where
  "delete_blob F key fs =
     (case blob_path key of
        None \<Rightarrow> (Some InvalidKey, fs)
      | Some path \<Rightarrow> if unlink_fails F then (Some OsFault, fs) else (None, fs(path := None)))"

section \<open>What the port promises\<close>

text \<open>The objects of a store, by key.\<close>

definition objects :: "files \<Rightarrow> string \<Rightarrow> string option" where
  "objects fs key = Option.bind (blob_path key) fs"

text \<open>A store is \<open>tidy\<close> when nothing it does to clean up fails: only then does a put that failed leave nothing
  behind, and can what is stored always be deleted.\<close>

locale blob_port =
  fixes tidy :: bool and sha :: "string \<Rightarrow> string" and put :: "string \<Rightarrow> chunks \<Rightarrow> 's \<Rightarrow> (blob_fault + stored_blob) \<times> 's"
    and get :: "string \<Rightarrow> 's \<Rightarrow> chunks" and delete :: "string \<Rightarrow> 's \<Rightarrow> blob_fault option \<times> 's"
    and view :: "'s \<Rightarrow> string \<Rightarrow> string option"
  assumes put_stores: "put key body s = (Inr b, s') \<Longrightarrow>
      snd body = None \<and> b = stored sha key (concat (fst body)) \<and> view s key = None \<and> view s' = (view s)(key \<mapsto> concat (fst body))"
    and put_fails: "put key body s = (Inl e, s') \<Longrightarrow> view s \<subseteq>\<^sub>m view s' \<and> (tidy \<longrightarrow> view s' = view s)"
    and put_raises: "put key body s = (Inl (BodyRaised x), s') \<Longrightarrow> snd body = Some (BodyRaised x)"
    and get_whole: "view s key = Some bytes \<Longrightarrow> snd (get key s) = None \<and> concat (fst (get key s)) = bytes \<and> [] \<notin> set (fst (get key s))"
    and get_missing: "view s key = None \<Longrightarrow> fst (get key s) = [] \<and> snd (get key s) \<noteq> None"
    and delete_removes: "delete key s = (None, s') \<Longrightarrow> view s' = (view s)(key := None)"
    and delete_fails: "delete key s = (Some e, s') \<Longrightarrow> view s' = view s"
    and stored_deletes: "tidy \<Longrightarrow> view s key \<noteq> None \<Longrightarrow> \<exists>s'. delete key s = (None, s')"
begin

text \<open>Compensation: what a put stored, a delete takes back, or leaves when it fails; of a tidy store it does not fail.\<close>

lemma put_delete:
  assumes "put key body s = (Inr b, s1)"
  obtains s2 where "delete key s1 = (None, s2)" "view s2 = view s"
  | f s2 where "delete key s1 = (Some f, s2)" "view s2 = (view s)(key \<mapsto> concat (fst body))" "view s key = None" "\<not> tidy"
proof -
  from put_stores [OF assms] have v: "view s key = None" "view s1 = (view s)(key \<mapsto> concat (fst body))" by auto
  obtain f s2 where d: "delete key s1 = (f, s2)" by fastforce
  show thesis
  proof (cases f)
    case None
    with delete_removes [of key s1 s2] d v show thesis by (intro that(1)) (auto simp: fun_eq_iff)
  next
    case (Some e)
    with stored_deletes [of s1 key] d v have "\<not> tidy" by auto
    with delete_fails [of key s1 e s2] d v Some show thesis by (intro that(2)) auto
  qed
qed

end

lemma split_on_nonempty [simp]: "split_on c s \<noteq> []"
  by (induction s) (auto split: list.splits)

fun join_on :: "char \<Rightarrow> string list \<Rightarrow> string" where
  "join_on c [] = []"
| "join_on c [x] = x"
| "join_on c (x # y # ys) = x @ c # join_on c (y # ys)"

lemma join_split: "join_on c (split_on c s) = s"
proof (induction s)
  case (Cons x xs)
  obtain y ys where y: "split_on c xs = y # ys" by (cases "split_on c xs") auto
  with Cons show ?case by (cases ys) (auto simp: y)
qed simp

lemma blob_path_inj: "blob_path k = Some p \<Longrightarrow> blob_path k' = Some p \<Longrightarrow> k = k'"
proof -
  have "join_on (CHR ''/'') p = key" if "blob_path key = Some p" for key
    using that join_split [of "CHR ''/''" key] by (auto simp: blob_path_def Let_def split: if_splits)
  then show "blob_path k = Some p \<Longrightarrow> blob_path k' = Some p \<Longrightarrow> k = k'" by blast
qed

lemma write_chunks_eq:
  assumes "fs tmp = Some b" "write_chunks f tmp cs fs = (broken, fs')"
  obtains b' where "fs' = fs(tmp \<mapsto> b')" "\<not> broken \<longrightarrow> b' = b @ concat cs"
proof -
  have "\<exists>b'. fs' = fs(tmp \<mapsto> b') \<and> (\<not> broken \<longrightarrow> b' = b @ concat cs)"
    using assms
  proof (induction f tmp cs fs arbitrary: b rule: write_chunks.induct)
    case (1 f tmp fs)
    then show ?case by (auto simp: map_upd_triv)
  next
    case (2 k tmp c cs fs)
    then have "fs' = fs(tmp \<mapsto> b @ take k c)" "broken" by auto
    then show ?case by blast
  next
    case (3 n k tmp c cs fs)
    have step: "fs(tmp := map_option (\<lambda>b. b @ c) (fs tmp)) = fs(tmp \<mapsto> b @ c)" using "3.prems"(1) by simp
    have "\<exists>b'. fs' = fs(tmp \<mapsto> b @ c, tmp \<mapsto> b') \<and> (\<not> broken \<longrightarrow> b' = (b @ c) @ concat cs)"
      using "3.IH" [of "b @ c", unfolded step] "3.prems"(2) unfolding write_chunks.simps step by (metis fun_upd_same)
    then show ?case unfolding fun_upd_upd concat.simps append_assoc .
  next
    case (4 tmp c cs fs)
    have step: "fs(tmp := map_option (\<lambda>b. b @ c) (fs tmp)) = fs(tmp \<mapsto> b @ c)" using "4.prems"(1) by simp
    have "\<exists>b'. fs' = fs(tmp \<mapsto> b @ c, tmp \<mapsto> b') \<and> (\<not> broken \<longrightarrow> b' = (b @ c) @ concat cs)"
      using "4.IH" [of "b @ c", unfolded step] "4.prems"(2) unfolding write_chunks.simps step by (metis fun_upd_same)
    then show ?case unfolding fun_upd_upd concat.simps append_assoc .
  qed
  then show thesis using that by blast
qed

lemma mkstemp_fresh: "mkstemp names dir fs = Some tmp \<Longrightarrow> fs tmp = None"
  by (auto simp: mkstemp_def find_Some_iff)

text \<open>A put that got as far as its temporary file.\<close>

lemma put_stream_steps:
  assumes "blob_path key = Some path" "\<not> open_fails F" "mkstemp names (butlast path) fs = Some tmp"
  obtains b broken where "write_chunks (write_fails F) tmp (fst body) (fs(tmp := Some [])) = (broken, fs(tmp \<mapsto> b))"
    "\<not> broken \<longrightarrow> b = concat (fst body)" "fs tmp = None"
proof -
  obtain broken fs1 where w: "write_chunks (write_fails F) tmp (fst body) (fs(tmp := Some [])) = (broken, fs1)" by fastforce
  have "(fs(tmp \<mapsto> [])) tmp = Some []" by simp
  from write_chunks_eq [OF this w] obtain b' where "fs1 = (fs(tmp \<mapsto> []))(tmp \<mapsto> b')" "\<not> broken \<longrightarrow> b' = [] @ concat (fst body)"
    by blast
  with that w mkstemp_fresh [OF assms(3)] show thesis by simp
qed

lemma put_stream_Inr:
  assumes "put_stream F sha names key body fs = (Inr b, fs')"
  obtains path where "blob_path key = Some path" "fs path = None" "fs' = fs(path \<mapsto> concat (fst body))" "snd body = None"
    "b = stored sha key (concat (fst body))"
proof -
  from assms obtain path tmp where p: "blob_path key = Some path" "\<not> open_fails F" "mkstemp names (butlast path) fs = Some tmp"
    by (auto simp: put_stream_def split: option.splits if_splits)
  obtain bytes broken where w: "write_chunks (write_fails F) tmp (fst body) (fs(tmp := Some [])) = (broken, fs(tmp \<mapsto> bytes))"
    "\<not> broken \<longrightarrow> bytes = concat (fst body)" "fs tmp = None" using put_stream_steps [OF p] by blast
  from assms p w have e: "\<not> broken" "snd body = None" and l: "(fs(tmp \<mapsto> bytes)) path = None" and b: "b = stored sha key (concat (fst body))"
    and fs': "fs' = (fs(tmp \<mapsto> bytes, path \<mapsto> bytes))(tmp := None)"
    by (auto simp: put_stream_def Let_def link_file_def discard_def raised_last_def split: if_splits)
  from l have "path \<noteq> tmp" "fs path = None" by (auto split: if_splits)
  with w e(1) have "fs' = fs(path \<mapsto> concat (fst body))" by (auto simp: fs' fun_eq_iff)
  with that p(1) \<open>fs path = None\<close> e(2) b show thesis by blast
qed

text \<open>A put that failed lost nothing that was stored; what it left is its temporary or, when only that could not be
  discarded, the object too.\<close>

lemma put_stream_Inl:
  assumes "put_stream F sha names key body fs = (Inl e, fs')"
  shows "fs \<subseteq>\<^sub>m fs' \<and> (\<not> discard_fails F \<longrightarrow> fs' = fs) \<and> (\<forall>x. e = BodyRaised x \<longrightarrow> snd body = Some e)"
proof (cases "\<exists>path tmp. blob_path key = Some path \<and> \<not> open_fails F \<and> mkstemp names (butlast path) fs = Some tmp")
  case True
  then obtain path tmp where p: "blob_path key = Some path" "\<not> open_fails F" "mkstemp names (butlast path) fs = Some tmp" by blast
  obtain bytes broken where w: "write_chunks (write_fails F) tmp (fst body) (fs(tmp := Some [])) = (broken, fs(tmp \<mapsto> bytes))"
    "\<not> broken \<longrightarrow> bytes = concat (fst body)" "fs tmp = None" using put_stream_steps [OF p] by blast
  have temp: "(fs(tmp \<mapsto> bytes))(tmp := None) = fs" using w(3) by (auto simp: fun_eq_iff)
  from assms p w(1) have "\<forall>x. e = BodyRaised x \<longrightarrow> snd body = Some e"
    by (auto simp: put_stream_def Let_def link_file_def discard_def raised_last_def split: if_splits option.splits)
  moreover from assms p w(1) have "fs' = (fs(tmp \<mapsto> bytes))(tmp := None) \<or>
      discard_fails F \<and> (fs' = fs(tmp \<mapsto> bytes) \<or> fs' = fs(tmp \<mapsto> bytes, path \<mapsto> bytes) \<and> (fs(tmp \<mapsto> bytes)) path = None)"
    by (auto simp: put_stream_def Let_def link_file_def discard_def raised_last_def split: if_splits option.splits)
  ultimately show ?thesis using w(3) unfolding temp by (auto simp: map_le_def dom_def split: if_splits)
qed (use assms in \<open>auto simp: put_stream_def split: option.splits if_splits\<close>)

lemma concat_pieces: "0 < n \<Longrightarrow> concat (pieces n bytes) = bytes"
  by (induction n bytes rule: pieces.induct) (subst pieces.simps, auto)

lemma pieces_nonempty: "[] \<notin> set (pieces n bytes)"
  by (induction n bytes rule: pieces.induct) (subst pieces.simps, auto)

interpretation filesystem: blob_port "\<not> discard_fails F \<and> \<not> unlink_fails F" sha "put_stream F sha names" blob_chunks
  "delete_blob F" objects for F sha names
proof
  fix key body fs b fs'
  assume "put_stream F sha names key body fs = (Inr b, fs')"
  then obtain path where p: "blob_path key = Some path" "fs path = None" "fs' = fs(path \<mapsto> concat (fst body))" "snd body = None"
    "b = stored sha key (concat (fst body))" by (rule put_stream_Inr)
  have "objects fs' k = ((objects fs)(key \<mapsto> concat (fst body))) k" for k
    using p(1,3) blob_path_inj [of k path key] by (cases "blob_path k") (auto simp: objects_def)
  with p show "snd body = None \<and> b = stored sha key (concat (fst body)) \<and> objects fs key = None \<and>
      objects fs' = (objects fs)(key \<mapsto> concat (fst body))" by (auto simp: objects_def fun_eq_iff)
next
  fix key body fs e fs'
  assume "put_stream F sha names key body fs = (Inl e, fs')"
  from put_stream_Inl [OF this] have "fs \<subseteq>\<^sub>m fs'" "\<not> discard_fails F \<longrightarrow> fs' = fs" by blast+
  then show "objects fs \<subseteq>\<^sub>m objects fs' \<and> (\<not> discard_fails F \<and> \<not> unlink_fails F \<longrightarrow> objects fs' = objects fs)"
    by (auto simp: map_le_def objects_def dom_def split: Option.bind_splits)
next
  fix key body fs x fs'
  assume "put_stream F sha names key body fs = (Inl (BodyRaised x), fs')"
  then show "snd body = Some (BodyRaised x)" using put_stream_Inl by blast
next
  fix fs key bytes
  assume "objects fs key = Some bytes"
  then show "snd (blob_chunks key fs) = None \<and> concat (fst (blob_chunks key fs)) = bytes \<and> [] \<notin> set (fst (blob_chunks key fs))"
    by (auto simp: objects_def blob_chunks_def concat_pieces pieces_nonempty BLOB_CHUNK_BYTES_def split: Option.bind_splits)
next
  fix fs key
  assume "objects fs key = None"
  then show "fst (blob_chunks key fs) = [] \<and> snd (blob_chunks key fs) \<noteq> None"
    by (auto simp: objects_def blob_chunks_def split: Option.bind_splits option.split)
next
  fix key fs fs'
  assume "delete_blob F key fs = (None, fs')"
  then obtain path where p: "blob_path key = Some path" "fs' = fs(path := None)" by (auto simp: delete_blob_def split: option.splits if_splits)
  have "objects fs' k = ((objects fs)(key := None)) k" for k
    using p blob_path_inj [of k path key] by (cases "blob_path k") (auto simp: objects_def)
  then show "objects fs' = (objects fs)(key := None)" by (simp add: fun_eq_iff)
next
  fix key fs e fs'
  assume "delete_blob F key fs = (Some e, fs')"
  then show "objects fs' = objects fs" by (auto simp: delete_blob_def split: option.splits if_splits)
next
  fix fs key
  assume "\<not> discard_fails F \<and> \<not> unlink_fails F" "objects fs key \<noteq> None"
  then show "\<exists>s'. delete_blob F key fs = (None, s')" by (auto simp: objects_def delete_blob_def split: Option.bind_splits)
qed

section \<open>Verified reads\<close>

lemma read_from_sent:
  "read_from sha sha256 len bytes held cs e = (sent, r) \<Longrightarrow>
     (r = None \<longrightarrow> e = None \<and> concat sent = concat (held_chunks held) @ concat cs \<and>
        int (length (bytes @ concat cs)) = len \<and> sha (bytes @ concat cs) = sha256) \<and>
     (r \<noteq> None \<longrightarrow> (\<exists>rest. concat (held_chunks held) @ concat cs = concat sent @ rest \<and>
        ((\<exists>h. held = Some h \<and> h \<noteq> []) \<or> concat cs \<noteq> [] \<longrightarrow> rest \<noteq> []))) \<and>
     (r = Some BlobCorrupt \<longrightarrow> e = Some BlobCorrupt \<or> (e = None \<and>
        (int (length (bytes @ concat cs)) \<noteq> len \<or> sha (bytes @ concat cs) \<noteq> sha256)))"
proof (induction cs arbitrary: bytes held sent)
  case Nil
  then show ?case by (cases e) (auto simp: held_chunks_def split: if_splits option.splits)
next
  case (Cons c cs)
  show ?case
  proof (cases "c = []")
    case True
    with Cons.prems have "read_from sha sha256 len bytes held cs e = (sent, r)" by simp
    from Cons.IH [OF this] True show ?thesis by simp
  next
    case False
    obtain sent' r' where n: "read_from sha sha256 len (bytes @ c) (Some c) cs e = (sent', r')" by fastforce
    with Cons.prems False have s: "sent = held_chunks held @ sent'" "r = r'" by auto
    from Cons.IH [OF n [folded s(2)]] False show ?thesis by (auto simp: s(1) held_chunks_def)
  qed
qed

lemma read_from_fault: "read_from sha sha256 len bytes held cs None = (sent, Some e) \<Longrightarrow> e = BlobCorrupt"
  by (induction cs arbitrary: bytes held sent) (auto split: if_splits prod.splits)

text \<open>What is read whole is what was written: a read that comes to its end sent exactly the object's bytes,
  of the size and the checksum recorded; one that does not sent a proper part of the object's bytes
  from its start, and never the last of them.\<close>

lemma read_verified:
  assumes "read_blob sha sha256 len (cs, e) = (sent, r)"
  shows "(r = None \<longrightarrow> e = None \<and> concat sent = concat cs \<and> int (length (concat sent)) = len \<and> sha (concat sent) = sha256) \<and>
    (r \<noteq> None \<longrightarrow> (\<exists>rest. concat cs = concat sent @ rest \<and> (concat cs \<noteq> [] \<longrightarrow> rest \<noteq> []))) \<and>
    (r \<noteq> None \<and> e = None \<longrightarrow> r = Some BlobCorrupt \<and> (int (length (concat cs)) \<noteq> len \<or> sha (concat cs) \<noteq> sha256))"
proof -
  have r: "read_from sha sha256 len [] None cs e = (sent, r)" using assms by (simp add: read_blob_def)
  have "r = Some BlobCorrupt" if "r \<noteq> None" "e = None" using r that read_from_fault by auto
  with read_from_sent [OF r] show ?thesis by (auto simp: held_chunks_def)
qed

lemma read_verified_witness:
  "read_blob (\<lambda>bytes. bytes) ''ab'' 2 ([''a'', ''b''], None) = ([''a'', ''b''], None) \<and>
   concat [''a'', ''b''] = concat [''a'', ''b''] \<and> int (length (concat [''a'', ''b''])) = 2"
proof -
  have "read_blob (\<lambda>bytes. bytes) ''ab'' 2 ([''a'', ''b''], None) = ([''a'', ''b''], None)"
    by (simp add: read_blob_def held_chunks_def)
  with read_verified [OF this] show ?thesis by blast
qed

text \<open>What is sent can still be as long as the artifact when the object has grown: the size is compared at
  the end only, so an object altered and lengthened has its altered start sent, as many bytes as were
  recorded, before the read fails.\<close>

lemma longer_object_sent:
  "read_blob (\<lambda>bytes. bytes) ''ab'' 2 ([''zz'', ''z''], None) = ([''zz''], Some BlobCorrupt)"
  by (simp add: read_blob_def held_chunks_def)

end
