(* ===== verification/Artifact_Routes.thy ===== *)
theory Artifact_Routes
  imports Run_Routes Blob_Store
begin

text \<open>
  \<open>src/agent_runs/api/routers/artifacts.py\<close>: an upload is checked, streamed to the blob store, checked again
  under the run's lock and recorded, and what was stored is taken back when it is not; a download is read
  verified. The database an upload finds when its bytes are stored may not be the one it was first checked
  against: both are arguments. The blob store is a record of the port's operations. A commit may be in doubt: it
  took, and the connection was lost (or the request cancelled) before its answer was there.
\<close>

record 's blob_ops =
  bo_put :: "string \<Rightarrow> chunks \<Rightarrow> 's \<Rightarrow> (blob_fault + stored_blob) \<times> 's"
  bo_get :: "string \<Rightarrow> 's \<Rightarrow> chunks"
  bo_delete :: "string \<Rightarrow> 's \<Rightarrow> blob_fault option \<times> 's"

text \<open>The request: \<open>ur_declared\<close> is the number a \<open>Content-Length\<close> of digits declares, \<open>ur_broken\<close> that the
  client went away after these chunks.\<close>

record upload_request =
  ur_run_id :: string
  ur_worker_id :: "string option"
  ur_checksum :: "string option"
  ur_content_type :: "string option"
  ur_declared :: "int option"
  ur_body :: "string list"
  ur_broken :: bool

definition MAX_ARTIFACT_BYTES :: int where
  "MAX_ARTIFACT_BYTES = 50 * 1024 * 1024"

definition DEFAULT_MIME :: string where
  "DEFAULT_MIME = ''application/octet-stream''"

definition CACHE_CONTROL :: string where
  "CACHE_CONTROL = ''private, max-age=31536000, immutable''"

definition ARTIFACTS_PATH :: string where
  "ARTIFACTS_PATH = ''/v1/artifacts''"

text \<open>What a fault is to the client: only what the body raised is an error of the service's own.\<close>

fun raised_fault :: "blob_fault \<Rightarrow> service_error" where
  "raised_fault (BodyRaised e) = e"
| "raised_fault _ = Crashed"

text \<open>\<open>_body\<close>: \<open>seen\<close> bytes were counted.\<close>

fun counted_chunks :: "bool \<Rightarrow> int \<Rightarrow> string list \<Rightarrow> chunks" where
  "counted_chunks broken seen [] = ([], if broken then Some (BodyRaised Crashed) else None)"
| "counted_chunks broken seen (c # cs) =
     (if c = [] then counted_chunks broken seen cs
      else if seen + int (length c) > MAX_ARTIFACT_BYTES
      then ([], Some (BodyRaised (TooLarge (seen + int (length c)) MAX_ARTIFACT_BYTES)))
      else (let (cs, e) = counted_chunks broken (seen + int (length c)) cs in (c # cs, e)))"

definition upload_body :: "upload_request \<Rightarrow> chunks" where
  "upload_body rq =
     (case ur_declared rq of
        Some n \<Rightarrow>
          if n > MAX_ARTIFACT_BYTES then ([], Some (BodyRaised (TooLarge n MAX_ARTIFACT_BYTES)))
          else counted_chunks (ur_broken rq) 0 (ur_body rq)
      | None \<Rightarrow> counted_chunks (ur_broken rq) 0 (ur_body rq))"

text \<open>\<open>_nonempty\<close>.\<close>

definition nonempty_body :: "upload_request \<Rightarrow> chunks result" where
  "nonempty_body rq =
     (case upload_body rq of
        ([], Some e) \<Rightarrow> Inl (raised_fault e)
      | ([], None) \<Rightarrow> Inl Unprocessable
      | body \<Rightarrow> Inr body)"

definition blob_key_of :: "string \<Rightarrow> string" where
  "blob_key_of aid = ''artifacts/'' @ aid"

text \<open>Taking a blob back, then raising or answering: a delete that raises is what is raised.\<close>

definition taken_back :: "'s blob_ops \<Rightarrow> string \<Rightarrow> 'a result \<Rightarrow> 's \<Rightarrow> 'a result \<times> 's" where
  "taken_back B key r s = (case bo_delete B key s of (None, s') \<Rightarrow> (r, s') | (Some f, s') \<Rightarrow> (Inl (raised_fault f), s'))"

datatype commit_outcome = Committed | NotCommitted | InDoubt

text \<open>The second transaction: its result, and what the database has after it.\<close>

definition record_upload ::
  "caller \<Rightarrow> upload_request \<Rightarrow> string \<Rightarrow> stored_blob \<Rightarrow> commit_outcome \<Rightarrow> instant \<Rightarrow> db \<Rightarrow> (artifact_row \<times> bool) result \<times> db" where
  "record_upload who rq aid blob outcome now d =
     (case bind_result (check_artifact_writer (acting_tenant who) (ur_run_id rq) (ur_worker_id rq) (role (credential who)) d) (\<lambda>_.
         add_artifact aid (acting_tenant who) (ur_run_id rq) blob
           (if truthy (ur_content_type rq) then the (ur_content_type rq) else DEFAULT_MIME) now d) of
        Inl e \<Rightarrow> (Inl e, d)
      | Inr (x, d') \<Rightarrow>
          (case outcome of
             Committed \<Rightarrow> (Inr x, d')
           | NotCommitted \<Rightarrow> (Inl (Unavailable True RETRY_AFTER_SECONDS), d)
           | InDoubt \<Rightarrow> (Inl (Unavailable True RETRY_AFTER_SECONDS), d')))"

definition upload ::
  "'s blob_ops \<Rightarrow> caller \<Rightarrow> upload_request \<Rightarrow> string \<Rightarrow> bool \<Rightarrow> commit_outcome \<Rightarrow> instant \<Rightarrow> db \<Rightarrow> db \<Rightarrow> 's \<Rightarrow>
   artifact_ref answer result \<times> db \<times> 's" where
  "upload B who rq aid committed outcome now d0 d s =
     (case bind_result (check_artifact_writer (acting_tenant who) (ur_run_id rq) (ur_worker_id rq) (role (credential who)) d0)
         (\<lambda>_. if committed then nonempty_body rq else Inl (Unavailable True RETRY_AFTER_SECONDS)) of
        Inl e \<Rightarrow> (Inl e, d, s)
      | Inr body \<Rightarrow>
          (case bo_put B (blob_key_of aid) body s of
             (Inl f, s) \<Rightarrow> (Inl (raised_fault f), d, s)
           | (Inr blob, s) \<Rightarrow>
               if ur_checksum rq \<noteq> None \<and> ur_checksum rq \<noteq> Some (''sha256:'' @ sb_sha256 blob)
               then (let (r, s) = taken_back B (sb_key blob) (Inl Unprocessable) s in (r, d, s))
               else (case record_upload who rq aid blob outcome now d of
                  (Inl e, d) \<Rightarrow> (let (r, s) = taken_back B (sb_key blob) (Inl e) s in (r, d, s))
                | (Inr (row, created), d) \<Rightarrow>
                    if created
                    then (Inr \<lparr>an_status = 201, an_location = Some (ARTIFACTS_PATH @ ''/'' @ artifact_id row), an_body = artifact_ref_of row\<rparr>, d, s)
                    else (let (r, s) = taken_back B (sb_key blob) (Inr (ok (artifact_ref_of row))) s in (r, d, s)))))"

section \<open>Downloads\<close>

record download_answer =
  da_status :: int
  da_etag :: string
  da_cache_control :: string
  da_mime :: "string option"
  da_length :: "int option"
  da_body :: chunks

definition etag_matches :: "string option \<Rightarrow> string \<Rightarrow> bool" where
  "etag_matches if_none_match etag =
     (case if_none_match of
        None \<Rightarrow> False
      | Some h \<Rightarrow>
          (let tags = map (\<lambda>t. removeprefix ''W/'' (strip t)) (split_on (CHR '','') h)
           in ''*'' \<in> set tags \<or> etag \<in> set tags))"

definition etag_of :: "artifact_row \<Rightarrow> string" where
  "etag_of row = [CHR 0x22] @ checksum row @ [CHR 0x22]"

text \<open>What the stream raises past its first chunk breaks the body off.\<close>

definition download ::
  "'s blob_ops \<Rightarrow> (string \<Rightarrow> string) \<Rightarrow> caller \<Rightarrow> string \<Rightarrow> string option \<Rightarrow> db \<Rightarrow> 's \<Rightarrow> download_answer result" where
  "download B sha who aid if_none_match d s =
     bind_result (get_artifact (acting_tenant who) aid d) (\<lambda>row.
       if etag_matches if_none_match (etag_of row)
       then Inr \<lparr>da_status = 304, da_etag = etag_of row, da_cache_control = CACHE_CONTROL, da_mime = None, da_length = None, da_body = ([], None)\<rparr>
       else (case read_blob sha (sha256_of row) (art_size row) (bo_get B (blob_key row) s) of
          ([], Some BlobNotFound) \<Rightarrow> Inl NotFound
        | ([], Some _) \<Rightarrow> Inl Crashed
        | ([], None) \<Rightarrow> Inl Crashed
        | body \<Rightarrow>
            Inr \<lparr>da_status = 200, da_etag = etag_of row, da_cache_control = CACHE_CONTROL, da_mime = Some (mime row),
              da_length = Some (art_size row), da_body = body\<rparr>))"

definition filesystem_ops :: "file_faults \<Rightarrow> (string \<Rightarrow> string) \<Rightarrow> string list \<Rightarrow> files blob_ops" where
  "filesystem_ops F sha names = \<lparr>bo_put = put_stream F sha names, bo_get = blob_chunks, bo_delete = delete_blob F\<rparr>"

section \<open>No row without its bytes, no bytes without a row\<close>

definition blobs_ok :: "(string \<Rightarrow> string) \<Rightarrow> db \<Rightarrow> (string \<Rightarrow> string option) \<Rightarrow> bool" where
  "blobs_ok sha d view \<longleftrightarrow>
     (\<forall>row\<in>set (run_artifacts d). \<exists>bytes. view (blob_key row) = Some bytes \<and>
        art_size row = int (length bytes) \<and> checksum row = ''sha256:'' @ sha bytes \<and> bytes \<noteq> [])"

lemma counted_chunks_whole:
  "counted_chunks broken seen cs = (ys, None) \<Longrightarrow> 0 \<le> seen \<Longrightarrow> seen \<le> MAX_ARTIFACT_BYTES \<Longrightarrow>
     concat ys = concat cs \<and> [] \<notin> set ys \<and> seen + int (length (concat ys)) \<le> MAX_ARTIFACT_BYTES"
proof (induction cs arbitrary: seen ys)
  case (Cons c cs)
  then show ?case by (fastforce split: if_splits prod.splits)
qed (auto split: if_splits)

lemma counted_chunks_nonempty: "counted_chunks broken seen cs = (ys, e) \<Longrightarrow> [] \<notin> set ys"
  by (induction cs arbitrary: seen ys) (auto split: if_splits prod.splits)

lemma counted_chunks_all:
  assumes "counted_chunks broken 0 cs = (ys, None)"
  shows "concat ys = concat cs" "int (length (concat cs)) \<le> MAX_ARTIFACT_BYTES"
proof -
  have "0 \<le> MAX_ARTIFACT_BYTES" by (simp add: MAX_ARTIFACT_BYTES_def)
  from counted_chunks_whole [OF assms order.refl this]
  have c: "concat ys = concat cs" "0 + int (length (concat ys)) \<le> MAX_ARTIFACT_BYTES" by blast+
  then show "concat ys = concat cs" by blast
  show "int (length (concat cs)) \<le> MAX_ARTIFACT_BYTES" using c(2) unfolding c(1) add_0 .
qed

lemma nonempty_body_Inr:
  assumes "nonempty_body rq = Inr body"
  shows "fst body \<noteq> [] \<and> concat (fst body) \<noteq> [] \<and>
    (snd body = None \<longrightarrow> concat (fst body) = concat (ur_body rq) \<and> int (length (concat (ur_body rq))) \<le> MAX_ARTIFACT_BYTES)"
proof -
  obtain ys e where b: "upload_body rq = (ys, e)" by fastforce
  with assms have body: "body = (ys, e)" "ys \<noteq> []" by (auto simp: nonempty_body_def split: list.splits option.splits)
  with b have c: "counted_chunks (ur_broken rq) 0 (ur_body rq) = (ys, e)" by (auto simp: upload_body_def split: option.splits if_splits)
  have "concat ys \<noteq> []" using counted_chunks_nonempty [OF c] body(2) by (cases ys) auto
  then show ?thesis using body(1,2) c counted_chunks_all by (metis fst_conv snd_conv)
qed

text \<open>What the second transaction can have added: the artifact's row, under a new id.\<close>

definition adds_row :: "string \<Rightarrow> stored_blob \<Rightarrow> string \<Rightarrow> artifact_row \<Rightarrow> db \<Rightarrow> db \<Rightarrow> bool" where
  "adds_row tenant blob aid row d d' \<longleftrightarrow>
     d' = d\<lparr>run_artifacts := run_artifacts d @ [row]\<rparr> \<and> artifact_id row = aid \<and> blob_key row = sb_key blob \<and>
     aid \<notin> artifact_id ` set (run_artifacts d) \<and> art_size row = sb_size blob \<and> art_tenant_id row = tenant"

lemma add_artifact_row:
  assumes "add_artifact aid tenant rid blob m now d = Inr ((row, created), d')"
  shows "art_run_id row = rid \<and> checksum row = ''sha256:'' @ sb_sha256 blob \<and> row \<in> set (run_artifacts d') \<and>
    (if created then adds_row tenant blob aid row d d' else d' = d)"
  using assms
  by (auto simp: adds_row_def add_artifact_def new_artifact_def artifact_content_def find_Some_iff Let_def split: option.splits if_splits)

lemma record_upload_cases:
  assumes "record_upload who rq aid blob outcome now d = (x, d')"
  shows "(\<exists>e. x = Inl e \<and> (d' = d \<or> outcome = InDoubt \<and> (\<exists>row. adds_row (acting_tenant who) blob aid row d d'))) \<or>
    (\<exists>row created. x = Inr (row, created) \<and> art_run_id row = ur_run_id rq \<and>
      checksum row = ''sha256:'' @ sb_sha256 blob \<and> row \<in> set (run_artifacts d') \<and>
      (if created then adds_row (acting_tenant who) blob aid row d d' else d' = d))"
proof -
  define added where "added = bind_result
    (check_artifact_writer (acting_tenant who) (ur_run_id rq) (ur_worker_id rq) (role (credential who)) d) (\<lambda>_.
       add_artifact aid (acting_tenant who) (ur_run_id rq) blob
         (if truthy (ur_content_type rq) then the (ur_content_type rq) else DEFAULT_MIME) now d)"
  show ?thesis
  proof (cases added)
    case (Inl e)
    with assms show ?thesis by (auto simp: record_upload_def added_def [symmetric])
  next
    case (Inr y)
    obtain row created d1 where y: "y = ((row, created), d1)" by (metis prod.collapse)
    from Inr y obtain m where "add_artifact aid (acting_tenant who) (ur_run_id rq) blob m now d = Inr ((row, created), d1)"
      by (auto simp: added_def)
    from add_artifact_row [OF this] assms Inr y show ?thesis
      by (cases outcome; cases created) (auto simp: record_upload_def added_def [symmetric])
  qed
qed

lemma blobs_ok_new_object:
  assumes "blobs_ok sha d view" "view key = None"
  shows "blobs_ok sha d (view(key \<mapsto> bytes))"
  unfolding blobs_ok_def
proof
  fix row assume "row \<in> set (run_artifacts d)"
  with assms(1) obtain b where b: "view (blob_key row) = Some b" "art_size row = int (length b)" "checksum row = ''sha256:'' @ sha b" "b \<noteq> []"
    unfolding blobs_ok_def by blast
  with assms(2) have "blob_key row \<noteq> key" by auto
  with b show "\<exists>x. (view(key \<mapsto> bytes)) (blob_key row) = Some x \<and> art_size row = int (length x) \<and> checksum row = ''sha256:'' @ sha x \<and> x \<noteq> []"
    by auto
qed

context blob_port
begin

lemma taken_back_after_put:
  assumes "put key body s = (Inr b, s1)" "bo_delete B = delete"
  obtains s2 where "taken_back B (sb_key b) r s1 = (r, s2)" "view s2 = view s"
  | e s2 where "taken_back B (sb_key b) r s1 = (Inl e, s2)" "view s2 = (view s)(key \<mapsto> concat (fst body))" "view s key = None" "\<not> tidy"
proof -
  from put_stores [OF assms(1)] have k: "sb_key b = key" by (simp add: stored_def)
  from put_delete [OF assms(1)] show thesis
  proof cases
    case (1 s2)
    then show thesis by (intro that(1) [of s2]) (simp_all add: taken_back_def k assms(2))
  next
    case (2 f s2)
    then show thesis by (intro that(2) [of "raised_fault f" s2]) (simp_all add: taken_back_def k assms(2))
  qed
qed

lemma keeps_blobs: "blobs_ok sha d v \<Longrightarrow> v \<subseteq>\<^sub>m v' \<Longrightarrow> blobs_ok sha d v'"
  unfolding blobs_ok_def map_le_def dom_def by fastforce

lemma upload_effect:
  assumes B: "bo_put B = put" "bo_delete B = delete"
    and ok: "blobs_ok sha d (view s)" and run: "upload B who rq aid committed outcome now d0 d s = (r, d', s')"
  shows "view s \<subseteq>\<^sub>m view s' \<and> (isl r \<and> outcome = InDoubt \<or> blobs_ok sha d' (view s')) \<and>
    (case r of
       Inl e \<Rightarrow> (tidy \<longrightarrow> view s' = view s) \<and>
         (d' = d \<or> outcome = InDoubt \<and> (\<exists>row. d' = d\<lparr>run_artifacts := run_artifacts d @ [row]\<rparr> \<and>
            aid \<notin> artifact_id ` set (run_artifacts d) \<and> artifact_id row = aid \<and> (tidy \<longrightarrow> view s' (blob_key row) = None)))
     | Inr a \<Rightarrow> ur_checksum rq \<in> {None, Some (''sha256:'' @ sha (concat (ur_body rq)))} \<and>
         int (length (concat (ur_body rq))) \<le> MAX_ARTIFACT_BYTES \<and>
         (\<exists>row\<in>set (run_artifacts d'). an_body a = artifact_ref_of row \<and> art_run_id row = ur_run_id rq \<and>
            checksum row = ''sha256:'' @ sha (concat (ur_body rq)) \<and>
            (if an_status a = 201
             then d' = d\<lparr>run_artifacts := run_artifacts d @ [row]\<rparr> \<and> artifact_id row = aid \<and>
               aid \<notin> artifact_id ` set (run_artifacts d) \<and> art_tenant_id row = acting_tenant who \<and>
               view s' = (view s)(blob_key row \<mapsto> concat (ur_body rq))
             else an_status a = 200 \<and> d' = d \<and> view s' = view s)))"
proof (cases "bind_result (check_artifact_writer (acting_tenant who) (ur_run_id rq) (ur_worker_id rq) (role (credential who)) d0)
    (\<lambda>_. if committed then nonempty_body rq else Inl (Unavailable True RETRY_AFTER_SECONDS))")
  case (Inl e)
  with run ok show ?thesis by (auto simp: upload_def)
next
  case first: (Inr body)
  then have body: "nonempty_body rq = Inr body" by (auto split: if_splits)
  obtain p s1 where put: "put (blob_key_of aid) body s = (p, s1)" by fastforce
  show ?thesis
  proof (cases p)
    case (Inl f)
    from put_fails [OF put [unfolded Inl]] run first put ok Inl keeps_blobs [OF ok]
    show ?thesis by (auto simp: upload_def B)
  next
    case (Inr blob)
    note put = put [unfolded Inr]
    from put_stores [OF put] have st: "snd body = None" "blob = stored sha (blob_key_of aid) (concat (fst body))"
      "view s (blob_key_of aid) = None" "view s1 = (view s)(blob_key_of aid \<mapsto> concat (fst body))" by auto
    from nonempty_body_Inr [OF body] st(1) have "concat (fst body) = concat (ur_body rq)" "concat (fst body) \<noteq> []"
      "int (length (concat (ur_body rq))) \<le> MAX_ARTIFACT_BYTES" by blast+
    then have bytes: "concat (fst body) = concat (ur_body rq)" "concat (ur_body rq) \<noteq> []"
      "int (length (concat (ur_body rq))) \<le> MAX_ARTIFACT_BYTES" by simp_all
    have b: "sb_sha256 blob = sha (concat (ur_body rq))" "sb_key blob = blob_key_of aid" "sb_size blob = int (length (concat (ur_body rq)))"
      by (simp_all add: st(2) stored_def bytes)
    have grows: "view s \<subseteq>\<^sub>m (view s)(blob_key_of aid \<mapsto> concat (fst body))" using st(3) by (auto simp: map_le_def dom_def)
    note kept = keeps_blobs [OF ok grows]
    \<comment> \<open>what is taken back after the put, whatever is then raised or answered\<close>
    have undone: "\<exists>s2 x. taken_back B (sb_key blob) y s1 = (x, s2) \<and> view s \<subseteq>\<^sub>m view s2 \<and> blobs_ok sha d (view s2) \<and>
        (tidy \<longrightarrow> view s2 = view s) \<and> (x = y \<and> view s2 = view s \<or> isl x)" for y :: "artifact_ref answer result"
      using taken_back_after_put [OF put B(2), of y] ok kept grows by (metis isl_def map_le_refl)
    show ?thesis
    proof (cases "ur_checksum rq \<noteq> None \<and> ur_checksum rq \<noteq> Some (''sha256:'' @ sb_sha256 blob)")
      case True
      with undone [of "Inl Unprocessable"] run first put show ?thesis by (auto simp: upload_def B isl_def)
    next
      case checksum: False
      obtain x d1 where rec: "record_upload who rq aid blob outcome now d = (x, d1)" by fastforce
      from record_upload_cases [OF rec] show ?thesis
      proof (elim disjE exE conjE)
        fix e assume x: "x = Inl e" "d1 = d"
        with undone [of "Inl e"] rec run first put checksum show ?thesis by (auto simp: upload_def B isl_def)
      next
        fix e row assume x: "x = Inl e" "outcome = InDoubt" "adds_row (acting_tenant who) blob aid row d d1"
        obtain s2 y where undo: "taken_back B (sb_key blob) (Inl e) s1 = (y :: artifact_ref answer result, s2)" "view s \<subseteq>\<^sub>m view s2"
          "tidy \<longrightarrow> view s2 = view s" "y = Inl e \<or> isl y" using undone [of "Inl e"] by blast
        then obtain e' where y: "y = Inl e'" by (auto simp: isl_def)
        have r: "r = Inl e'" "d' = d1" "s' = s2"
          using run first put checksum rec x(1) undo(1) y by (auto simp: upload_def B)
        have row: "d1 = d\<lparr>run_artifacts := run_artifacts d @ [row]\<rparr>" "aid \<notin> artifact_id ` set (run_artifacts d)" "artifact_id row = aid"
          "tidy \<longrightarrow> view s2 (blob_key row) = None" using x(3) undo(3) st(3) b(2) by (simp_all add: adds_row_def)
        show ?thesis unfolding r sum.case isl_def using undo(2,3) x(2) row by blast
      next
        fix row created
        assume x: "x = Inr (row, created)" and row: "art_run_id row = ur_run_id rq" "checksum row = ''sha256:'' @ sb_sha256 blob"
          "row \<in> set (run_artifacts d1)" "if created then adds_row (acting_tenant who) blob aid row d d1 else d1 = d"
        show ?thesis
        proof (cases created)
          case True
          then have r: "r = Inr \<lparr>an_status = 201, an_location = Some (ARTIFACTS_PATH @ ''/'' @ artifact_id row), an_body = artifact_ref_of row\<rparr>"
            "d' = d1" "s' = s1" using run first put checksum rec x by (auto simp: upload_def B)
          have "blobs_ok sha d1 (view s1)" using kept True row b bytes by (auto simp: blobs_ok_def st(4) adds_row_def)
          with True row b bytes checksum grows show ?thesis by (auto simp: r st(4) adds_row_def)
        next
          case False
          let ?y = "Inr (ok (artifact_ref_of row)) :: artifact_ref answer result"
          obtain s2 y where undo: "taken_back B (sb_key blob) ?y s1 = (y, s2)" "view s \<subseteq>\<^sub>m view s2" "blobs_ok sha d (view s2)"
            "tidy \<longrightarrow> view s2 = view s" "y = ?y \<and> view s2 = view s \<or> isl y" using undone [of ?y] by blast
          have r: "r = y" "d' = d" "s' = s2"
            using run first put checksum rec x row(4) False undo(1) by (auto simp: upload_def B)
          show ?thesis
          proof (cases y)
            case (Inl e)
            with undo r show ?thesis by simp
          next
            case (Inr z)
            with undo(5) have y: "y = ?y" "view s2 = view s" by (auto simp: isl_def)
            have row': "row \<in> set (run_artifacts d)" "checksum row = ''sha256:'' @ sha (concat (ur_body rq))"
              using row False b(1) by simp_all
            show ?thesis
              unfolding r y sum.case using ok checksum b(1) bytes row(1) row' by (auto simp: ok_def)
          qed
        qed
      qed
    qed
  qed
qed

lemma read_back:
  assumes "view s key = Some bytes" "bytes \<noteq> []" "bo_get B = get"
  shows "\<exists>sent. read_blob sha (sha bytes) (int (length bytes)) (bo_get B key s) = (sent, None) \<and> concat sent = bytes \<and> sent \<noteq> []"
proof -
  obtain cs e where g: "get key s = (cs, e)" by fastforce
  with get_whole [OF assms(1)] have c: "e = None" "concat cs = bytes" by auto
  obtain sent r where rd: "read_blob sha (sha bytes) (int (length bytes)) (cs, e) = (sent, r)" by fastforce
  then have rf: "read_from sha (sha bytes) (int (length bytes)) [] None cs None = (sent, r)" by (simp add: read_blob_def c(1))
  have "r = None"
  proof (rule ccontr)
    assume "r \<noteq> None"
    with rf read_from_fault have "r = Some BlobCorrupt" by (cases r) auto
    with read_from_sent [OF rf] c(2) show False by simp
  qed
  with read_from_sent [OF rf] c(2) have "concat sent = bytes" by (simp add: held_chunks_def)
  with assms(2) have "sent \<noteq> []" by auto
  with rd \<open>r = None\<close> \<open>concat sent = bytes\<close> show ?thesis by (simp add: assms(3) g)
qed

end

section \<open>On the file system\<close>

lemma filesystem_ops_puts: "bo_put (filesystem_ops F sha names) = put_stream F sha names" "bo_delete (filesystem_ops F sha names) = delete_blob F"
  by (simp_all add: filesystem_ops_def)


definition demo_upload :: upload_request where
  "demo_upload = \<lparr>ur_run_id = ''run_1'', ur_worker_id = Some ''w1'', ur_checksum = Some ''sha256:ab'', ur_content_type = None,
     ur_declared = Some 2, ur_body = [''a'', [], ''b''], ur_broken = False\<rparr>"

definition no_faults :: file_faults where
  "no_faults = \<lparr>open_fails = False, write_fails = None, close_fails = False, link_fails = False, discard_fails = False, unlink_fails = False\<rparr>"

definition demo_artifact :: artifact_row where
  "demo_artifact = new_artifact ''art_1'' ''acme'' ''run_1'' (stored (\<lambda>bytes. bytes) ''artifacts/art_1'' ''ab'') DEFAULT_MIME 9"

lemma demo_nonempty: "nonempty_body demo_upload = Inr ([''a'', ''b''], None)"
  by (simp add: nonempty_body_def upload_body_def demo_upload_def MAX_ARTIFACT_BYTES_def)

lemma demo_put:
  "\<exists>fs. put_stream no_faults (\<lambda>bytes. bytes) [''x''] ''artifacts/art_1'' ([''a'', ''b''], None) Map.empty =
     (Inr (stored (\<lambda>bytes. bytes) ''artifacts/art_1'' ''ab''), fs)"
  by (simp add: put_stream_def blob_path_def mkstemp_def link_file_def discard_def no_faults_def raised_last_def)

lemma demo_writer: "check_artifact_writer ''acme'' ''run_1'' (Some ''w1'') key_role demo_leased = Inr ()"
  by (simp add: check_artifact_writer_def demo_leased_found held_by_def demo_leased_row_def)

lemma demo_recorded:
  "record_upload demo_caller demo_upload ''art_1'' (stored (\<lambda>bytes. bytes) ''artifacts/art_1'' ''ab'') outcome 9 demo_leased =
     (if outcome = Committed then Inr (demo_artifact, True) else Inl (Unavailable True RETRY_AFTER_SECONDS),
      if outcome = NotCommitted then demo_leased else demo_leased\<lparr>run_artifacts := [demo_artifact]\<rparr>)"
proof -
  have "run_artifacts demo_leased = []" "''run_1'' \<in> run_id ` set (runs demo_leased)"
    by (simp_all add: demo_leased_def demo_queued_def empty_db_def demo_leased_row_def new_row_def demo_start_def)
  then show ?thesis
    by (simp add: record_upload_def demo_caller_def demo_key_def demo_upload_def demo_writer truthy_def add_artifact_def
        demo_artifact_def Let_def split: commit_outcome.split)
qed

lemma demo_uploaded:
  "\<exists>fs. upload (filesystem_ops no_faults (\<lambda>bytes. bytes) [''x'']) demo_caller demo_upload ''art_1'' True Committed 9 demo_leased demo_leased Map.empty =
     (Inr \<lparr>an_status = 201, an_location = Some ''/v1/artifacts/art_1'', an_body = artifact_ref_of demo_artifact\<rparr>,
      demo_leased\<lparr>run_artifacts := [demo_artifact]\<rparr>, fs)"
proof -
  from demo_put obtain fs where "put_stream no_faults (\<lambda>bytes. bytes) [''x''] ''artifacts/art_1'' ([''a'', ''b''], None) Map.empty =
     (Inr (stored (\<lambda>bytes. bytes) ''artifacts/art_1'' ''ab''), fs)" ..
  moreover have "check_artifact_writer (acting_tenant demo_caller) (ur_run_id demo_upload) (ur_worker_id demo_upload)
      (role (credential demo_caller)) demo_leased = Inr ()"
    by (simp add: demo_caller_def demo_upload_def demo_writer)
  moreover have "ur_checksum demo_upload = Some (''sha256:'' @ sb_sha256 (stored (\<lambda>bytes. bytes) ''artifacts/art_1'' ''ab''))"
    by (simp add: demo_upload_def stored_def)
  ultimately show ?thesis
    by (simp add: upload_def demo_nonempty filesystem_ops_def blob_key_of_def demo_recorded)
      (simp add: ARTIFACTS_PATH_def demo_artifact_def new_artifact_def)
qed

lemma demo_blobs: "blobs_ok sha demo_leased view"
  by (simp add: blobs_ok_def demo_leased_def demo_queued_def empty_db_def)


text \<open>The commit that took while its answer was lost: the artifact is on record, and its bytes are gone.\<close>

lemma commit_in_doubt_loses_bytes:
  "\<exists>fs. upload (filesystem_ops no_faults (\<lambda>bytes. bytes) [''x'']) demo_caller demo_upload ''art_1'' True InDoubt 9 demo_leased demo_leased Map.empty =
     (Inl (Unavailable True RETRY_AFTER_SECONDS), demo_leased\<lparr>run_artifacts := [demo_artifact]\<rparr>, fs) \<and>
     download (filesystem_ops no_faults (\<lambda>bytes. bytes) [''x'']) (\<lambda>bytes. bytes) demo_caller ''art_1'' None
       (demo_leased\<lparr>run_artifacts := [demo_artifact]\<rparr>) fs = Inl NotFound"
proof -
  let ?B = "filesystem_ops no_faults (\<lambda>bytes. bytes) [''x'']" and ?blob = "stored (\<lambda>bytes. bytes) ''artifacts/art_1'' ''ab''"
  from demo_put obtain fs1 where put: "put_stream no_faults (\<lambda>bytes. bytes) [''x''] ''artifacts/art_1'' ([''a'', ''b''], None) Map.empty =
     (Inr ?blob, fs1)" ..
  define fs where "fs = snd (taken_back ?B (sb_key ?blob) (Inl NotFound :: unit result) fs1)"
  have b: "sb_key ?blob = ''artifacts/art_1''" "blob_path ''artifacts/art_1'' = Some [''artifacts'', ''art_1'']"
    by (simp_all add: stored_def blob_path_def)
  have undo: "taken_back ?B (sb_key ?blob) r fs1 = (r, fs)" for r :: "artifact_ref answer result"
    by (simp add: fs_def taken_back_def b filesystem_ops_def delete_blob_def no_faults_def)
  have gone: "fs [''artifacts'', ''art_1''] = None"
    by (simp add: fs_def taken_back_def b filesystem_ops_def delete_blob_def no_faults_def)
  have "check_artifact_writer (acting_tenant demo_caller) (ur_run_id demo_upload) (ur_worker_id demo_upload)
      (role (credential demo_caller)) demo_leased = Inr ()"
    by (simp add: demo_caller_def demo_upload_def demo_writer)
  moreover have "ur_checksum demo_upload = Some (''sha256:'' @ sb_sha256 ?blob)"
    by (simp add: demo_upload_def stored_def)
  moreover have "bo_put ?B = put_stream no_faults (\<lambda>bytes. bytes) [''x'']" by (simp add: filesystem_ops_def)
  ultimately have "upload ?B demo_caller demo_upload ''art_1'' True InDoubt 9 demo_leased demo_leased Map.empty =
     (Inl (Unavailable True RETRY_AFTER_SECONDS), demo_leased\<lparr>run_artifacts := [demo_artifact]\<rparr>, fs)"
    by (simp add: upload_def demo_nonempty put undo blob_key_of_def demo_recorded)
  moreover have "get_artifact (acting_tenant demo_caller) ''art_1'' (demo_leased\<lparr>run_artifacts := [demo_artifact]\<rparr>) = Inr demo_artifact"
    "blob_key demo_artifact = ''artifacts/art_1''"
    by (simp_all add: get_artifact_def demo_caller_def demo_artifact_def new_artifact_def stored_def)
  then have "download ?B (\<lambda>bytes. bytes) demo_caller ''art_1'' None (demo_leased\<lparr>run_artifacts := [demo_artifact]\<rparr>) fs = Inl NotFound"
    by (simp add: download_def etag_matches_def filesystem_ops_def blob_chunks_def b gone read_blob_def)
  ultimately show ?thesis by blast
qed

lemma sha256_of_checksum: "checksum row = ''sha256:'' @ x \<Longrightarrow> sha256_of row = x"
  by (simp add: sha256_of_def removeprefix_def)

lemma download_whole:
  assumes "blobs_ok sha d (objects fs)" "get_artifact (acting_tenant who) aid d = Inr row"
    and "objects fs (blob_key row) = Some bytes" "\<not> etag_matches if_none_match (etag_of row)"
  shows "\<exists>sent. download (filesystem_ops F sha names) sha who aid if_none_match d fs =
      Inr \<lparr>da_status = 200, da_etag = etag_of row, da_cache_control = CACHE_CONTROL, da_mime = Some (mime row),
        da_length = Some (int (length bytes)), da_body = (sent, None)\<rparr> \<and> concat sent = bytes"
proof -
  have "row \<in> set (run_artifacts d)" using assms(2) by (auto simp: get_artifact_def find_Some_iff split: option.splits)
  with assms(1,3) have row: "art_size row = int (length bytes)" "checksum row = ''sha256:'' @ sha bytes" "bytes \<noteq> []"
    unfolding blobs_ok_def by fastforce+
  from filesystem.read_back [OF assms(3) row(3), of "filesystem_ops F sha names" sha] obtain sent where
    "read_blob sha (sha bytes) (int (length bytes)) (blob_chunks (blob_key row) fs) = (sent, None)" "concat sent = bytes" "sent \<noteq> []"
    by (auto simp: filesystem_ops_def)
  then show ?thesis using assms(2,4) row
    by (cases sent) (auto simp: download_def filesystem_ops_def sha256_of_checksum split: list.split)
qed

text \<open>What was uploaded is what is downloaded: once an upload has answered 201, whoever acts in its tenant
  and names the artifact gets its bytes, all of them and nothing else, with their length and their
  checksum as the tag, unless the client says it has them.\<close>

lemma upload_download:
  assumes "blobs_ok sha d (objects fs)"
    and "upload (filesystem_ops F sha names) who rq aid committed outcome now d0 d fs = (Inr a, d', fs')" "an_status a = 201"
    and "acting_tenant reader = acting_tenant who"
    and "\<not> etag_matches if_none_match ([CHR 0x22] @ ref_checksum (an_body a) @ [CHR 0x22])"
  shows "\<exists>answer. download (filesystem_ops F sha names) sha reader (ref_artifact_id (an_body a)) if_none_match d' fs' = Inr answer \<and>
    da_status answer = 200 \<and> snd (da_body answer) = None \<and> concat (fst (da_body answer)) = concat (ur_body rq) \<and>
    da_length answer = Some (int (length (concat (ur_body rq)))) \<and>
    da_etag answer = [CHR 0x22] @ ''sha256:'' @ sha (concat (ur_body rq)) @ [CHR 0x22]"
proof -
  note effect = filesystem.upload_effect [OF filesystem_ops_puts assms(1,2)]
  then obtain row where rows: "row \<in> set (run_artifacts d')" "an_body a = artifact_ref_of row"
    "checksum row = ''sha256:'' @ sha (concat (ur_body rq))" "d' = d\<lparr>run_artifacts := run_artifacts d @ [row]\<rparr>"
    "artifact_id row = aid" "aid \<notin> artifact_id ` set (run_artifacts d)" "art_tenant_id row = acting_tenant who"
    "objects fs' = (objects fs)(blob_key row \<mapsto> concat (ur_body rq))"
    unfolding sum.case if_P [OF assms(3)] by blast
  note row = rows(2-7)
  have whole: "objects fs' (blob_key row) = Some (concat (ur_body rq))" by (simp add: rows(8))
  have "blobs_ok sha d' (objects fs')" using effect by auto
  moreover have "get_artifact (acting_tenant reader) (ref_artifact_id (an_body a)) d' = Inr row"
  proof -
    have "find (\<lambda>a. art_tenant_id a = acting_tenant who \<and> artifact_id a = aid) (run_artifacts d @ [row]) = Some row"
      using row(4-6) by (intro find_snoc) (metis imageI, simp)
    with row(1,3,4) assms(4) show ?thesis by (simp add: get_artifact_def artifact_ref_of_def)
  qed
  moreover have "\<not> etag_matches if_none_match (etag_of row)" using assms(5) row by (simp add: etag_of_def artifact_ref_of_def)
  ultimately obtain sent where "concat sent = concat (ur_body rq)"
    "download (filesystem_ops F sha names) sha reader (ref_artifact_id (an_body a)) if_none_match d' fs' =
      Inr \<lparr>da_status = 200, da_etag = etag_of row, da_cache_control = CACHE_CONTROL, da_mime = Some (mime row),
        da_length = Some (int (length (concat (ur_body rq)))), da_body = (sent, None)\<rparr>"
    using download_whole whole by metis
  then show ?thesis by (simp add: etag_of_def row(2))
qed

lemma upload_download_witness:
  "\<exists>d fs answer. upload (filesystem_ops no_faults (\<lambda>bytes. bytes) [''x'']) demo_caller demo_upload ''art_1'' True Committed 9 demo_leased demo_leased Map.empty =
     (Inr \<lparr>an_status = 201, an_location = Some ''/v1/artifacts/art_1'', an_body = artifact_ref_of demo_artifact\<rparr>, d, fs) \<and>
     download (filesystem_ops no_faults (\<lambda>bytes. bytes) [''x'']) (\<lambda>bytes. bytes) demo_caller ''art_1'' None d fs = Inr answer \<and>
     da_status answer = 200 \<and> concat (fst (da_body answer)) = ''ab''"
proof -
  from demo_uploaded obtain d fs where u: "upload (filesystem_ops no_faults (\<lambda>bytes. bytes) [''x'']) demo_caller demo_upload ''art_1'' True Committed 9
      demo_leased demo_leased Map.empty =
    (Inr \<lparr>an_status = 201, an_location = Some ''/v1/artifacts/art_1'', an_body = artifact_ref_of demo_artifact\<rparr>, d, fs)" by blast
  with upload_download [OF demo_blobs u _ refl, of None] show ?thesis
    by (auto simp: etag_matches_def artifact_ref_of_def demo_artifact_def new_artifact_def demo_upload_def)
qed

end
