(* ===== verification/Admin_Routes.thy ===== *)
theory Admin_Routes
  imports Run_Routes
begin

text \<open>
  \<open>src/agent_runs/api/routers/schedules.py\<close> and \<open>routers/webhooks.py\<close>: the routes that administer schedules
  and subscriptions, over the service's state. A route is one transaction; a fire that failed is
  committed with what it recorded on the schedule before it is raised. The ids and secrets a route
  mints, the network it resolves names with and the fault a fire meets are arguments.
\<close>

definition SCHEDULES_PREFIX :: string where
  "SCHEDULES_PREFIX = ''/v1/schedules''"

definition WEBHOOKS_PREFIX :: string where
  "WEBHOOKS_PREFIX = ''/v1/webhooks''"

definition created_answer :: "string \<Rightarrow> string \<Rightarrow> 'a \<Rightarrow> 'a answer" where
  "created_answer prefix i x = \<lparr>an_status = 201, an_location = Some (prefix @ ''/'' @ i), an_body = x\<rparr>"

definition no_content :: "unit answer" where
  "no_content = \<lparr>an_status = 204, an_location = None, an_body = ()\<rparr>"

section \<open>Schedules\<close>

definition on_schedules ::
  "(schedule_row list \<Rightarrow> ('a \<times> schedule_row list) result) \<Rightarrow> ('a \<Rightarrow> 'b) \<Rightarrow> service \<Rightarrow> ('b \<times> service) result" where
  "on_schedules f g s = bind_result (f (schedules s)) (\<lambda>(x, rows). Inr (g x, s\<lparr>schedules := rows\<rparr>))"

text \<open>\<open>_administered\<close>.\<close>

definition administered :: "caller \<Rightarrow> string \<Rightarrow> service \<Rightarrow> unit result" where
  "administered who sid s =
     bind_result (get_schedule (acting_tenant who) sid (schedules s)) (\<lambda>x.
       require_may_act_for who (Some (sd_on_behalf_of x)))"

definition create_schedule_route ::
  "schedule_lib \<Rightarrow> string \<Rightarrow> bool \<Rightarrow> caller \<Rightarrow> schedule_spec \<Rightarrow> instant \<Rightarrow> service \<Rightarrow> schedule answer result \<times> service" where
  "create_schedule_route L sid commits who spec now =
     transact commits (\<lambda>s.
       bind_result (require_tenant who (ss_tenant_id spec)) (\<lambda>_.
       bind_result (require_may_act_for who (Some (ss_on_behalf_of spec))) (\<lambda>_.
         on_schedules (upsert_schedule L sid spec (principal (credential who)) now)
           (\<lambda>(x, created). if created then created_answer SCHEDULES_PREFIX (sd_schedule_id x) x else ok x) s)))"

definition get_schedule_route :: "caller \<Rightarrow> string \<Rightarrow> service \<Rightarrow> schedule answer result" where
  "get_schedule_route who sid s = bind_result (get_schedule (acting_tenant who) sid (schedules s)) (\<lambda>x. Inr (ok x))"

definition update_schedule_route ::
  "schedule_lib \<Rightarrow> bool \<Rightarrow> caller \<Rightarrow> string \<Rightarrow> schedule_update \<Rightarrow> instant \<Rightarrow> service \<Rightarrow> schedule answer result \<times> service" where
  "update_schedule_route L commits who sid change now =
     transact commits (\<lambda>s.
       bind_result (administered who sid s) (\<lambda>_.
         on_schedules (update_schedule L (acting_tenant who) sid change now) ok s))"

definition delete_schedule_route :: "bool \<Rightarrow> caller \<Rightarrow> string \<Rightarrow> service \<Rightarrow> unit answer result \<times> service" where
  "delete_schedule_route commits who sid =
     transact commits (\<lambda>s.
       bind_result (administered who sid s) (\<lambda>_.
         on_schedules (delete_schedule (acting_tenant who) sid) (\<lambda>_. no_content) s))"

definition fire_route ::
  "schedule_lib \<Rightarrow> db_fault option \<Rightarrow> string \<Rightarrow> bool \<Rightarrow> caller \<Rightarrow> string \<Rightarrow> (instant \<times> int) option \<Rightarrow> instant \<Rightarrow> service \<Rightarrow>
   fire_result answer result \<times> service" where
  "fire_route L fault rid commits who sid asked now s =
     (case bind_result (administered who sid s) (\<lambda>_.
             fire L fault rid (acting_tenant who) sid asked now (store s) (schedules s)) of
        Inl e \<Rightarrow> (Inl e, s)
      | Inr ((outcome, d), rows) \<Rightarrow>
          if \<not> commits then (Inl (Unavailable True RETRY_AFTER_SECONDS), s)
          else ((case outcome of Fired r \<Rightarrow> Inr (ok r) | FireFailed x err \<Rightarrow> Inl (fire_failed_error x err)),
                s\<lparr>store := d, schedules := rows\<rparr>))"

section \<open>Subscriptions\<close>

definition on_outbox :: "(outbox \<Rightarrow> ('a \<times> outbox) result) \<Rightarrow> ('a \<Rightarrow> 'b) \<Rightarrow> service \<Rightarrow> ('b \<times> service) result" where
  "on_outbox f g s = bind_result (f (box s)) (\<lambda>(x, b). Inr (g x, s\<lparr>box := b\<rparr>))"

record webhook_settings =
  is_dev :: bool
  private_webhook_targets :: bool
  secret_overlap :: duration

definition create_webhook_route ::
  "network \<Rightarrow> webhook_settings \<Rightarrow> string \<Rightarrow> string \<Rightarrow> bool \<Rightarrow> caller \<Rightarrow> webhook_create \<Rightarrow> instant \<Rightarrow> service \<Rightarrow>
   (webhook \<times> string) answer result \<times> service" where
  "create_webhook_route N ws wid secret commits who body now =
     transact commits (\<lambda>s.
       bind_result (check_url N (is_dev ws) (wc_url body)) (\<lambda>_.
       bind_result (if private_webhook_targets ws then Inr () else require_public N (wc_url body)) (\<lambda>_.
         on_outbox (create_webhook wid secret (acting_tenant who) body (principal (credential who)) now)
           (\<lambda>x. created_answer WEBHOOKS_PREFIX wid x) s)))"

definition get_webhook_route :: "caller \<Rightarrow> string \<Rightarrow> service \<Rightarrow> webhook answer result" where
  "get_webhook_route who wid s = bind_result (get_webhook (acting_tenant who) wid (box s)) (\<lambda>x. Inr (ok x))"

definition redeliver_route :: "bool \<Rightarrow> caller \<Rightarrow> string \<Rightarrow> instant \<Rightarrow> service \<Rightarrow> delivery_record answer result \<times> service" where
  "redeliver_route commits who did now = transact commits (on_outbox (redeliver (acting_tenant who) did now) ok)"

definition rotate_secret_route ::
  "webhook_settings \<Rightarrow> string \<Rightarrow> bool \<Rightarrow> caller \<Rightarrow> string \<Rightarrow> instant \<Rightarrow> service \<Rightarrow> (webhook \<times> string) answer result \<times> service" where
  "rotate_secret_route ws secret commits who wid now =
     transact commits (on_outbox (rotate_secret secret (acting_tenant who) wid (secret_overlap ws) now) ok)"

definition delete_webhook_route :: "bool \<Rightarrow> caller \<Rightarrow> string \<Rightarrow> service \<Rightarrow> unit answer result \<times> service" where
  "delete_webhook_route commits who wid =
     transact commits (on_outbox (delete_webhook (acting_tenant who) wid) (\<lambda>_. no_content))"

section \<open>Who may administer a schedule\<close>

definition may_administer :: "caller \<Rightarrow> schedule_row \<Rightarrow> bool" where
  "may_administer who row \<longleftrightarrow> sc_tenant_id row = acting_tenant who \<and> may_act_for (credential who) (sc_on_behalf_of row)"

lemma administered_Inr:
  assumes "administered who sid s = Inr x" "schedule_found (acting_tenant who) sid (schedules s) = Inr row"
  shows "may_administer who row"
  using assms schedule_found_Inr [OF assms(2)]
  by (auto simp: administered_def get_schedule_def require_may_act_for_def may_administer_def schedule_of_def split: if_splits)

lemma may_administer_owner:
  "schedule_owner a = schedule_owner b \<Longrightarrow> may_administer who a = may_administer who b"
  by (simp add: may_administer_def schedule_owner_def)

lemma put_row_touches:
  assumes "schedules_ok L rows" "row \<in> set rows" "schedule_id row' = schedule_id row"
    and "x \<in> set (put_row schedule_id row' rows) \<longleftrightarrow> x \<notin> set rows"
  shows "x = row \<or> x = row'"
proof (cases "x \<in> set rows")
  case True
  then have "x \<notin> set (put_row schedule_id row' rows)" using assms(4) by blast
  with True have "schedule_id x = schedule_id row'" by (auto simp: put_row_def image_iff)
  then show ?thesis using schedule_by_id [OF assms(1) True assms(2)] assms(3) by simp
next
  case False
  then have "x \<in> set (put_row schedule_id row' rows)" using assms(4) by blast
  from in_put_row [OF this] False show ?thesis by blast
qed

datatype schedule_write =
  Creates string schedule_spec
| Updates string schedule_update
| Deletes string
| Fires string "db_fault option" string "(instant \<times> int) option"

fun schedule_write_route :: "schedule_lib \<Rightarrow> bool \<Rightarrow> caller \<Rightarrow> schedule_write \<Rightarrow> instant \<Rightarrow> service \<Rightarrow> service" where
  "schedule_write_route L commits who (Creates sid spec) now s = snd (create_schedule_route L sid commits who spec now s)"
| "schedule_write_route L commits who (Updates sid u) now s = snd (update_schedule_route L commits who sid u now s)"
| "schedule_write_route L commits who (Deletes sid) now s = snd (delete_schedule_route commits who sid s)"
| "schedule_write_route L commits who (Fires rid fault sid asked) now s = snd (fire_route L fault rid commits who sid asked now s)"

text \<open>What a route changes of the schedules, it may administer.\<close>

definition touches_own :: "caller \<Rightarrow> schedule_row list \<Rightarrow> schedule_row list \<Rightarrow> bool" where
  "touches_own who rows rows' \<longleftrightarrow> (\<forall>x. (x \<in> set rows' \<longleftrightarrow> x \<notin> set rows) \<longrightarrow> may_administer who x)"

lemma touches_own_refl [simp]: "touches_own who rows rows"
  by (simp add: touches_own_def)

lemma touches_own_put:
  assumes "schedules_ok L rows" "row \<in> set rows" "schedule_owner row' = schedule_owner row" "may_administer who row"
  shows "touches_own who rows (put_row schedule_id row' rows)"
proof -
  have "schedule_id row' = schedule_id row" using assms(3) by (simp add: schedule_owner_def)
  from put_row_touches [OF assms(1,2) this] show ?thesis
    using assms(4) may_administer_owner [OF assms(3)] unfolding touches_own_def by blast
qed

lemma creates_own:
  assumes "spec_laws L" "require_tenant who (ss_tenant_id spec) = Inr y" "require_may_act_for who (Some (ss_on_behalf_of spec)) = Inr z"
    and "upsert_schedule L sid spec creator now rows = Inr (a, rows')"
  shows "touches_own who rows rows'"
proof -
  obtain x c where a: "a = (x, c)" by (cases a)
  from assms(4) [unfolded a] show ?thesis
  proof (cases rule: upsert_schedule_Inr)
    case (created spec' row)
    have "schedule_owner row = schedule_owner (apply_spec L (blank_schedule sid creator now) spec')"
      using armed_keeps(1) [OF created(2)] .
    then have "sc_tenant_id row = ss_tenant_id spec \<and> sc_on_behalf_of row = ss_on_behalf_of spec"
      using checked_Inr [OF assms(1) created(1)] unfolding apply_spec_owner by (simp add: schedule_owner_def)
    then have "may_administer who row"
      using assms(2,3) by (auto simp: may_administer_def require_tenant_def require_may_act_for_def split: if_splits)
    then show ?thesis using created(5) by (auto simp: touches_own_def)
  qed simp
qed

lemma updates_own:
  assumes "spec_laws L" "schedules_ok L (schedules s)" "administered who sid s = Inr y"
    and "update_schedule L (acting_tenant who) sid u now (schedules s) = Inr (x, rows')"
  shows "touches_own who (schedules s) rows'"
  using assms(4)
proof (cases rule: update_schedule_Inr)
  case (1 row sent spec row2 row3)
  have row: "row \<in> set (schedules s)" using schedule_found_Inr [OF 1(1)] by blast
  have "schedule_owner row3 = schedule_owner row"
    using update_row_keeps(1) [OF 1(4,5)] checked_Inr [OF assms(1) 1(3)] changed_spec_Inr [OF 1(2)]
    by (simp add: apply_spec_owner) (simp add: schedule_owner_def)
  from touches_own_put [OF assms(2) row this administered_Inr [OF assms(3) 1(1)]] show ?thesis using 1 by simp
qed

lemma deletes_own:
  assumes "schedules_ok L (schedules s)" "administered who sid s = Inr y"
    and "delete_schedule (acting_tenant who) sid (schedules s) = Inr (x, rows')"
  shows "touches_own who (schedules s) rows'"
proof -
  from assms(3) obtain row where row: "schedule_found (acting_tenant who) sid (schedules s) = Inr row"
    "rows' = filter (\<lambda>r. schedule_id r \<noteq> schedule_id row) (schedules s)" by (auto simp: delete_schedule_def)
  have "row \<in> set (schedules s)" using schedule_found_Inr [OF row(1)] by blast
  then have "x = row" if "x \<in> set (schedules s)" "schedule_id x = schedule_id row" for x
    using schedule_by_id [OF assms(1) that(1)] that(2) by blast
  with administered_Inr [OF assms(2) row(1)] show ?thesis by (auto simp: touches_own_def row(2))
qed

lemma fires_own:
  assumes "schedules_ok L (schedules s)" "administered who sid s = Inr y"
    and "fire L fault rid (acting_tenant who) sid asked now d (schedules s) = Inr ((outcome, d'), rows')"
  shows "touches_own who (schedules s) rows'"
  using assms(3)
proof (rule fire_Inr)
  fix row t z
  assume row: "row \<in> set (schedules s)" "sc_enabled row" "schedule_found (acting_tenant who) sid (schedules s) = Inr row"
    and run: "fire_tick L fault rid (schedule_of row) t z now d (schedules s) = Inr ((outcome, d'), rows')"
  from fire_tick_row [OF assms(1) row(1,2) run] obtain row' where
    "rows' = put_row schedule_id row' (schedules s)" "schedule_owner row' = schedule_owner row" by metis
  with touches_own_put [OF assms(1) row(1) _ administered_Inr [OF assms(2) row(3)]] show ?thesis by simp
qed

text \<open>C15. Nobody administers what runs as someone else: whatever a caller creates, changes, deletes or fires,
  every schedule that is not as it was is one of the caller's tenant that acts for a principal the
  caller's key may act for; the table of schedules keeps its promises, and a request that may not (or
  whose commit is not taken) changes nothing.\<close>

theorem schedule_administration:
  assumes "spec_laws L" "schedules_ok L (schedules s)" "schedule_write_route L commits who request now s = s'"
  shows "schedules_ok L (schedules s') \<and>
    (\<forall>x. (x \<in> set (schedules s') \<longleftrightarrow> x \<notin> set (schedules s)) \<longrightarrow>
       sc_tenant_id x = acting_tenant who \<and> may_act_for (credential who) (sc_on_behalf_of x))"
proof -
  have "schedules_ok L (schedules s') \<and> touches_own who (schedules s) (schedules s')"
  proof (cases request)
    case (Creates sid spec)
    then show ?thesis
      using assms(2,3) creates_own [OF assms(1)] upserting.keeps_ok [OF assms(2)]
      by (auto simp: create_schedule_route_def transact_def on_schedules_def bind_result_def split: sum.splits prod.splits if_splits)
  next
    case (Updates sid u)
    then show ?thesis
      using assms(2,3) updates_own [OF assms(1,2)] updating.keeps_ok [OF assms(2)]
      by (auto simp: update_schedule_route_def transact_def on_schedules_def bind_result_def split: sum.splits prod.splits if_splits)
  next
    case (Deletes sid)
    then show ?thesis
      using assms(2,3) deletes_own [OF assms(2)] deleting.keeps_ok [OF assms(2)]
      by (auto simp: delete_schedule_route_def transact_def on_schedules_def bind_result_def split: sum.splits prod.splits if_splits)
  next
    case (Fires rid fault sid asked)
    then show ?thesis
      using assms(2,3) fires_own [OF assms(2)] firing.keeps_ok [OF assms(2)]
      by (auto simp: fire_route_def bind_result_def split: sum.splits prod.splits if_splits)
  qed
  then show ?thesis by (simp add: touches_own_def may_administer_def)
qed

text \<open>A key that may act for nobody but itself cannot delete a schedule that runs as someone else.\<close>

theorem schedule_administration_witness:
  "demo_schedule \<in> set (schedules (schedule_write_route demo_lib True
     \<lparr>credential = demo_key\<lparr>may_act_as := []\<rparr>, acting_tenant = ''acme''\<rparr> (Deletes ''sch_1'') 0 demo_service))"
proof -
  let ?who = "\<lparr>credential = demo_key\<lparr>may_act_as := []\<rparr>, acting_tenant = ''acme''\<rparr>"
  have ok: "schedules_ok demo_lib (schedules demo_service)" using demo_service_ok by (simp add: service_ok_def)
  have "\<not> may_act_for (credential ?who) (sc_on_behalf_of demo_schedule)"
    by (simp add: may_act_for_def demo_key_def demo_schedule_def)
  with schedule_administration [OF demo_lib_laws(2) ok refl, of True ?who "Deletes ''sch_1''" 0] show ?thesis
    by (auto simp: demo_service_def simp del: schedule_write_route.simps)
qed

end
