(* ===== verification/Problems.thy ===== *)
theory Problems
  imports Keys Json
begin

text \<open>
  \<open>src/agent_runs/api/errors.py\<close>: the one shape of every error on the wire. A \<open>failure\<close> is what reaches an
  exception handler; \<open>answer_failure\<close> is the handler FastAPI picks for it. The sentences (\<open>detail\<close>) and
  the structured \<open>details\<close> are not modelled, nor is what is logged.
\<close>

type_synonym headers = "(string \<times> string) list"

record problem_body =
  pr_type :: string
  pr_title :: string
  pr_status :: int
  pr_instance :: string
  pr_code :: error_code
  pr_retryable :: bool
  pr_request_id :: "string option"

fun code_value :: "error_code \<Rightarrow> string" where
  "code_value VALIDATION = ''VALIDATION''"
| "code_value AUTHENTICATION = ''AUTHENTICATION''"
| "code_value AUTHORIZATION = ''AUTHORIZATION''"
| "code_value NOT_FOUND = ''NOT_FOUND''"
| "code_value CONFLICT = ''CONFLICT''"
| "code_value LEASE_LOST = ''LEASE_LOST''"
| "code_value PAYLOAD_TOO_LARGE = ''PAYLOAD_TOO_LARGE''"
| "code_value RATE_LIMIT = ''RATE_LIMIT''"
| "code_value DEPENDENCY_UNAVAILABLE = ''DEPENDENCY_UNAVAILABLE''"
| "code_value INTERNAL = ''INTERNAL''"

fun PROBLEM_TITLES :: "error_code \<Rightarrow> string" where
  "PROBLEM_TITLES VALIDATION = ''Invalid request''"
| "PROBLEM_TITLES AUTHENTICATION = ''Authentication required''"
| "PROBLEM_TITLES AUTHORIZATION = ''Not permitted''"
| "PROBLEM_TITLES NOT_FOUND = ''Not found''"
| "PROBLEM_TITLES CONFLICT = ''Conflict''"
| "PROBLEM_TITLES LEASE_LOST = ''Lease lost''"
| "PROBLEM_TITLES PAYLOAD_TOO_LARGE = ''Payload too large''"
| "PROBLEM_TITLES RATE_LIMIT = ''Too many requests''"
| "PROBLEM_TITLES DEPENDENCY_UNAVAILABLE = ''A dependency is unavailable''"
| "PROBLEM_TITLES INTERNAL = ''Internal error''"

definition STATUS_CODES :: "int \<rightharpoonup> error_code" where
  "STATUS_CODES = map_of [(401, AUTHENTICATION), (403, AUTHORIZATION), (404, NOT_FOUND), (409, CONFLICT),
     (413, PAYLOAD_TOO_LARGE), (429, RATE_LIMIT), (503, DEPENDENCY_UNAVAILABLE)]"

definition RETRYABLE_STATUSES :: "int list" where
  "RETRYABLE_STATUSES = [429, 503]"

definition PROBLEM_TYPE_PREFIX :: string where
  "PROBLEM_TYPE_PREFIX = ''urn:trellis:problem:''"

definition RETRY_AFTER :: string where
  "RETRY_AFTER = ''Retry-After''"

definition HEADER_REQUEST_ID :: string where
  "HEADER_REQUEST_ID = ''X-Request-ID''"

text \<open>\<open>str.lower\<close> on a code (its letters are ASCII) and \<open>replace("_", "-")\<close>.\<close>

definition lower_char :: "char \<Rightarrow> char" where
  "lower_char c = (let n = of_char c :: nat in if 65 \<le> n \<and> n \<le> 90 then char_of (n + 32) else c)"

definition kebab :: "string \<Rightarrow> string" where
  "kebab s = map (\<lambda>c. if c = CHR ''_'' then CHR ''-'' else c) (map lower_char s)"

definition problem_type :: "error_code \<Rightarrow> string" where
  "problem_type code = PROBLEM_TYPE_PREFIX @ kebab (code_value code)"

definition build_problem :: "error_code \<Rightarrow> int \<Rightarrow> bool \<Rightarrow> string \<Rightarrow> string option \<Rightarrow> problem_body" where
  "build_problem code status retryable inst request_id =
     \<lparr>pr_type = problem_type code, pr_title = PROBLEM_TITLES code, pr_status = status, pr_instance = inst,
      pr_code = code, pr_retryable = retryable, pr_request_id = request_id\<rparr>"

text \<open>\<open>dict.setdefault\<close>.\<close>

definition setdefault :: "string \<Rightarrow> string \<Rightarrow> headers \<Rightarrow> headers" where
  "setdefault name val hs = (if name \<in> fst ` set hs then hs else hs @ [(name, val)])"

record request =
  rq_path :: string
  rq_request_id :: "string option"

definition problem_answer :: "request \<Rightarrow> error_code \<Rightarrow> int \<Rightarrow> bool \<Rightarrow> headers \<Rightarrow> int \<Rightarrow> problem_body \<times> headers" where
  "problem_answer rq code status retryable hs wait =
     (let with_wait = (if retryable \<and> status \<in> set RETRYABLE_STATUSES then setdefault RETRY_AFTER (show_int wait) hs else hs);
          named = (case rq_request_id rq of None \<Rightarrow> with_wait | Some i \<Rightarrow> setdefault HEADER_REQUEST_ID i with_wait)
      in (build_problem code status retryable (rq_path rq) (rq_request_id rq), named))"

text \<open>What can reach a handler: an error of the service with the headers it carries, a request FastAPI
  found invalid, a bare HTTP error of the framework, a failure of the database, anything else.\<close>

datatype failure =
  ServiceFailure service_error headers
| InvalidRequest
| HttpFailure int headers
| PoolTimeout
| OperationalFailure
| InterfaceFailure
| OtherDbFailure bool  \<comment> \<open>\<open>connection_invalidated\<close>\<close>
| Unhandled

fun is_unavailable :: "failure \<Rightarrow> bool" where
  "is_unavailable PoolTimeout = True"
| "is_unavailable OperationalFailure = True"
| "is_unavailable InterfaceFailure = True"
| "is_unavailable (OtherDbFailure invalidated) = invalidated"
| "is_unavailable _ = False"

text \<open>\<open>getattr(exc, "retry_after", RETRY_AFTER_SECONDS)\<close>.\<close>

fun wait_of :: "service_error \<Rightarrow> int" where
  "wait_of (RateLimited s) = s"
| "wait_of (Unavailable _ s) = s"
| "wait_of _ = RETRY_AFTER_SECONDS"

definition service_answer :: "request \<Rightarrow> service_error \<Rightarrow> headers \<Rightarrow> problem_body \<times> headers" where
  "service_answer rq e hs = problem_answer rq (code_of e) (status_code e) (retryable_of e) hs (wait_of e)"

definition database_answer :: "request \<Rightarrow> failure \<Rightarrow> problem_body \<times> headers" where
  "database_answer rq f =
     (if is_unavailable f then service_answer rq (Unavailable True RETRY_AFTER_SECONDS) []
      else problem_answer rq INTERNAL 500 False [] RETRY_AFTER_SECONDS)"

definition http_code :: "int \<Rightarrow> error_code" where
  "http_code status =
     (case STATUS_CODES status of Some code \<Rightarrow> code | None \<Rightarrow> if status \<ge> 500 then INTERNAL else VALIDATION)"

fun answer_failure :: "request \<Rightarrow> failure \<Rightarrow> problem_body \<times> headers" where
  "answer_failure rq (ServiceFailure e hs) = service_answer rq e hs"
| "answer_failure rq InvalidRequest = problem_answer rq VALIDATION 422 False [] RETRY_AFTER_SECONDS"
| "answer_failure rq (HttpFailure status hs) =
     problem_answer rq (http_code status) status (status \<in> set RETRYABLE_STATUSES) hs RETRY_AFTER_SECONDS"
| "answer_failure rq Unhandled = problem_answer rq INTERNAL 500 False [] RETRY_AFTER_SECONDS"
| "answer_failure rq f = database_answer rq f"

section \<open>Properties\<close>

lemma setdefault_has [simp]: "name \<in> fst ` set (setdefault name v hs)"
  by (auto simp: setdefault_def)

lemma setdefault_names [simp]: "fst ` set (setdefault name v hs) = insert name (fst ` set hs)"
  by (auto simp: setdefault_def)

lemma setdefault_keeps: "map_of hs k = Some v \<Longrightarrow> map_of (setdefault name w hs) k = Some v"
  by (simp add: setdefault_def map_add_def)

lemma problem_types:
  "problem_type VALIDATION = ''urn:trellis:problem:validation''"
  "problem_type AUTHENTICATION = ''urn:trellis:problem:authentication''"
  "problem_type AUTHORIZATION = ''urn:trellis:problem:authorization''"
  "problem_type NOT_FOUND = ''urn:trellis:problem:not-found''"
  "problem_type CONFLICT = ''urn:trellis:problem:conflict''"
  "problem_type LEASE_LOST = ''urn:trellis:problem:lease-lost''"
  "problem_type PAYLOAD_TOO_LARGE = ''urn:trellis:problem:payload-too-large''"
  "problem_type RATE_LIMIT = ''urn:trellis:problem:rate-limit''"
  "problem_type DEPENDENCY_UNAVAILABLE = ''urn:trellis:problem:dependency-unavailable''"
  "problem_type INTERNAL = ''urn:trellis:problem:internal''"
  by (simp_all add: problem_type_def kebab_def lower_char_def PROBLEM_TYPE_PREFIX_def char_of_def bit_numeral_simps bit_0 Let_def)

lemma problem_type_inj: "problem_type c = problem_type c' \<longleftrightarrow> c = c'"
  by (cases c; cases c'; simp add: problem_types)

lemma header_names_differ [simp]: "RETRY_AFTER \<noteq> HEADER_REQUEST_ID"
  by (simp add: RETRY_AFTER_def HEADER_REQUEST_ID_def)

text \<open>What a failure carries with it.\<close>

fun carried :: "failure \<Rightarrow> headers" where
  "carried (ServiceFailure _ hs) = hs"
| "carried (HttpFailure _ hs) = hs"
| "carried _ = []"

lemma answer_failure_built:
  "\<exists>code status retryable wait. answer_failure rq f = problem_answer rq code status retryable (carried f) wait \<and>
     (retryable \<longrightarrow> status = 429 \<or> status = 503)"
proof (cases f)
  case (ServiceFailure e hs)
  then show ?thesis by (cases e) (auto simp: service_answer_def)
qed (auto simp: database_answer_def service_answer_def RETRYABLE_STATUSES_def)

text \<open>Every failure is answered in the one shape, and the shape tells a client what to do: the \<open>type\<close>
  names the \<open>code\<close> and only it, \<open>retryable\<close> is said exactly of a 429 or 503 that carries \<open>Retry-After\<close>
  (a failure that carries none of its own gets one), the request's id is on the answer whenever the
  request had one, and a header the failure carries is never overwritten.\<close>

lemma one_error_shape:
  assumes "answer_failure rq f = (p, hs)"
  shows "pr_instance p = rq_path rq \<and> pr_request_id p = rq_request_id rq \<and>
    (\<forall>code. pr_type p = problem_type code \<longleftrightarrow> code = pr_code p) \<and> pr_title p = PROBLEM_TITLES (pr_code p) \<and>
    (pr_retryable p \<longrightarrow> (pr_status p = 429 \<or> pr_status p = 503) \<and> RETRY_AFTER \<in> fst ` set hs) \<and>
    (\<not> pr_retryable p \<longrightarrow> (RETRY_AFTER \<in> fst ` set hs \<longleftrightarrow> RETRY_AFTER \<in> fst ` set (carried f))) \<and>
    (rq_request_id rq \<noteq> None \<longrightarrow> HEADER_REQUEST_ID \<in> fst ` set hs) \<and>
    (\<forall>k v. map_of (carried f) k = Some v \<longrightarrow> map_of hs k = Some v)"
proof -
  obtain code status retryable wait where a: "answer_failure rq f = problem_answer rq code status retryable (carried f) wait"
    and r: "retryable \<longrightarrow> status = 429 \<or> status = 503" using answer_failure_built by blast
  have p: "p = build_problem code status retryable (rq_path rq) (rq_request_id rq)"
    and hs: "hs = snd (problem_answer rq code status retryable (carried f) wait)"
    using a assms by (auto simp: problem_answer_def Let_def)
  have "RETRY_AFTER \<in> fst ` set hs \<longleftrightarrow> RETRY_AFTER \<in> fst ` set (carried f)" if "\<not> retryable"
    using that by (auto simp: hs problem_answer_def Let_def split: option.split)
  moreover have "RETRY_AFTER \<in> fst ` set hs" if "retryable"
    using that r by (auto simp: hs problem_answer_def Let_def RETRYABLE_STATUSES_def split: option.split)
  moreover have "HEADER_REQUEST_ID \<in> fst ` set hs" if "rq_request_id rq \<noteq> None"
    using that by (auto simp: hs problem_answer_def Let_def)
  moreover have "map_of hs k = Some v" if "map_of (carried f) k = Some v" for k v
    using that by (auto simp: hs problem_answer_def Let_def setdefault_keeps split: option.split)
  ultimately show ?thesis using r by (auto simp: p build_problem_def problem_type_inj)
qed

end
