(* ===== verification/Middleware.thy ===== *)
theory Middleware
  imports Problems Signatures
begin

text \<open>
  \<open>src/agent_runs/api/middleware.py\<close>: the request's id, the context a response leaves with, what is counted,
  and the bound of a JSON body. A request is the messages the ASGI server hands over; a header's text is
  Latin-1, a character of it one of 256. GZip is third-party and only where it is not used is modelled.
\<close>

section \<open>The request's id\<close>

definition id_letter :: "char \<Rightarrow> bool" where
  "id_letter c \<longleftrightarrow> (let n = of_char c :: nat in 48 \<le> n \<and> n \<le> 57 \<or> 65 \<le> n \<and> n \<le> 90 \<or> 97 \<le> n \<and> n \<le> 122)"

definition ID :: "string \<Rightarrow> bool" where
  "ID s \<longleftrightarrow>
     (case s of
        [] \<Rightarrow> False
      | c # cs \<Rightarrow> id_letter c \<and> length cs \<le> 199 \<and> list_all (\<lambda>c. id_letter c \<or> c \<in> set ''._:-'') cs)"

text \<open>A pattern's \<open>$\<close> also matches before a line feed that ends the text.\<close>

definition dollar :: "(string \<Rightarrow> bool) \<Rightarrow> string \<Rightarrow> bool" where
  "dollar p s \<longleftrightarrow> p s \<or> s \<noteq> [] \<and> last s = CHR 0x0A \<and> p (butlast s)"

definition request_id :: "string \<Rightarrow> string option \<Rightarrow> string" where
  "request_id minted header = (case header of Some v \<Rightarrow> if dollar ID v then v else minted | None \<Rightarrow> minted)"

section \<open>The context of a request\<close>

text \<open>\<open>MutableHeaders.setdefault\<close>: names are compared without case.\<close>

definition header_default :: "string \<Rightarrow> string \<Rightarrow> headers \<Rightarrow> headers" where
  "header_default name v hs = (if map lower_char name \<in> (\<lambda>h. map lower_char (fst h)) ` set hs then hs else hs @ [(name, v)])"

definition header_of :: "string \<Rightarrow> headers \<Rightarrow> string option" where
  "header_of name hs = map_of (map (\<lambda>(n, v). (map lower_char n, v)) hs) (map lower_char name)"

definition with_context :: "string \<Rightarrow> headers \<Rightarrow> headers \<Rightarrow> headers" where
  "with_context rid ratelimit hs = foldl (\<lambda>hs (n, v). header_default n v hs) (header_default HEADER_REQUEST_ID rid hs) ratelimit"

datatype app_raise = AppCancelled | AppFailed

text \<open>What the app inside did: the response starts it sent, and what it raised.\<close>

record app_run =
  ap_starts :: "(int \<times> headers) list"
  ap_raised :: "app_raise option"

definition CLIENT_CLOSED :: int where
  "CLIENT_CLOSED = 499"

text \<open>The response starts that leave, and the statuses counted.\<close>

definition in_context :: "string \<Rightarrow> headers \<Rightarrow> app_run \<Rightarrow> (int \<times> headers) list \<times> int list" where
  "in_context rid ratelimit run =
     (map (\<lambda>(status, hs). (status, with_context rid ratelimit hs)) (ap_starts run),
      map fst (ap_starts run) @
        (if ap_starts run \<noteq> [] then []
         else case ap_raised run of None \<Rightarrow> [] | Some AppCancelled \<Rightarrow> [CLIENT_CLOSED] | Some AppFailed \<Rightarrow> [500]))"

section \<open>The bound of a body\<close>

datatype asgi_message = BodyPart string bool | OtherMessage

definition artifact_upload_path :: "string \<Rightarrow> bool" where
  "artifact_upload_path path \<longleftrightarrow>
     (case split_on (CHR ''/'') path of
        [a, b, c, rid, e] \<Rightarrow> a = [] \<and> b = ''v1'' \<and> c = ''runs'' \<and> rid \<noteq> [] \<and> e = ''artifacts''
      | _ \<Rightarrow> False)"

definition ARTIFACT_UPLOAD :: "string \<Rightarrow> bool" where
  "ARTIFACT_UPLOAD path = dollar artifact_upload_path path"

text \<open>\<open>str.isdigit\<close> is true of the three superscript digits of Latin-1 too; \<open>int\<close> reads none of them.\<close>

definition superscript :: "char \<Rightarrow> bool" where
  "superscript c \<longleftrightarrow> (of_char c :: nat) \<in> {178, 179, 185}"

definition declared_length :: "string option \<Rightarrow> nat option result" where
  "declared_length declared =
     (case declared of
        None \<Rightarrow> Inr None
      | Some s \<Rightarrow>
          if \<not> (s \<noteq> [] \<and> list_all (\<lambda>c. is_digit c \<or> superscript c) s) then Inr None
          else if list_ex superscript s \<or> length s > MAX_INT_DIGITS then Inl Crashed
          else Inr (Some (read_nat s)))"

text \<open>\<open>counted\<close>: the messages the app reads, until a read raises.\<close>

fun counted_messages :: "nat \<Rightarrow> nat \<Rightarrow> asgi_message list \<Rightarrow> asgi_message list \<times> bool" where
  "counted_messages limit seen [] = ([], False)"
| "counted_messages limit seen (BodyPart b m # ms) =
     (if seen + length b > limit then ([], True)
      else (let (read, raised) = counted_messages limit (seen + length b) ms in (BodyPart b m # read, raised)))"
| "counted_messages limit seen (OtherMessage # ms) =
     (let (read, raised) = counted_messages limit seen ms in (OtherMessage # read, raised))"

datatype body_limit = Refused "problem_body \<times> headers" | Handed "asgi_message list" bool | LengthUnread

definition limit_body :: "nat \<Rightarrow> request \<Rightarrow> string option \<Rightarrow> asgi_message list \<Rightarrow> body_limit" where
  "limit_body limit rq declared ms =
     (if ARTIFACT_UPLOAD (rq_path rq) then Handed ms False
      else case declared_length declared of
        Inl _ \<Rightarrow> LengthUnread
      | Inr n \<Rightarrow>
          if (case n of None \<Rightarrow> False | Some k \<Rightarrow> k > limit)
          then Refused (build_problem PAYLOAD_TOO_LARGE 413 False (rq_path rq) (rq_request_id rq), [])
          else (let (read, raised) = counted_messages limit 0 ms in Handed read raised))"

text \<open>What a failure leaves the service as, through the context; the read that raised is the framework's HTTP
  error, and one nothing handled is answered outside the context.\<close>

definition leaves :: "string \<Rightarrow> headers \<Rightarrow> string \<Rightarrow> failure \<Rightarrow> problem_body \<times> headers" where
  "leaves rid ratelimit path f =
     (let (p, hs) = answer_failure \<lparr>rq_path = path, rq_request_id = Some rid\<rparr> f
      in (p, if f = Unhandled then hs else with_context rid ratelimit hs))"

section \<open>Compression\<close>

definition ARTIFACT_DOWNLOAD_PREFIX :: string where
  "ARTIFACT_DOWNLOAD_PREFIX = ''/v1/artifacts/''"

definition compressed :: "('a \<Rightarrow> 'a) \<Rightarrow> string \<Rightarrow> 'a \<Rightarrow> 'a" where
  "compressed gzip path app = (if take (length ARTIFACT_DOWNLOAD_PREFIX) path = ARTIFACT_DOWNLOAD_PREFIX then app else gzip app)"

section \<open>What is shown\<close>

fun body_bytes :: "asgi_message list \<Rightarrow> string" where
  "body_bytes [] = []"
| "body_bytes (BodyPart b m # ms) = b @ body_bytes ms"
| "body_bytes (OtherMessage # ms) = body_bytes ms"

lemma counted_messages_cases:
  assumes "counted_messages limit seen ms = (read, raised)" "seen \<le> limit"
  shows "seen + length (body_bytes read) \<le> limit" "\<exists>rest. ms = read @ rest"
    and "raised \<longleftrightarrow> limit < seen + length (body_bytes ms)" "\<not> raised \<Longrightarrow> read = ms"
  using assms
proof (induction limit seen ms arbitrary: read raised rule: counted_messages.induct)
  case (2 limit seen b m ms)
  { case 1 then show ?case using 2(1) by (auto split: if_splits prod.splits simp: add.assoc) }
  { case 2 then show ?case using "2.IH"(2) by (auto split: if_splits prod.splits) }
  { case 3 then show ?case using "2.IH"(3) by (auto split: if_splits prod.splits simp: add.assoc) }
  { case 4 then show ?case using "2.IH"(4) by (auto split: if_splits prod.splits) }
qed (auto split: prod.splits)

text \<open>C31. No JSON route is handed more bytes of a body than the limit: a body within it is handed over whole
  and as it came, of a larger one only a start within the limit, whose last read raises; a declared length
  past the limit is refused before a byte is read, with the problem the read would have been answered with,
  and a truthful declaration is refused exactly when the body is too large.\<close>

theorem body_bounded:
  assumes "\<not> ARTIFACT_UPLOAD path" "rq = \<lparr>rq_path = path, rq_request_id = Some rid\<rparr>" "limit_body limit rq declared ms = r"
  shows "(\<forall>read raised. r = Handed read raised \<longrightarrow>
      length (body_bytes read) \<le> limit \<and> (\<exists>rest. ms = read @ rest) \<and> (if raised then limit < length (body_bytes ms) else read = ms)) \<and>
    (\<forall>p hs. r = Refused (p, hs) \<longrightarrow> (p, with_context rid ratelimit hs) = leaves rid ratelimit path (HttpFailure 413 [])) \<and>
    (declared_length declared = Inr (Some (length (body_bytes ms))) \<longrightarrow>
      (if limit < length (body_bytes ms) then \<exists>answer. r = Refused answer else r = Handed ms False))"
proof -
  obtain read raised where c: "counted_messages limit 0 ms = (read, raised)" by fastforce
  note counted = counted_messages_cases [OF c, simplified]
  have e: "STATUS_CODES 413 = Some PAYLOAD_TOO_LARGE" by (simp add: STATUS_CODES_def)
  have p: "(build_problem PAYLOAD_TOO_LARGE 413 False path (Some rid), with_context rid ratelimit []) = leaves rid ratelimit path (HttpFailure 413 [])"
    by (simp add: leaves_def problem_answer_def http_code_def e RETRYABLE_STATUSES_def setdefault_def with_context_def header_default_def)
  have raised: "raised \<longleftrightarrow> limit < length (body_bytes ms)" using counted by simp
  have h: "r = Handed read raised" if "declared_length declared = Inr n" "n = None \<or> (\<exists>k. n = Some k \<and> k \<le> limit)" for n
    using assms that by (auto simp: limit_body_def c)
  consider (unread) "r = LengthUnread" "declared_length declared = Inl Crashed" | (handed) "r = Handed read raised" 
    | (refused) k where "declared_length declared = Inr (Some k)" "limit < k"
        "r = Refused (build_problem PAYLOAD_TOO_LARGE 413 False path (Some rid), [])"
    using assms by (auto simp: limit_body_def c declared_length_def split: option.splits if_splits)
  then show ?thesis
  proof cases
    case handed
    with counted raised h assms show ?thesis by (auto simp: limit_body_def c split: if_splits)
  next
    case refused
    with p show ?thesis by auto
  qed simp
qed

theorem body_bounded_witness:
  "limit_body 3 \<lparr>rq_path = ''/v1/runs'', rq_request_id = Some ''r''\<rparr> None [BodyPart ''ab'' True, BodyPart ''cd'' False] =
     Handed [BodyPart ''ab'' True] True \<and> length (body_bytes [BodyPart ''ab'' True]) \<le> 3"
proof -
  have path: "\<not> ARTIFACT_UPLOAD ''/v1/runs''" by (simp add: ARTIFACT_UPLOAD_def dollar_def artifact_upload_path_def)
  have r: "limit_body 3 \<lparr>rq_path = ''/v1/runs'', rq_request_id = Some ''r''\<rparr> None [BodyPart ''ab'' True, BodyPart ''cd'' False] =
     Handed [BodyPart ''ab'' True] True" using path by (simp add: limit_body_def declared_length_def)
  from body_bounded [OF path refl r] r show ?thesis by blast
qed

section \<open>Every answer is named\<close>

lemma header_of_None: "header_of k hs = None \<Longrightarrow> k \<notin> fst ` set hs"
  by (force simp: header_of_def map_of_eq_None_iff image_image case_prod_unfold)

lemma header_default_keeps: "header_of k hs = Some v \<Longrightarrow> header_of k (header_default n w hs) = Some v"
  by (simp add: header_of_def header_default_def map_add_def)

lemma header_default_has: "header_of n hs = None \<Longrightarrow> header_of n (header_default n w hs) = Some w"
proof -
  assume "header_of n hs = None"
  then have "map lower_char n \<notin> (\<lambda>h. map lower_char (fst h)) ` set hs" by (auto simp: header_of_def map_of_eq_None_iff image_image case_prod_unfold)
  with \<open>header_of n hs = None\<close> show ?thesis by (simp add: header_of_def header_default_def map_add_def)
qed

lemma with_context_keeps: "header_of k hs = Some v \<Longrightarrow> header_of k (with_context rid ratelimit hs) = Some v"
proof -
  have "header_of k hs = Some v \<Longrightarrow> header_of k (foldl (\<lambda>hs (n, v). header_default n v hs) hs rl) = Some v" for hs rl
    by (induction rl arbitrary: hs) (auto simp: header_default_keeps)
  moreover assume "header_of k hs = Some v"
  then have "header_of k (header_default HEADER_REQUEST_ID rid hs) = Some v" by (rule header_default_keeps)
  ultimately show ?thesis by (simp add: with_context_def)
qed

lemma with_context_named: "header_of HEADER_REQUEST_ID hs = None \<Longrightarrow> header_of HEADER_REQUEST_ID (with_context rid ratelimit hs) = Some rid"
proof -
  have "header_of k hs = Some v \<Longrightarrow> header_of k (foldl (\<lambda>hs (n, v). header_default n v hs) hs rl) = Some v" for k v hs rl
    by (induction rl arbitrary: hs) (auto simp: header_default_keeps)
  then show "header_of HEADER_REQUEST_ID hs = None \<Longrightarrow> ?thesis" using header_default_has by (simp add: with_context_def)
qed

text \<open>Whatever fails, the answer says which request it was: the body and the header name the request's id, which is
  the caller's when it sent one and the minted one otherwise; the failure's own header of that name stays.\<close>

lemma answers_named:
  assumes "leaves (request_id minted header) ratelimit path f = (p, hs)"
  shows "pr_request_id p = Some (request_id minted header)" "pr_instance p = path"
    and "header_of HEADER_REQUEST_ID (carried f) = None \<Longrightarrow> header_of HEADER_REQUEST_ID hs = Some (request_id minted header)"
    and "\<And>v. header = Some v \<Longrightarrow> ID v \<Longrightarrow> request_id minted header = v"
proof -
  let ?rid = "request_id minted header" and ?rq = "\<lparr>rq_path = path, rq_request_id = Some (request_id minted header)\<rparr>"
  obtain code status retryable wait where b: "answer_failure ?rq f = problem_answer ?rq code status retryable (carried f) wait"
    using answer_failure_built by blast
  obtain hs' where l: "answer_failure ?rq f = (p, hs')" "hs = (if f = Unhandled then hs' else with_context ?rid ratelimit hs')"
    using assms by (auto simp: leaves_def split: prod.splits)
  show "pr_request_id p = Some ?rid" "pr_instance p = path" using b l(1) by (auto simp: problem_answer_def Let_def build_problem_def)
  show "header_of HEADER_REQUEST_ID hs = Some ?rid" if none: "header_of HEADER_REQUEST_ID (carried f) = None"
  proof -
    let ?w = "if retryable \<and> status \<in> set RETRYABLE_STATUSES then setdefault RETRY_AFTER (show_int wait) (carried f) else carried f"
    have "map lower_char RETRY_AFTER \<noteq> map lower_char HEADER_REQUEST_ID" by (simp add: RETRY_AFTER_def HEADER_REQUEST_ID_def)
    then have n: "header_of HEADER_REQUEST_ID ?w = None" using none by (simp add: header_of_def setdefault_def map_add_def)
    then have m: "HEADER_REQUEST_ID \<notin> fst ` set ?w" by (rule header_of_None)
    have "hs' = setdefault HEADER_REQUEST_ID ?rid ?w" using b l(1) by (simp add: problem_answer_def Let_def)
    with m n have "header_of HEADER_REQUEST_ID hs' = Some ?rid" by (simp add: setdefault_def header_of_def map_add_def del: setdefault_names)
    then show ?thesis using with_context_keeps by (simp add: l(2))
  qed
qed (simp add: request_id_def dollar_def)

text \<open>A request is counted once: as it was answered, or, when nothing was, as what it will be answered.\<close>

lemma counted_once:
  assumes "in_context rid ratelimit run = (starts, counted)" "length (ap_starts run) \<le> 1" "ap_starts run \<noteq> [] \<or> ap_raised run \<noteq> None"
  shows "length counted = 1" "starts \<noteq> [] \<Longrightarrow> map fst starts = counted"
  using assms by (auto simp: in_context_def comp_def case_prod_unfold le_Suc_eq length_Suc_conv split: option.splits app_raise.splits)

end
