(* ===== verification/Deployment.thy ===== *)
theory Deployment
  imports Admin_Routes Middleware
begin

text \<open>
  What a deployment's settings come to: \<open>config/settings.py\<close> as read (reading the environment is Pydantic's),
  the connections of a process, the blob store, the stores, the webhook sender and the ticker built from
  them, and the operations routes of \<open>api/routers/ops.py\<close>.
\<close>

section \<open>Settings\<close>

record service_settings =
  sv_environment :: string
  sv_workers :: "nat option"
  sv_max_body_bytes :: nat
  sv_max_payload_bytes :: int

record runs_settings =
  rn_max_run_seconds :: "seconds option"
  rn_concurrency_per_key :: int
  rn_max_running_per_tenant :: "int option"
  rn_retention_days :: "int option"

record webhooks_section =
  wb_allow_private_targets :: "bool option"
  wb_secret_overlap_hours :: int
  wb_dead_retention_days :: int

record deployment =
  dp_service :: service_settings
  dp_connection_budget :: "nat option"
  dp_bucket :: "string option"
  dp_runs :: runs_settings
  dp_webhooks :: webhooks_section

definition MIN_WORKERS :: nat where
  "MIN_WORKERS = 1"

definition MAX_WORKERS :: nat where
  "MAX_WORKERS = 8"

text \<open>\<open>cpus\<close> is what the machine says; \<open>os.cpu_count\<close> may not know.\<close>

definition default_workers :: "nat option \<Rightarrow> nat" where
  "default_workers cpus = max MIN_WORKERS (min MAX_WORKERS (case cpus of None \<Rightarrow> MIN_WORKERS | Some n \<Rightarrow> if n = 0 then MIN_WORKERS else n))"

definition worker_count :: "nat option \<Rightarrow> service_settings \<Rightarrow> nat" where
  "worker_count cpus s = (case sv_workers s of None \<Rightarrow> default_workers cpus | Some n \<Rightarrow> n)"

record pool =
  pool_size :: nat
  pool_overflow :: nat

definition DB_CONNECTIONS_PER_PROCESS :: nat where
  "DB_CONNECTIONS_PER_PROCESS = 20"

definition MIN_CONNECTIONS_PER_PROCESS :: nat where
  "MIN_CONNECTIONS_PER_PROCESS = 2"

text \<open>\<open>-(-n // 2)\<close> rounds up.\<close>

definition pool_plan :: "nat option \<Rightarrow> nat \<Rightarrow> pool" where
  "pool_plan budget processes =
     (let per_process = (case budget of
            None \<Rightarrow> DB_CONNECTIONS_PER_PROCESS
          | Some b \<Rightarrow> max MIN_CONNECTIONS_PER_PROCESS (b div max 1 processes))
      in \<lparr>pool_size = (per_process + 1) div 2, pool_overflow = per_process div 2\<rparr>)"

definition days :: "int \<Rightarrow> duration" where
  "days n = n * 86400000000"

definition retention :: "runs_settings \<Rightarrow> duration option" where
  "retention s = map_option days (rn_retention_days s)"

definition dead_retention :: "webhooks_section \<Rightarrow> duration" where
  "dead_retention s = days (wb_dead_retention_days s)"

definition secret_overlap_of :: "webhooks_section \<Rightarrow> duration" where
  "secret_overlap_of s = wb_secret_overlap_hours s * 3600000000"

definition is_dev_environment :: "service_settings \<Rightarrow> bool" where
  "is_dev_environment s \<longleftrightarrow> sv_environment s = ''dev''"

definition LOCAL_ENVIRONMENTS :: "string list" where
  "LOCAL_ENVIRONMENTS = [''dev'', ''test'']"

text \<open>\<open>Settings._filesystem_blobs_are_local\<close>: without it there is no service.\<close>

definition filesystem_blobs_are_local :: "deployment \<Rightarrow> bool" where
  "filesystem_blobs_are_local s \<longleftrightarrow> truthy (dp_bucket s) \<or> sv_environment (dp_service s) \<in> set LOCAL_ENVIRONMENTS"

definition private_targets :: "deployment \<Rightarrow> bool" where
  "private_targets s =
     (case wb_allow_private_targets (dp_webhooks s) of None \<Rightarrow> is_dev_environment (dp_service s) | Some leave \<Rightarrow> leave)"

section \<open>What is built from them\<close>

datatype blob_choice = GcsStore string | FilesystemStore

definition open_blob_store :: "string option \<Rightarrow> blob_choice" where
  "open_blob_store bucket = (if truthy bucket then GcsStore (the bucket) else FilesystemStore)"

text \<open>\<open>_leasing\<close>: the limits a route that hands out a lease works under; a route's payload bound is the service's.\<close>

definition leasing :: "deployment \<Rightarrow> store_limits" where
  "leasing s = \<lparr>max_run_seconds = rn_max_run_seconds (dp_runs s), concurrency_per_key = rn_concurrency_per_key (dp_runs s),
     max_running_per_tenant = rn_max_running_per_tenant (dp_runs s)\<rparr>"

definition webhook_settings_of :: "deployment \<Rightarrow> webhook_settings" where
  "webhook_settings_of s = \<lparr>is_dev = is_dev_environment (dp_service s), private_webhook_targets = private_targets s,
     secret_overlap = secret_overlap_of (dp_webhooks s)\<rparr>"

definition deployed_sender :: "deployment \<Rightarrow> sender" where
  "deployed_sender s = new_sender (is_dev_environment (dp_service s)) (private_targets s)"

text \<open>The other limits of the ticker's run store are its defaults.\<close>

definition CONCURRENCY_PER_KEY :: int where
  "CONCURRENCY_PER_KEY = 1"

definition deployed_ticker :: "deployment \<Rightarrow> ticker" where
  "deployed_ticker s =
     new_ticker \<lparr>max_run_seconds = rn_max_run_seconds (dp_runs s), concurrency_per_key = CONCURRENCY_PER_KEY, max_running_per_tenant = None\<rparr>
       (dead_retention (dp_webhooks s)) (retention (dp_runs s))"

section \<open>Operations\<close>

text \<open>What the probe's \<open>SELECT 1\<close> came to within its three seconds.\<close>

datatype probe = Pinged | PingFailed | PingTimedOut

definition ping :: "probe \<Rightarrow> bool" where
  "ping p \<longleftrightarrow> p = Pinged"

definition live_route :: "string result" where
  "live_route = Inr ''ok''"

definition ready_route :: "probe \<Rightarrow> string result" where
  "ready_route p = (if \<not> ping p then Inl (Unavailable True RETRY_AFTER_SECONDS) else Inr ''ok'')"

section \<open>What is shown\<close>

text \<open>A process's pool: never empty, kept and burst together its share, and with two connections or more for
  every process, all the processes of a container together stay within the budget.\<close>

lemma pool_within_budget:
  fixes b n :: nat
  defines "p \<equiv> pool_plan (Some b) n"
  shows "1 \<le> pool_size p" "1 \<le> pool_overflow p" "pool_overflow p \<le> pool_size p \<and> pool_size p \<le> pool_overflow p + 1"
    and "pool_size p + pool_overflow p = max 2 (b div max 1 n)"
    and "2 * n \<le> b \<Longrightarrow> n * (pool_size p + pool_overflow p) \<le> b"
proof -
  let ?per = "max 2 (b div max 1 n)"
  have p: "pool_size p = (?per + 1) div 2" "pool_overflow p = ?per div 2"
    by (simp_all add: p_def pool_plan_def Let_def MIN_CONNECTIONS_PER_PROCESS_def)
  have "2 \<le> ?per" by simp
  then show "1 \<le> pool_size p" "1 \<le> pool_overflow p" "pool_overflow p \<le> pool_size p \<and> pool_size p \<le> pool_overflow p + 1"
    unfolding p by linarith+
  show sum: "pool_size p + pool_overflow p = ?per" unfolding p by linarith
  assume b: "2 * n \<le> b"
  show "n * (pool_size p + pool_overflow p) \<le> b"
  proof (cases "n = 0")
    case False
    with b have "?per = b div n" by (simp add: less_eq_div_iff_mult_less_eq max_def mult.commute)
    then show ?thesis unfolding sum by (simp add: mult.commute)
  qed simp
qed

lemma default_workers_bounds: "1 \<le> default_workers cpus" "default_workers cpus \<le> 8"
  by (simp_all add: default_workers_def MIN_WORKERS_def MAX_WORKERS_def)

text \<open>A deployment that is not one machine's keeps its artifacts in a bucket, and, unless it was told otherwise,
  takes a subscription only to an https URL of public addresses, with a ticker that sends over https and
  checks the addresses again at every attempt.\<close>

lemma deployed_safely:
  assumes "filesystem_blobs_are_local s" "sv_environment (dp_service s) \<notin> set LOCAL_ENVIRONMENTS"
    and "wb_allow_private_targets (dp_webhooks s) \<noteq> Some True"
    and "create_webhook_route N (webhook_settings_of s) wid secret commits who body now t = (Inr a, t')"
  shows "(\<exists>b. open_blob_store (dp_bucket s) = GcsStore b) \<and> url_scheme N (wc_url body) = ''https'' \<and>
    require_public N (wc_url body) = Inr () \<and> deployed_sender s = \<lparr>snd_schemes = [''https''], snd_allow_private = False\<rparr>"
proof -
  have dev: "\<not> is_dev_environment (dp_service s)" using assms(2) by (auto simp: is_dev_environment_def LOCAL_ENVIRONMENTS_def)
  then have pt: "\<not> private_targets s" using assms(3) by (auto simp: private_targets_def split: option.splits)
  have "check_url N False (wc_url body) = Inr () \<and> require_public N (wc_url body) = Inr ()"
    using assms(4) dev pt
    by (auto simp: create_webhook_route_def webhook_settings_of_def transact_def bind_result_Inr_iff split: sum.splits prod.splits if_splits)
  then show ?thesis using assms(1,2) dev pt
    by (auto simp: check_url_def filesystem_blobs_are_local_def open_blob_store_def deployed_sender_def new_sender_def split: if_splits)
qed

definition demo_deployment :: deployment where
  "demo_deployment = \<lparr>dp_service = \<lparr>sv_environment = ''prod'', sv_workers = None, sv_max_body_bytes = 4194304, sv_max_payload_bytes = 1048576\<rparr>,
     dp_connection_budget = Some 40, dp_bucket = Some ''artifacts'',
     dp_runs = \<lparr>rn_max_run_seconds = None, rn_concurrency_per_key = 1, rn_max_running_per_tenant = None, rn_retention_days = Some 30\<rparr>,
     dp_webhooks = \<lparr>wb_allow_private_targets = None, wb_secret_overlap_hours = 24, wb_dead_retention_days = 7\<rparr>\<rparr>"

lemma deployed_safely_witness:
  "\<exists>a t'. create_webhook_route demo_network (webhook_settings_of demo_deployment) ''wh_9'' ''s'' True demo_caller
      \<lparr>wc_url = ''out.test'', wc_events = [RunFinished]\<rparr> 1 (demo_service\<lparr>box := \<lparr>webhooks = [], deliveries = []\<rparr>\<rparr>) = (Inr a, t') \<and>
     deployed_sender demo_deployment = \<lparr>snd_schemes = [''https''], snd_allow_private = False\<rparr>"
proof -
  have d: "filesystem_blobs_are_local demo_deployment" "sv_environment (dp_service demo_deployment) \<notin> set LOCAL_ENVIRONMENTS"
    "wb_allow_private_targets (dp_webhooks demo_deployment) \<noteq> Some True"
    by (simp_all add: filesystem_blobs_are_local_def demo_deployment_def truthy_def LOCAL_ENVIRONMENTS_def)
  have "\<exists>a t'. create_webhook_route demo_network (webhook_settings_of demo_deployment) ''wh_9'' ''s'' True demo_caller
      \<lparr>wc_url = ''out.test'', wc_events = [RunFinished]\<rparr> 1 (demo_service\<lparr>box := \<lparr>webhooks = [], deliveries = []\<rparr>\<rparr>) = (Inr a, t')"
    by (simp add: create_webhook_route_def transact_def on_outbox_def webhook_settings_of_def demo_deployment_def is_dev_environment_def
        private_targets_def check_url_def require_public_def public_addresses_def demo_network_def truthy_def
        create_webhook_def MAX_WEBHOOKS_PER_TENANT_def Let_def)
  with deployed_safely [OF d] show ?thesis by blast
qed

end
