(* ===== verification/Codec.thy ===== *)
theory Codec
  imports Json
begin

text \<open>
  What the cursors are made of, from Python's standard library: UTF-8, \<open>base64.urlsafe_b64encode\<close> and
  \<open>urlsafe_b64decode\<close>, the strings \<open>json.dumps\<close> writes and the text \<open>json.loads\<close> reads. A byte and a code point
  are naturals here, a text the list of its code points.
\<close>

type_synonym bytes = "nat list"
type_synonym points = "nat list"

section \<open>UTF-8\<close>

definition surrogate :: "nat \<Rightarrow> bool" where
  "surrogate c \<longleftrightarrow> 55296 \<le> c \<and> c < 57344"

definition scalar :: "nat \<Rightarrow> bool" where
  "scalar c \<longleftrightarrow> c < 1114112 \<and> \<not> surrogate c"

definition utf8_char :: "nat \<Rightarrow> bytes" where
  "utf8_char c =
     (if c < 128 then [c]
      else if c < 2048 then [192 + c div 64, 128 + c mod 64]
      else if c < 65536 then [224 + c div 4096, 128 + c div 64 mod 64, 128 + c mod 64]
      else [240 + c div 262144, 128 + c div 4096 mod 64, 128 + c div 64 mod 64, 128 + c mod 64])"

definition utf8_encode :: "points \<Rightarrow> bytes" where
  "utf8_encode t = concat (map utf8_char t)"

definition continues :: "nat \<Rightarrow> bool" where
  "continues b \<longleftrightarrow> 128 \<le> b \<and> b < 192"

fun utf8_decode :: "bytes \<Rightarrow> points option" where
  "utf8_decode [] = Some []"
| "utf8_decode (a # bs) =
     (if a < 128 then map_option ((#) a) (utf8_decode bs)
      else case bs of
        [] \<Rightarrow> None
      | b # r \<Rightarrow>
          if 194 \<le> a \<and> a < 224 \<and> continues b
          then map_option ((#) ((a - 192) * 64 + (b - 128))) (utf8_decode r)
          else (case r of
             [] \<Rightarrow> None
           | c # r \<Rightarrow>
               (let p = (a - 224) * 4096 + (b - 128) * 64 + (c - 128)
                in if 224 \<le> a \<and> a < 240 \<and> continues b \<and> continues c \<and> 2048 \<le> p \<and> \<not> surrogate p
                   then map_option ((#) p) (utf8_decode r)
                   else (case r of
                      [] \<Rightarrow> None
                    | d # r \<Rightarrow>
                        (let p = (a - 240) * 262144 + (b - 128) * 4096 + (c - 128) * 64 + (d - 128)
                         in if 240 \<le> a \<and> a < 248 \<and> continues b \<and> continues c \<and> continues d \<and> 65536 \<le> p \<and> p < 1114112
                            then map_option ((#) p) (utf8_decode r)
                            else None)))))"

lemma digits3: "c div 4096 * 4096 + c div 64 mod 64 * 64 + c mod 64 = (c :: nat)"
proof -
  have "c div 4096 = c div 64 div 64" by (simp add: div_mult2_eq [symmetric])
  with div_mult_mod_eq [of "c div 64" 64] div_mult_mod_eq [of c 64] show ?thesis by linarith
qed

lemma digits4: "c div 262144 * 262144 + c div 4096 mod 64 * 4096 + c div 64 mod 64 * 64 + c mod 64 = (c :: nat)"
proof -
  have "c div 262144 = c div 4096 div 64" by (simp add: div_mult2_eq [symmetric])
  with div_mult_mod_eq [of "c div 4096" 64] digits3 [of c] show ?thesis by linarith
qed

lemma utf8_decode_char:
  assumes "scalar c"
  shows "utf8_decode (utf8_char c @ r) = map_option ((#) c) (utf8_decode r)"
proof -
  consider "c < 128" | "128 \<le> c" "c < 2048" | "2048 \<le> c" "c < 65536" | "65536 \<le> c" "c < 1114112"
    using assms by (auto simp: scalar_def) linarith+
  then show ?thesis
  proof cases
    case 1
    then show ?thesis by (simp add: utf8_char_def)
  next
    case 2
    then have "c div 64 < 32" "2 \<le> c div 64" by (auto simp: div_less_iff_less_mult less_eq_div_iff_mult_less_eq)
    with 2 show ?thesis by (simp add: utf8_char_def continues_def div_mult_mod_eq)
  next
    case 3
    have "c div 4096 < 16" using 3 by (auto simp: div_less_iff_less_mult)
    moreover have "c div 4096 * 4096 + c div 64 mod 64 * 64 + c mod 64 = c" by (rule digits3)
    moreover have "\<not> surrogate c" using assms by (simp add: scalar_def)
    ultimately show ?thesis using 3 by (simp add: utf8_char_def continues_def Let_def)
  next
    case 4
    have "c div 262144 < 8" using 4 by (auto simp: div_less_iff_less_mult)
    moreover have "c div 262144 * 262144 + c div 4096 mod 64 * 4096 + c div 64 mod 64 * 64 + c mod 64 = c" by (rule digits4)
    ultimately show ?thesis using 4 by (simp add: utf8_char_def continues_def Let_def)
  qed
qed

lemma utf8_round_trip: "list_all scalar t \<Longrightarrow> utf8_decode (utf8_encode t) = Some t"
  by (induction t) (simp_all add: utf8_encode_def utf8_decode_char)

lemma utf8_ascii: "list_all (\<lambda>c. c < 128) t \<Longrightarrow> utf8_decode t = Some t"
  by (induction t) auto

section \<open>base64url\<close>

definition base64_char :: "nat \<Rightarrow> nat" where
  "base64_char v = (if v < 26 then 65 + v else if v < 52 then 71 + v else if v < 62 then v - 4 else if v = 62 then 45 else 95)"

fun b64encode :: "bytes \<Rightarrow> bytes" where
  "b64encode [] = []"
| "b64encode [a] = [base64_char (a div 4), base64_char (a mod 4 * 16), 61, 61]"
| "b64encode [a, b] = [base64_char (a div 4), base64_char (a mod 4 * 16 + b div 16), base64_char (b mod 16 * 4), 61]"
| "b64encode (a # b # c # r) =
     base64_char (a div 4) # base64_char (a mod 4 * 16 + b div 16) # base64_char (b mod 16 * 4 + c div 64) #
     base64_char (c mod 64) # b64encode r"

text \<open>\<open>urlsafe_b64decode\<close> takes the letters of either alphabet; every other byte but the pad is passed over.\<close>

definition base64_value :: "nat \<Rightarrow> nat option" where
  "base64_value c =
     (if 65 \<le> c \<and> c < 91 then Some (c - 65) else if 97 \<le> c \<and> c < 123 then Some (c - 71)
      else if 48 \<le> c \<and> c < 58 then Some (c + 4) else if c = 43 \<or> c = 45 then Some 62
      else if c = 47 \<or> c = 95 then Some 63 else None)"

text \<open>\<open>binascii.a2b_base64\<close>: \<open>quad\<close> letters of a group were read, \<open>left\<close> is what of the last is not out yet, \<open>pads\<close>
  the pads since. A group its pads complete ends the input; one left open is an error.\<close>

fun a2b :: "nat \<Rightarrow> nat \<Rightarrow> nat \<Rightarrow> bytes \<Rightarrow> bytes option" where
  "a2b quad left pads [] = (if quad = 0 then Some [] else None)"
| "a2b quad left pads (c # cs) =
     (if c = 61 then
        (if quad \<ge> 2 \<and> quad + pads + 1 \<ge> 4 then Some []
         else a2b quad left (if quad \<ge> 2 then pads + 1 else pads) cs)
      else case base64_value c of
        None \<Rightarrow> a2b quad left pads cs
      | Some v \<Rightarrow>
          if quad = 0 then a2b 1 v 0 cs
          else if quad = 1 then map_option ((#) (left * 4 + v div 16)) (a2b 2 (v mod 16) 0 cs)
          else if quad = 2 then map_option ((#) (left * 16 + v div 4)) (a2b 3 (v mod 4) 0 cs)
          else map_option ((#) (left * 64 + v)) (a2b 0 0 0 cs))"

definition b64decode :: "bytes \<Rightarrow> bytes option" where
  "b64decode s = a2b 0 0 0 s"

text \<open>\<open>rstrip("=")\<close>, and the pads put back.\<close>

definition unpadded :: "bytes \<Rightarrow> bytes" where
  "unpadded s = rev (dropWhile ((=) 61) (rev s))"

definition repadded :: "bytes \<Rightarrow> bytes" where
  "repadded s = s @ replicate ((4 - length s mod 4) mod 4) 61"

lemma base64_char_value: "v < 64 \<Longrightarrow> base64_value (base64_char v) = Some v \<and> base64_char v \<noteq> 61 \<and> base64_char v < 128"
  by (auto simp: base64_char_def base64_value_def)

lemma a2b_char [simp]:
  "v < 64 \<Longrightarrow> a2b quad left pads (base64_char v # cs) =
     (if quad = 0 then a2b 1 v 0 cs
      else if quad = 1 then map_option ((#) (left * 4 + v div 16)) (a2b 2 (v mod 16) 0 cs)
      else if quad = 2 then map_option ((#) (left * 16 + v div 4)) (a2b 3 (v mod 4) 0 cs)
      else map_option ((#) (left * 64 + v)) (a2b 0 0 0 cs))"
  using base64_char_value [of v] by simp

lemma digit_pair: "q < k \<Longrightarrow> (n * k + q) div k = n" "q < k \<Longrightarrow> (n * k + q) mod k = q" for n k q :: nat
  by simp_all

lemma base64_parts:
  fixes a :: nat
  assumes "a < 256" "b < 256" "c < 256"
  shows "a div 4 < 64" "a mod 4 * 16 + b div 16 < 64" "b mod 16 * 4 + c div 64 < 64" "c mod 64 < 64" "a mod 4 * 16 < 64" "b mod 16 * 4 < 64"
    "(a mod 4 * 16 + b div 16) div 16 = a mod 4" "(a mod 4 * 16 + b div 16) mod 16 = b div 16"
    "(b mod 16 * 4 + c div 64) div 4 = b mod 16" "(b mod 16 * 4 + c div 64) mod 4 = c div 64"
proof -
  have m: "a mod 4 < 4" "b mod 16 < 16" "c mod 64 < 64" by simp_all
  have d: "a div 4 < 64" "b div 16 < 16" "c div 64 < 4" using assms by (simp_all add: div_less_iff_less_mult)
  show "a div 4 < 64" "a mod 4 * 16 + b div 16 < 64" "b mod 16 * 4 + c div 64 < 64" "c mod 64 < 64" "a mod 4 * 16 < 64" "b mod 16 * 4 < 64"
    using m d by linarith+
  show "(a mod 4 * 16 + b div 16) div 16 = a mod 4" "(a mod 4 * 16 + b div 16) mod 16 = b div 16"
    "(b mod 16 * 4 + c div 64) div 4 = b mod 16" "(b mod 16 * 4 + c div 64) mod 4 = c div 64"
    using digit_pair d by blast+
qed

lemma a2b_pad: "a2b quad left pads (61 # cs) =
    (if quad \<ge> 2 \<and> quad + pads + 1 \<ge> 4 then Some [] else a2b quad left (if quad \<ge> 2 then pads + 1 else pads) cs)"
  by simp

lemma b64_round_trip: "list_all (\<lambda>b. b < 256) bs \<Longrightarrow> b64decode (b64encode bs) = Some bs"
proof (induction bs rule: b64encode.induct)
  case (4 a b c r)
  then have "a < 256" "b < 256" "c < 256" "a2b 0 0 0 (b64encode r) = Some r" by (simp_all add: b64decode_def)
  with base64_parts [of a b c] show ?case by (simp add: b64decode_def div_mult_mod_eq del: a2b.simps(2))
next
  case (3 a b)
  then have "a < 256" "b < 256" by simp_all
  with base64_parts [of a b 0] show ?case by (simp add: b64decode_def a2b_pad del: a2b.simps(2))
next
  case (2 a)
  with base64_parts [of a 0 0] show ?case by (simp add: b64decode_def a2b_pad del: a2b.simps(2))
qed (simp add: b64decode_def)

lemma group_of_three: "(n + 5) div 3 = Suc (Suc (Suc n) div 3)"
  by presburger

lemma b64_shape:
  assumes "list_all (\<lambda>b. b < 256) bs"
  obtains body k where "b64encode bs = body @ replicate k 61" "k < 3" "61 \<notin> set body"
    "list_all (\<lambda>c. c < 128) body" "length body + k = 4 * ((length bs + 2) div 3)"
proof -
  have "\<exists>body k. b64encode bs = body @ replicate k 61 \<and> k < 3 \<and> 61 \<notin> set body \<and>
      list_all (\<lambda>c. c < 128) body \<and> length body + k = 4 * ((length bs + 2) div 3)"
    using assms
  proof (induction bs rule: b64encode.induct)
    case (4 a b c r)
    then have lt: "a < 256" "b < 256" "c < 256" by simp_all
    let ?g = "[base64_char (a div 4), base64_char (a mod 4 * 16 + b div 16), base64_char (b mod 16 * 4 + c div 64), base64_char (c mod 64)]"
    have g: "list_all (\<lambda>c. c < 128 \<and> c \<noteq> 61) ?g" using base64_parts [OF lt] base64_char_value by simp
    from 4 obtain body k where "b64encode r = body @ replicate k 61" "k < 3" "61 \<notin> set body"
      "list_all (\<lambda>c. c < 128) body" "length body + k = 4 * ((length r + 2) div 3)" by auto
    moreover have "(length (a # b # c # r) + 2) div 3 = Suc ((length r + 2) div 3)"
      using group_of_three [of "length r"] by (simp add: add.commute)
    ultimately have "length (?g @ body) + k = 4 * ((length (a # b # c # r) + 2) div 3)" by simp
    moreover have "b64encode (a # b # c # r) = (?g @ body) @ replicate k 61 \<and> 61 \<notin> set (?g @ body) \<and> list_all (\<lambda>c. c < 128) (?g @ body)"
      using g \<open>61 \<notin> set body\<close> \<open>list_all (\<lambda>c. c < 128) body\<close> \<open>b64encode r = body @ replicate k 61\<close> by (auto simp: list_all_iff)
    ultimately show ?case using \<open>k < 3\<close> by blast
  next
    case (3 a b)
    with base64_parts [of a b 0] base64_char_value show ?case
      by (intro exI [of _ "[base64_char (a div 4), base64_char (a mod 4 * 16 + b div 16), base64_char (b mod 16 * 4)]"] exI [of _ 1]) simp
  next
    case (2 a)
    with base64_parts [of a 0 0] base64_char_value show ?case
      by (intro exI [of _ "[base64_char (a div 4), base64_char (a mod 4 * 16)]"] exI [of _ 2]) (simp add: numeral_2_eq_2)
  qed auto
  then show thesis using that by blast
qed

lemma unpadded_body: "61 \<notin> set body \<Longrightarrow> unpadded (body @ replicate k 61) = body"
proof -
  assume "61 \<notin> set body"
  then have "dropWhile ((=) 61) (rev body) = rev body" by (cases body rule: rev_cases) auto
  moreover have "dropWhile ((=) 61) (replicate k (61 :: nat) @ l) = dropWhile ((=) 61) l" for l by (induction k) auto
  ultimately show ?thesis by (simp add: unpadded_def)
qed

lemma repadded_body:
  assumes "k < 3" "(length body + k) mod 4 = 0"
  shows "repadded body = body @ replicate k 61"
proof -
  let ?m = "length body mod 4"
  have "(?m + k) mod 4 = 0" "?m < 4" using assms(2) by (simp_all add: mod_add_left_eq)
  moreover from \<open>?m < 4\<close> have "?m = 0 \<or> ?m = 1 \<or> ?m = 2 \<or> ?m = 3" by linarith
  moreover have "k = 0 \<or> k = 1 \<or> k = 2" using assms(1) by linarith
  ultimately have "(4 - ?m) mod 4 = k" by (elim disjE) simp_all
  then show ?thesis by (simp add: repadded_def)
qed

lemma base64_round_trip:
  assumes "list_all (\<lambda>b. b < 256) bs"
  shows "b64decode (repadded (unpadded (b64encode bs))) = Some bs"
    and "list_all (\<lambda>c. c < 128) (unpadded (b64encode bs))"
    and "length (unpadded (b64encode bs)) \<le> 4 * ((length bs + 2) div 3)"
    and "bs \<noteq> [] \<Longrightarrow> unpadded (b64encode bs) \<noteq> []"
    and "4 * ((length bs + 2) div 3) < length (unpadded (b64encode bs)) + 3"
proof -
  obtain body k where b: "b64encode bs = body @ replicate k 61" "k < 3" "61 \<notin> set body"
    "list_all (\<lambda>c. c < 128) body" "length body + k = 4 * ((length bs + 2) div 3)" using b64_shape [OF assms] by blast
  have four: "(length body + k) mod 4 = 0" by (simp add: b(5))
  have u: "unpadded (b64encode bs) = body" by (simp add: b(1) unpadded_body [OF b(3)])
  show "b64decode (repadded (unpadded (b64encode bs))) = Some bs"
    using b64_round_trip [OF assms] unfolding u repadded_body [OF b(2) four] b(1) [symmetric] .
  show "list_all (\<lambda>c. c < 128) (unpadded (b64encode bs))" "length (unpadded (b64encode bs)) \<le> 4 * ((length bs + 2) div 3)"
    "4 * ((length bs + 2) div 3) < length (unpadded (b64encode bs)) + 3"
    using b(2,4,5) by (simp_all add: u)
  show "unpadded (b64encode bs) \<noteq> []" if "bs \<noteq> []"
  proof -
    from that have "1 \<le> (length bs + 2) div 3" by (cases bs) auto
    with b(2,5) show ?thesis unfolding u by (cases body) auto
  qed
qed

section \<open>JSON text\<close>

text \<open>\<open>json.dumps\<close> of a string, as by default in ASCII.\<close>

definition hex_code :: "nat \<Rightarrow> nat" where
  "hex_code d = (if d < 10 then 48 + d else 87 + d)"

definition hex4 :: "nat \<Rightarrow> points" where
  "hex4 c = [hex_code (c div 4096), hex_code (c div 256 mod 16), hex_code (c div 16 mod 16), hex_code (c mod 16)]"

definition u_escape :: "nat \<Rightarrow> points" where
  "u_escape c = 92 # 117 # hex4 c"

definition escape_point :: "nat \<Rightarrow> points" where
  "escape_point c =
     (if c = 34 then [92, 34] else if c = 92 then [92, 92] else if c = 10 then [92, 110] else if c = 13 then [92, 114]
      else if c = 9 then [92, 116] else if c = 12 then [92, 102] else if c = 8 then [92, 98]
      else if 32 \<le> c \<and> c < 127 then [c]
      else if c < 65536 then u_escape c
      else u_escape (55296 + (c - 65536) div 1024) @ u_escape (56320 + (c - 65536) mod 1024))"

definition dump_text :: "points \<Rightarrow> points" where
  "dump_text t = 34 # concat (map escape_point t) @ [34]"

text \<open>Reading a string, past its opening quote: control characters are refused, an escaped pair of surrogates is
  joined, one alone is kept.\<close>

definition hex_value :: "nat \<Rightarrow> nat option" where
  "hex_value c =
     (if 48 \<le> c \<and> c < 58 then Some (c - 48) else if 97 \<le> c \<and> c < 103 then Some (c - 87)
      else if 65 \<le> c \<and> c < 71 then Some (c - 55) else None)"

fun read_hex4 :: "points \<Rightarrow> (nat \<times> points) option" where
  "read_hex4 (a # b # c # d # r) =
     (case (hex_value a, hex_value b, hex_value c, hex_value d) of
        (Some a, Some b, Some c, Some d) \<Rightarrow> Some (a * 4096 + b * 256 + c * 16 + d, r)
      | _ \<Rightarrow> None)"
| "read_hex4 _ = None"

definition escape_value :: "nat \<Rightarrow> nat option" where
  "escape_value e = map_of [(34, 34), (92, 92), (47, 47), (98, 8), (102, 12), (110, 10), (114, 13), (116, 9)] e"

lemma read_hex4_length: "read_hex4 s = Some (h, r) \<Longrightarrow> length s = length r + 4"
  by (cases s rule: read_hex4.cases) (auto split: option.splits)

definition before :: "nat \<Rightarrow> (points \<times> points) option \<Rightarrow> (points \<times> points) option" where
  "before c x = map_option (\<lambda>(t, r). (c # t, r)) x"

lemma before_cong [fundef_cong]: "c = c' \<Longrightarrow> x = x' \<Longrightarrow> before c x = before c' x'" by simp

function scan_string :: "points \<Rightarrow> (points \<times> points) option" where
  "scan_string s =
     (case s of
        [] \<Rightarrow> None
      | c # r \<Rightarrow>
          if c = 34 then Some ([], r)
          else if c = 92 then
            (case r of
               [] \<Rightarrow> None
             | e # r \<Rightarrow>
                 if e = 117 then
                   (case read_hex4 r of
                      None \<Rightarrow> None
                    | Some (h, r) \<Rightarrow>
                        (case (if 55296 \<le> h \<and> h < 56320 \<and> take 2 r = [92, 117] then read_hex4 (drop 2 r) else None) of
                           Some (l, r') \<Rightarrow>
                             if 56320 \<le> l \<and> l < 57344 then before (65536 + (h - 55296) * 1024 + (l - 56320)) (scan_string r')
                             else before h (scan_string r)
                         | None \<Rightarrow> before h (scan_string r)))
                 else (case escape_value e of None \<Rightarrow> None | Some v \<Rightarrow> before v (scan_string r)))
          else if c < 32 then None else before c (scan_string r))"
  by pat_completeness auto

termination
  by (relation "measure length") (auto dest!: read_hex4_length split: if_splits)

declare scan_string.simps [simp del]

text \<open>A value as far as a cursor asks: a string, an object with its members, something else.\<close>

datatype loaded = LText points | LObj "(points \<times> loaded) list" | LOther

definition spaces :: "points \<Rightarrow> points" where
  "spaces s = dropWhile (\<lambda>c. c = 32 \<or> c = 9 \<or> c = 10 \<or> c = 13) s"

definition decimal :: "nat \<Rightarrow> bool" where
  "decimal c \<longleftrightarrow> 48 \<le> c \<and> c < 58"

text \<open>A number: what is left of the text after the longest one at its start.\<close>

definition skip_fraction :: "points \<Rightarrow> points" where
  "skip_fraction s =
     (case s of c # d # r \<Rightarrow> if c = 46 \<and> decimal d then dropWhile decimal r else s | _ \<Rightarrow> s)"

definition skip_exponent :: "points \<Rightarrow> points" where
  "skip_exponent s =
     (case s of
        c # r \<Rightarrow>
          (let r = (case r of g # q \<Rightarrow> if g = 43 \<or> g = 45 then q else r | [] \<Rightarrow> r)
           in case r of d # q \<Rightarrow> if (c = 69 \<or> c = 101) \<and> decimal d then dropWhile decimal q else s | [] \<Rightarrow> s)
      | [] \<Rightarrow> s)"

definition skip_number :: "points \<Rightarrow> points option" where
  "skip_number s =
     (case (case s of c # r \<Rightarrow> if c = 45 then r else s | [] \<Rightarrow> s) of
        c # r \<Rightarrow>
          if c = 48 then Some (skip_exponent (skip_fraction r))
          else if decimal c then Some (skip_exponent (skip_fraction (dropWhile decimal r)))
          else None
      | [] \<Rightarrow> None)"

definition word :: "string \<Rightarrow> points" where
  "word s = map of_char s"

definition skip_word :: "string \<Rightarrow> points \<Rightarrow> points option" where
  "skip_word w s = (if take (length w) s = word w then Some (drop (length w) s) else None)"

definition json_words :: "string list" where
  "json_words = [''null'', ''true'', ''false'', ''NaN'', ''Infinity'', ''-Infinity'']"

definition skip_atom :: "points \<Rightarrow> points option" where
  "skip_atom s =
     (case skip_number s of
        Some r \<Rightarrow> Some r
      | None \<Rightarrow>
          (case filter (\<lambda>w. skip_word w s \<noteq> None) json_words of
             w # _ \<Rightarrow> skip_word w s
           | [] \<Rightarrow> None))"

text \<open>\<open>scan_once\<close>, and the loops of an object and an array past their opening bracket; the fuel bounds the calls.\<close>

fun scan_value :: "nat \<Rightarrow> points \<Rightarrow> (loaded \<times> points) option"
  and scan_members :: "nat \<Rightarrow> points \<Rightarrow> ((points \<times> loaded) list \<times> points) option"
  and scan_items :: "nat \<Rightarrow> points \<Rightarrow> points option" where
  "scan_value 0 s = None"
| "scan_value (Suc n) s =
     (case s of
        [] \<Rightarrow> None
      | c # r \<Rightarrow>
          if c = 34 then map_option (\<lambda>(t, r). (LText t, r)) (scan_string r)
          else if c = 123 then
            (if take 1 (spaces r) = [125] then Some (LObj [], drop 1 (spaces r))
             else map_option (\<lambda>(ms, r). (LObj ms, r)) (scan_members n (spaces r)))
          else if c = 91 then
            (if take 1 (spaces r) = [93] then Some (LOther, drop 1 (spaces r))
             else map_option (\<lambda>r. (LOther, r)) (scan_items n (spaces r)))
          else map_option (\<lambda>r. (LOther, r)) (skip_atom s))"
| "scan_members 0 s = None"
| "scan_members (Suc n) s =
     (case s of
        [] \<Rightarrow> None
      | c # r \<Rightarrow>
          if c \<noteq> 34 then None
          else (case scan_string r of
             None \<Rightarrow> None
           | Some (key, r) \<Rightarrow>
               (case spaces r of
                  [] \<Rightarrow> None
                | c # r \<Rightarrow>
                    if c \<noteq> 58 then None
                    else (case scan_value n (spaces r) of
                       None \<Rightarrow> None
                     | Some (v, r) \<Rightarrow>
                         (case spaces r of
                            [] \<Rightarrow> None
                          | c # r \<Rightarrow>
                              if c = 125 then Some ([(key, v)], r)
                              else if c = 44 then map_option (\<lambda>(ms, r). ((key, v) # ms, r)) (scan_members n (spaces r))
                              else None)))))"
| "scan_items 0 s = None"
| "scan_items (Suc n) s =
     (case scan_value n s of
        None \<Rightarrow> None
      | Some (_, r) \<Rightarrow>
          (case spaces r of
             [] \<Rightarrow> None
           | c # r \<Rightarrow> if c = 93 then Some r else if c = 44 then scan_items n (spaces r) else None))"

text \<open>\<open>json.loads\<close>: a byte order mark is refused, and so is what follows the value.\<close>

definition json_loads :: "points \<Rightarrow> loaded option" where
  "json_loads s =
     (if take 1 s = [65279] then None
      else case scan_value (2 * length s + 1) (spaces s) of
        None \<Rightarrow> None
      | Some (v, r) \<Rightarrow> if spaces r = [] then Some v else None)"

text \<open>Every scanner leaves less than it was given, so fuel of twice the length is enough: more changes nothing.\<close>

lemma spaces_length: "length (spaces s) \<le> length s"
  by (simp add: spaces_def length_dropWhile_le)

lemma scan_string_length: "scan_string s = Some (t, r) \<Longrightarrow> length r < length s"
proof (induction s arbitrary: t rule: length_induct)
  case (1 s)
  have IH: "length u < length s \<longrightarrow> length r < length u" if "before c (scan_string u) = Some (t, r)" for c t u
    using that 1 by (auto simp: before_def)
  show ?case using 1(2) by (subst (asm) scan_string.simps)
      (auto split: list.splits if_splits option.splits dest!: read_hex4_length IH; arith)
qed

lemma skip_atom_length: "skip_atom s = Some r \<Longrightarrow> length r < length s"
proof -
  have d: "length (dropWhile decimal q) \<le> length q" for q by (rule length_dropWhile_le)
  have f: "length (skip_fraction q) \<le> length q" for q
    using d by (auto simp: skip_fraction_def split: list.split intro: le_SucI)
  have e: "length (skip_exponent q) \<le> length q" for q
    using d by (auto simp: skip_exponent_def Let_def split: list.split intro: le_SucI)
  have fe: "length (skip_exponent (skip_fraction q)) \<le> length q" for q using order_trans [OF e f] .
  have "length (skip_exponent (skip_fraction (dropWhile decimal q))) \<le> length q" for q using order_trans [OF fe d] .
  with fe have n: "length q < length s" if "skip_number s = Some q" for q
    using that by (auto simp: skip_number_def less_Suc_eq_le le_SucI split: list.splits if_splits)
  have w: "length q < length s" if "skip_word w s = Some q" "w \<noteq> []" for w q
  proof -
    from that have "take (length w) s = word w" "q = drop (length w) s" by (auto simp: skip_word_def split: if_splits)
    moreover from this(1) that(2) have "s \<noteq> []" by (auto simp: word_def)
    ultimately show ?thesis using that(2) by simp
  qed
  assume "skip_atom s = Some r"
  then consider "skip_number s = Some r" | w where "skip_word w s = Some r" "w \<in> set json_words"
  proof (cases "skip_number s")
    case None
    with \<open>skip_atom s = Some r\<close> obtain w ws where "filter (\<lambda>w. skip_word w s \<noteq> None) json_words = w # ws" "skip_word w s = Some r"
      by (auto simp: skip_atom_def split: list.splits)
    then show ?thesis using that(2) by (metis filter_eq_ConsD in_set_conv_decomp)
  qed (use \<open>skip_atom s = Some r\<close> that(1) in \<open>simp add: skip_atom_def\<close>)
  moreover have "w \<noteq> []" if "w \<in> set json_words" for w using that by (auto simp: json_words_def)
  ultimately show ?thesis using n w by cases blast+
qed

lemma spaces_Cons: "spaces s = c # r \<Longrightarrow> length r < length s"
  using spaces_length [of s] by simp

lemma scan_length:
  "scan_value n s = Some (v, r) \<Longrightarrow> length r < length s"
  "scan_members n s = Some (ms, r) \<Longrightarrow> length r < length s"
  "scan_items n s = Some r \<Longrightarrow> length r < length s"
proof (induction n s and n s and n s arbitrary: v r and ms r and r rule: scan_value_scan_members_scan_items.induct)
  case (2 n s)
  then obtain c q where s: "s = c # q" by (cases s) auto
  have "length (drop 1 (spaces q)) < length s" using spaces_length [of q] by (simp add: s)
  moreover have "length r < length s" if "length r < length (spaces q)" for r using that spaces_length [of q] by (simp add: s)
  moreover have "length r < length (spaces q)" if "c = 123" "take 1 (spaces q) \<noteq> [125]" "scan_members n (spaces q) = Some (ms, r)" for ms
    using 2(1) [of c q ms r] s that by simp
  moreover have "length r < length (spaces q)" if "c = 91" "take 1 (spaces q) \<noteq> [93]" "scan_items n (spaces q) = Some r"
    using 2(2) [of c q r] s that by simp
  ultimately show ?case using 2(3) scan_string_length [of q] skip_atom_length [of s]
    by (auto simp: s split: if_splits)
next
  case (4 n s)
  from 4(3) obtain q key q1 q2 w q3 e q4 where s: "s = 34 # q" "scan_string q = Some (key, q1)" "spaces q1 = 58 # q2"
    "scan_value n (spaces q2) = Some (w, q3)" "spaces q3 = e # q4"
    and e: "e = 125 \<and> r = q4 \<or> e = 44 \<and> (\<exists>ms. scan_members n (spaces q4) = Some (ms, r))"
    by (auto split: list.splits if_splits option.splits)
  have v: "length q3 < length (spaces q2)" using 4(1) [of 34 q "(key, q1)" key q1 58 q2] s by simp
  have "length r \<le> length q4" using e
  proof (elim disjE conjE exE)
    fix ms assume m: "e = 44" "scan_members n (spaces q4) = Some (ms, r)"
    from 4(2) [of 34 q "(key, q1)" key q1 58 q2 "(w, q3)" w q3 e q4] s m have "length r < length (spaces q4)" by simp
    then show ?thesis using spaces_length [of q4] by simp
  qed simp
  then show ?case using s(1) scan_string_length [OF s(2)] spaces_Cons [OF s(3)] spaces_Cons [OF s(5)] spaces_length [of q2] v by simp
next
  case (6 n s)
  from 6(3) obtain w q e q1 where s: "scan_value n s = Some (w, q)" "spaces q = e # q1"
    and e: "e = 93 \<and> r = q1 \<or> e = 44 \<and> scan_items n (spaces q1) = Some r"
    by (auto split: list.splits if_splits option.splits)
  have v: "length q < length s" using 6(1) s(1) by simp
  have "length r \<le> length q1" using e
  proof (elim disjE conjE)
    assume m: "e = 44" "scan_items n (spaces q1) = Some r"
    from 6(2) [of "(w, q)" w q e q1] s m have "length r < length (spaces q1)" by simp
    then show ?thesis using spaces_length [of q1] by simp
  qed simp
  then show ?case using v spaces_Cons [OF s(2)] by simp
qed auto

lemma scan_enough:
  "2 * length s < n \<Longrightarrow> 2 * length s < m \<Longrightarrow> scan_value n s = scan_value m s"
  "2 * length s < n \<Longrightarrow> 2 * length s < m \<Longrightarrow> scan_members n s = scan_members m s"
  "2 * length s + 1 < n \<Longrightarrow> 2 * length s + 1 < m \<Longrightarrow> scan_items n s = scan_items m s"
proof (induction n s and n s and n s arbitrary: m and m and m rule: scan_value_scan_members_scan_items.induct)
  case (2 n s)
  from 2(4) obtain k where m: "m = Suc k" by (cases m) auto
  show ?case
  proof (cases s)
    case (Cons c q)
    have l: "length (spaces q) \<le> length q" by (rule spaces_length)
    have "scan_members n (spaces q) = scan_members k (spaces q)" if "c = 123" "take 1 (spaces q) \<noteq> [125]"
      by (rule 2(1) [OF Cons]) (use 2(3,4) that l in \<open>simp_all add: Cons m\<close>)
    moreover have "scan_items n (spaces q) = scan_items k (spaces q)" if "c = 91" "take 1 (spaces q) \<noteq> [93]"
      by (rule 2(2) [OF Cons]) (use 2(3,4) that l in \<open>simp_all add: Cons m\<close>)
    ultimately show ?thesis by (simp add: Cons m)
  qed (simp add: m)
next
  case (4 n s)
  from 4(4) obtain k where m: "m = Suc k" by (cases m) auto
  show ?case
  proof (cases "\<exists>q key q1 q2. s = 34 # q \<and> scan_string q = Some (key, q1) \<and> spaces q1 = 58 # q2")
    case True
    then obtain q key q1 q2 where s: "s = 34 # q" "scan_string q = Some (key, q1)" "spaces q1 = 58 # q2" by blast
    have l: "length (spaces q2) < length s"
      using s(1) scan_string_length [OF s(2)] spaces_Cons [OF s(3)] spaces_length [of q2] by simp
    have v: "scan_value n (spaces q2) = scan_value k (spaces q2)"
      using 4(1) [of 34 q "(key, q1)" key q1 58 q2 k] 4(3,4) s l by (simp add: m)
    have "scan_members n (spaces q4) = scan_members k (spaces q4)"
      if "scan_value n (spaces q2) = Some (w, q3)" "spaces q3 = 44 # q4" for w q3 q4
    proof -
      have "length (spaces q4) < length s"
        using scan_length(1) [OF that(1)] spaces_Cons [OF that(2)] spaces_length [of q4] l by simp
      then show ?thesis using 4(2) [of 34 q "(key, q1)" key q1 58 q2 "(w, q3)" w q3 44 q4 k] 4(3,4) s that by (simp add: m)
    qed
    then show ?thesis using s v by (auto simp: m split: option.split list.split)
  qed (auto simp: m split: list.split option.split)
next
  case (6 n s)
  from 6(4) obtain k where m: "m = Suc k" by (cases m) auto
  have v: "scan_value n s = scan_value k s" using 6(1) [of k] 6(3,4) by (simp add: m)
  have "scan_items n (spaces q1) = scan_items k (spaces q1)"
    if "scan_value n s = Some (w, q)" "spaces q = 44 # q1" for w q q1
  proof -
    have "length (spaces q1) < length s" using scan_length(1) [OF that(1)] spaces_Cons [OF that(2)] spaces_length [of q1] by simp
    then show ?thesis using 6(2) [of "(w, q)" w q 44 q1 k] 6(3,4) that by (simp add: m)
  qed
  then show ?case using v by (auto simp: m split: option.split list.split)
qed auto

section \<open>What was dumped is loaded\<close>

lemma hex_code_value: "d < 16 \<Longrightarrow> hex_value (hex_code d) = Some d"
  by (auto simp: hex_value_def hex_code_def)

lemma hex4_read:
  assumes "c < 65536"
  shows "read_hex4 (hex4 c @ r) = Some (c, r)"
proof -
  have h: "c div 4096 < 16" using assms by (simp add: div_less_iff_less_mult)
  have "c div 256 = c div 16 div 16" "c div 4096 = c div 256 div 16" by (simp_all add: div_mult2_eq [symmetric])
  then have "c div 4096 * 4096 + c div 256 mod 16 * 256 + c div 16 mod 16 * 16 + c mod 16 = c"
    using div_mult_mod_eq [of "c div 256" 16] div_mult_mod_eq [of "c div 16" 16] div_mult_mod_eq [of c 16] by linarith
  then show ?thesis by (simp add: hex4_def hex_code_value h)
qed

lemma scan_u:
  "scan_string (92 # 117 # s) =
     (case read_hex4 s of
        None \<Rightarrow> None
      | Some (h, r) \<Rightarrow>
          (case (if 55296 \<le> h \<and> h < 56320 \<and> take 2 r = [92, 117] then read_hex4 (drop 2 r) else None) of
             Some (l, r') \<Rightarrow>
               if 56320 \<le> l \<and> l < 57344 then before (65536 + (h - 55296) * 1024 + (l - 56320)) (scan_string r')
               else before h (scan_string r)
           | None \<Rightarrow> before h (scan_string r)))"
  by (subst scan_string.simps) simp

lemma scan_u_escape:
  assumes "c < 65536" "\<not> surrogate c"
  shows "scan_string (u_escape c @ r) = before c (scan_string r)"
  using assms by (auto simp: u_escape_def scan_u hex4_read surrogate_def)

lemma scan_surrogates:
  assumes "h < 1024" "l < 1024"
  shows "scan_string (u_escape (55296 + h) @ u_escape (56320 + l) @ r) = before (65536 + h * 1024 + l) (scan_string r)"
  using assms by (simp add: u_escape_def scan_u hex4_read)

lemma scan_escaped:
  assumes "scalar c"
  shows "scan_string (escape_point c @ r) = before c (scan_string r)"
proof -
  let ?letter = "c = 34 \<or> c = 92 \<or> c = 10 \<or> c = 13 \<or> c = 9 \<or> c = 12 \<or> c = 8"
  consider "?letter" | "\<not> ?letter" "32 \<le> c" "c < 127" | "\<not> ?letter" "\<not> (32 \<le> c \<and> c < 127)" "c < 65536"
    | "\<not> c < 65536" "c < 1114112"
    using assms by (auto simp: scalar_def)
  then show ?thesis
  proof cases
    case 1
    then show ?thesis by (elim disjE) (simp_all add: escape_point_def scan_string.simps [of "92 # _"] escape_value_def)
  next
    case 2
    then show ?thesis by (simp add: escape_point_def scan_string.simps [of "c # r"])
  next
    case 3
    then have "escape_point c = u_escape c" by (auto simp: escape_point_def)
    with 3 assms show ?thesis by (simp add: scan_u_escape scalar_def)
  next
    case 4
    then have "(c - 65536) div 1024 < 1024" "65536 + (c - 65536) div 1024 * 1024 + (c - 65536) mod 1024 = c"
      using div_mult_mod_eq [of "c - 65536" 1024] by (simp_all add: div_less_iff_less_mult)
    with 4 show ?thesis using scan_surrogates [of "(c - 65536) div 1024" "(c - 65536) mod 1024" r] by (simp add: escape_point_def)
  qed
qed

lemma scan_dumped: "list_all scalar t \<Longrightarrow> scan_string (concat (map escape_point t) @ 34 # r) = Some (t, r)"
proof (induction t)
  case Nil
  then show ?case by (simp add: scan_string.simps)
qed (simp add: scan_escaped before_def)

text \<open>An object of strings, as \<open>json.dumps\<close> writes it without spaces.\<close>

fun dump_members :: "(points \<times> points) list \<Rightarrow> points" where
  "dump_members [] = []"
| "dump_members [(k, v)] = dump_text k @ 58 # dump_text v"
| "dump_members ((k, v) # m # ms) = dump_text k @ 58 # dump_text v @ 44 # dump_members (m # ms)"

definition dump_object :: "(points \<times> points) list \<Rightarrow> points" where
  "dump_object ms = 123 # dump_members ms @ [125]"

lemma spaces_none [simp]: "spaces [] = []" "c \<notin> set [32, 9, 10, 13] \<Longrightarrow> spaces (c # s) = c # s"
  by (simp_all add: spaces_def)

lemma scan_dump_text: "list_all scalar t \<Longrightarrow> scan_value (Suc n) (dump_text t @ r) = Some (LText t, r)"
  using scan_dumped by (simp add: dump_text_def)

lemma spaces_dump_text [simp]: "spaces (dump_text t @ s) = dump_text t @ s"
  by (simp add: dump_text_def)

lemma spaces_dump_members [simp]: "spaces (dump_members ms @ 125 # r) = dump_members ms @ 125 # r"
  by (cases ms rule: dump_members.cases) simp_all

lemma scan_first_member:
  assumes "list_all scalar k" "list_all scalar v" "c \<notin> set [32, 9, 10, 13]"
  shows "scan_members (Suc (Suc n)) (dump_text k @ 58 # dump_text v @ c # q) =
    (if c = 125 then Some ([(k, LText v)], q)
     else if c = 44 then map_option (\<lambda>(ms, r). ((k, LText v) # ms, r)) (scan_members (Suc n) (spaces q)) else None)"
proof -
  have k: "dump_text k @ 58 # dump_text v @ c # q = 34 # concat (map escape_point k) @ 34 # 58 # dump_text v @ c # q"
    by (simp add: dump_text_def)
  show ?thesis unfolding k using assms(3) scan_dumped [OF assms(1)] scan_dump_text [OF assms(2)]
    by (simp del: scan_value.simps)
qed

lemma scan_dump_members:
  assumes "list_all (\<lambda>(k, v). list_all scalar k \<and> list_all scalar v) ms" "ms \<noteq> []" "length ms < n"
  shows "scan_members n (dump_members ms @ 125 # r) = Some (map (\<lambda>(k, v). (k, LText v)) ms, r)"
  using assms
proof (induction ms arbitrary: n rule: dump_members.induct)
  case (2 k v)
  obtain n' where n: "n = Suc (Suc n')" using 2(3) by (auto simp: less_iff_Suc_add)
  show ?case using 2(1) scan_first_member [of k v 125 n' r] by (simp add: n del: scan_members.simps)
next
  case (3 k v m ms)
  obtain n' where n: "n = Suc (Suc n')" using 3(4) by (auto simp: less_iff_Suc_add)
  have "scan_members (Suc n') (dump_members (m # ms) @ 125 # r) = Some (map (\<lambda>(k, v). (k, LText v)) (m # ms), r)"
    by (rule 3(1)) (use 3(2,4) in \<open>simp_all add: n\<close>)
  then show ?case using 3(2) scan_first_member [of k v 44 n' "dump_members (m # ms) @ 125 # r"]
    by (simp add: n del: scan_members.simps)
qed simp

lemma loads_dump_object:
  assumes "list_all (\<lambda>(k, v). list_all scalar k \<and> list_all scalar v) ms" "ms \<noteq> []"
  shows "json_loads (dump_object ms) = Some (LObj (map (\<lambda>(k, v). (k, LText v)) ms))"
proof -
  let ?s = "dump_object ms"
  have len: "length ms \<le> length (dump_members ms)"
    by (induction ms rule: dump_members.induct) (auto simp: dump_text_def)
  obtain c q where c: "dump_members ms = c # q" "c = 34" using assms(2) by (cases ms rule: dump_members.cases) (auto simp: dump_text_def)
  have m: "scan_members (2 * length ?s) (dump_members ms @ [125]) = Some (map (\<lambda>(k, v). (k, LText v)) ms, [])"
    by (rule scan_dump_members [OF assms]) (use len in \<open>simp add: dump_object_def\<close>)
  have sp: "spaces (dump_members ms @ [125]) = dump_members ms @ [125]" by simp
  have "scan_value (Suc (2 * length ?s)) ?s = Some (LObj (map (\<lambda>(k, v). (k, LText v)) ms), [])"
  proof -
    have s: "?s = 123 # dump_members ms @ [125]" by (simp add: dump_object_def)
    have "take 1 (dump_members ms @ [125]) \<noteq> [125]" using c by simp
    then show ?thesis using m unfolding s by (simp add: sp del: scan_members.simps One_nat_def)
  qed
  moreover have "take 1 ?s \<noteq> [65279]" "spaces ?s = ?s" by (simp_all add: dump_object_def)
  ultimately show ?thesis by (simp add: json_loads_def del: scan_value.simps)
qed

end
