(* ===== verification/Event_Stream.thy ===== *)
theory Event_Stream
  imports Run_Routes
begin

text \<open>
  \<open>src/agent_runs/api/routers/runs.py\<close>, \<open>stream_events\<close> and \<open>_follow\<close>: a run's log as server-sent
  events. Each turn of the loop reads the store as it then is: a \<open>poll\<close> is the state its first read finds (the run's
  status), the one its second finds (the entries), the clock and whether the client had gone when the loop looked. A stream is its chunks and how it closed, \<open>StillOpen\<close>
  when the polls end first.
\<close>

definition MAX_PAGE :: nat where
  "MAX_PAGE = 500"

definition EVENT_POLL_SECONDS :: rat where
  "EVENT_POLL_SECONDS = 1 / 2"

definition EVENT_KEEPALIVE_SECONDS :: rat where
  "EVENT_KEEPALIVE_SECONDS = 15"

definition EVENT_STREAM_SECONDS :: rat where
  "EVENT_STREAM_SECONDS = 300"

record poll =
  seen :: db
  seen_next :: db
  poll_clock :: rat
  gone :: bool

datatype chunk = EventChunk int run_event | EndChunk run_status | KeepaliveChunk

datatype closing = EndedWith run_status | LeftOpen | Broke service_error | StillOpen

text \<open>\<open>_sse\<close>.\<close>

definition sse :: "string \<Rightarrow> string \<Rightarrow> int option \<Rightarrow> string" where
  "sse event data position =
     (case position of None \<Rightarrow> [] | Some p \<Rightarrow> ''id: '' @ show_int p @ [CHR 0x0A]) @
     ''event: '' @ event @ [CHR 0x0A] @ ''data: '' @ data @ [CHR 0x0A, CHR 0x0A]"

fun follow :: "contracts \<Rightarrow> string \<Rightarrow> string \<Rightarrow> rat \<Rightarrow> int \<Rightarrow> rat \<Rightarrow> poll list \<Rightarrow> chunk list \<times> closing" where
  "follow C tenant rid ends_at after quiet [] = ([], StillOpen)"
| "follow C tenant rid ends_at after quiet (p # ps) =
     (case events tenant rid after MAX_PAGE (seen p) (seen_next p) of
        Inl e \<Rightarrow> ([], Broke e)
      | Inr (entries, st) \<Rightarrow>
          (let news = map (\<lambda>(position, event). EventChunk position event) entries;
               after = (if entries = [] then after else fst (last entries))
           in if length entries = MAX_PAGE
              then (let (cs, c) = follow C tenant rid ends_at after quiet ps in (news @ cs, c))
              else if final C st then (news @ [EndChunk st], EndedWith st)
              else if poll_clock p \<ge> ends_at \<or> gone p then (news, LeftOpen)
              else (let quiet = (if entries \<noteq> [] then 0 else quiet + EVENT_POLL_SECONDS);
                        kept = (quiet \<ge> EVENT_KEEPALIVE_SECONDS);
                        (cs, c) = follow C tenant rid ends_at after (if kept then 0 else quiet) ps
                    in (news @ (if kept then [KeepaliveChunk] else []) @ cs, c))))"

definition stream_events ::
  "contracts \<Rightarrow> caller \<Rightarrow> string \<Rightarrow> int \<Rightarrow> int option \<Rightarrow> instant \<Rightarrow> rat \<Rightarrow> service \<Rightarrow> poll list \<Rightarrow> (chunk list \<times> closing) result" where
  "stream_events C who rid after last_event_id now clock s polls =
     bind_result (get_run (acting_tenant who) rid now (store s)) (\<lambda>_.
       Inr (follow C (acting_tenant who) rid (clock + EVENT_STREAM_SECONDS)
              (max after (case last_event_id of None \<Rightarrow> 0 | Some n \<Rightarrow> n)) 0 polls))"

section \<open>What a reader of a growing log has seen\<close>

fun entries_of :: "chunk list \<Rightarrow> (int \<times> run_event) list" where
  "entries_of [] = []"
| "entries_of (EventChunk p e # cs) = (p, e) # entries_of cs"
| "entries_of (_ # cs) = entries_of cs"

lemma entries_of_append [simp]: "entries_of (xs @ ys) = entries_of xs @ entries_of ys"
  by (induction xs rule: entries_of.induct) auto

lemma entries_of_news [simp]: "entries_of (map (\<lambda>(p, e). EventChunk p e) es) = es"
  by (induction es) auto

text \<open>A log that has only grown starts with what it was.\<close>

lemma log_grows:
  assumes "store_inv d" "store_inv d'" "set (run_events d) \<subseteq> set (run_events d')"
  shows "log_of rid d = take (length (log_of rid d)) (log_of rid d')"
proof -
  let ?l = "log_of rid d" and ?m = "log_of rid d'"
  have pos: "re_position (log_of rid x ! i) = int i + 1" if "store_inv x" "i < length (log_of rid x)" for x i
    using arg_cong [OF log_positions [OF that(1)], of "\<lambda>l. l ! i" rid] that(2) by simp
  have sub: "set ?l \<subseteq> set ?m" using assms(3) by (auto simp: log_of_def events_of_def)
  have nth: "i < length ?m \<and> ?m ! i = ?l ! i" if "i < length ?l" for i
  proof -
    from sub that obtain j where j: "j < length ?m" "?m ! j = ?l ! i" by (metis in_set_conv_nth nth_mem subsetD)
    with pos [OF assms(1) that] pos [OF assms(2) j(1)] show ?thesis by simp
  qed
  then have "length ?l \<le> length ?m" by (meson linorder_not_less order_less_irrefl)
  with nth show ?thesis by (intro nth_equalityI) auto
qed

lemma last_take_drop:
  assumes "es = take m (drop a xs)" "es \<noteq> []"
  shows "a + length es - 1 < length xs" "last es = xs ! (a + length es - 1)"
proof -
  have n: "length es \<le> m" "a + length es \<le> length xs" "0 < length es" using assms by auto
  then show "a + length es - 1 < length xs" by linarith
  have "last es = es ! (length es - 1)" using assms(2) by (rule last_conv_nth)
  also have "\<dots> = drop a xs ! (length es - 1)" using assms(1) n by (metis diff_less less_le_trans nth_take zero_less_one)
  also have "\<dots> = xs ! (a + (length es - 1))" using n by simp
  also have "a + (length es - 1) = a + length es - 1" using n by linarith
  finally show "last es = xs ! (a + length es - 1)" .
qed

lemma page_of_growing_log:
  assumes "store_inv d" "store_inv D" "set (run_events d) \<subseteq> set (run_events D)"
    and "events tenant rid (int after) MAX_PAGE earlier d = Inr (entries, st)"
  shows "entries = take (length entries) (drop after (map entry_at (log_of rid D)))"
    and "entries \<noteq> [] \<Longrightarrow> fst (last entries) = int (after + length entries)"
    and "length entries \<noteq> MAX_PAGE \<Longrightarrow> length (log_of rid d) \<le> after + length entries"
proof -
  let ?l = "log_of rid d" and ?L = "map entry_at (log_of rid D)"
  have e: "entries = take MAX_PAGE (drop after (map entry_at ?l))" using events_take [OF assms(1,4)] .
  have "map entry_at ?l = take (length ?l) ?L" using log_grows [OF assms(1-3), of rid] by (metis take_map)
  then have "entries = take MAX_PAGE (take (length ?l - after) (drop after ?L))" using e by (metis drop_take)
  then have "entries = take (min MAX_PAGE (length ?l - after)) (drop after ?L)" by simp
  then show "entries = take (length entries) (drop after ?L)"
    by (metis append_take_drop_id length_take min.cobounded2 take_all_iff take_take min.absorb2 nat_le_linear min.commute)
  show "length ?l \<le> after + length entries" if "length entries \<noteq> MAX_PAGE"
    using e that by auto
  show "fst (last entries) = int (after + length entries)" if "entries \<noteq> []"
  proof -
    let ?i = "after + length entries - 1"
    have i: "?i < length ?l" and "last entries = entry_at (?l ! ?i)"
      using last_take_drop [OF e that] by auto
    moreover have "re_position (?l ! ?i) = int ?i + 1"
      using arg_cong [OF log_positions [OF assms(1)], of "\<lambda>l. l ! ?i" rid] i by simp
    moreover have "0 < length entries" using that by simp
    ultimately show ?thesis by (simp add: entry_at_def of_nat_diff Suc_le_eq)
  qed
qed

text \<open>One turn of the loop.\<close>

lemma follow_turn:
  assumes "store_inv (seen_next p)" "store_inv D" "set (run_events (seen_next p)) \<subseteq> set (run_events D)"
    and "events tenant rid (int after) MAX_PAGE (seen p) (seen_next p) = Inr (entries, st)"
  obtains (more) beats quiet' cs c where "follow C tenant rid ends_at (int (after + length entries)) quiet' ps = (cs, c)"
      "follow C tenant rid ends_at (int after) quiet (p # ps) = (map (\<lambda>(p, e). EventChunk p e) entries @ beats @ cs, c)"
      "set beats \<subseteq> {KeepaliveChunk}" "length entries = MAX_PAGE \<or> poll_clock p < ends_at"
  | (ended) "final C st" "length entries \<noteq> MAX_PAGE"
      "follow C tenant rid ends_at (int after) quiet (p # ps) = (map (\<lambda>(p, e). EventChunk p e) entries @ [EndChunk st], EndedWith st)"
  | (left) "follow C tenant rid ends_at (int after) quiet (p # ps) = (map (\<lambda>(p, e). EventChunk p e) entries, LeftOpen)"
proof -
  define a where "a = (if entries = [] then int after else fst (last entries))"
  have a: "a = int (after + length entries)" using page_of_growing_log(2) [OF assms] by (simp add: a_def)
  let ?quiet = "if entries \<noteq> [] then 0 else quiet + EVENT_POLL_SECONDS"
  let ?kept = "?quiet \<ge> EVENT_KEEPALIVE_SECONDS"
  consider "length entries = MAX_PAGE" | "length entries \<noteq> MAX_PAGE" "final C st"
    | "length entries \<noteq> MAX_PAGE" "\<not> final C st" "poll_clock p \<ge> ends_at \<or> gone p"
    | "length entries \<noteq> MAX_PAGE" "\<not> final C st" "\<not> (poll_clock p \<ge> ends_at \<or> gone p)" by blast
  then show thesis
  proof cases
    case 1
    obtain cs c where f: "follow C tenant rid ends_at a quiet ps = (cs, c)" by fastforce
    have "follow C tenant rid ends_at (int after) quiet (p # ps) = (map (\<lambda>(p, e). EventChunk p e) entries @ [] @ cs, c)"
      using 1 assms(4) f by (simp add: a_def [symmetric] Let_def)
    then show thesis by (rule more [of quiet cs c "[]", rotated]) (use f a 1 in auto)
  next
    case 2
    then show thesis by (intro ended) (use assms(4) in \<open>simp_all add: Let_def\<close>)
  next
    case 3
    then show thesis by (intro left) (use assms(4) in \<open>simp add: Let_def\<close>)
  next
    case 4
    obtain cs c where f: "follow C tenant rid ends_at a (if ?kept then 0 else ?quiet) ps = (cs, c)" by fastforce
    show thesis
    proof (rule more [of "if ?kept then 0 else ?quiet" cs c "if ?kept then [KeepaliveChunk] else []"])
      show "follow C tenant rid ends_at (int after) quiet (p # ps) =
          (map (\<lambda>(p, e). EventChunk p e) entries @ (if ?kept then [KeepaliveChunk] else []) @ cs, c)"
        using 4 assms(4) f by (simp only: follow.simps a_def [symmetric] Let_def sum.case prod.case if_False)
      show "follow C tenant rid ends_at (int (after + length entries)) (if ?kept then 0 else ?quiet) ps = (cs, c)"
        using f unfolding a .
    qed (use 4(3) in auto)
  qed
qed

text \<open>A poll of a log that only grows, up to the state \<open>D\<close>.\<close>

definition polls_of :: "db \<Rightarrow> poll \<Rightarrow> bool" where
  "polls_of D p \<longleftrightarrow> store_inv (seen p) \<and> store_inv (seen_next p) \<and>
     set (run_events (seen p)) \<subseteq> set (run_events (seen_next p)) \<and> set (run_events (seen_next p)) \<subseteq> set (run_events D)"

lemma polls_ofD:
  assumes "polls_of D p"
  shows "store_inv (seen p)" "store_inv (seen_next p)" "set (run_events (seen_next p)) \<subseteq> set (run_events D)"
    "set (run_events (seen p)) \<subseteq> set (run_events D)" "length (log_of rid (seen p)) \<le> length (log_of rid (seen_next p))"
proof -
  from assms show inv: "store_inv (seen p)" "store_inv (seen_next p)" "set (run_events (seen_next p)) \<subseteq> set (run_events D)"
    "set (run_events (seen p)) \<subseteq> set (run_events D)" by (auto simp: polls_of_def)
  have "set (run_events (seen p)) \<subseteq> set (run_events (seen_next p))" using assms by (simp add: polls_of_def)
  from log_grows [OF inv(1,2) this, of rid] show "length (log_of rid (seen p)) \<le> length (log_of rid (seen_next p))"
    by (metis length_take min.cobounded1)
qed

lemma entries_of_beats: "set beats \<subseteq> {KeepaliveChunk} \<Longrightarrow> entries_of beats = []"
  by (induction beats) auto

lemma events_Inr_found: "events tenant rid after limit d later = Inr (es, st) \<Longrightarrow> \<exists>row. found tenant rid d = Inr row \<and> status row = st"
  by (auto simp: events_def)

lemma follow_sends:
  assumes "store_inv D" "\<forall>p\<in>set polls. polls_of D p" "follow C tenant rid ends_at (int after) quiet polls = (chunks, closing)"
  shows "entries_of chunks = take (length (entries_of chunks)) (drop after (map entry_at (log_of rid D))) \<and>
    (\<forall>st. EndChunk st \<in> set chunks \<longrightarrow> closing = EndedWith st) \<and>
    (\<forall>st. closing = EndedWith st \<longrightarrow> final C st \<and> chunks \<noteq> [] \<and> last chunks = EndChunk st \<and>
      (\<exists>p\<in>set polls. \<exists>row. found tenant rid (seen p) = Inr row \<and> status row = st \<and>
         length (log_of rid (seen_next p)) \<le> after + length (entries_of chunks)))"
  using assms(2,3)
proof (induction polls arbitrary: after quiet chunks closing)
  case (Cons p ps)
  from Cons.prems(1) have polled: "polls_of D p" and rest: "\<forall>p\<in>set ps. polls_of D p" by auto
  note p = polls_ofD(2,3) [OF polled]
  show ?case
  proof (cases "events tenant rid (int after) MAX_PAGE (seen p) (seen_next p)")
    case (Inl e)
    then show ?thesis using Cons.prems(2) by auto
  next
    case (Inr x)
    then obtain entries st where e: "events tenant rid (int after) MAX_PAGE (seen p) (seen_next p) = Inr (entries, st)" by (cases x) simp
    let ?L = "map entry_at (log_of rid D)"
    note page = page_of_growing_log [OF p(1) assms(1) p(2) e]
    from p(1) assms(1) p(2) e show ?thesis
    proof (cases rule: follow_turn [where C = C and ends_at = ends_at and quiet = quiet and ps = ps])
      case (more beats quiet' cs c)
      note ih = Cons.IH [OF rest more(1)]
      have ch: "chunks = map (\<lambda>(p, e). EventChunk p e) entries @ beats @ cs" "closing = c"
        using Cons.prems(2) more(2) by auto
      have sent: "entries_of chunks = entries @ entries_of cs" using entries_of_beats [OF more(3)] by (simp add: ch)
      have "entries_of chunks = take (length (entries_of chunks)) (drop after ?L)"
        using page(1) conjunct1 [OF ih] by (simp add: sent take_add add.commute drop_drop)
      moreover have "EndChunk st' \<in> set chunks \<Longrightarrow> closing = EndedWith st'" for st'
        using ih more(3) by (auto simp: ch)
      moreover have "final C st' \<and> chunks \<noteq> [] \<and> last chunks = EndChunk st' \<and>
          (\<exists>p\<in>set (p # ps). \<exists>row. found tenant rid (seen p) = Inr row \<and> status row = st' \<and>
             length (log_of rid (seen_next p)) \<le> after + length (entries_of chunks))" if "closing = EndedWith st'" for st'
      proof -
        have n: "after + length (entries_of chunks) = after + length entries + length (entries_of cs)" by (simp add: sent)
        show ?thesis unfolding n using ih that by (auto simp: ch)
      qed
      ultimately show ?thesis by blast
    next
      case ended
      then have ch: "chunks = map (\<lambda>(p, e). EventChunk p e) entries @ [EndChunk st]" "closing = EndedWith st"
        using Cons.prems(2) by auto
      then show ?thesis using page(1) page(3) [OF ended(2)] ended(1) events_Inr_found [OF e] by auto
    next
      case left
      then show ?thesis using Cons.prems(2) page(1) by auto
    qed
  qed
qed simp

text \<open>C11. A stream loses nothing and repeats nothing: from the position it was opened at, it sends the
  events of the run's log in order, position after position, whatever was appended while it was open,
  between the two reads of a turn too, and however the loop's reads fell; it says \<open>end\<close> only as its last
  word, with the status of a run it saw ended, and only when it has sent every event that was in the log then.\<close>

theorem stream_complete:
  assumes "store_inv D" "\<forall>p\<in>set polls. store_inv (seen p) \<and> store_inv (seen_next p) \<and>
      set (run_events (seen p)) \<subseteq> set (run_events (seen_next p)) \<and> set (run_events (seen_next p)) \<subseteq> set (run_events D)"
    and "stream_events C who rid (int after) None now clock s polls = Inr (chunks, closing)"
  shows "entries_of chunks = take (length (entries_of chunks)) (drop after (map entry_at (log_of rid D))) \<and>
    (\<forall>st. EndChunk st \<in> set chunks \<longrightarrow> closing = EndedWith st) \<and>
    (\<forall>st. closing = EndedWith st \<longrightarrow> final C st \<and> chunks \<noteq> [] \<and> last chunks = EndChunk st \<and>
      (\<exists>p\<in>set polls. \<exists>row. found (acting_tenant who) rid (seen p) = Inr row \<and> status row = st \<and>
         length (log_of rid (seen_next p)) \<le> after + length (entries_of chunks)))"
proof -
  have "follow C (acting_tenant who) rid (clock + EVENT_STREAM_SECONDS) (int after) 0 polls = (chunks, closing)"
    using assms(3) by (auto simp: stream_events_def)
  moreover have "\<forall>p\<in>set polls. polls_of D p" using assms(2) by (simp add: polls_of_def)
  ultimately show ?thesis using follow_sends [OF assms(1)] by blast
qed

lemma follow_ends:
  assumes "store_inv D" "\<forall>p\<in>set polls. polls_of D p \<and> ends_at \<le> poll_clock p"
    and "length (log_of rid D) - after < length polls * MAX_PAGE"
  shows "snd (follow C tenant rid ends_at (int after) quiet polls) \<noteq> StillOpen"
  using assms(2,3)
proof (induction polls arbitrary: after quiet)
  case (Cons p ps)
  from Cons.prems(1) have p: "store_inv (seen_next p)" "set (run_events (seen_next p)) \<subseteq> set (run_events D)" "ends_at \<le> poll_clock p"
    by (auto simp: polls_of_def)
  show ?case
  proof (cases "events tenant rid (int after) MAX_PAGE (seen p) (seen_next p)")
    case (Inr x)
    then obtain entries st where e: "events tenant rid (int after) MAX_PAGE (seen p) (seen_next p) = Inr (entries, st)" by (cases x) simp
    from p(1) assms(1) p(2) e show ?thesis
    proof (cases rule: follow_turn [where C = C and ends_at = ends_at and quiet = quiet and ps = ps])
      case (more beats quiet' cs c)
      then have full: "length entries = MAX_PAGE" using p(3) by simp
      then have enough: "MAX_PAGE \<le> length (log_of rid D) - after"
        using arg_cong [OF page_of_growing_log(1) [OF p(1) assms(1) p(2) e], of length] by simp
      have "snd (follow C tenant rid ends_at (int (after + length entries)) quiet' ps) \<noteq> StillOpen"
        using Cons.prems full enough by (intro Cons.IH) auto
      then show ?thesis using more(1,2) by simp
    qed auto
  qed simp
qed simp

lemma follow_later:
  assumes "store_inv D" "\<forall>p\<in>set early. polls_of D p" "\<forall>p\<in>set late. polls_of D p \<and> ends_at \<le> poll_clock p"
    and "length (log_of rid D) - after < length late * MAX_PAGE"
  shows "snd (follow C tenant rid ends_at (int after) quiet (early @ late)) \<noteq> StillOpen"
  using assms(2,4)
proof (induction early arbitrary: after quiet)
  case Nil
  then show ?case using follow_ends [OF assms(1,3)] by simp
next
  case (Cons p ps)
  from Cons.prems(1) have p: "store_inv (seen_next p)" "set (run_events (seen_next p)) \<subseteq> set (run_events D)"
    by (auto simp: polls_of_def)
  show ?case
  proof (cases "events tenant rid (int after) MAX_PAGE (seen p) (seen_next p)")
    case (Inr x)
    then obtain entries st where e: "events tenant rid (int after) MAX_PAGE (seen p) (seen_next p) = Inr (entries, st)" by (cases x) simp
    from p(1) assms(1) p(2) e show ?thesis
    proof (cases rule: follow_turn [where C = C and ends_at = ends_at and quiet = quiet and ps = "ps @ late"])
      case (more beats quiet' cs c)
      have "snd (follow C tenant rid ends_at (int (after + length entries)) quiet' (ps @ late)) \<noteq> StillOpen"
        using Cons.prems by (intro Cons.IH) auto
      then show ?thesis using more(1,2) by simp
    qed auto
  qed simp
qed

text \<open>C24. A stream always ends: once its five minutes are over it closes within as many reads as the log
  has pages of five hundred events left, however long it was open and whatever it read before.\<close>

theorem stream_ends:
  assumes "store_inv D"
    and "\<forall>p\<in>set (early @ late). store_inv (seen p) \<and> store_inv (seen_next p) \<and>
      set (run_events (seen p)) \<subseteq> set (run_events (seen_next p)) \<and> set (run_events (seen_next p)) \<subseteq> set (run_events D)"
    and "\<forall>p\<in>set late. clock + 300 \<le> poll_clock p" "(length (log_of rid D) - after) div 500 < length late"
    and "get_run (acting_tenant who) rid now (store s) = Inr run"
  shows "\<exists>chunks closing. stream_events C who rid (int after) None now clock s (early @ late) = Inr (chunks, closing) \<and>
    closing \<noteq> StillOpen"
proof -
  have "length (log_of rid D) - after < length late * MAX_PAGE" using assms(4) by (simp add: MAX_PAGE_def div_less_iff_less_mult)
  then have "snd (follow C (acting_tenant who) rid (clock + EVENT_STREAM_SECONDS) (int after) 0 (early @ late)) \<noteq> StillOpen"
    using assms(2,3) by (intro follow_later [OF assms(1)]) (auto simp: polls_of_def EVENT_STREAM_SECONDS_def)
  then show ?thesis using assms(5) by (auto simp: stream_events_def prod_eq_iff)
qed

definition demo_poll :: poll where
  "demo_poll = \<lparr>seen = demo_leased, seen_next = demo_leased, poll_clock = 300, gone = False\<rparr>"

lemma demo_leased_get: "\<exists>run. get_run ''acme'' ''run_1'' 0 demo_leased = Inr run"
  by (simp add: get_run_def demo_leased_found)

theorem stream_ends_witness:
  "\<exists>chunks closing. stream_events demo_contracts demo_caller ''run_1'' (int 0) None 0 0 (demo_service\<lparr>store := demo_leased\<rparr>) ([] @ [demo_poll]) =
     Inr (chunks, closing) \<and> closing \<noteq> StillOpen"
proof -
  obtain run where "get_run (acting_tenant demo_caller) ''run_1'' 0 (store (demo_service\<lparr>store := demo_leased\<rparr>)) = Inr run"
    using demo_leased_get by (auto simp: demo_caller_def)
  moreover have "log_of ''run_1'' demo_leased = []"
    by (simp add: log_of_def events_of_def demo_leased_def demo_queued_def empty_db_def)
  ultimately show ?thesis
    using demo_leased_inv by (intro stream_ends [where D = demo_leased]) (auto simp: demo_poll_def)
qed

definition demo_logged :: db where
  "demo_logged = demo_leased\<lparr>run_events := [\<lparr>re_run_id = ''run_1'', re_position = 1, re_tenant_id = ''acme'',
     re_attempt = 1, re_sequence = 1, re_event = demo_event 1\<rparr>]\<rparr>"

lemma demo_logged_inv: "store_inv demo_logged"
proof -
  have "\<exists>x. append_events ''acme'' ''run_1'' [demo_event 1] (Some ''w1'') demo_leased = Inr (x, demo_logged)"
    by (simp add: append_events_def locked_def found_def one_def fence_def held_by_def Let_def demo_leased_def
        demo_leased_row_def demo_queued_def empty_db_def new_row_def demo_start_def demo_event_def
        last_position_def log_of_def events_of_def logged_def event_key_def event_sequence_def demo_logged_def)
  then show ?thesis using appending.keeps_inv [OF demo_laws(1,2) demo_leased_inv] by blast
qed

text \<open>A stream open before the event was appended, which it is between the two reads of the last turn, past the five minutes.\<close>

theorem stream_complete_witness:
  "\<exists>chunks. stream_events demo_contracts demo_caller ''run_1'' (int 0) None 0 0 (demo_service\<lparr>store := demo_leased\<rparr>)
       [demo_poll\<lparr>poll_clock := 0\<rparr>, demo_poll\<lparr>seen_next := demo_logged\<rparr>] = Inr (chunks, LeftOpen) \<and>
     entries_of chunks = [(1, demo_event 1)]"
proof -
  let ?polls = "[demo_poll\<lparr>poll_clock := 0\<rparr>, demo_poll\<lparr>seen_next := demo_logged\<rparr>]"
  have reads: "events ''acme'' ''run_1'' 0 500 demo_leased demo_leased = Inr ([], RUNNING)"
    "events ''acme'' ''run_1'' 0 500 demo_leased demo_logged = Inr ([(1, demo_event 1)], RUNNING)"
    by (simp_all add: events_def found_def one_def query_def demo_logged_def demo_leased_def demo_leased_row_def
        demo_queued_def empty_db_def new_row_def demo_start_def)
  obtain run where "get_run ''acme'' ''run_1'' 0 demo_leased = Inr run" using demo_leased_get by blast
  then obtain chunks where f: "stream_events demo_contracts demo_caller ''run_1'' (int 0) None 0 0 (demo_service\<lparr>store := demo_leased\<rparr>) ?polls =
      Inr (chunks, LeftOpen)" and n: "length (entries_of chunks) = 1"
    by (simp add: stream_events_def demo_caller_def demo_poll_def reads EVENT_STREAM_SECONDS_def EVENT_KEEPALIVE_SECONDS_def
        EVENT_POLL_SECONDS_def MAX_PAGE_def Let_def)
  have "\<forall>p\<in>set ?polls. store_inv (seen p) \<and> store_inv (seen_next p) \<and>
      set (run_events (seen p)) \<subseteq> set (run_events (seen_next p)) \<and> set (run_events (seen_next p)) \<subseteq> set (run_events demo_logged)"
    using demo_leased_inv demo_logged_inv by (simp add: demo_poll_def demo_leased_def demo_queued_def empty_db_def)
  from stream_complete [OF demo_logged_inv this f] n f show ?thesis
    by (simp add: log_of_def events_of_def demo_logged_def entry_at_def)
qed

end
