(* ===== verification/Cursor.thy ===== *)
theory Cursor
  imports Codec Event_Stream Admin_Routes Run_Reads
begin

text \<open>
  \<open>src/agent_runs/api/pagination.py\<close> and the five listings of the routers, with the SDK's \<open>iterate\<close>. A position
  goes out as a cursor in the answer's \<open>Link\<close> and comes back with the next request. Text is UTF-8: a
  column holds its bytes, a cursor's members are the points they spell. \<open>fromiso\<close> is \<open>datetime.fromisoformat\<close>,
  \<open>None\<close> when it raises or what it read names no zone.
\<close>

section \<open>Cursors\<close>

definition CURSOR_MAX_CHARS :: nat where
  "CURSOR_MAX_CHARS = 1024"

definition bytes_of :: "string \<Rightarrow> bytes" where
  "bytes_of s = map of_char s"

text \<open>A column's text as Python has it.\<close>

definition points_of :: "string \<Rightarrow> points" where
  "points_of s = (case utf8_decode (bytes_of s) of Some t \<Rightarrow> t | None \<Rightarrow> [])"

definition char_count :: "string \<Rightarrow> nat" where
  "char_count s = length (filter (\<lambda>c. \<not> continues c) (bytes_of s))"

definition encode_cursor :: "(string \<times> points) list \<Rightarrow> string" where
  "encode_cursor position =
     map char_of (unpadded (b64encode (utf8_encode (dump_object (map (\<lambda>(name, t). (word name, t)) (sort_key fst position))))))"

datatype kind = InstantMember | TextMember

datatype member = At instant | Named points

definition read_member :: "(points \<Rightarrow> instant option) \<Rightarrow> kind \<Rightarrow> loaded \<Rightarrow> member option" where
  "read_member fromiso kind v =
     (case v of
        LText t \<Rightarrow> (case kind of TextMember \<Rightarrow> Some (Named t) | InstantMember \<Rightarrow> map_option At (fromiso t))
      | _ \<Rightarrow> None)"

text \<open>The pads put back are as many as the text's characters ask for.\<close>

definition cursor_bytes :: "string \<Rightarrow> bytes" where
  "cursor_bytes c = bytes_of c @ replicate ((4 - char_count c mod 4) mod 4) 61"

definition decode_cursor ::
  "(points \<Rightarrow> instant option) \<Rightarrow> (string \<times> kind) list \<Rightarrow> string option \<Rightarrow> (string \<times> member) list option result" where
  "decode_cursor fromiso names cursor =
     (if \<not> truthy cursor then Inr None
      else case Option.bind (b64decode (cursor_bytes (the cursor))) (\<lambda>b. Option.bind (utf8_decode b) json_loads) of
        Some (LObj ms) \<Rightarrow>
          if fst ` set ms \<noteq> word ` fst ` set names then Inl Unprocessable
          else (case those (map (\<lambda>(name, kind). read_member fromiso kind (the (map_of (rev ms) (word name)))) names) of
             None \<Rightarrow> Inl Unprocessable
           | Some vs \<Rightarrow> Inr (Some (zip (map fst names) vs)))
      | _ \<Rightarrow> Inl Unprocessable)"

section \<open>Listings\<close>

text \<open>What the database takes as a text: no null character, no surrogate.\<close>

definition column_text :: "points \<Rightarrow> string option" where
  "column_text t = (if list_all (\<lambda>c. scalar c \<and> c \<noteq> 0) t then Some (map char_of (utf8_encode t)) else None)"

text \<open>The position as the query's parameters; a text the database refuses is its error, and unhandled.\<close>

definition after_of :: "(string \<times> member) list option \<Rightarrow> (instant \<times> string) option result" where
  "after_of p =
     (case p of
        None \<Rightarrow> Inr None
      | Some [(_, At t), (_, Named x)] \<Rightarrow> (case column_text x of None \<Rightarrow> Inl Crashed | Some s \<Rightarrow> Inr (Some (t, s)))
      | _ \<Rightarrow> Inl Crashed)"

text \<open>A listing's answer: its items and the cursor its \<open>Link\<close> names.\<close>

record 'a listing =
  ls_items :: "'a list"
  ls_next :: "string option"

definition cursor_for :: "string \<Rightarrow> string \<Rightarrow> instant \<times> string \<Rightarrow> string" where
  "cursor_for at_name id_name p = encode_cursor [(at_name, word (isoformat 0 (fst p))), (id_name, points_of (snd p))]"

definition link_next :: "string \<Rightarrow> string \<Rightarrow> ('a, instant \<times> string) page \<Rightarrow> 'a listing" where
  "link_next at_name id_name p = \<lparr>ls_items = page_items p, ls_next = map_option (cursor_for at_name id_name) (page_after p)\<rparr>"

definition paged ::
  "(points \<Rightarrow> instant option) \<Rightarrow> string \<Rightarrow> string \<Rightarrow> string option \<Rightarrow> nat \<Rightarrow>
   ((string \<times> member) list option \<Rightarrow> ('a, instant \<times> string) page result) \<Rightarrow> 'a listing result" where
  "paged fromiso at_name id_name cursor limit fetch =
     (if (case cursor of None \<Rightarrow> False | Some c \<Rightarrow> char_count c > CURSOR_MAX_CHARS) \<or> limit < 1 \<or> limit > MAX_PAGE then Inl Unprocessable
      else bind_result (decode_cursor fromiso [(at_name, InstantMember), (id_name, TextMember)] cursor) (\<lambda>p.
           bind_result (fetch p) (\<lambda>page. Inr (link_next at_name id_name page))))"

definition list_runs_route ::
  "(points \<Rightarrow> instant option) \<Rightarrow> caller \<Rightarrow> run_filters \<Rightarrow> nat \<Rightarrow> service \<Rightarrow> string option \<Rightarrow> run_summary listing result" where
  "list_runs_route fromiso who f limit s cursor =
     paged fromiso ''created_at'' ''run_id'' cursor limit (\<lambda>p. bind_result (after_of p) (\<lambda>after.
       Inr (list_runs (acting_tenant who) f limit after (store s))))"

definition resolutions_route ::
  "(points \<Rightarrow> instant option) \<Rightarrow> caller \<Rightarrow> string \<Rightarrow> nat \<Rightarrow> service \<Rightarrow> string option \<Rightarrow> resolution_entry listing result" where
  "resolutions_route fromiso who rid limit s cursor =
     paged fromiso ''recorded_at'' ''resolution_id'' cursor limit (\<lambda>p.
       bind_result (found (acting_tenant who) rid (store s)) (\<lambda>_. bind_result (after_of p) (\<lambda>after.
         list_resolutions (acting_tenant who) rid limit after (store s))))"

definition list_schedules_route ::
  "(points \<Rightarrow> instant option) \<Rightarrow> caller \<Rightarrow> bool option \<Rightarrow> string option \<Rightarrow> string option \<Rightarrow> nat \<Rightarrow> service \<Rightarrow> string option \<Rightarrow>
   schedule listing result" where
  "list_schedules_route fromiso who en agent behalf limit s cursor =
     paged fromiso ''created_at'' ''schedule_id'' cursor limit (\<lambda>p. bind_result (after_of p) (\<lambda>after.
       Inr (list_schedules (acting_tenant who) en agent behalf limit after (schedules s))))"

definition list_webhooks_route ::
  "(points \<Rightarrow> instant option) \<Rightarrow> caller \<Rightarrow> nat \<Rightarrow> service \<Rightarrow> string option \<Rightarrow> webhook listing result" where
  "list_webhooks_route fromiso who limit s cursor =
     paged fromiso ''created_at'' ''webhook_id'' cursor limit (\<lambda>p. bind_result (after_of p) (\<lambda>after.
       Inr (list_webhooks (acting_tenant who) limit after (box s))))"

definition list_deliveries_route ::
  "(points \<Rightarrow> instant option) \<Rightarrow> caller \<Rightarrow> delivery_state option \<Rightarrow> string option \<Rightarrow> nat \<Rightarrow> service \<Rightarrow> string option \<Rightarrow>
   delivery_record listing result" where
  "list_deliveries_route fromiso who state wid limit s cursor =
     paged fromiso ''created_at'' ''delivery_id'' cursor limit (\<lambda>p. bind_result (after_of p) (\<lambda>after.
       Inr (list_deliveries (acting_tenant who) state wid limit after (box s))))"

section \<open>The client's \<open>iterate\<close>\<close>

text \<open>Its loop over the pages, for at most \<open>n\<close> requests; \<open>pages\<close> were read.\<close>

datatype iterated = IteratedAll | IterateFails service_error | Iterating

fun iterate_from ::
  "(string option \<Rightarrow> 'a listing result) \<Rightarrow> nat option \<Rightarrow> nat \<Rightarrow> nat \<Rightarrow> string option \<Rightarrow> 'a list \<times> iterated" where
  "iterate_from get max_pages 0 pages cursor = ([], Iterating)"
| "iterate_from get max_pages (Suc n) pages cursor =
     (case get cursor of
        Inl e \<Rightarrow> ([], IterateFails e)
      | Inr l \<Rightarrow>
          if ls_next l = None \<or> (case max_pages of None \<Rightarrow> False | Some m \<Rightarrow> pages + 1 \<ge> m) then (ls_items l, IteratedAll)
          else (let (xs, e) = iterate_from get max_pages n (pages + 1) (ls_next l) in (ls_items l @ xs, e)))"

section \<open>A cursor is read as it was written\<close>

text \<open>The texts a column may hold: UTF-8, without a null character.\<close>

definition column_ok :: "string \<Rightarrow> bool" where
  "column_ok s \<longleftrightarrow> column_text (points_of s) = Some s"

lemma column_ok_scalar: "column_ok s \<Longrightarrow> list_all scalar (points_of s)"
  by (auto simp: column_ok_def column_text_def list_all_iff split: if_splits)

lemma scalar_word: "list_all scalar (word s)"
proof -
  have "(of_char c :: nat) < 256" for c by simp
  moreover have "scalar n" if "n < 256" for n using that by (simp add: scalar_def surrogate_def)
  ultimately have "scalar (of_char c)" for c by blast
  then show ?thesis by (simp add: word_def list_all_iff)
qed

lemma word_inj: "word s = word t \<longleftrightarrow> s = t"
  by (simp add: word_def inj_map_eq_map inj_of_char)

lemma of_char_map: "list_all (\<lambda>b. b < 256) bs \<Longrightarrow> bytes_of (map char_of bs) = bs"
  by (induction bs) (simp_all add: bytes_of_def)

text \<open>What is dumped is ASCII.\<close>

lemma hex_code_ascii: "d < 16 \<Longrightarrow> hex_code d < 128"
  by (simp add: hex_code_def)

lemma u_escape_ascii: "c < 65536 \<Longrightarrow> list_all (\<lambda>b. b < 128) (u_escape c)"
  by (simp add: u_escape_def hex4_def hex_code_ascii div_less_iff_less_mult)

lemma escape_point_ascii:
  assumes "scalar c"
  shows "list_all (\<lambda>b. b < 128) (escape_point c)" "length (escape_point c) \<le> (if c < 65536 then 6 else 12)"
proof -
  have "c - 65536 < 1024 * 1024" using assms by (auto simp: scalar_def)
  then have "(c - 65536) div 1024 < 1024" by (simp add: div_less_iff_less_mult)
  then show "list_all (\<lambda>b. b < 128) (escape_point c)" by (simp add: escape_point_def u_escape_ascii)
  show "length (escape_point c) \<le> (if c < 65536 then 6 else 12)" by (simp add: escape_point_def u_escape_def hex4_def)
qed

lemma dump_text_ascii: "list_all scalar t \<Longrightarrow> list_all (\<lambda>b. b < 128) (dump_text t)"
  using escape_point_ascii(1) by (auto simp: dump_text_def list_all_iff)

lemma dump_object_ascii:
  "list_all (\<lambda>(k, v). list_all scalar k \<and> list_all scalar v) ms \<Longrightarrow> list_all (\<lambda>b. b < 128) (dump_object ms)"
proof -
  assume "list_all (\<lambda>(k, v). list_all scalar k \<and> list_all scalar v) ms"
  then have "list_all (\<lambda>b. b < 128) (dump_members ms)"
    by (induction ms rule: dump_members.induct) (auto simp: dump_text_ascii)
  then show ?thesis by (simp add: dump_object_def)
qed

lemma utf8_encode_ascii: "list_all (\<lambda>b. b < 128) t \<Longrightarrow> utf8_encode t = t"
  by (induction t) (simp_all add: utf8_encode_def utf8_char_def)

text \<open>The bytes of a cursor, however it is spelled with text.\<close>

lemma encoded_bytes:
  assumes "list_all (\<lambda>(k, v). list_all scalar v) position" "position \<noteq> []"
  defines "ms \<equiv> map (\<lambda>(name, t). (word name, t)) (sort_key fst position)"
  shows "b64decode (cursor_bytes (encode_cursor position)) = Some (dump_object ms)"
    and "utf8_decode (dump_object ms) = Some (dump_object ms)"
    and "json_loads (dump_object ms) = Some (LObj (map (\<lambda>(k, v). (k, LText v)) ms))"
    and "truthy (Some (encode_cursor position))"
    and "char_count (encode_cursor position) \<le> 4 * ((length (dump_object ms) + 2) div 3)"
    and "4 * ((length (dump_object ms) + 2) div 3) < char_count (encode_cursor position) + 3"
proof -
  have sc: "list_all (\<lambda>(k, v). list_all scalar k \<and> list_all scalar v) ms"
    using assms(1) scalar_word by (auto simp: ms_def list_all_iff)
  note ascii = dump_object_ascii [OF sc]
  then have b: "list_all (\<lambda>b. b < 256) (dump_object ms)" by (auto simp: list_all_iff)
  let ?u = "unpadded (b64encode (dump_object ms))"
  have u: "list_all (\<lambda>c. c < 128) ?u" using base64_round_trip(2) [OF b] .
  have e: "bytes_of (encode_cursor position) = ?u"
    unfolding encode_cursor_def ms_def [symmetric] utf8_encode_ascii [OF ascii] by (rule of_char_map) (use u in \<open>auto simp: list_all_iff\<close>)
  have "filter (\<lambda>c. \<not> continues c) ?u = ?u" using u by (auto simp: filter_id_conv list_all_iff continues_def)
  then have n: "char_count (encode_cursor position) = length ?u" by (simp add: char_count_def e)
  then show "b64decode (cursor_bytes (encode_cursor position)) = Some (dump_object ms)"
    using base64_round_trip(1) [OF b] by (simp add: cursor_bytes_def e repadded_def)
  show "utf8_decode (dump_object ms) = Some (dump_object ms)" using utf8_ascii [OF ascii] .
  have "ms \<noteq> []" using assms(2) by (simp add: ms_def flip: length_greater_0_conv)
  then show "json_loads (dump_object ms) = Some (LObj (map (\<lambda>(k, v). (k, LText v)) ms))" by (rule loads_dump_object [OF sc])
  have "?u \<noteq> []" using base64_round_trip(4) [OF b] by (simp add: dump_object_def)
  then show "truthy (Some (encode_cursor position))" using e by (auto simp: truthy_def bytes_of_def)
  show "char_count (encode_cursor position) \<le> 4 * ((length (dump_object ms) + 2) div 3)"
    "4 * ((length (dump_object ms) + 2) div 3) < char_count (encode_cursor position) + 3"
    using base64_round_trip(3,5) [OF b] by (simp_all add: n)
qed

text \<open>The positions whose cursor comes back: an instant \<open>isoformat\<close> and \<open>fromisoformat\<close> agree on, of a year of four
  digits, and an id of a column of 64 characters, none of them outside the Basic Multilingual Plane.\<close>

definition position_ok :: "(points \<Rightarrow> instant option) \<Rightarrow> instant \<times> string \<Rightarrow> bool" where
  "position_ok fromiso p \<longleftrightarrow>
     fromiso (word (isoformat 0 (fst p))) = Some (fst p) \<and> length (isoformat 0 (fst p)) \<le> 32 \<and>
     column_ok (snd p) \<and> length (points_of (snd p)) \<le> 64 \<and> list_all (\<lambda>c. c < 65536) (points_of (snd p))"

text \<open>The members of a listing's cursor, in the order of their names.\<close>

definition names_ok :: "string \<Rightarrow> string \<Rightarrow> bool" where
  "names_ok at_name id_name \<longleftrightarrow> at_name < id_name \<and> length at_name \<le> 11 \<and> length id_name \<le> 13"

lemma names_ok_listings:
  "names_ok ''created_at'' ''run_id''" "names_ok ''recorded_at'' ''resolution_id''" "names_ok ''created_at'' ''schedule_id''"
  "names_ok ''created_at'' ''webhook_id''" "names_ok ''created_at'' ''delivery_id''"
  by (simp_all add: names_ok_def less_char_def)

lemma cursor_members:
  assumes "names_ok at_name id_name"
  shows "map (\<lambda>(name, t). (word name, t)) (sort_key fst [(at_name, x), (id_name, y)]) = [(word at_name, x), (word id_name, y)]"
  using assms by (simp add: names_ok_def less_imp_le)

lemma cursor_read_back:
  assumes "names_ok at_name id_name" "fromiso (word (isoformat 0 (fst p))) = Some (fst p)" "column_ok (snd p)"
  shows "decode_cursor fromiso [(at_name, InstantMember), (id_name, TextMember)] (Some (cursor_for at_name id_name p)) =
    Inr (Some [(at_name, At (fst p)), (id_name, Named (points_of (snd p)))])"
proof -
  let ?position = "[(at_name, word (isoformat 0 (fst p))), (id_name, points_of (snd p))]"
  have "list_all (\<lambda>(k, v). list_all scalar v) ?position" using scalar_word column_ok_scalar [OF assms(3)] by simp
  note e = encoded_bytes [OF this, simplified cursor_members [OF assms(1)]]
  have ne: "word at_name \<noteq> word id_name" using assms(1) by (auto simp: word_inj names_ok_def)
  show ?thesis using e(1-4) ne assms(2)
    by (simp add: decode_cursor_def cursor_for_def read_member_def)
qed

lemma length_concat_le: "(\<And>x. x \<in> set xs \<Longrightarrow> length (f x) \<le> k) \<Longrightarrow> length (concat (map f xs)) \<le> k * length xs"
  by (induction xs) fastforce+

lemma dump_text_length:
  assumes "list_all scalar t" "list_all (\<lambda>c. c < 65536) t"
  shows "length (dump_text t) \<le> 6 * length t + 2"
proof -
  have "length (escape_point c) \<le> 6" if "c \<in> set t" for c
    using escape_point_ascii(2) [of c] assms that by (auto simp: list_all_iff)
  then have "length (concat (map escape_point t)) \<le> 6 * length t" by (rule length_concat_le)
  then show ?thesis by (simp add: dump_text_def)
qed

lemma cursor_fits:
  assumes "names_ok at_name id_name" "position_ok fromiso p"
  shows "char_count (cursor_for at_name id_name p) \<le> CURSOR_MAX_CHARS"
proof -
  have low: "list_all (\<lambda>c. c < 65536) (word w)" for w by (auto simp: word_def list_all_iff intro: order.strict_trans2 [of _ 256])
  let ?i = "word (isoformat 0 (fst p))" and ?s = "points_of (snd p)"
  have sc: "list_all scalar ?s" using assms(2) column_ok_scalar by (simp add: position_ok_def)
  let ?o = "dump_object [(word at_name, ?i), (word id_name, ?s)]"
  have "length (dump_text (word at_name)) \<le> 6 * 11 + 2" "length (dump_text (word id_name)) \<le> 6 * 13 + 2"
    "length (dump_text ?i) \<le> 6 * 32 + 2" "length (dump_text ?s) \<le> 6 * 64 + 2"
    using dump_text_length [OF scalar_word low, of at_name] dump_text_length [OF scalar_word low, of id_name]
      dump_text_length [OF scalar_word low, of "isoformat 0 (fst p)"] dump_text_length [OF sc] assms
    by (auto simp: names_ok_def position_ok_def word_def)
  then have "length ?o \<le> 766" by (simp add: dump_object_def)
  then have "(length ?o + 2) div 3 \<le> 256" by linarith
  moreover have "char_count (cursor_for at_name id_name p) \<le> 4 * ((length ?o + 2) div 3)"
    unfolding cursor_for_def cursor_members [OF assms(1), symmetric] using scalar_word sc by (intro encoded_bytes(5)) simp_all
  ultimately show ?thesis by (simp add: CURSOR_MAX_CHARS_def)
qed

text \<open>So the next page is fetched from where the last one ended.\<close>

lemma paged_next:
  assumes "names_ok at_name id_name" "1 \<le> limit" "limit \<le> MAX_PAGE"
    and "\<And>p. fetch p = bind_result (after_of p) (\<lambda>after. Inr (get after))"
    and "after = None \<or> (\<exists>p. after = Some p \<and> position_ok fromiso p)"
  shows "paged fromiso at_name id_name (map_option (cursor_for at_name id_name) after) limit fetch =
    Inr (link_next at_name id_name (get after))"
proof (cases after)
  case None
  then show ?thesis using assms(2-4) by (simp add: paged_def decode_cursor_def truthy_def after_of_def)
next
  case (Some p)
  with assms(5) have p: "position_ok fromiso p" by simp
  then have "after_of (Some [(at_name, At (fst p)), (id_name, Named (points_of (snd p)))]) = Inr (Some p)"
    by (simp add: after_of_def position_ok_def column_ok_def)
  moreover have "decode_cursor fromiso [(at_name, InstantMember), (id_name, TextMember)] (Some (cursor_for at_name id_name p)) =
      Inr (Some [(at_name, At (fst p)), (id_name, Named (points_of (snd p)))])"
    using p by (intro cursor_read_back [OF assms(1)]) (simp_all add: position_ok_def)
  moreover have "\<not> CURSOR_MAX_CHARS < char_count (cursor_for at_name id_name p)" using cursor_fits [OF assms(1) p] by simp
  ultimately show ?thesis using assms(2-4) by (simp add: paged_def Some)
qed

section \<open>Iterating\<close>

lemma iterate_follow:
  assumes "\<And>after. fine after \<Longrightarrow> get' (map_option enc after) =
      Inr \<lparr>ls_items = page_items (get after), ls_next = map_option enc (page_after (get after))\<rparr>"
    and "\<And>after q. fine after \<Longrightarrow> page_after (get after) = Some q \<Longrightarrow> fine (Some q) \<and> page_items (get after) \<noteq> []"
    and "fine after"
  shows "\<exists>e. iterate_from get' None n pages (map_option enc after) = (follow_pages get n after, e) \<and>
    (e = IteratedAll \<or> e = Iterating \<and> n \<le> length (follow_pages get n after))"
  using assms(3)
proof (induction n arbitrary: pages after)
  case (Suc n)
  note get' = assms(1) [OF Suc.prems]
  show ?case
  proof (cases "page_after (get after)")
    case (Some q)
    note q = assms(2) [OF Suc.prems Some]
    from Suc.IH [of "Some q" "pages + 1"] q obtain e where
      "iterate_from get' None n (pages + 1) (Some (enc q)) = (follow_pages get n (Some q), e)"
      "e = IteratedAll \<or> e = Iterating \<and> n \<le> length (follow_pages get n (Some q))" by auto
    moreover have "1 \<le> length (page_items (get after))" using q by (simp add: Suc_le_eq)
    ultimately show ?thesis using get' Some by (auto simp: Let_def)
  qed (simp add: get' Let_def)
qed simp

lemma page_of_after:
  assumes "page_after (page_of limit item position rows) = Some q"
  shows "page_items (page_of limit item position rows) \<noteq> [] \<and> (\<exists>r\<in>set rows. q = position r)"
proof -
  from assms have kept: "take limit rows \<noteq> []" "q = position (last (take limit rows))"
    by (auto simp: page_of_def Let_def split: if_splits)
  then have "last (take limit rows) \<in> set rows" by (meson in_set_takeD last_in_set)
  with kept show ?thesis by (auto simp: page_of_def Let_def)
qed

text \<open>C37. The client's \<open>iterate\<close> gives every run: going from page to page by the cursors of the answers'
  \<open>Link\<close>s, at any page size the service takes, it comes to its end and has yielded each run of the caller's
  tenant that matches once, newest first, and no other, as long as the ids are texts of the Basic
  Multilingual Plane that a column holds.\<close>

theorem iterate_lists_runs:
  assumes "store_inv (store s)" "1 \<le> limit" "limit \<le> 500" "length (runs (store s)) < n"
    and "\<forall>r\<in>set (runs (store s)). tenant_id r = acting_tenant who \<longrightarrow> position_ok fromiso (run_position r)"
  shows "iterate_from (list_runs_route fromiso who f limit s) None n 0 None =
    (map summary_of (rev (sort_key run_position (filter (listed (acting_tenant who) f) (runs (store s))))), IteratedAll)"
proof -
  let ?get = "\<lambda>after. list_runs (acting_tenant who) f limit after (store s)"
  let ?enc = "cursor_for ''created_at'' ''run_id''"
  let ?ok = "\<lambda>after. after = None \<or> (\<exists>p. after = Some p \<and> position_ok fromiso p)"
  have pages: "follow_pages ?get n None = map summary_of (rev (sort_key run_position (filter (listed (acting_tenant who) f) (runs (store s)))))"
    by (rule list_runs_pages [OF assms(1)]) (use assms(2,4) in simp_all)
  have next_: "?ok (Some q) \<and> page_items (?get after) \<noteq> []" if "page_after (?get after) = Some q" for after q
  proof -
    from page_of_after [OF that [unfolded list_runs_def]] obtain r where
      r: "r \<in> set (fetch_desc (listed (acting_tenant who) f) run_position after (limit + 1) (runs (store s)))" "q = run_position r"
      "page_items (?get after) \<noteq> []" by (auto simp: list_runs_def)
    from r(1) have "r \<in> set (runs (store s))" "tenant_id r = acting_tenant who"
      by (auto simp: fetch_desc_def listed_def dest!: in_set_takeD)
    with assms(5) r(2,3) show ?thesis by simp
  qed
  have "\<exists>e. iterate_from (list_runs_route fromiso who f limit s) None n 0 (map_option ?enc None) = (follow_pages ?get n None, e) \<and>
      (e = IteratedAll \<or> e = Iterating \<and> n \<le> length (follow_pages ?get n None))"
  proof (rule iterate_follow [where fine = ?ok])
    fix after assume "?ok after"
    then show "list_runs_route fromiso who f limit s (map_option ?enc after) =
        Inr \<lparr>ls_items = page_items (?get after), ls_next = map_option ?enc (page_after (?get after))\<rparr>"
      unfolding list_runs_route_def link_next_def [symmetric]
      by (intro paged_next [OF names_ok_listings(1)]) (use assms(2,3) in \<open>simp_all add: MAX_PAGE_def\<close>)
  qed (use next_ in auto)
  moreover have "length (follow_pages ?get n None) < n"
    unfolding pages using le_less_trans [OF length_filter_le assms(4)] by simp
  ultimately show ?thesis unfolding pages by auto
qed

lemma ascii_column:
  assumes "list_all (\<lambda>c. 0 < (of_char c :: nat) \<and> (of_char c :: nat) < 128) s"
  shows "column_ok s" "points_of s = word s"
proof -
  have a: "list_all (\<lambda>c. c < 128) (word s)" using assms by (simp add: word_def list_all_iff)
  then show p: "points_of s = word s" using utf8_ascii by (simp add: points_of_def bytes_of_def word_def)
  have "list_all (\<lambda>c. scalar c \<and> c \<noteq> 0) (word s)" using assms scalar_word [of s] by (auto simp: word_def list_all_iff)
  then show "column_ok s" by (simp add: column_ok_def p column_text_def utf8_encode_ascii [OF a]) (simp add: word_def comp_def)
qed

text \<open>Two runs, one a page: the second page is asked for by the cursor of the first.\<close>

definition demo_second :: run_row where
  "demo_second = new_row (demo_start\<lparr>rs_run_id := ''run_2'', rs_idempotency_key := None\<rparr>) True 0"

definition demo_two :: db where
  "demo_two = demo_queued\<lparr>runs := runs demo_queued @ [demo_second]\<rparr>"

definition demo_fromiso :: "points \<Rightarrow> instant option" where
  "demo_fromiso t = (if t = word (isoformat 0 0) then Some 0 else None)"

lemma demo_two_inv: "store_inv demo_two"
proof -
  have "\<exists>x. start (demo_start\<lparr>rs_run_id := ''run_2'', rs_idempotency_key := None\<rparr>) True 0 True demo_queued = Inr (x, demo_two)"
    by (auto simp: start_def Let_def demo_two_def demo_queued_def empty_db_def demo_second_def collides_def same_idempotency_def
        new_row_def demo_start_def)
  then show ?thesis using starting.keeps_inv [OF demo_laws(1,2) demo_queued_inv] by blast
qed

lemma show_nat_length: "n < 10 ^ Suc k \<Longrightarrow> length (show_nat n) \<le> Suc k"
proof (induction k arbitrary: n)
  case (Suc k)
  show ?case
  proof (cases "n < 10")
    case False
    have "n div 10 < 10 ^ Suc k" using Suc.prems by (simp add: div_less_iff_less_mult)
    with Suc.IH False show ?thesis by (subst show_nat.simps) simp
  qed (subst show_nat.simps, simp)
qed (subst show_nat.simps, simp)

lemma padded_length: "0 \<le> k \<Longrightarrow> k < 10 ^ Suc n \<Longrightarrow> length (padded (Suc n) k) = Suc n"
  using show_nat_length [of "nat k" n] by (auto simp: padded_def show_int_def Let_def nat_less_iff)

lemma demo_positions_ok: "position_ok demo_fromiso (0, ''run_1'')" "position_ok demo_fromiso (0, ''run_2'')"
proof -
  have l: "length (padded 4 1970) = 4" "length (padded 2 0) = 2" "length (padded 2 1) = 2"
    using padded_length [of 1970 3] padded_length [of 0 1] padded_length [of 1 1] by (simp_all flip: numeral_2_eq_2)
  have c: "civil 0 = (1970, 1, 1)" by code_simp
  have "isoformat 0 0 = padded 4 1970 @ ''-'' @ padded 2 1 @ ''-'' @ padded 2 1 @ ''T'' @ padded 2 0 @ '':'' @ padded 2 0 @ '':'' @ padded 2 0 @
      ''+'' @ padded 2 0 @ '':'' @ padded 2 0" by (simp add: isoformat_def iso_offset_def timedelta_seconds_def c)
  then have iso: "length (isoformat 0 0) \<le> 32" using l by simp
  have a: "column_ok ''run_1''" "points_of ''run_1'' = word ''run_1''" "column_ok ''run_2''" "points_of ''run_2'' = word ''run_2''"
    by (rule ascii_column, simp)+
  show "position_ok demo_fromiso (0, ''run_1'')" "position_ok demo_fromiso (0, ''run_2'')"
    unfolding position_ok_def demo_fromiso_def fst_conv snd_conv a(2,4) using iso a(1,3) by (simp_all add: word_def)
qed

theorem iterate_lists_runs_witness:
  "iterate_from (list_runs_route demo_fromiso demo_caller \<lparr>by_status = None, by_assignee = None, by_agent = None, by_thread = None,
      by_parent = None, top_level = False\<rparr> 1 (demo_service\<lparr>store := demo_two\<rparr>)) None 3 0 None =
   ([summary_of demo_second, summary_of (new_row demo_start True 0)], IteratedAll)"
proof -
  let ?s = "demo_service\<lparr>store := demo_two\<rparr>" and ?first = "new_row demo_start True 0"
  let ?f = "\<lparr>by_status = None, by_assignee = None, by_agent = None, by_thread = None, by_parent = None, top_level = False\<rparr>"
  have rows: "runs (store ?s) = [?first, demo_second]" by (simp add: demo_two_def demo_queued_def)
  have p: "run_position ?first = (0, ''run_1'')" "run_position demo_second = (0, ''run_2'')"
    by (simp_all add: run_position_def new_row_def demo_second_def demo_start_def)
  have l: "listed (acting_tenant demo_caller) ?f ?first" "listed (acting_tenant demo_caller) ?f demo_second"
    by (simp_all add: listed_def asked_for_def demo_caller_def new_row_def demo_second_def demo_start_def)
  have ok: "\<forall>r\<in>set (runs (store ?s)). tenant_id r = acting_tenant demo_caller \<longrightarrow> position_ok demo_fromiso (run_position r)"
    unfolding rows by (simp add: p demo_positions_ok)
  have inv: "store_inv (store ?s)" using demo_two_inv by simp
  have "rev (sort_key run_position [?first, demo_second]) = [demo_second, ?first]" by (simp add: p less_char_def)
  then show ?thesis using iterate_lists_runs [OF inv _ _ _ ok, of 1 3 ?f] l unfolding rows by simp
qed

section \<open>Where a cursor does not come back\<close>

lemma utf8_bytes: "list_all scalar t \<Longrightarrow> list_all (\<lambda>b. b < 256) (utf8_encode t)"
proof -
  have "list_all (\<lambda>b. b < 256) (utf8_char c)" if "scalar c" for c
  proof -
    have "c mod 64 < 64" "c div 64 mod 64 < 64" "c div 4096 mod 64 < 64" by simp_all
    moreover have "c < 2048 \<Longrightarrow> c div 64 < 32" "c < 65536 \<Longrightarrow> c div 4096 < 16" by (simp_all add: div_less_iff_less_mult)
    moreover have "c < 8 * 262144" using that by (simp add: scalar_def)
    then have "c div 262144 < 8" by (simp add: div_less_iff_less_mult)
    ultimately show ?thesis by (auto simp: utf8_char_def)
  qed
  then show "list_all scalar t \<Longrightarrow> list_all (\<lambda>b. b < 256) (utf8_encode t)" by (auto simp: utf8_encode_def list_all_iff)
qed

lemma column_of_points:
  assumes "list_all (\<lambda>c. scalar c \<and> c \<noteq> 0) t"
  shows "points_of (map char_of (utf8_encode t)) = t" "column_ok (map char_of (utf8_encode t))"
proof -
  have sc: "list_all scalar t" using assms by (simp add: list_all_iff)
  then show p: "points_of (map char_of (utf8_encode t)) = t"
    by (simp add: points_of_def of_char_map utf8_bytes utf8_round_trip)
  show "column_ok (map char_of (utf8_encode t))" using assms by (simp add: column_ok_def p column_text_def)
qed

text \<open>A listing can issue a cursor it will not take: a run's id is its caller's, of at most 64 characters, and
  each one outside the Basic Multilingual Plane is twelve of the cursor's JSON, so after a page that ends
  with such an id the next page is a 422, whoever asks and whatever else the listing has.\<close>

lemma astral_cursor_refused:
  "\<exists>rid. column_ok rid \<and> length (points_of rid) = 64 \<and>
     (\<forall>fromiso who f limit s t.
        list_runs_route fromiso who f limit s (Some (cursor_for ''created_at'' ''run_id'' (t, rid))) = Inl Unprocessable)"
proof -
  let ?t = "replicate 64 128512" and ?rid = "map char_of (utf8_encode (replicate 64 128512))"
  have t: "list_all (\<lambda>c. scalar c \<and> c \<noteq> 0) ?t" by (simp add: scalar_def surrogate_def list_all_iff)
  note rid = column_of_points [OF t]
  have sc: "list_all scalar ?t" using t by (simp add: list_all_iff)
  have "char_count (cursor_for ''created_at'' ''run_id'' (t, ?rid)) > CURSOR_MAX_CHARS" for t
  proof -
    let ?o = "dump_object [(word ''created_at'', word (isoformat 0 t)), (word ''run_id'', ?t)]"
    have "length (concat (map escape_point (replicate n 128512))) = 12 * n" for n
      by (induction n) (simp_all add: escape_point_def u_escape_def hex4_def)
    then have "length (dump_text ?t) = 770" by (simp add: dump_text_def)
    then have n: "781 \<le> length ?o" by (simp add: dump_object_def dump_text_def)
    have "4 * ((length ?o + 2) div 3) < char_count (encode_cursor [(''created_at'', word (isoformat 0 t)), (''run_id'', ?t)]) + 3"
      unfolding cursor_members [OF names_ok_listings(1), symmetric] using scalar_word sc by (intro encoded_bytes(6)) simp_all
    moreover have "261 \<le> (length ?o + 2) div 3" using div_le_mono [of 783 "length ?o + 2" 3] n by simp
    ultimately show ?thesis by (simp add: cursor_for_def rid(1) CURSOR_MAX_CHARS_def)
  qed
  then have "list_runs_route fromiso who f limit s (Some (cursor_for ''created_at'' ''run_id'' (t, ?rid))) = Inl Unprocessable"
    for fromiso who f limit s t by (simp add: list_runs_route_def paged_def)
  moreover have "length (points_of ?rid) = 64" unfolding rid(1) by simp
  ultimately show ?thesis using rid(2) by blast
qed

text \<open>And a cursor nobody issued can be one the database refuses: a null character is a text to JSON.\<close>

lemma null_cursor_crashes:
  assumes "fromiso (word (isoformat 0 0)) = Some 0" "1 \<le> limit" "limit \<le> 500" "length (isoformat 0 0) \<le> 32"
  shows "list_runs_route fromiso who f limit s (Some (encode_cursor [(''created_at'', word (isoformat 0 0)), (''run_id'', [0])])) = Inl Crashed"
proof -
  let ?p = "[(''created_at'', word (isoformat 0 0)), (''run_id'', [0])]"
  have sc: "list_all (\<lambda>(k, v). list_all scalar v) ?p" using scalar_word by (simp add: scalar_def surrogate_def)
  note e = encoded_bytes [OF sc, simplified cursor_members [OF names_ok_listings(1)]]
  let ?o = "dump_object [(word ''created_at'', word (isoformat 0 0)), (word ''run_id'', [0])]"
  have low: "list_all (\<lambda>c. c < 65536) (word w)" for w by (auto simp: word_def list_all_iff intro: order.strict_trans2 [of _ 256])
  have "length (dump_text (word ''created_at'')) \<le> 62" "length (dump_text (word ''run_id'')) \<le> 38"
    "length (dump_text (word (isoformat 0 0))) \<le> 194" "length (dump_text [0]) \<le> 8"
    using dump_text_length [OF scalar_word low, of "''created_at''"] dump_text_length [OF scalar_word low, of "''run_id''"]
      dump_text_length [OF scalar_word low, of "isoformat 0 0"] assms(4) dump_text_length [of "[0]"]
    by (simp_all add: word_def scalar_def surrogate_def)
  then have "length ?o \<le> 310" by (simp add: dump_object_def)
  then have "(length ?o + 2) div 3 \<le> 104" by linarith
  with e(5) have "\<not> CURSOR_MAX_CHARS < char_count (encode_cursor ?p)" by (simp add: CURSOR_MAX_CHARS_def)
  moreover have "decode_cursor fromiso [(''created_at'', InstantMember), (''run_id'', TextMember)] (Some (encode_cursor ?p)) =
      Inr (Some [(''created_at'', At 0), (''run_id'', Named [0])])"
    using e(1-4) assms(1) by (simp add: decode_cursor_def read_member_def word_inj)
  ultimately show ?thesis using assms(2,3) by (simp add: list_runs_route_def paged_def MAX_PAGE_def after_of_def column_text_def)
qed

end
