(* ===== verification/Links.thy ===== *)
theory Links
  imports Cursor
begin

text \<open>
  The \<open>Link\<close> header between the two sides: what \<open>api/pagination.py\<close> writes into it and what \<open>next_cursor\<close> of the
  SDK's \<open>_transport.py\<close> reads of it. Building and reading a URL's query is the libraries': the record \<open>urls\<close>,
  of which \<open>url_laws\<close> are the documented ones. The request's URL is the text Starlette makes of it, which has the path
  decoded: what its run id spells \<open>%3E\<close> is \<open>>\<close> there, and an id's \<open>?\<close> or \<open>#\<close> ends the path. How a header's
  text is encoded is not modelled.
\<close>

section \<open>Writing and reading a link\<close>

record urls =
  query_with :: "string \<Rightarrow> string \<Rightarrow> string"
  cursor_param :: "string \<Rightarrow> string option"

text \<open>\<open>urlsplit\<close> drops tabs and line ends, and finds the path before the first \<open>?\<close> or \<open>#\<close> and the fragment from the
  first \<open>#\<close> on.\<close>

definition url_text :: "string \<Rightarrow> string" where
  "url_text url = filter (\<lambda>x. x \<notin> {CHR 0x09, CHR 0x0A, CHR 0x0D}) url"

definition url_path :: "string \<Rightarrow> string" where
  "url_path url = takeWhile (\<lambda>x. x \<noteq> CHR ''?'' \<and> x \<noteq> CHR ''#'') (url_text url)"

definition url_fragment :: "string \<Rightarrow> string" where
  "url_fragment url = (let f = dropWhile (\<lambda>x. x \<noteq> CHR ''#'') (url_text url) in if f = ''#'' then [] else f)"

text \<open>\<open>include_query_params\<close>: the URL's query with its \<open>cursor\<close> set, percent-encoded, between the path and the
  fragment, which are kept as they are; the \<open>cursor\<close> is read back from the URL it is put in.\<close>

definition with_cursor :: "urls \<Rightarrow> string \<Rightarrow> string \<Rightarrow> string" where
  "with_cursor U url c = url_path url @ ''?'' @ query_with U url c @ url_fragment url"

definition url_laws :: "urls \<Rightarrow> bool" where
  "url_laws U \<longleftrightarrow>
     (\<forall>url c. set (query_with U url c) \<inter> {CHR '','', CHR '';'', CHR ''<'', CHR ''>''} = {}) \<and>
     (\<forall>url c. cursor_param U (with_cursor U url c) = Some c)"

definition link_header :: "urls \<Rightarrow> string \<Rightarrow> string option \<Rightarrow> string option" where
  "link_header U url after =
     (case after of
        None \<Rightarrow> None
      | Some c \<Rightarrow> Some (''<'' @ with_cursor U url c @ ''>; rel=\"next\"''))"

text \<open>The pattern \<open><([^>]+)>\s*;\s*rel="?next"?\<close>: what follows the closing bracket, and the first place it matches.\<close>

definition link_space :: "string \<Rightarrow> string" where
  "link_space s = drop_leading WHITESPACE s"

definition rel_next :: "string \<Rightarrow> bool" where
  "rel_next s \<longleftrightarrow>
     (case link_space s of
        c # rest \<Rightarrow>
          c = CHR '';'' \<and>
          (let r = link_space rest in take 8 r = ''rel=next'' \<or> take 9 r = ''rel=\"next'')
      | [] \<Rightarrow> False)"

fun NEXT_LINK :: "string \<Rightarrow> string option" where
  "NEXT_LINK [] = None"
| "NEXT_LINK (c # cs) =
     (let u = takeWhile (\<lambda>x. x \<noteq> CHR ''>'') cs; rest = dropWhile (\<lambda>x. x \<noteq> CHR ''>'') cs
      in if c = CHR ''<'' \<and> u \<noteq> [] \<and> rest \<noteq> [] \<and> rel_next (tl rest) then Some u else NEXT_LINK cs)"

fun cursor_of_parts :: "urls \<Rightarrow> string list \<Rightarrow> string option" where
  "cursor_of_parts U [] = None"
| "cursor_of_parts U (p # ps) =
     (case NEXT_LINK p of
        Some url \<Rightarrow> (if truthy (cursor_param U url) then cursor_param U url else None)
      | None \<Rightarrow> cursor_of_parts U ps)"

definition next_cursor :: "urls \<Rightarrow> string option \<Rightarrow> string option" where
  "next_cursor U link = cursor_of_parts U (split_on (CHR '','') (case link of None \<Rightarrow> [] | Some l \<Rightarrow> l))"

section \<open>A link is read as it was written\<close>

lemma NEXT_LINK_no_open: "CHR ''<'' \<notin> set s \<Longrightarrow> NEXT_LINK s = None"
  by (induction s) (auto simp: Let_def)

lemma NEXT_LINK_no_close: "CHR ''>'' \<notin> set s \<Longrightarrow> NEXT_LINK s = None"
  by (induction s) (auto simp: Let_def dropWhile_eq_Nil_conv)

lemma whitespace_heads: "w \<in> set WHITESPACE \<Longrightarrow> hd w = CHR '' '' \<Longrightarrow> w = '' ''"
  by (auto simp: WHITESPACE_def upt_rec char_of_def bit_numeral_simps bit_0)

lemma link_space_visible: "visible c \<Longrightarrow> link_space (c # s) = c # s"
proof -
  assume v: "visible c"
  have "\<not> (w \<noteq> [] \<and> starts_with w (c # s))" if "w \<in> set WHITESPACE" for w
    using whitespace_ends(2) [OF that] v by (cases w) (auto simp: starts_with_def)
  then have "find (\<lambda>w. w \<noteq> [] \<and> starts_with w (c # s)) WHITESPACE = None" by (simp add: find_None_iff)
  then show ?thesis by (simp add: link_space_def drop_leading.simps)
qed

lemma link_space_blank: "visible c \<Longrightarrow> link_space (CHR '' '' # c # s) = c # s"
proof -
  assume v: "visible c"
  have "'' '' \<in> set WHITESPACE" by (simp add: WHITESPACE_def char_of_def bit_numeral_simps bit_0)
  then obtain w where f: "find (\<lambda>w. w \<noteq> [] \<and> starts_with w (CHR '' '' # c # s)) WHITESPACE = Some w"
    by (cases "find (\<lambda>w. w \<noteq> [] \<and> starts_with w (CHR '' '' # c # s)) WHITESPACE") (auto simp: find_None_iff starts_with_def)
  then have "w \<in> set WHITESPACE" "w \<noteq> []" "starts_with w (CHR '' '' # c # s)" by (auto simp: find_Some_iff)
  then have "hd w = CHR '' ''" unfolding starts_with_def by (metis hd_take length_greater_0_conv list.sel(1))
  with \<open>w \<in> set WHITESPACE\<close> have "w = '' ''" by (rule whitespace_heads)
  with f have "link_space (CHR '' '' # c # s) = link_space (c # s)" by (subst link_space_def) (simp add: drop_leading.simps link_space_def)
  with link_space_visible [OF v] show ?thesis by simp
qed

lemma rel_next_written: "rel_next ''; rel=\"next\"''"
proof -
  have "visible (CHR '';'')" "visible (CHR ''r'')" by (simp_all add: visible_def)
  then show ?thesis by (simp add: rel_next_def link_space_visible link_space_blank)
qed

lemma NEXT_LINK_written:
  assumes "u \<noteq> []" "CHR ''>'' \<notin> set u"
  shows "NEXT_LINK (''<'' @ u @ ''>; rel=\"next\"'') = Some u"
proof -
  have "takeWhile (\<lambda>x. x \<noteq> CHR ''>'') (u @ ''>; rel=\"next\"'') = u" "dropWhile (\<lambda>x. x \<noteq> CHR ''>'') (u @ ''>; rel=\"next\"'') = ''>; rel=\"next\"''"
    using assms(2) by (simp_all add: takeWhile_append2 dropWhile_append2 takeWhile_append dropWhile_append takeWhile_eq_all_conv dropWhile_eq_Nil_conv)
  with rel_next_written show ?thesis using assms(1) by simp
qed

lemma split_on_parts: "p \<in> set (split_on c t) \<Longrightarrow> set p \<subseteq> set t"
  by (induction c t arbitrary: p rule: split_on.induct) (fastforce split: if_splits list.splits)+

lemma cursor_of_parts_none: "\<forall>p\<in>set ps. NEXT_LINK p = None \<Longrightarrow> cursor_of_parts U ps = None"
  by (induction ps) auto

lemma next_cursor_single:
  assumes "split_on (CHR '','') l = [l]" "NEXT_LINK l = Some u" "cursor_param U u = Some c" "c \<noteq> []"
  shows "next_cursor U (Some l) = Some c"
  using assms by (simp add: next_cursor_def truthy_def)

lemma next_cursor_none:
  assumes "split_on (CHR '','') l = p # ps" "NEXT_LINK p = None" "\<forall>p\<in>set ps. NEXT_LINK p = None"
  shows "next_cursor U (Some l) = None"
  using assms cursor_of_parts_none by (simp add: next_cursor_def)

text \<open>A closing bracket ends the whitespace before it: what follows an earlier one is no \<open>rel="next"\<close>.\<close>

lemma starts_with_part:
  assumes "starts_with w (x @ c # t)" "c \<notin> set w"
  shows "\<exists>x'. x = w @ x'"
  using assms
proof (induction w arbitrary: x)
  case (Cons a w)
  then show ?case by (cases x) (auto simp: starts_with_def)
qed simp

lemma link_space_to_close:
  "\<exists>y. link_space (x @ CHR ''>'' # t) = y @ CHR ''>'' # t \<and> set y \<subseteq> set x"
proof (induction x rule: length_induct)
  case (1 x)
  show ?case
  proof (cases "find (\<lambda>w. w \<noteq> [] \<and> starts_with w (x @ CHR ''>'' # t)) WHITESPACE")
    case None
    then show ?thesis by (subst link_space_def, subst drop_leading.simps) auto
  next
    case (Some w)
    then have w: "w \<in> set WHITESPACE" "w \<noteq> []" "starts_with w (x @ CHR ''>'' # t)" by (auto simp: find_Some_iff)
    have "CHR ''>'' \<notin> set w" using w(1) by (auto simp: WHITESPACE_def upt_rec char_of_def bit_numeral_simps bit_0)
    then obtain x' where x: "x = w @ x'" using starts_with_part [OF w(3)] by blast
    then have "link_space (x @ CHR ''>'' # t) = link_space (x' @ CHR ''>'' # t)"
      using Some by (subst link_space_def, subst drop_leading.simps) (simp add: link_space_def)
    moreover have "length x' < length x" using w(2) x by simp
    ultimately show ?thesis using 1 x by fastforce
  qed
qed

lemma rel_next_before_close: "CHR '';'' \<notin> set x \<Longrightarrow> \<not> rel_next (x @ CHR ''>'' # t)"
proof -
  assume x: "CHR '';'' \<notin> set x"
  obtain y where "link_space (x @ CHR ''>'' # t) = y @ CHR ''>'' # t" "set y \<subseteq> set x" using link_space_to_close by blast
  with x show ?thesis by (cases y) (auto simp: rel_next_def)
qed

lemma rel_next_no_semicolon: "CHR '';'' \<notin> set s \<Longrightarrow> \<not> rel_next s"
proof -
  assume s: "CHR '';'' \<notin> set s"
  have "set (drop_leading ws t) \<subseteq> set t" for ws t
  proof (induction ws t rule: drop_leading.induct)
    case (1 ws t)
    then show ?case by (subst drop_leading.simps) (auto split: option.splits dest: in_set_dropD)
  qed
  with s have "CHR '';'' \<notin> set (link_space s)" unfolding link_space_def by blast
  then show ?thesis by (cases "link_space s") (auto simp: rel_next_def)
qed

text \<open>C34. The next page's cursor survives the \<open>Link\<close> header: the SDK reads the very cursor the listing wrote, and
  none when it wrote none, whatever the URL has been asked with; but only where the URL's path has no comma and no closing
  bracket. One of these, as a run's id may have, cuts the link short and the SDK takes the page for the last
  one (unless the path has an opening bracket or a semicolon too, which may make up another link). The same goes
  for the fragment, which an id with a \<open>#\<close> makes of the rest of the URL; a \<open>?\<close> does no harm.\<close>

theorem link_read_back:
  assumes "url_laws U" "\<forall>c. after = Some c \<longrightarrow> c \<noteq> []"
  shows "(set (url_path url @ url_fragment url) \<inter> {CHR '','', CHR ''>''} = {} \<longrightarrow>
      next_cursor U (link_header U url after) = after) \<and>
    (set (url_path url @ url_fragment url) \<inter> {CHR '','', CHR ''>''} \<noteq> {} \<and>
      set (url_path url @ url_fragment url) \<inter> {CHR ''<'', CHR '';''} = {} \<longrightarrow>
      next_cursor U (link_header U url after) = None)"
proof (cases after)
  case None
  then show ?thesis by (simp add: next_cursor_def link_header_def)
next
  case (Some c)
  let ?u = "with_cursor U url c" and ?tail = "''>; rel=\"next\"''" and ?kept = "url_path url @ url_fragment url"
  have query: "set (query_with U url c) \<inter> {CHR '','', CHR '';'', CHR ''<'', CHR ''>''} = {}" using assms(1) unfolding url_laws_def by blast
  have chars: "x \<in> set ?u \<longleftrightarrow> x \<in> set ?kept" if "x \<in> {CHR '','', CHR '';'', CHR ''<'', CHR ''>''}" for x
    using that query by (auto simp: with_cursor_def)
  have u: "?u \<noteq> []" by (simp add: with_cursor_def)
  have h: "link_header U url after = Some (''<'' @ ?u @ ?tail)" by (simp add: link_header_def Some)
  have "next_cursor U (link_header U url after) = after" if k: "set ?kept \<inter> {CHR '','', CHR ''>''} = {}"
  proof -
    have "CHR '','' \<notin> set ?u" "CHR ''>'' \<notin> set ?u" using k chars by auto
    then have "split_on (CHR '','') (''<'' @ ?u @ ?tail) = [''<'' @ ?u @ ?tail]" "NEXT_LINK (''<'' @ ?u @ ?tail) = Some ?u"
      by (intro split_on_plain NEXT_LINK_written u; simp)+
    from next_cursor_single [OF this] assms Some show ?thesis unfolding h url_laws_def by simp
  qed
  moreover have "next_cursor U (link_header U url after) = None"
    if k: "set ?kept \<inter> {CHR '','', CHR ''>''} \<noteq> {}" "set ?kept \<inter> {CHR ''<'', CHR '';''} = {}"
  proof -
    have none: "CHR ''<'' \<notin> set ?u" "CHR '';'' \<notin> set ?u" using k(2) chars by auto
    have first: "NEXT_LINK (''<'' @ b) = None" if "\<And>v. v = tl (dropWhile (\<lambda>x. x \<noteq> CHR ''>'') b) \<Longrightarrow> \<not> rel_next v" "CHR ''<'' \<notin> set b" for b
      using that NEXT_LINK_no_open by (auto simp: Let_def)
    show ?thesis
    proof (cases "CHR '','' \<in> set ?u")
      case True
      then obtain b1 b2 where b: "?u = b1 @ CHR '','' # b2" "CHR '','' \<notin> set b1" by (meson split_list_first)
      let ?rest = "b2 @ ?tail"
      have l: "split_on (CHR '','') (''<'' @ ?u @ ?tail) = (''<'' @ b1) # split_on (CHR '','') ?rest"
        using b(2) split_on_append [of "CHR '',''" "''<'' @ b1" ?rest] by (simp add: b(1))
      have b1: "CHR ''<'' \<notin> set b1" "CHR '';'' \<notin> set b1" using none by (simp_all add: b(1))
      have "CHR '';'' \<notin> set (tl (dropWhile (\<lambda>x. x \<noteq> CHR ''>'') b1))"
        using b1(2) by (metis list.set_sel(2) set_dropWhileD tl_Nil)
      then have n: "NEXT_LINK (''<'' @ b1) = None" using first b1(1) rel_next_no_semicolon by blast
      have "CHR ''<'' \<notin> set ?rest" using none(1) by (simp add: b(1))
      then have "\<forall>p\<in>set (split_on (CHR '','') ?rest). NEXT_LINK p = None" using split_on_parts NEXT_LINK_no_open by blast
      from next_cursor_none [OF l n this] show ?thesis by (simp add: h)
    next
      case False
      with k(1) chars have "CHR ''>'' \<in> set ?u" by auto
      then obtain b1 b2 where b: "?u = b1 @ CHR ''>'' # b2" "CHR ''>'' \<notin> set b1" by (meson split_list_first)
      have d: "tl (dropWhile (\<lambda>x. x \<noteq> CHR ''>'') (?u @ ?tail)) = b2 @ ?tail"
        using b(2) by (simp add: b(1) dropWhile_append)
      have "\<not> rel_next (b2 @ ?tail)" using rel_next_before_close [of b2] none(2) by (simp add: b(1))
      then have n: "NEXT_LINK (''<'' @ ?u @ ?tail) = None" using first [of "?u @ ?tail"] none(1) by (simp only: d) simp
      have "split_on (CHR '','') (''<'' @ ?u @ ?tail) = [''<'' @ ?u @ ?tail]" using False by (intro split_on_plain) simp
      from next_cursor_none [OF this n] show ?thesis by (simp add: h)
    qed
  qed
  ultimately show ?thesis by blast
qed

section \<open>An instance\<close>

text \<open>Each character as two letters.\<close>

definition letters_of :: "char \<Rightarrow> string" where
  "letters_of c = [char_of (97 + of_char c div 16 :: nat), char_of (97 + of_char c mod 16 :: nat)]"

fun from_letters :: "string \<Rightarrow> string" where
  "from_letters (x # y # cs) = char_of (16 * (of_char x - 97) + (of_char y - 97) :: nat) # from_letters cs"
| "from_letters _ = []"

definition demo_urls :: urls where
  "demo_urls = \<lparr>query_with = (\<lambda>q c. concat (map letters_of c)),
     cursor_param = (\<lambda>u. Some (from_letters (takeWhile (\<lambda>x. x \<noteq> CHR ''#'') (tl (dropWhile (\<lambda>x. x \<noteq> CHR ''?'') u)))))\<rparr>"

lemma of_letters:
  "of_char (char_of (97 + of_char c div 16 :: nat)) = (97 + of_char c div 16 :: nat)"
  "of_char (char_of (97 + of_char c mod 16 :: nat)) = (97 + of_char c mod 16 :: nat)"
proof -
  have "(of_char c :: nat) < 16 * 16" by simp
  then have "of_char c div 16 < (16 :: nat)" by (rule less_mult_imp_div_less)
  then show "of_char (char_of (97 + of_char c div 16 :: nat)) = (97 + of_char c div 16 :: nat)" by simp
  have "of_char c mod 16 < (16 :: nat)" by simp
  then show "of_char (char_of (97 + of_char c mod 16 :: nat)) = (97 + of_char c mod 16 :: nat)" by simp
qed

lemma letters_back: "from_letters (concat (map letters_of c)) = c"
  by (induction c) (simp_all add: letters_of_def of_letters del: of_char_of)

lemma demo_url_laws: "url_laws demo_urls"
proof -
  have "97 \<le> (of_char x :: nat)" if "x \<in> set (letters_of c)" for x c
    using that of_letters by (auto simp: letters_of_def simp del: of_char_of)
  then have "set (letters_of c) \<inter> {CHR '','', CHR '';'', CHR ''<'', CHR ''>'', CHR ''#''} = {}" for c by fastforce
  then have letters: "set (concat (map letters_of c)) \<inter> {CHR '','', CHR '';'', CHR ''<'', CHR ''>'', CHR ''#''} = {}" for c by auto
  have "cursor_param demo_urls (with_cursor demo_urls url c) = Some c" for url c
  proof -
    have "dropWhile (\<lambda>x. x \<noteq> CHR ''?'') (url_path url @ CHR ''?'' # t) = CHR ''?'' # t" for t
    proof -
      have "CHR ''?'' \<notin> set (url_path url)" by (auto simp: url_path_def dest: set_takeWhileD)
      then show ?thesis by (induction "url_path url" arbitrary: url) (auto simp: dropWhile_append)
    qed
    moreover have "takeWhile (\<lambda>x. x \<noteq> CHR ''#'') (concat (map letters_of c) @ url_fragment url) = concat (map letters_of c)"
    proof -
      have "hd (url_fragment url) = CHR ''#''" if "url_fragment url \<noteq> []"
        using that hd_dropWhile [of "\<lambda>x. x \<noteq> CHR ''#''" "url_text url"] by (auto simp: url_fragment_def Let_def split: if_splits)
      then have "takeWhile (\<lambda>x. x \<noteq> CHR ''#'') (url_fragment url) = []" by (cases "url_fragment url") auto
      moreover have "\<forall>x\<in>set (concat (map letters_of c)). x \<noteq> CHR ''#''" using letters [of c] by blast
      ultimately show ?thesis unfolding takeWhile_append by simp
    qed
    ultimately show ?thesis by (simp add: demo_urls_def with_cursor_def letters_back)
  qed
  moreover have "set (concat (map letters_of c)) \<inter> {CHR '','', CHR '';'', CHR ''<'', CHR ''>''} = {}" for c using letters [of c] by blast
  ultimately show ?thesis by (simp add: url_laws_def demo_urls_def)
qed

theorem link_read_back_witness:
  "next_cursor demo_urls (link_header demo_urls ''http://h/v1/runs/a?b/resolutions'' (Some ''c'')) = Some ''c'' \<and>
   next_cursor demo_urls (link_header demo_urls ''http://h/v1/runs/a,b/resolutions'' (Some ''c'')) = None \<and>
   next_cursor demo_urls (link_header demo_urls ''http://h/v1/runs/a>b/resolutions'' (Some ''c'')) = None"
  using link_read_back [OF demo_url_laws, of "Some ''c''" "''http://h/v1/runs/a?b/resolutions''"]
    link_read_back [OF demo_url_laws, of "Some ''c''" "''http://h/v1/runs/a,b/resolutions''"]
    link_read_back [OF demo_url_laws, of "Some ''c''" "''http://h/v1/runs/a>b/resolutions''"]
  by (simp add: url_path_def url_fragment_def url_text_def)

end
