(* ===== verification/Transport.thy ===== *)
theory Transport
  imports Event_Stream Problems Signatures
begin

text \<open>
  The SDK's \<open>errors.py\<close> and \<open>_transport.py\<close>: how a client reads an error answer, when it tries a call
  again and how long it waits, and how it reads an event stream. What HTTP gives is an argument: how each
  attempt went, the seconds a \<open>Retry-After\<close> asks for as the header parses, the jitter, and the splitting
  of a stream into lines.
\<close>

section \<open>Errors\<close>

datatype error_class =
  RunsError | AuthenticationError | AuthorizationError | NotFoundError | ConflictError | LeaseLostError
| ValidationError | PayloadTooLargeError | RateLimitedError | DependencyUnavailableError

record runs_error =
  ex_class :: error_class
  ex_code :: string
  ex_status :: int
  ex_retryable :: bool
  ex_request_id :: "string option"
  ex_details :: "(string \<times> json) list"
  ex_retry_after :: "rat option"

definition BY_CODE :: "string \<rightharpoonup> error_class" where
  "BY_CODE = map_of [(''AUTHENTICATION'', AuthenticationError), (''AUTHORIZATION'', AuthorizationError),
     (''NOT_FOUND'', NotFoundError), (''CONFLICT'', ConflictError), (''LEASE_LOST'', LeaseLostError),
     (''VALIDATION'', ValidationError), (''PAYLOAD_TOO_LARGE'', PayloadTooLargeError),
     (''RATE_LIMIT'', RateLimitedError), (''DEPENDENCY_UNAVAILABLE'', DependencyUnavailableError)]"

definition BY_STATUS :: "int \<rightharpoonup> error_class \<times> string" where
  "BY_STATUS = map_of [(400, ValidationError, ''VALIDATION''), (401, AuthenticationError, ''AUTHENTICATION''),
     (403, AuthorizationError, ''AUTHORIZATION''), (404, NotFoundError, ''NOT_FOUND''), (405, ValidationError, ''VALIDATION''),
     (409, ConflictError, ''CONFLICT''), (413, PayloadTooLargeError, ''PAYLOAD_TOO_LARGE''), (422, ValidationError, ''VALIDATION''),
     (429, RateLimitedError, ''RATE_LIMIT''), (502, DependencyUnavailableError, ''DEPENDENCY_UNAVAILABLE''),
     (503, DependencyUnavailableError, ''DEPENDENCY_UNAVAILABLE''), (504, DependencyUnavailableError, ''DEPENDENCY_UNAVAILABLE'')]"

definition RETRY_STATUSES :: "int list" where
  "RETRY_STATUSES = [429, 502, 503, 504]"

text \<open>The message is not modelled. A body that is not JSON is null.\<close>

definition error_from_problem :: "int \<Rightarrow> json \<Rightarrow> string option \<Rightarrow> rat option \<Rightarrow> runs_error" where
  "error_from_problem http_status body request_id asked =
     (let members = (case body of JObj ms \<Rightarrow> ms | _ \<Rightarrow> []);
          (status_cls, status_code) = (case BY_STATUS http_status of Some x \<Rightarrow> x | None \<Rightarrow> (RunsError, ''INTERNAL''));
          code = (case map_of members ''code'' of Some (JStr s) \<Rightarrow> if s = [] then None else Some s | _ \<Rightarrow> None);
          cls = (case code of None \<Rightarrow> status_cls
                 | Some c \<Rightarrow> (case BY_CODE c of Some k \<Rightarrow> k | None \<Rightarrow> status_cls))
      in \<lparr>ex_class = cls,
          ex_code = (case code of Some c \<Rightarrow> c | None \<Rightarrow> status_code),
          ex_status = http_status,
          ex_retryable = (case map_of members ''retryable'' of Some (JBool b) \<Rightarrow> b | _ \<Rightarrow> http_status \<in> set RETRY_STATUSES),
          ex_request_id = (case map_of members ''request_id'' of Some (JStr s) \<Rightarrow> Some s | _ \<Rightarrow> request_id),
          ex_details = (case map_of members ''details'' of Some (JObj ms) \<Rightarrow> ms | _ \<Rightarrow> []),
          ex_retry_after = asked\<rparr>)"

section \<open>Attempts and waits\<close>

definition BACKOFF_SECONDS :: rat where
  "BACKOFF_SECONDS = 1 / 4"

definition BACKOFF_MAX_SECONDS :: rat where
  "BACKOFF_MAX_SECONDS = 5"

definition RETRY_AFTER_MAX_SECONDS :: rat where
  "RETRY_AFTER_MAX_SECONDS = 30"

text \<open>What a \<open>Retry-After\<close> header parses as: nothing readable, seconds, or the seconds from now to its
  date.\<close>

datatype asked_wait = NoWait | Delta rat | Until rat

fun retry_after_of :: "asked_wait \<Rightarrow> rat option" where
  "retry_after_of NoWait = None"
| "retry_after_of (Delta s) = Some (max 0 s)"
| "retry_after_of (Until s) = Some (max 0 s)"

text \<open>\<open>u\<close> is the draw of \<open>random.uniform\<close> as a share of the ceiling.\<close>

definition client_backoff :: "rat \<Rightarrow> nat \<Rightarrow> asked_wait \<Rightarrow> rat" where
  "client_backoff u retry header =
     (case retry_after_of header of
        Some asked \<Rightarrow> min asked RETRY_AFTER_MAX_SECONDS
      | None \<Rightarrow> u * min BACKOFF_MAX_SECONDS (BACKOFF_SECONDS * 2 ^ retry))"

record response =
  rp_status :: int
  rp_body :: json
  rp_request_id :: "string option"
  rp_retry_after :: asked_wait

datatype attempted_call = TransportFailed | HttpFailed | Responded response

definition is_error :: "response \<Rightarrow> bool" where
  "is_error x \<longleftrightarrow> 400 \<le> rp_status x \<and> rp_status x \<le> 599"

definition refusal :: "response \<Rightarrow> runs_error" where
  "refusal x = error_from_problem (rp_status x) (rp_body x) (rp_request_id x) (retry_after_of (rp_retry_after x))"

definition again :: "response \<Rightarrow> runs_error \<Rightarrow> bool" where
  "again x e \<longleftrightarrow> rp_status x \<in> set RETRY_STATUSES \<and> ex_retryable e"

definition unreachable_error :: runs_error where
  "unreachable_error = \<lparr>ex_class = DependencyUnavailableError, ex_code = ''DEPENDENCY_UNAVAILABLE'', ex_status = 0,
     ex_retryable = True, ex_request_id = None, ex_details = [], ex_retry_after = None\<rparr>"

definition failed_error :: runs_error where
  "failed_error = \<lparr>ex_class = RunsError, ex_code = ''INTERNAL'', ex_status = 0, ex_retryable = False,
     ex_request_id = None, ex_details = [], ex_retry_after = None\<rparr>"

text \<open>\<open>Transport.send\<close> from its \<open>retry\<close>-th retry on: what it returned or raised, and the waits it slept.\<close>

function send_from ::
  "(nat \<Rightarrow> attempted_call) \<Rightarrow> (nat \<Rightarrow> rat) \<Rightarrow> nat \<Rightarrow> nat \<Rightarrow> (runs_error + response) \<times> rat list" where
  "send_from tries u max_retries retry =
     (case tries retry of
        TransportFailed \<Rightarrow>
          if retry \<ge> max_retries then (Inl unreachable_error, [])
          else (let (r, waits) = send_from tries u max_retries (Suc retry)
                in (r, client_backoff (u retry) retry NoWait # waits))
      | HttpFailed \<Rightarrow> (Inl failed_error, [])
      | Responded x \<Rightarrow>
          if \<not> is_error x then (Inr x, [])
          else if \<not> again x (refusal x) \<or> retry \<ge> max_retries then (Inl (refusal x), [])
          else (let (r, waits) = send_from tries u max_retries (Suc retry)
                in (r, client_backoff (u retry) retry (rp_retry_after x) # waits)))"
  by pat_completeness auto

termination
  by (relation "measure (\<lambda>(_, _, m, k). m - k)") auto

declare send_from.simps [simp del]

definition send_call :: "(nat \<Rightarrow> attempted_call) \<Rightarrow> (nat \<Rightarrow> rat) \<Rightarrow> nat \<Rightarrow> (runs_error + response) \<times> rat list" where
  "send_call tries u max_retries = send_from tries u max_retries 0"

section \<open>Event streams\<close>

text \<open>\<open>Transport.events\<close> on the lines of the body.\<close>

fun read_events :: "string \<Rightarrow> string \<Rightarrow> string list \<Rightarrow> (string \<times> string) list" where
  "read_events name data [] = []"
| "read_events name data (line # ls) =
     (if starts_with ''event: '' line then read_events (removeprefix ''event: '' line) data ls
      else if starts_with ''data: '' line then read_events name (removeprefix ''data: '' line) ls
      else if line = [] \<and> data \<noteq> [] then (name, data) # read_events ''message'' [] ls
      else read_events name data ls)"

text \<open>The bytes of the stream the service writes (\<open>_follow\<close>'s chunks). \<open>name_of\<close> is an event's type and
  \<open>dump\<close> an entry's \<open>model_dump_json\<close>.\<close>

fun chunk_text :: "(run_event \<Rightarrow> string) \<Rightarrow> (int \<Rightarrow> run_event \<Rightarrow> string) \<Rightarrow> chunk \<Rightarrow> string" where
  "chunk_text name_of dump (EventChunk position event) = sse (name_of event) (dump position event) (Some position)"
| "chunk_text name_of dump (EndChunk st) = sse ''end'' (''{\"status\": \"'' @ status_value st @ ''\"}'') None"
| "chunk_text name_of dump KeepaliveChunk = '': keepalive'' @ [CHR 0x0A, CHR 0x0A]"

text \<open>\<open>Problem.model_dump(mode="json")\<close>, with the sentence and the structured context it carries.\<close>

definition problem_json :: "problem_body \<Rightarrow> string \<Rightarrow> (string \<times> json) list \<Rightarrow> json" where
  "problem_json p detail details =
     JObj [(''type'', JStr (pr_type p)), (''title'', JStr (pr_title p)), (''status'', JInt (pr_status p)),
           (''detail'', JStr detail), (''instance'', JStr (pr_instance p)), (''code'', JStr (code_value (pr_code p))),
           (''retryable'', JBool (pr_retryable p)),
           (''request_id'', case pr_request_id p of None \<Rightarrow> JNull | Some i \<Rightarrow> JStr i), (''details'', JObj details)]"

section \<open>The call ends\<close>

text \<open>Whether an attempt is worth another, and what the call comes to when it is the last.\<close>

fun worth_again :: "attempted_call \<Rightarrow> bool" where
  "worth_again TransportFailed = True"
| "worth_again HttpFailed = False"
| "worth_again (Responded x) = (is_error x \<and> again x (refusal x))"

fun outcome_of_call :: "attempted_call \<Rightarrow> runs_error + response" where
  "outcome_of_call TransportFailed = Inl unreachable_error"
| "outcome_of_call HttpFailed = Inl failed_error"
| "outcome_of_call (Responded x) = (if is_error x then Inl (refusal x) else Inr x)"

lemma client_backoff_bounds:
  assumes "0 \<le> u" "u \<le> 1"
  shows "0 \<le> client_backoff u retry header \<and> client_backoff u retry header \<le> 30"
proof -
  let ?c = "min BACKOFF_MAX_SECONDS (BACKOFF_SECONDS * 2 ^ retry)"
  have c: "0 \<le> ?c" "?c \<le> 5" by (simp_all add: BACKOFF_MAX_SECONDS_def BACKOFF_SECONDS_def)
  then have "0 \<le> u * ?c" "u * ?c \<le> 5" using assms mult_mono [of u 1 ?c 5] by auto
  then show ?thesis by (cases header) (auto simp: client_backoff_def RETRY_AFTER_MAX_SECONDS_def)
qed

lemma send_from_ends:
  assumes "\<forall>i. 0 \<le> u i \<and> u i \<le> 1" "retry \<le> max_retries" "send_from tries u max_retries retry = (r, waits)"
  shows "retry + length waits \<le> max_retries \<and> r = outcome_of_call (tries (retry + length waits)) \<and>
    (\<forall>i\<in>{retry..<retry + length waits}. worth_again (tries i)) \<and>
    (retry + length waits < max_retries \<longrightarrow> \<not> worth_again (tries (retry + length waits))) \<and>
    (\<forall>w\<in>set waits. 0 \<le> w \<and> w \<le> 30)"
  using assms(2,3)
proof (induction "max_retries - retry" arbitrary: retry r waits)
  case 0
  then have m: "max_retries = retry" by simp
  show ?case using 0(3) unfolding m
    by (subst (asm) send_from.simps) (auto split: attempted_call.splits if_splits)
next
  case (Suc n)
  show ?case
  proof (cases "worth_again (tries retry)")
    case False
    then show ?thesis using Suc.prems
      by (auto simp: send_from.simps [of tries u max_retries retry] split: attempted_call.splits if_splits prod.splits)
  next
    case True
    obtain r' ws where next_: "send_from tries u max_retries (Suc retry) = (r', ws)" by fastforce
    from Suc.hyps(2) have k: "n = max_retries - Suc retry" "Suc retry \<le> max_retries" by auto
    obtain w where "waits = w # ws" "r = r'" "0 \<le> w \<and> w \<le> 30"
      using Suc.prems True next_ k client_backoff_bounds assms(1)
      by (auto simp: send_from.simps [of tries u max_retries retry] split: attempted_call.splits if_splits)
    moreover have "{retry..<retry + Suc (length ws)} = insert retry {Suc retry..<Suc retry + length ws}" by auto
    ultimately show ?thesis using Suc.hyps(1) [OF k next_] True by simp
  qed
qed

text \<open>Every call ends, after at most its retries: it is tried again exactly while an attempt failed in a
  way worth another (the connection, or a 429, 502, 503 or 504 the service did not say is final) and
  retries are left, sleeps at most half a minute before each, and returns or raises what the last
  attempt came to.\<close>

lemma call_ends:
  assumes "\<forall>i. 0 \<le> u i \<and> u i \<le> 1" "send_call tries u max_retries = (r, waits)"
  shows "length waits \<le> max_retries \<and> r = outcome_of_call (tries (length waits)) \<and>
    (\<forall>i < length waits. worth_again (tries i)) \<and>
    (length waits < max_retries \<longrightarrow> \<not> worth_again (tries (length waits))) \<and>
    (\<forall>w\<in>set waits. 0 \<le> w \<and> w \<le> 30)"
  using send_from_ends [OF assms(1) _ assms(2) [unfolded send_call_def]] by simp

lemma call_ends_witness:
  "\<exists>waits. send_call (\<lambda>i. if i = 0 then TransportFailed else HttpFailed) (\<lambda>_. 1) 3 = (Inl failed_error, waits) \<and> length waits = 1"
proof -
  let ?tries = "\<lambda>i. if i = 0 then TransportFailed else HttpFailed" and ?u = "\<lambda>_. 1"
  obtain r waits where c: "send_call ?tries ?u 3 = (r, waits)" by fastforce
  note e = call_ends [OF _ c]
  have "length waits = 1"
  proof (rule ccontr)
    assume "length waits \<noteq> 1"
    then consider "length waits = 0" | "1 < length waits" by linarith
    then show False using e by cases auto
  qed
  with e c show ?thesis by auto
qed

section \<open>An error is read as the service meant it\<close>

fun class_of_code :: "error_code \<Rightarrow> error_class option" where
  "class_of_code VALIDATION = Some ValidationError"
| "class_of_code AUTHENTICATION = Some AuthenticationError"
| "class_of_code AUTHORIZATION = Some AuthorizationError"
| "class_of_code NOT_FOUND = Some NotFoundError"
| "class_of_code CONFLICT = Some ConflictError"
| "class_of_code LEASE_LOST = Some LeaseLostError"
| "class_of_code PAYLOAD_TOO_LARGE = Some PayloadTooLargeError"
| "class_of_code RATE_LIMIT = Some RateLimitedError"
| "class_of_code DEPENDENCY_UNAVAILABLE = Some DependencyUnavailableError"
| "class_of_code INTERNAL = None"

lemma BY_CODE_value [simp]: "BY_CODE (code_value c) = class_of_code c"
  by (cases c) (simp_all add: BY_CODE_def)

lemma code_value_nonempty [simp]: "code_value c \<noteq> []"
  by (cases c) simp_all

lemma BY_STATUS_not_lease_lost: "BY_STATUS n = Some (k, c) \<Longrightarrow> k \<noteq> LeaseLostError"
  by (auto simp: BY_STATUS_def split: if_splits)

lemma class_of_code_lease_lost [simp]: "class_of_code c = Some LeaseLostError \<longleftrightarrow> c = LEASE_LOST"
  by (cases c) simp_all

lemma problem_read:
  assumes "answer_failure rq f = (p, hs)"
    and "x = \<lparr>rp_status = pr_status p, rp_body = problem_json p detail details, rp_request_id = map_of hs HEADER_REQUEST_ID, rp_retry_after = w\<rparr>"
  shows "ex_code (refusal x) = code_value (pr_code p) \<and> ex_status (refusal x) = pr_status p \<and>
    ex_details (refusal x) = details \<and> ex_retryable (refusal x) = pr_retryable p \<and>
    (\<forall>i. rq_request_id rq = Some i \<longrightarrow> ex_request_id (refusal x) = Some i) \<and>
    (ex_class (refusal x) = LeaseLostError \<longleftrightarrow> pr_code p = LEASE_LOST) \<and>
    (\<forall>k. class_of_code (pr_code p) = Some k \<longrightarrow> ex_class (refusal x) = k) \<and>
    (again x (refusal x) \<longleftrightarrow> pr_retryable p)"
proof -
  obtain code st retryable wait where a: "answer_failure rq f = problem_answer rq code st retryable (carried f) wait"
    and r: "retryable \<longrightarrow> st = 429 \<or> st = 503" using answer_failure_built by blast
  have p: "p = build_problem code st retryable (rq_path rq) (rq_request_id rq)"
    using assms(1) by (simp add: a problem_answer_def Let_def)
  have b: "pr_code p = code" "pr_status p = st" "pr_retryable p = retryable" "pr_request_id p = rq_request_id rq"
    by (simp_all add: p build_problem_def)
  let ?status_class = "case BY_STATUS st of Some y \<Rightarrow> y | None \<Rightarrow> (RunsError, ''INTERNAL'')"
  have s: "fst ?status_class \<noteq> LeaseLostError"
    using BY_STATUS_not_lease_lost [of st] by (auto split: option.splits)
  have e: "refusal x = \<lparr>ex_class = (case class_of_code code of Some k \<Rightarrow> k | None \<Rightarrow> fst ?status_class),
      ex_code = code_value code, ex_status = st, ex_retryable = retryable,
      ex_request_id = (case rq_request_id rq of Some i \<Rightarrow> Some i | None \<Rightarrow> map_of hs HEADER_REQUEST_ID),
      ex_details = details, ex_retry_after = retry_after_of w\<rparr>"
    by (simp add: assms(2) refusal_def error_from_problem_def problem_json_def b Let_def split_beta split: option.splits)
  have "(case class_of_code code of Some k \<Rightarrow> k | None \<Rightarrow> fst ?status_class) = LeaseLostError \<longleftrightarrow> code = LEASE_LOST"
    using s class_of_code_lease_lost [of code] by (cases "class_of_code code") auto
  moreover have "rp_status x = st" by (simp add: assms(2) b)
  then have "again x (refusal x) \<longleftrightarrow> retryable" using r by (auto simp: again_def e RETRY_STATUSES_def)
  ultimately show ?thesis by (simp add: e b)
qed

text \<open>C28. A client reads back what the service said of a failure, whatever the failure: its code, status,
  details, request id and whether it may be repeated survive the trip, a lost lease is raised as one
  and nothing else is, and the client tries a call again exactly when the service said it may.\<close>

theorem client_reads_problem:
  assumes "answer_failure rq f = (p, hs)"
    and "x = \<lparr>rp_status = pr_status p, rp_body = problem_json p detail details, rp_request_id = map_of hs HEADER_REQUEST_ID, rp_retry_after = w\<rparr>"
  shows "ex_code (refusal x) = code_value (pr_code p) \<and> ex_status (refusal x) = pr_status p \<and>
    ex_details (refusal x) = details \<and> ex_retryable (refusal x) = pr_retryable p \<and>
    (\<forall>i. rq_request_id rq = Some i \<longrightarrow> ex_request_id (refusal x) = Some i) \<and>
    (ex_class (refusal x) = LeaseLostError \<longleftrightarrow> pr_code p = LEASE_LOST) \<and>
    (\<forall>k. class_of_code (pr_code p) = Some k \<longrightarrow> ex_class (refusal x) = k) \<and>
    (again x (refusal x) \<longleftrightarrow> pr_retryable p)"
  using problem_read [OF assms] .

theorem client_reads_problem_witness:
  "\<exists>x. ex_class (refusal x) = LeaseLostError \<and> \<not> again x (refusal x)"
proof -
  let ?rq = "\<lparr>rq_path = ''/v1/runs/r/finish'', rq_request_id = None\<rparr>"
  obtain p hs where a: "answer_failure ?rq (ServiceFailure LeaseLost []) = (p, hs)" by fastforce
  then have "pr_code p = LEASE_LOST" "\<not> pr_retryable p"
    by (auto simp: service_answer_def problem_answer_def build_problem_def Let_def)
  with client_reads_problem [OF a refl] show ?thesis by blast
qed

section \<open>A stream is read as it was written\<close>

text \<open>A text \<open>str.splitlines\<close> leaves whole, as UTF-8: no line feed, vertical tab, form feed, carriage
  return, file, group or record separator, U+0085, U+2028 or U+2029.\<close>

fun one_line :: "string \<Rightarrow> bool" where
  "one_line [] = True"
| "one_line (c # s) \<longleftrightarrow> of_char c \<notin> set [10, 11, 12, 13, 28, 29, 30 :: nat] \<and>
     take 2 (c # s) \<noteq> [CHR 0xC2, CHR 0x85] \<and> take 3 (c # s) \<notin> set [[CHR 0xE2, CHR 0x80, CHR 0xA8], [CHR 0xE2, CHR 0x80, CHR 0xA9]] \<and> one_line s"

lemma one_line_digits: "list_all is_digit s \<Longrightarrow> one_line s"
  by (induction s) (auto simp: is_digit_def)

lemma one_line_show_int: "one_line (show_int n)"
  using one_line_digits show_nat_digits by (auto simp: show_int_def)

lemma one_line_prefixes [simp]:
  "one_line (''id: '' @ s) = one_line s" "one_line (''event: '' @ s) = one_line s" "one_line (''data: '' @ s) = one_line s"
  by simp_all

fun events_of_chunk :: "(run_event \<Rightarrow> string) \<Rightarrow> (int \<Rightarrow> run_event \<Rightarrow> string) \<Rightarrow> chunk \<Rightarrow> (string \<times> string) list" where
  "events_of_chunk name_of dump (EventChunk position event) = [(name_of event, dump position event)]"
| "events_of_chunk name_of dump (EndChunk st) = [(''end'', ''{\"status\": \"'' @ status_value st @ ''\"}'')]"
| "events_of_chunk name_of dump KeepaliveChunk = []"

lemma one_line_status: "one_line (''data: {\"status\": \"'' @ status_value st @ ''\"}'')"
  by (cases st) simp_all

text \<open>The laws of a reader of lines that the round trip needs.\<close>

definition reads_lines :: "(string \<Rightarrow> string list) \<Rightarrow> bool" where
  "reads_lines lines \<longleftrightarrow> lines [] = [] \<and> (\<forall>l s. one_line l \<longrightarrow> lines (l @ CHR 0x0A # s) = l # lines s)"

lemma reads_lines_step: "reads_lines lines \<Longrightarrow> one_line l \<Longrightarrow> lines (l @ CHR 0x0A # s) = l # lines s"
  by (simp add: reads_lines_def)

lemma sse_read:
  assumes "reads_lines lines" "one_line name" "one_line data" "data \<noteq> []"
  shows "read_events ''message'' [] (lines (sse name data position @ s)) = (name, data) # read_events ''message'' [] (lines s)"
proof -
  note step = reads_lines_step [OF assms(1)]
  let ?rest = "''event: '' @ name @ CHR 0x0A # ''data: '' @ data @ CHR 0x0A # [] @ CHR 0x0A # s"
  have "lines ?rest = (''event: '' @ name) # (''data: '' @ data) # [] # lines s"
    using step [of "''event: '' @ name"] step [of "''data: '' @ data"] step [of "[]"] assms(2,3) by simp
  moreover have "lines (''id: '' @ show_int p @ CHR 0x0A # ?rest) = (''id: '' @ show_int p) # lines ?rest" for p
    using step [of "''id: '' @ show_int p" ?rest] one_line_show_int by simp
  moreover have "sse name data position @ s = (case position of None \<Rightarrow> ?rest | Some p \<Rightarrow> ''id: '' @ show_int p @ CHR 0x0A # ?rest)"
    by (simp add: sse_def split: option.split)
  ultimately have "lines (sse name data position @ s) =
      (case position of None \<Rightarrow> [] | Some p \<Rightarrow> [''id: '' @ show_int p]) @ (''event: '' @ name) # (''data: '' @ data) # [] # lines s"
    by (simp only: split: option.split) simp
  then show ?thesis using assms(4) by (cases position) (simp_all add: starts_with_def removeprefix_def)
qed

lemma keepalive_read:
  assumes "reads_lines lines"
  shows "read_events ''message'' [] (lines ('': keepalive'' @ [CHR 0x0A, CHR 0x0A] @ s)) = read_events ''message'' [] (lines s)"
  using reads_lines_step [OF assms, of "'': keepalive''" "CHR 0x0A # s"] reads_lines_step [OF assms, of "[]" s]
  by (simp add: starts_with_def)

lemma stream_read:
  assumes "reads_lines lines"
    and "\<forall>position event. EventChunk position event \<in> set chunks \<longrightarrow>
      one_line (name_of event) \<and> one_line (dump position event) \<and> dump position event \<noteq> []"
  shows "read_events ''message'' [] (lines (concat (map (chunk_text name_of dump) chunks))) =
    concat (map (events_of_chunk name_of dump) chunks)"
  using assms(2)
proof (induction chunks)
  case Nil
  then show ?case using assms(1) by (simp add: reads_lines_def)
next
  case (Cons c cs)
  then have ih: "read_events ''message'' [] (lines (concat (map (chunk_text name_of dump) cs))) = concat (map (events_of_chunk name_of dump) cs)"
    by simp
  have st: "one_line (''{\"status\": \"'' @ status_value st @ ''\"}'')" for st using one_line_status [of st] by simp
  show ?case
  proof (cases c)
    case (EventChunk position event)
    then show ?thesis using Cons.prems sse_read [OF assms(1)] by (simp add: ih)
  next
    case (EndChunk st)
    then show ?thesis using sse_read [OF assms(1) _ st] by (simp add: ih)
  next
    case KeepaliveChunk
    then show ?thesis using keepalive_read [OF assms(1)] by (simp add: ih)
  qed
qed

text \<open>What the client reads of a stream is what the service wrote to it, event by event, for any way of
  splitting the body into lines that ends a line at a line feed and nowhere inside a text with no
  line boundary: positions and keepalives are skipped and no event is merged, split or lost, provided
  each entry's JSON and its type are such a text.\<close>

lemma stream_roundtrip:
  assumes "reads_lines lines"
    and "\<forall>position event. EventChunk position event \<in> set chunks \<longrightarrow>
      one_line (name_of event) \<and> one_line (dump position event) \<and> dump position event \<noteq> []"
  shows "read_events ''message'' [] (lines (concat (map (chunk_text name_of dump) chunks))) =
    concat (map (events_of_chunk name_of dump) chunks)"
  using stream_read [OF assms] .

text \<open>Why the JSON must be one line: the client keeps one \<open>data\<close> line an event, so where the reader of lines
  splits an entry (a U+2028 or U+0085 in a string, which JSON leaves as it is) what follows is dropped.\<close>

lemma split_data_truncated:
  assumes "a \<noteq> []" "b \<noteq> []" "\<not> starts_with ''event: '' b" "\<not> starts_with ''data: '' b"
  shows "read_events name data [''data: '' @ a, b, []] = [(name, a)]"
  using assms by (simp add: starts_with_def removeprefix_def)

text \<open>Lines that end at a line feed and nowhere else.\<close>

fun lf_lines :: "string \<Rightarrow> string \<Rightarrow> string list" where
  "lf_lines line [] = (if line = [] then [] else [line])"
| "lf_lines line (c # s) = (if c = CHR 0x0A then line # lf_lines [] s else lf_lines (line @ [c]) s)"

lemma lf_lines_step: "one_line l \<Longrightarrow> lf_lines k (l @ CHR 0x0A # s) = (k @ l) # lf_lines [] s"
  by (induction l arbitrary: k) auto

lemma stream_roundtrip_witness:
  "read_events ''message'' [] (lf_lines [] (chunk_text (\<lambda>_. ''token'') (\<lambda>_ _. ''{}'') (EventChunk 7 (demo_event 1)) @
     chunk_text (\<lambda>_. ''token'') (\<lambda>_ _. ''{}'') KeepaliveChunk)) = [(''token'', ''{}'')]"
proof -
  have "reads_lines (lf_lines [])" using lf_lines_step by (simp add: reads_lines_def)
  from stream_roundtrip [OF this, of "[EventChunk 7 (demo_event 1), KeepaliveChunk]" "\<lambda>_. ''token''" "\<lambda>_ _. ''{}''"]
  show ?thesis by (simp del: chunk_text.simps)
qed

end
