(* ===== verification/Worker.thy ===== *)
theory Worker
  imports Run_Queue "HOL-Library.AList"
begin

text \<open>
  The SDK's \<open>worker.py\<close>: the loop that claims runs, the tasks that work them and what stops them. The
  event loop runs one piece of code from an \<open>await\<close> to the next, so the model is a transition system:
  an action is one such piece, with what the world put into it (an answer of the service, how a handler
  ended, the monotonic clock, in seconds), and \<open>perform\<close> is \<open>None\<close> where the code cannot be there. An
  attempt is one task of \<open>_execute\<close>, numbered in the order of the claims; handlers are the caller's and
  may end in any way, at any time, and may take their time to stop when they are cancelled.
\<close>

section \<open>Jobs\<close>

text \<open>A job's record and \<open>_renewed\<close>: the latest lease and when it came.\<close>

record job =
  jb_record :: run_record
  jb_lease :: "lease option"
  jb_at :: rat

definition job_remaining :: "job \<Rightarrow> rat \<Rightarrow> rat option" where
  "job_remaining j clock =
     (case jb_lease j of
        None \<Rightarrow> None
      | Some l \<Rightarrow> (case remaining_seconds l of None \<Rightarrow> None | Some s \<Rightarrow> Some (max 0 (s - (clock - jb_at j)))))"

definition job_cancel_requested :: "job \<Rightarrow> bool" where
  "job_cancel_requested j \<longleftrightarrow> (case jb_lease j of None \<Rightarrow> False | Some l \<Rightarrow> cancel_requested l)"

definition renew :: "lease \<Rightarrow> rat \<Rightarrow> job \<Rightarrow> job" where
  "renew l clock j = j\<lparr>jb_lease := Some l, jb_at := clock\<rparr>"

definition WORKING_TIME_GRACE_SECONDS :: rat where
  "WORKING_TIME_GRACE_SECONDS = 1"

definition OUT_OF_TIME :: agent_error where
  "OUT_OF_TIME = \<lparr>ae_code = ''run_timeout'', ae_category = Timeout,
     ae_message = Text ''the run used up its working time: the worker stopped it'', ae_retryable = False,
     ae_source = Some ''agent-runs'', ae_rest = JNull\<rparr>"

section \<open>The state\<close>

text \<open>How a handler ended: an exception is what \<open>AgentError.of\<close> makes of it.\<close>

datatype outcome = Returned | LostLease | Raised agent_error | WasCancelled

text \<open>The handler's future; \<open>Stopping\<close> is a cancellation that was asked for and not yet answered.\<close>

datatype execution = NotStarted | Going | Stopping | Done outcome

text \<open>Where a task is: created, waiting for an earlier attempt of its run to stop, awaiting its handler,
  awaiting the answer to the ending it sent, finished.\<close>

datatype phase = Created | Waiting nat | Working | Sending | Finished

text \<open>A cancellation thrown into the task itself after its handler had ended: by the end of the working
  time, or by the worker's own cancellation.\<close>

datatype thrown = NotThrown | TimeThrown | TornThrown

record attempt =
  at_claimed :: "run_record \<times> lease"
  at_job :: job
  at_execution :: execution
  at_phase :: phase
  at_until :: "rat option"
  at_expired :: bool
  at_thrown :: thrown
  at_torn :: bool
  at_beating :: bool

definition at_run :: "attempt \<Rightarrow> string" where
  "at_run a = rec_run_id (fst (at_claimed a))"

datatype loop_at = AtSlot | Claiming | Idling | Winding | Releasing "nat list" | Ended

datatype call = Ends nat string run_status "agent_error option" | LetsGo nat string

record worker =
  wk_id :: string
  wk_agents :: "string list"
  wk_concurrency :: nat
  wk_lease_seconds :: int
  wk_stopping :: bool
  wk_hurry :: bool
  wk_slots :: nat
  wk_loop :: loop_at
  wk_idle :: nat
  wk_held :: "(string \<times> nat) list"
  wk_attempts :: "attempt list"
  wk_calls :: "call list"

text \<open>\<open>Worker.__init__\<close>: a \<open>ValueError\<close> is \<open>None\<close>.\<close>

definition MAX_DEFAULT_CONCURRENCY :: int where
  "MAX_DEFAULT_CONCURRENCY = 8"

definition default_concurrency :: "int option \<Rightarrow> int" where
  "default_concurrency cpus =
     max 1 (min MAX_DEFAULT_CONCURRENCY (case cpus of None \<Rightarrow> 1 | Some n \<Rightarrow> if n = 0 then 1 else n))"

definition new_worker :: "string list \<Rightarrow> int option \<Rightarrow> int option \<Rightarrow> int \<Rightarrow> string \<Rightarrow> worker option" where
  "new_worker agent_ids concurrency cpus lease_secs worker_id =
     (let chosen = (case concurrency of None \<Rightarrow> default_concurrency cpus | Some n \<Rightarrow> n)
      in if agent_ids = [] \<or> chosen < 1 then None
         else Some \<lparr>wk_id = worker_id, wk_agents = agent_ids, wk_concurrency = nat chosen, wk_lease_seconds = lease_secs,
           wk_stopping = False, wk_hurry = False, wk_slots = nat chosen, wk_loop = AtSlot, wk_idle = 0,
           wk_held = [], wk_attempts = [], wk_calls = []\<rparr>)"

section \<open>The pieces\<close>

text \<open>\<open>Future.cancel\<close>.\<close>

fun cancelled :: "execution \<Rightarrow> execution" where
  "cancelled Going = Stopping"
| "cancelled x = x"

definition on_attempt :: "nat \<Rightarrow> (attempt \<Rightarrow> attempt) \<Rightarrow> worker \<Rightarrow> worker" where
  "on_attempt i f w = w\<lparr>wk_attempts := (wk_attempts w)[i := f (wk_attempts w ! i)]\<rparr>"

definition cancel_handler :: "nat \<Rightarrow> worker \<Rightarrow> worker" where
  "cancel_handler i = on_attempt i (\<lambda>a. a\<lparr>at_execution := cancelled (at_execution a)\<rparr>)"

definition stop :: "worker \<Rightarrow> worker" where
  "stop w = w\<lparr>wk_hurry := wk_hurry w \<or> wk_stopping w, wk_stopping := True\<rparr>"

text \<open>\<open>_slot\<close>: a slot, or \<open>None\<close> while it waits for one. A slot that frees as the stop comes is given
  back.\<close>

definition slot :: "worker \<Rightarrow> worker option" where
  "slot w =
     (if wk_stopping w then Some (w\<lparr>wk_loop := Winding\<rparr>)
      else if wk_slots w > 0 then Some (w\<lparr>wk_slots := wk_slots w - 1, wk_loop := Claiming\<rparr>)
      else None)"

definition new_attempt :: "run_record \<times> lease \<Rightarrow> attempt" where
  "new_attempt c = \<lparr>at_claimed = c, at_job = \<lparr>jb_record = fst c, jb_lease = None, jb_at = 0\<rparr>, at_execution = NotStarted,
     at_phase = Created, at_until = None, at_expired = False, at_thrown = NotThrown, at_torn = False, at_beating = False\<rparr>"

text \<open>What \<open>run\<close> does with the claim's answer; \<open>None\<close> when nothing was queued or the claim failed.\<close>

definition claim_answered :: "(run_record \<times> lease) option \<Rightarrow> worker \<Rightarrow> worker" where
  "claim_answered answer w =
     (case answer of
        None \<Rightarrow> w\<lparr>wk_slots := wk_slots w + 1, wk_idle := wk_idle w + 1, wk_loop := Idling\<rparr>
      | Some c \<Rightarrow> w\<lparr>wk_idle := 0, wk_attempts := wk_attempts w @ [new_attempt c], wk_loop := AtSlot\<rparr>)"

definition IDLE_SECONDS :: rat where
  "IDLE_SECONDS = 1 / 2"

definition IDLE_MAX_SECONDS :: rat where
  "IDLE_MAX_SECONDS = 10"

text \<open>The pause of \<open>_idle\<close>; \<open>u\<close> is the draw as a share of half the ceiling.\<close>

definition idle_delay :: "nat \<Rightarrow> rat \<Rightarrow> rat" where
  "idle_delay rounds u =
     (let ceiling = min IDLE_MAX_SECONDS (IDLE_SECONDS * 2 ^ min (rounds - 1) 16)
      in ceiling / 2 + u * (ceiling / 2))"

text \<open>\<open>_execute\<close> once nothing of its run works any more: the handler starts, is held, and its lease is
  renewed as the claim gave it.\<close>

definition start_handler :: "nat \<Rightarrow> rat \<Rightarrow> worker \<Rightarrow> worker" where
  "start_handler i clock w =
     (let a = wk_attempts w ! i; j = renew (snd (at_claimed a)) clock (at_job a)
      in on_attempt i (\<lambda>a. a\<lparr>at_job := j, at_execution := Going, at_phase := Working, at_beating := True,
           at_until := (case job_remaining j clock of None \<Rightarrow> None | Some s \<Rightarrow> Some (clock + (s + WORKING_TIME_GRACE_SECONDS)))\<rparr>)
           (w\<lparr>wk_held := AList.update (at_run a) i (wk_held w)\<rparr>))"

text \<open>\<open>_execute\<close> up to its first \<open>await\<close>.\<close>

definition begin_attempt :: "nat \<Rightarrow> rat \<Rightarrow> worker \<Rightarrow> worker" where
  "begin_attempt i clock w =
     (case map_of (wk_held w) (at_run (wk_attempts w ! i)) of
        Some j \<Rightarrow> on_attempt i (\<lambda>a. a\<lparr>at_phase := Waiting j\<rparr>) (cancel_handler j w)
      | None \<Rightarrow> start_handler i clock w)"

text \<open>What the \<open>except\<close> clauses of \<open>_execute\<close> end the run as, and nothing when they write nothing.
  \<open>asyncio.timeout\<close> turns the cancellation of an expired working time into \<open>TimeoutError\<close>, unless the
  task was cancelled besides.\<close>

definition ending :: "attempt \<Rightarrow> (run_status \<times> agent_error option) option" where
  "ending a =
     (if at_thrown a = TimeThrown \<and> \<not> at_torn a then Some (TIMEOUT, Some OUT_OF_TIME)
      else if at_thrown a \<noteq> NotThrown \<and> at_execution a \<noteq> Done WasCancelled then None
      else case at_execution a of
        Done WasCancelled \<Rightarrow>
          if at_expired a \<and> \<not> at_torn a then Some (TIMEOUT, Some OUT_OF_TIME)
          else if job_cancel_requested (at_job a) then Some (CANCELLED, None) else None
      | Done (Raised e) \<Rightarrow> if at_expired a then Some (TIMEOUT, Some OUT_OF_TIME) else Some (ERROR, Some e)
      | _ \<Rightarrow> None)"

text \<open>The \<open>finally\<close> clause, and the slot given back as the task ends.\<close>

definition finish_attempt :: "nat \<Rightarrow> worker \<Rightarrow> worker" where
  "finish_attempt i w =
     (let w = on_attempt i (\<lambda>a. a\<lparr>at_phase := Finished, at_beating := False\<rparr>) w
      in w\<lparr>wk_held := filter (\<lambda>(run, j). j \<noteq> i) (wk_held w), wk_slots := wk_slots w + 1\<rparr>)"

definition react :: "nat \<Rightarrow> worker \<Rightarrow> worker" where
  "react i w =
     (case ending (wk_attempts w ! i) of
        None \<Rightarrow> finish_attempt i w
      | Some (st, e) \<Rightarrow>
          on_attempt i (\<lambda>a. a\<lparr>at_phase := Sending\<rparr>)
            (w\<lparr>wk_calls := wk_calls w @ [Ends i (at_run (wk_attempts w ! i)) st e]\<rparr>))"

text \<open>The answer to a heartbeat.\<close>

datatype beat_answer = Renewed lease | BeatLost | BeatFailed

definition stop_beating :: "nat \<Rightarrow> worker \<Rightarrow> worker" where
  "stop_beating i w = on_attempt i (\<lambda>a. a\<lparr>at_beating := False\<rparr>) (cancel_handler i w)"

definition beat_answered :: "nat \<Rightarrow> beat_answer \<Rightarrow> rat \<Rightarrow> worker \<Rightarrow> worker" where
  "beat_answered i answer clock w =
     (case answer of
        BeatLost \<Rightarrow> stop_beating i w
      | BeatFailed \<Rightarrow>
          if clock - jb_at (at_job (wk_attempts w ! i)) \<ge> of_int (wk_lease_seconds w) then stop_beating i w else w
      | Renewed l \<Rightarrow>
          (let w = on_attempt i (\<lambda>a. a\<lparr>at_job := renew l clock (at_job a)\<rparr>) w
           in if cancel_requested l then stop_beating i w else w))"

text \<open>The end of the working time and its grace (\<open>asyncio.timeout\<close>).\<close>

definition expire :: "nat \<Rightarrow> worker \<Rightarrow> worker" where
  "expire i = on_attempt i (\<lambda>a.
     case at_execution a of
       Done _ \<Rightarrow> a\<lparr>at_expired := True, at_thrown := (if at_thrown a = NotThrown then TimeThrown else at_thrown a)\<rparr>
     | x \<Rightarrow> a\<lparr>at_expired := True, at_execution := cancelled x\<rparr>)"

definition unfinished :: "worker \<Rightarrow> attempt list" where
  "unfinished w = filter (\<lambda>a. at_phase a \<noteq> Finished) (wk_attempts w)"

text \<open>\<open>_wind_down\<close> after its wait: the handlers held are cancelled, and released once every task ended.\<close>

definition release_held :: "worker \<Rightarrow> worker" where
  "release_held w = (let js = map snd (wk_held w) in (fold cancel_handler js w)\<lparr>wk_loop := Releasing js\<rparr>)"

definition send_releases :: "nat list \<Rightarrow> worker \<Rightarrow> worker" where
  "send_releases js w = w\<lparr>wk_calls := wk_calls w @ map (\<lambda>j. LetsGo j (at_run (wk_attempts w ! j))) js, wk_loop := Ended\<rparr>"

text \<open>\<open>run\<close> cancelled: every task that has not ended is.\<close>

definition tear :: "attempt \<Rightarrow> attempt" where
  "tear a =
     (if at_phase a = Finished then a
      else if at_phase a = Working then
        (case at_execution a of
           Done _ \<Rightarrow> a\<lparr>at_torn := True, at_thrown := TornThrown\<rparr>
         | x \<Rightarrow> a\<lparr>at_torn := True, at_execution := cancelled x\<rparr>)
      else a\<lparr>at_torn := True\<rparr>)"

definition tear_down :: "worker \<Rightarrow> worker" where
  "tear_down w = w\<lparr>wk_attempts := map tear (wk_attempts w), wk_loop := Ended\<rparr>"

section \<open>Actions\<close>

datatype action =
  Stops
| TakesSlot
| ClaimAnswered "(run_record \<times> lease) option"
| IdleOver
| Begins nat rat
| Proceeds nat rat
| HandlerEnds nat outcome
| Checkpoints nat lease rat
| Beats nat beat_answer rat
| Expires nat rat
| Reacts nat
| EndAnswered nat
| WindsDown bool  \<comment> \<open>the grace is over\<close>
| SendsReleases
| TornDown
| TornOut nat

definition attempt_is :: "(attempt \<Rightarrow> bool) \<Rightarrow> nat \<Rightarrow> worker \<Rightarrow> bool" where
  "attempt_is P i w \<longleftrightarrow> i < length (wk_attempts w) \<and> P (wk_attempts w ! i)"

definition handler_alive :: "attempt \<Rightarrow> bool" where
  "handler_alive a \<longleftrightarrow> at_execution a = Going \<or> at_execution a = Stopping"

definition ended_handler :: "attempt \<Rightarrow> bool" where
  ended_handler_case: "ended_handler a \<longleftrightarrow> (case at_execution a of Done _ \<Rightarrow> True | _ \<Rightarrow> False)"

lemma ended_handler_def: "ended_handler a \<longleftrightarrow> (\<exists>x. at_execution a = Done x)"
  by (simp add: ended_handler_case split: execution.split)

definition past_until :: "rat \<Rightarrow> attempt \<Rightarrow> bool" where
  "past_until clock a \<longleftrightarrow> (case at_until a of None \<Rightarrow> False | Some t \<Rightarrow> t \<le> clock)"

text \<open>Where a task can be cancelled before or after its handler: at its first \<open>await\<close> or at the answer.\<close>

definition out_of_handler :: "attempt \<Rightarrow> bool" where
  "out_of_handler a \<longleftrightarrow> (case at_phase a of Working \<Rightarrow> False | Finished \<Rightarrow> False | _ \<Rightarrow> True)"

definition guarded :: "bool \<Rightarrow> worker \<Rightarrow> worker option" where
  "guarded b w = (if b then Some w else None)"

fun perform :: "action \<Rightarrow> worker \<Rightarrow> worker option" where
  "perform Stops w = Some (stop w)"
| "perform TakesSlot w = (if wk_loop w = AtSlot then slot w else None)"
| "perform (ClaimAnswered answer) w = guarded (wk_loop w = Claiming) (claim_answered answer w)"
| "perform IdleOver w = guarded (wk_loop w = Idling) (w\<lparr>wk_loop := AtSlot\<rparr>)"
| "perform (Begins i clock) w = guarded (attempt_is (\<lambda>a. at_phase a = Created \<and> \<not> at_torn a) i w) (begin_attempt i clock w)"
| "perform (Proceeds i clock) w =
     guarded (attempt_is (\<lambda>a. \<not> at_torn a \<and> (case at_phase a of Waiting j \<Rightarrow> ended_handler (wk_attempts w ! j) | _ \<Rightarrow> False)) i w)
       (start_handler i clock w)"
| "perform (HandlerEnds i x) w = guarded (attempt_is handler_alive i w) (on_attempt i (\<lambda>a. a\<lparr>at_execution := Done x\<rparr>) w)"
| "perform (Checkpoints i l clock) w =
     guarded (attempt_is handler_alive i w) (on_attempt i (\<lambda>a. a\<lparr>at_job := renew l clock (at_job a)\<rparr>) w)"
| "perform (Beats i answer clock) w = guarded (attempt_is at_beating i w) (beat_answered i answer clock w)"
| "perform (Expires i clock) w =
     guarded (attempt_is (\<lambda>a. at_phase a = Working \<and> \<not> at_expired a \<and> past_until clock a) i w) (expire i w)"
| "perform (Reacts i) w = guarded (attempt_is (\<lambda>a. at_phase a = Working \<and> ended_handler a) i w) (react i w)"
| "perform (EndAnswered i) w = guarded (attempt_is (\<lambda>a. at_phase a = Sending) i w) (finish_attempt i w)"
| "perform (WindsDown over) w = guarded (wk_loop w = Winding \<and> (unfinished w = [] \<or> wk_hurry w \<or> over)) (release_held w)"
| "perform SendsReleases w =
     (case wk_loop w of Releasing js \<Rightarrow> guarded (unfinished w = []) (send_releases js w) | _ \<Rightarrow> None)"
| "perform TornDown w = guarded (wk_loop w \<noteq> Ended) (tear_down w)"
| "perform (TornOut i) w =
     guarded (attempt_is (\<lambda>a. at_torn a \<and> out_of_handler a) i w) (finish_attempt i w)"

fun performs :: "action list \<Rightarrow> worker \<Rightarrow> worker option" where
  "performs [] w = Some w"
| "performs (a # as) w = (case perform a w of None \<Rightarrow> None | Some w' \<Rightarrow> performs as w')"

section \<open>Well-formed workers\<close>

definition held_phase :: "attempt \<Rightarrow> bool" where
  "held_phase a \<longleftrightarrow> at_phase a = Working \<or> at_phase a = Sending"

definition attempt_ok :: "attempt \<Rightarrow> bool" where
  "attempt_ok a \<longleftrightarrow>
     (case at_phase a of
        Created \<Rightarrow> at_execution a = NotStarted
      | Waiting _ \<Rightarrow> at_execution a = NotStarted
      | Working \<Rightarrow> at_execution a \<noteq> NotStarted
      | Sending \<Rightarrow> ended_handler a
      | Finished \<Rightarrow> \<not> handler_alive a) \<and>
     (at_beating a \<longrightarrow> held_phase a)"

definition worker_ok :: "worker \<Rightarrow> bool" where
  "worker_ok w \<longleftrightarrow>
     (\<forall>i < length (wk_attempts w). attempt_ok (wk_attempts w ! i)) \<and>
     wk_slots w + length (unfinished w) + (if wk_loop w = Claiming then 1 else 0) \<le> wk_concurrency w \<and>
     (\<forall>(run, i)\<in>set (wk_held w). attempt_is (\<lambda>a. held_phase a \<and> at_run a = run) i w) \<and>
     distinct (map fst (wk_held w))"

lemma on_attempt_simps [simp]:
  "wk_attempts (on_attempt i f w) = (wk_attempts w)[i := f (wk_attempts w ! i)]"
  "wk_held (on_attempt i f w) = wk_held w" "wk_slots (on_attempt i f w) = wk_slots w" "wk_loop (on_attempt i f w) = wk_loop w"
  "wk_concurrency (on_attempt i f w) = wk_concurrency w" "wk_calls (on_attempt i f w) = wk_calls w"
  "wk_stopping (on_attempt i f w) = wk_stopping w" "wk_hurry (on_attempt i f w) = wk_hurry w"
  "wk_lease_seconds (on_attempt i f w) = wk_lease_seconds w"
  by (simp_all add: on_attempt_def)

lemma length_filter_update:
  assumes "i < length xs"
  shows "length (filter P (xs[i := y])) + (if P (xs ! i) then 1 else 0) = length (filter P xs) + (if P y then 1 else 0)"
  using assms
proof (induction xs arbitrary: i)
  case (Cons x xs)
  then show ?case by (cases i) auto
qed simp

lemma held_phase_not_finished: "held_phase a \<Longrightarrow> at_phase a \<noteq> Finished"
  by (auto simp: held_phase_def)

text \<open>A change of one attempt that neither ends it nor takes it from where it is held.\<close>

lemma worker_ok_on_attempt:
  assumes "worker_ok w" "i < length (wk_attempts w)" "attempt_ok (f (wk_attempts w ! i))"
    and "at_run (f (wk_attempts w ! i)) = at_run (wk_attempts w ! i)"
    and "at_phase (f (wk_attempts w ! i)) \<noteq> Finished" "at_phase (wk_attempts w ! i) \<noteq> Finished"
    and "held_phase (wk_attempts w ! i) \<Longrightarrow> held_phase (f (wk_attempts w ! i))"
  shows "worker_ok (on_attempt i f w)"
proof -
  let ?y = "f (wk_attempts w ! i)"
  have "length (unfinished (on_attempt i f w)) = length (unfinished w)"
    using length_filter_update [OF assms(2), of "\<lambda>a. at_phase a \<noteq> Finished" ?y] assms(5,6)
    by (simp add: unfinished_def)
  moreover have "attempt_is (\<lambda>a. held_phase a \<and> at_run a = run) j (on_attempt i f w)"
    if "attempt_is (\<lambda>a. held_phase a \<and> at_run a = run) j w" for run j
    using that assms(4,7) by (cases "j = i") (auto simp: attempt_is_def)
  moreover have "attempt_ok ((wk_attempts w)[i := ?y] ! j)" if "j < length (wk_attempts w)" for j
    using that assms(1-3) by (cases "j = i") (auto simp: worker_ok_def)
  ultimately show ?thesis using assms(1) unfolding worker_ok_def by (auto split: prod.splits)
qed

text \<open>The same for a change of a finished attempt, or of its execution only.\<close>

lemma cancelled_cases [simp]:
  "cancelled x = NotStarted \<longleftrightarrow> x = NotStarted" "cancelled x = Done y \<longleftrightarrow> x = Done y" "cancelled x \<noteq> Going"
  "cancelled x = Stopping \<longleftrightarrow> x = Going \<or> x = Stopping"
  by (cases x; simp)+

lemma cancel_attempt_simps [simp]:
  "ended_handler (a\<lparr>at_execution := cancelled x\<rparr>) = (\<exists>y. x = Done y)" "handler_alive (a\<lparr>at_execution := cancelled x\<rparr>) = (x = Going \<or> x = Stopping)"
  "held_phase (a\<lparr>at_execution := y\<rparr>) = held_phase a" "at_run (a\<lparr>at_execution := y\<rparr>) = at_run a"
  by (auto simp: ended_handler_def handler_alive_def held_phase_def at_run_def)

lemma attempt_ok_cancel: "attempt_ok a \<Longrightarrow> attempt_ok (a\<lparr>at_execution := cancelled (at_execution a)\<rparr>)"
  by (cases "at_phase a"; cases "at_execution a") (auto simp: attempt_ok_def handler_alive_def ended_handler_def)

lemma worker_ok_cancel:
  assumes "worker_ok w"
  shows "worker_ok (cancel_handler i w)"
proof (cases "i < length (wk_attempts w)")
  case i: True
  let ?a = "wk_attempts w ! i"
  have ok: "attempt_ok ?a" using assms i by (simp add: worker_ok_def)
  show ?thesis
  proof (cases "at_phase ?a = Finished")
    case True
    with ok have "cancelled (at_execution ?a) = at_execution ?a" by (cases "at_execution ?a") (auto simp: attempt_ok_def handler_alive_def)
    then have "cancel_handler i w = w" by (simp add: cancel_handler_def on_attempt_def)
    with assms show ?thesis by simp
  next
    case False
    then show ?thesis unfolding cancel_handler_def
      using worker_ok_on_attempt [OF assms i, of "\<lambda>a. a\<lparr>at_execution := cancelled (at_execution a)\<rparr>"] attempt_ok_cancel [OF ok] by simp
  qed
qed (use assms in \<open>simp add: cancel_handler_def on_attempt_def list_update_beyond\<close>)

lemma cancel_handler_simps [simp]:
  "wk_held (cancel_handler i w) = wk_held w" "wk_slots (cancel_handler i w) = wk_slots w" "wk_loop (cancel_handler i w) = wk_loop w"
  "wk_concurrency (cancel_handler i w) = wk_concurrency w" "wk_calls (cancel_handler i w) = wk_calls w"
  "length (wk_attempts (cancel_handler i w)) = length (wk_attempts w)" "wk_stopping (cancel_handler i w) = wk_stopping w"
  "wk_hurry (cancel_handler i w) = wk_hurry w" "wk_lease_seconds (cancel_handler i w) = wk_lease_seconds w"
  by (simp_all add: cancel_handler_def)

text \<open>Cancelling a handler changes nothing of an attempt but the execution, and that only while it goes.\<close>

lemma attempts_cancel_handler:
  "i < length (wk_attempts w) \<Longrightarrow>
     wk_attempts (cancel_handler j w) ! i =
       (if i = j then (wk_attempts w ! i)\<lparr>at_execution := cancelled (at_execution (wk_attempts w ! i))\<rparr> else wk_attempts w ! i)"
  by (simp add: cancel_handler_def)

lemma worker_ok_fold_cancel: "worker_ok w \<Longrightarrow> worker_ok (fold cancel_handler js w)"
  by (induction js arbitrary: w) (auto intro: worker_ok_cancel)

lemma fold_cancel_simps [simp]:
  "wk_held (fold cancel_handler js w) = wk_held w" "wk_slots (fold cancel_handler js w) = wk_slots w"
  "wk_loop (fold cancel_handler js w) = wk_loop w" "wk_concurrency (fold cancel_handler js w) = wk_concurrency w"
  "wk_calls (fold cancel_handler js w) = wk_calls w" "length (wk_attempts (fold cancel_handler js w)) = length (wk_attempts w)"
  "wk_stopping (fold cancel_handler js w) = wk_stopping w"
  by (induction js arbitrary: w) auto

lemma attempts_fold_cancel:
  "i < length (wk_attempts w) \<Longrightarrow>
     wk_attempts (fold cancel_handler js w) ! i =
       (if i \<in> set js then (wk_attempts w ! i)\<lparr>at_execution := cancelled (at_execution (wk_attempts w ! i))\<rparr> else wk_attempts w ! i)"
proof (induction js arbitrary: w)
  case (Cons j js)
  have "cancelled (cancelled x) = cancelled x" for x by (cases x) auto
  with Cons show ?case by (auto simp: attempts_cancel_handler)
qed simp

text \<open>A change of the loop's own fields.\<close>

lemma worker_ok_loop:
  assumes "worker_ok w" "wk_attempts v = wk_attempts w" "wk_held v = wk_held w" "wk_concurrency v = wk_concurrency w"
    and "wk_slots v + (if wk_loop v = Claiming then 1 else 0) \<le> wk_slots w + (if wk_loop w = Claiming then 1 else 0)"
  shows "worker_ok v"
  using assms unfolding worker_ok_def unfinished_def attempt_is_def by auto

lemma worker_ok_finish:
  assumes "worker_ok w" "i < length (wk_attempts w)" "at_phase (wk_attempts w ! i) \<noteq> Finished" "\<not> handler_alive (wk_attempts w ! i)"
  shows "worker_ok (finish_attempt i w)"
proof -
  let ?f = "\<lambda>a. a\<lparr>at_phase := Finished, at_beating := False\<rparr>" and ?v = "finish_attempt i w"
  have v: "wk_attempts ?v = (wk_attempts w)[i := ?f (wk_attempts w ! i)]" "wk_slots ?v = wk_slots w + 1"
    "wk_held ?v = filter (\<lambda>(run, j). j \<noteq> i) (wk_held w)" "wk_loop ?v = wk_loop w" "wk_concurrency ?v = wk_concurrency w"
    by (simp_all add: finish_attempt_def Let_def)
  have ok: "attempt_ok (wk_attempts ?v ! j)" if "j < length (wk_attempts ?v)" for j
    using that assms by (cases "j = i") (auto simp: v worker_ok_def attempt_ok_def handler_alive_def held_phase_def)
  have "length (unfinished ?v) + 1 = length (unfinished w)"
    using length_filter_update [OF assms(2), of "\<lambda>a. at_phase a \<noteq> Finished" "?f (wk_attempts w ! i)"] assms(3)
    by (simp add: unfinished_def v)
  then have "wk_slots ?v + length (unfinished ?v) + (if wk_loop ?v = Claiming then 1 else 0) \<le> wk_concurrency ?v"
    using assms(1) by (auto simp: worker_ok_def v)
  moreover have "attempt_is (\<lambda>a. held_phase a \<and> at_run a = run) j ?v" if "(run, j) \<in> set (wk_held ?v)" for run j
    using that assms(1) by (fastforce simp: v worker_ok_def attempt_is_def)
  moreover have "distinct (map fst (wk_held ?v))" using assms(1) by (simp add: v worker_ok_def distinct_map_filter)
  ultimately show ?thesis unfolding worker_ok_def using ok by blast
qed

lemma start_handler_parts:
  "wk_attempts (start_handler i clock w) = (wk_attempts w)[i := (wk_attempts w ! i)\<lparr>
     at_job := renew (snd (at_claimed (wk_attempts w ! i))) clock (at_job (wk_attempts w ! i)), at_execution := Going,
     at_phase := Working, at_beating := True,
     at_until := (case job_remaining (renew (snd (at_claimed (wk_attempts w ! i))) clock (at_job (wk_attempts w ! i))) clock of
       None \<Rightarrow> None | Some s \<Rightarrow> Some (clock + (s + WORKING_TIME_GRACE_SECONDS)))\<rparr>]"
  "wk_held (start_handler i clock w) = AList.update (at_run (wk_attempts w ! i)) i (wk_held w)"
  "wk_slots (start_handler i clock w) = wk_slots w" "wk_loop (start_handler i clock w) = wk_loop w"
  "wk_concurrency (start_handler i clock w) = wk_concurrency w" "wk_calls (start_handler i clock w) = wk_calls w"
  "wk_stopping (start_handler i clock w) = wk_stopping w"
  by (simp_all add: start_handler_def Let_def)

lemma set_update_subset: "set (AList.update k v al) \<subseteq> insert (k, v) (set al)"
  by (induction al) auto

lemma worker_ok_start:
  assumes "worker_ok w" "i < length (wk_attempts w)" "\<not> held_phase (wk_attempts w ! i)" "at_phase (wk_attempts w ! i) \<noteq> Finished"
  shows "worker_ok (start_handler i clock w)"
proof -
  let ?v = "start_handler i clock w"
  have ok: "attempt_ok (wk_attempts ?v ! j)" if "j < length (wk_attempts ?v)" for j
    using that assms by (cases "j = i") (auto simp: start_handler_parts worker_ok_def attempt_ok_def held_phase_def)
  have "length (unfinished ?v) = length (unfinished w)"
    using length_filter_update [OF assms(2), of "\<lambda>a. at_phase a \<noteq> Finished" "wk_attempts ?v ! i"] assms(2,4)
    by (simp add: unfinished_def start_handler_parts)
  moreover have "attempt_is (\<lambda>a. held_phase a \<and> at_run a = run) j ?v" if "(run, j) \<in> set (wk_held ?v)" for run j
  proof -
    have "(run, j) = (at_run (wk_attempts w ! i), i) \<or> (run, j) \<in> set (wk_held w)"
      using that set_update_subset [of "at_run (wk_attempts w ! i)" i "wk_held w"] unfolding start_handler_parts by blast
    then show ?thesis
    proof
      assume "(run, j) = (at_run (wk_attempts w ! i), i)"
      then show ?thesis using assms(2) by (simp add: attempt_is_def start_handler_parts held_phase_def at_run_def)
    next
      assume "(run, j) \<in> set (wk_held w)"
      then have h: "attempt_is (\<lambda>a. held_phase a \<and> at_run a = run) j w" using assms(1) by (auto simp: worker_ok_def)
      with assms(3) have "j \<noteq> i" by (auto simp: attempt_is_def)
      with h show ?thesis by (simp add: attempt_is_def start_handler_parts)
    qed
  qed
  moreover have "distinct (map fst (wk_held ?v))"
    using assms(1) by (simp add: start_handler_parts worker_ok_def distinct_update)
  ultimately show ?thesis using assms(1) ok unfolding worker_ok_def
    by (simp add: start_handler_parts(3-5)) blast
qed

lemma guarded_Some [simp]: "guarded b w = Some w' \<longleftrightarrow> b \<and> w' = w"
  by (auto simp: guarded_def)

lemma attempt_isD: "attempt_is P i w \<Longrightarrow> i < length (wk_attempts w) \<and> P (wk_attempts w ! i)"
  by (simp add: attempt_is_def)

lemma worker_ok_attempt: "worker_ok w \<Longrightarrow> i < length (wk_attempts w) \<Longrightarrow> attempt_ok (wk_attempts w ! i)"
  by (simp add: worker_ok_def)

lemma alive_working: "attempt_ok a \<Longrightarrow> handler_alive a \<Longrightarrow> at_phase a = Working"
  by (cases "at_phase a") (auto simp: attempt_ok_def handler_alive_def ended_handler_def)

lemma worker_ok_claim:
  assumes "worker_ok w" "wk_loop w = Claiming"
  shows "worker_ok (claim_answered answer w)"
proof (cases answer)
  case None
  then show ?thesis using assms by (intro worker_ok_loop [OF assms(1)]) (auto simp: claim_answered_def)
next
  case (Some c)
  let ?v = "claim_answered answer w"
  have v: "wk_attempts ?v = wk_attempts w @ [new_attempt c]" "wk_held ?v = wk_held w" "wk_slots ?v = wk_slots w"
    "wk_loop ?v = AtSlot" "wk_concurrency ?v = wk_concurrency w"
    by (simp_all add: Some claim_answered_def)
  have "attempt_ok (new_attempt c)" "at_phase (new_attempt c) \<noteq> Finished"
    by (simp_all add: attempt_ok_def new_attempt_def held_phase_def)
  then show ?thesis using assms unfolding worker_ok_def
    by (auto simp: v unfinished_def attempt_is_def nth_append less_Suc_eq split: prod.splits)
qed

lemma worker_ok_stop_beating:
  assumes "worker_ok w" "i < length (wk_attempts w)" "held_phase (wk_attempts w ! i)"
  shows "worker_ok (stop_beating i w)"
proof -
  note c = worker_ok_cancel [OF assms(1), of i]
  let ?a = "wk_attempts (cancel_handler i w) ! i"
  have h: "held_phase ?a" using assms(2,3) by (simp add: attempts_cancel_handler)
  have "attempt_ok ?a" using c assms(2) by (simp add: worker_ok_def)
  then have "attempt_ok (?a\<lparr>at_beating := False\<rparr>)" by (auto simp: attempt_ok_def handler_alive_def ended_handler_def split: phase.splits)
  then show ?thesis unfolding stop_beating_def
    using h assms(2) held_phase_not_finished [OF h] by (intro worker_ok_on_attempt [OF c]) (auto simp: at_run_def held_phase_def)
qed

lemma worker_ok_renew:
  assumes "worker_ok w" "i < length (wk_attempts w)" "held_phase (wk_attempts w ! i)"
  shows "worker_ok (on_attempt i (\<lambda>a. a\<lparr>at_job := renew l clock (at_job a)\<rparr>) w)"
  using assms worker_ok_attempt [OF assms(1,2)] held_phase_not_finished [OF assms(3)]
  by (intro worker_ok_on_attempt) (auto simp: at_run_def held_phase_def attempt_ok_def handler_alive_def ended_handler_def split: phase.splits)

lemma worker_ok_beat:
  assumes "worker_ok w" "i < length (wk_attempts w)" "held_phase (wk_attempts w ! i)"
  shows "worker_ok (beat_answered i answer clock w)"
proof (cases answer)
  case (Renewed l)
  have "held_phase (wk_attempts (on_attempt i (\<lambda>a. a\<lparr>at_job := renew l clock (at_job a)\<rparr>) w) ! i)"
    using assms(2,3) by (simp add: held_phase_def)
  then show ?thesis using worker_ok_renew [OF assms] assms(2)
    by (auto simp: Renewed beat_answered_def Let_def intro!: worker_ok_stop_beating)
qed (use assms in \<open>auto simp: beat_answered_def intro: worker_ok_stop_beating\<close>)

lemma worker_ok_tear_down:
  assumes "worker_ok w"
  shows "worker_ok (tear_down w)"
proof -
  have t: "at_run (tear a) = at_run a" "at_phase (tear a) = at_phase a" "held_phase (tear a) = held_phase a"
    "attempt_ok a \<Longrightarrow> attempt_ok (tear a)" for a
    by (auto simp: tear_def at_run_def held_phase_def attempt_ok_def handler_alive_def ended_handler_def
        split: phase.splits execution.splits)
  have "length (unfinished (tear_down w)) = length (unfinished w)"
    by (simp add: unfinished_def tear_down_def filter_map comp_def t)
  then show ?thesis using assms unfolding worker_ok_def
    by (auto simp: tear_down_def attempt_is_def t split: prod.splits if_splits)
qed

lemma worker_ok_perform:
  assumes "worker_ok w" "perform a w = Some w'"
  shows "worker_ok w'"
proof (cases a)
  case Stops
  with assms show ?thesis by (auto simp: stop_def intro: worker_ok_loop)
next
  case TakesSlot
  with assms show ?thesis by (auto simp: slot_def split: if_splits intro!: worker_ok_loop [OF assms(1)])
next
  case (ClaimAnswered x)
  with assms show ?thesis by (auto intro: worker_ok_claim)
next
  case IdleOver
  with assms show ?thesis by (auto intro: worker_ok_loop)
next
  case (Begins i clock)
  with assms have i: "i < length (wk_attempts w)" "at_phase (wk_attempts w ! i) = Created" and w': "w' = begin_attempt i clock w"
    by (auto simp: attempt_is_def)
  show ?thesis
  proof (cases "map_of (wk_held w) (at_run (wk_attempts w ! i))")
    case None
    with i assms show ?thesis by (auto simp: w' begin_attempt_def held_phase_def intro: worker_ok_start)
  next
    case (Some j)
    note c = worker_ok_cancel [OF assms(1), of j]
    have p: "at_phase (wk_attempts (cancel_handler j w) ! i) = Created" using i by (auto simp: attempts_cancel_handler)
    with c i have "attempt_ok ((wk_attempts (cancel_handler j w) ! i)\<lparr>at_phase := Waiting j\<rparr>)"
      using worker_ok_attempt [OF c, of i] by (auto simp: attempt_ok_def held_phase_def)
    then show ?thesis using Some i p
      by (auto simp: w' begin_attempt_def at_run_def held_phase_def intro!: worker_ok_on_attempt [OF c])
  qed
next
  case (Proceeds i clock)
  with assms show ?thesis
    by (auto simp: attempt_is_def held_phase_def split: phase.splits intro!: worker_ok_start)
next
  case (HandlerEnds i x)
  with assms have i: "i < length (wk_attempts w)" "handler_alive (wk_attempts w ! i)" and w': "w' = on_attempt i (\<lambda>a. a\<lparr>at_execution := Done x\<rparr>) w"
    by (auto simp: attempt_is_def)
  note p = alive_working [OF worker_ok_attempt [OF assms(1) i(1)] i(2)]
  with assms i show ?thesis using worker_ok_attempt [OF assms(1) i(1)]
    by (auto simp: w' attempt_ok_def held_phase_def intro!: worker_ok_on_attempt)
next
  case (Checkpoints i l clock)
  with assms have i: "i < length (wk_attempts w)" "handler_alive (wk_attempts w ! i)" by (auto simp: attempt_is_def)
  with alive_working [OF worker_ok_attempt [OF assms(1) i(1)] i(2)] assms Checkpoints show ?thesis
    by (auto simp: held_phase_def intro: worker_ok_renew)
next
  case (Beats i answer clock)
  with assms have i: "i < length (wk_attempts w)" "at_beating (wk_attempts w ! i)" by (auto simp: attempt_is_def)
  with worker_ok_attempt [OF assms(1) i(1)] assms Beats show ?thesis by (auto simp: attempt_ok_def intro: worker_ok_beat)
next
  case (Expires i clock)
  with assms have i: "i < length (wk_attempts w)" "at_phase (wk_attempts w ! i) = Working" and w': "w' = expire i w" by (auto simp: attempt_is_def)
  with assms worker_ok_attempt [OF assms(1) i(1)] show ?thesis unfolding w' expire_def
    by (intro worker_ok_on_attempt) (auto simp: at_run_def held_phase_def attempt_ok_def split: execution.splits)
next
  case (Reacts i)
  with assms have i: "i < length (wk_attempts w)" "at_phase (wk_attempts w ! i) = Working" "ended_handler (wk_attempts w ! i)" and w': "w' = react i w"
    by (auto simp: attempt_is_def)
  show ?thesis
  proof (cases "ending (wk_attempts w ! i)")
    case None
    with i assms(1) show ?thesis by (auto simp: w' react_def ended_handler_def handler_alive_def intro!: worker_ok_finish)
  next
    case (Some x)
    then obtain st e where x: "ending (wk_attempts w ! i) = Some (st, e)" by (cases x) auto
    let ?u = "w\<lparr>wk_calls := wk_calls w @ [Ends i (at_run (wk_attempts w ! i)) st e]\<rparr>"
    have "worker_ok ?u" using assms(1) by (rule worker_ok_loop) auto
    moreover have "attempt_ok ((wk_attempts w ! i)\<lparr>at_phase := Sending\<rparr>)"
      using i worker_ok_attempt [OF assms(1) i(1)] by (auto simp: attempt_ok_def held_phase_def ended_handler_def)
    ultimately show ?thesis using i
      by (auto simp: w' react_def x at_run_def held_phase_def intro!: worker_ok_on_attempt)
  qed
next
  case (EndAnswered i)
  with assms have i: "i < length (wk_attempts w)" "at_phase (wk_attempts w ! i) = Sending" and w': "w' = finish_attempt i w" by (auto simp: attempt_is_def)
  with assms worker_ok_attempt [OF assms(1) i(1)] show ?thesis
    by (auto simp: attempt_ok_def ended_handler_def handler_alive_def intro!: worker_ok_finish)
next
  case (WindsDown over)
  with assms have "worker_ok (fold cancel_handler (map snd (wk_held w)) w)" and l: "wk_loop w = Winding" and w': "w' = release_held w"
    by (auto intro: worker_ok_fold_cancel)
  then show ?thesis by (auto simp: release_held_def Let_def intro: worker_ok_loop)
next
  case SendsReleases
  with assms show ?thesis by (auto simp: send_releases_def split: loop_at.splits intro: worker_ok_loop)
next
  case TornDown
  with assms show ?thesis by (auto intro: worker_ok_tear_down)
next
  case (TornOut i)
  with assms have i: "i < length (wk_attempts w)" "at_phase (wk_attempts w ! i) \<noteq> Finished" "at_phase (wk_attempts w ! i) \<noteq> Working" and w': "w' = finish_attempt i w"
    by (auto simp: attempt_is_def out_of_handler_def)
  with assms worker_ok_attempt [OF assms(1) i(1)] show ?thesis using alive_working by (blast intro: worker_ok_finish)
qed

lemma performs_append: "performs (as @ bs) w = (case performs as w of None \<Rightarrow> None | Some v \<Rightarrow> performs bs v)"
  by (induction as arbitrary: w) (auto split: option.splits)

lemma performs_snoc: "performs (as @ [a]) w = Some w' \<longleftrightarrow> (\<exists>v. performs as w = Some v \<and> perform a v = Some w')"
  by (auto simp: performs_append split: option.splits)

lemma worker_ok_new: "new_worker agents c cpus secs wid = Some w \<Longrightarrow> worker_ok w"
  by (auto simp: new_worker_def worker_ok_def unfinished_def Let_def split: if_splits)

lemma worker_ok_performs: "performs as w = Some w' \<Longrightarrow> worker_ok w \<Longrightarrow> worker_ok w'"
  by (induction as arbitrary: w) (auto split: option.splits intro: worker_ok_perform)

lemma perform_concurrency: "perform a w = Some w' \<Longrightarrow> wk_concurrency w' = wk_concurrency w"
  by (cases a)
    (auto simp: stop_def slot_def claim_answered_def begin_attempt_def beat_answered_def stop_beating_def start_handler_parts
      expire_def react_def finish_attempt_def release_held_def send_releases_def tear_down_def Let_def
      split: if_splits option.splits beat_answer.splits loop_at.splits)

lemma performs_concurrency: "performs as w = Some w' \<Longrightarrow> wk_concurrency w' = wk_concurrency w"
  by (induction as arbitrary: w) (auto split: option.splits dest: perform_concurrency)

end
