(* ===== verification/Worker_Properties.thy ===== *)
theory Worker_Properties
  imports Worker
begin

text \<open>
  What a worker does: one handler a run, what it writes of a run and when, what a stop leaves, and two
  schedules in which an earlier attempt of a run overlaps a later one of the same worker.
\<close>

section \<open>Well-formed workers\<close>

text \<open>C21. A worker is well formed whatever the service answers it, however its handlers end and whenever it
  is stopped or cancelled: it never runs more handlers than its slots, a handler goes only inside the
  task that awaits it, and every run it holds is worked by the task it is held for.\<close>

theorem worker_well_formed:
  assumes "new_worker agents concurrency cpus lease_secs worker_id = Some w0" "performs as w0 = Some w"
  shows "1 \<le> wk_concurrency w0 \<and> length (filter handler_alive (wk_attempts w)) + wk_slots w \<le> wk_concurrency w0 \<and>
    (\<forall>a\<in>set (wk_attempts w). handler_alive a \<longrightarrow> at_phase a = Working) \<and>
    distinct (map fst (wk_held w)) \<and>
    (\<forall>(run, i)\<in>set (wk_held w). i < length (wk_attempts w) \<and> at_run (wk_attempts w ! i) = run \<and>
       at_phase (wk_attempts w ! i) \<in> {Working, Sending})"
proof -
  have ok: "worker_ok w" using worker_ok_performs [OF assms(2)] worker_ok_new [OF assms(1)] by blast
  have handler_alive: "at_phase a = Working" if "a \<in> set (wk_attempts w)" "handler_alive a" for a
    using that ok alive_working by (auto simp: worker_ok_def in_set_conv_nth)
  then have "filter handler_alive (wk_attempts w) = filter handler_alive (unfinished w)"
    unfolding unfinished_def filter_filter by (intro filter_cong) auto
  then have "length (filter handler_alive (wk_attempts w)) \<le> length (unfinished w)" by simp
  with ok performs_concurrency [OF assms(2)] have "length (filter handler_alive (wk_attempts w)) + wk_slots w \<le> wk_concurrency w0"
    by (simp add: worker_ok_def)
  moreover have "1 \<le> wk_concurrency w0" using assms(1) by (auto simp: new_worker_def Let_def split: if_splits)
  ultimately show ?thesis using handler_alive ok by (fastforce simp: worker_ok_def attempt_is_def held_phase_def)
qed

section \<open>One handler a run\<close>

definition pending :: "attempt \<Rightarrow> bool" where
  "pending a \<longleftrightarrow> at_phase a = Created \<or> (\<exists>j. at_phase a = Waiting j)"

text \<open>No claim answers a run that one of the worker's own attempts is still to start.\<close>

fun calm :: "action \<Rightarrow> worker \<Rightarrow> bool" where
  "calm (ClaimAnswered (Some c)) w = (\<forall>a\<in>set (wk_attempts w). pending a \<longrightarrow> at_run a \<noteq> rec_run_id (fst c))"
| "calm _ w = True"

fun calmly :: "action list \<Rightarrow> worker \<Rightarrow> bool" where
  "calmly [] w = True"
| "calmly (a # as) w = (calm a w \<and> (case perform a w of None \<Rightarrow> True | Some w' \<Rightarrow> calmly as w'))"

definition one_handler :: "worker \<Rightarrow> bool" where
  "one_handler w \<longleftrightarrow>
     (\<forall>i < length (wk_attempts w). handler_alive (wk_attempts w ! i) \<longrightarrow> map_of (wk_held w) (at_run (wk_attempts w ! i)) = Some i) \<and>
     (\<forall>i < length (wk_attempts w). \<forall>k < length (wk_attempts w).
        pending (wk_attempts w ! i) \<and> pending (wk_attempts w ! k) \<and> at_run (wk_attempts w ! i) = at_run (wk_attempts w ! k) \<longrightarrow> i = k) \<and>
     (\<forall>i < length (wk_attempts w). \<forall>j k. at_phase (wk_attempts w ! i) = Waiting j \<and> k < length (wk_attempts w) \<and>
        handler_alive (wk_attempts w ! k) \<and> at_run (wk_attempts w ! k) = at_run (wk_attempts w ! i) \<longrightarrow> k = j)"

text \<open>Where nothing starts, it is kept.\<close>

lemma one_handler_shrinks:
  assumes "one_handler w" "length (wk_attempts v) = length (wk_attempts w)"
    and "\<And>i. i < length (wk_attempts w) \<Longrightarrow> at_run (wk_attempts v ! i) = at_run (wk_attempts w ! i) \<and>
      (handler_alive (wk_attempts v ! i) \<longrightarrow> handler_alive (wk_attempts w ! i) \<and> map_of (wk_held v) (at_run (wk_attempts w ! i)) = map_of (wk_held w) (at_run (wk_attempts w ! i))) \<and>
      (pending (wk_attempts v ! i) \<longrightarrow> at_phase (wk_attempts v ! i) = at_phase (wk_attempts w ! i))"
  shows "one_handler v"
proof -
  note kept = assms(3)
  have pending: "pending (wk_attempts w ! i)" if "i < length (wk_attempts w)" "pending (wk_attempts v ! i)" for i
    using that kept [OF that(1)] unfolding pending_def by metis
  have waiting: "at_phase (wk_attempts w ! i) = Waiting j" if "i < length (wk_attempts w)" "at_phase (wk_attempts v ! i) = Waiting j" for i j
    using that kept [OF that(1)] unfolding pending_def by metis
  show ?thesis unfolding one_handler_def assms(2)
  proof (intro conjI allI impI)
    fix i assume "i < length (wk_attempts w)" "handler_alive (wk_attempts v ! i)"
    with kept [of i] assms(1) show "map_of (wk_held v) (at_run (wk_attempts v ! i)) = Some i" by (auto simp: one_handler_def)
  next
    fix i k assume i: "i < length (wk_attempts w)" and k: "k < length (wk_attempts w)"
      and p: "pending (wk_attempts v ! i) \<and> pending (wk_attempts v ! k) \<and> at_run (wk_attempts v ! i) = at_run (wk_attempts v ! k)"
    with kept [OF i] kept [OF k] have "at_run (wk_attempts w ! i) = at_run (wk_attempts w ! k)" by simp
    with i k p pending assms(1) show "i = k" by (auto simp: one_handler_def)
  next
    fix i j k assume i: "i < length (wk_attempts w)" and p: "at_phase (wk_attempts v ! i) = Waiting j \<and> k < length (wk_attempts w) \<and>
        handler_alive (wk_attempts v ! k) \<and> at_run (wk_attempts v ! k) = at_run (wk_attempts v ! i)"
    with kept [OF i] kept [of k] have "handler_alive (wk_attempts w ! k)" "at_run (wk_attempts w ! k) = at_run (wk_attempts w ! i)" by auto
    with i p waiting assms(1) show "k = j" unfolding one_handler_def by blast
  qed
qed

lemma one_handler_starts:
  assumes "one_handler w" "i < length (wk_attempts w)" "pending (wk_attempts w ! i)"
    and "\<And>k. k < length (wk_attempts w) \<Longrightarrow> handler_alive (wk_attempts w ! k) \<Longrightarrow> at_run (wk_attempts w ! k) \<noteq> at_run (wk_attempts w ! i)"
  shows "one_handler (start_handler i clock w)"
proof -
  let ?v = "start_handler i clock w" and ?r = "at_run (wk_attempts w ! i)"
  have same: "wk_attempts ?v ! k = wk_attempts w ! k" if "k \<noteq> i" for k using that by (simp add: start_handler_parts)
  have new: "handler_alive (wk_attempts ?v ! i)" "\<not> pending (wk_attempts ?v ! i)" "at_run (wk_attempts ?v ! i) = ?r"
    "\<not> at_phase (wk_attempts ?v ! i) = Waiting j" for j
    using assms(2) by (simp_all add: start_handler_parts handler_alive_def pending_def at_run_def)
  have len: "length (wk_attempts ?v) = length (wk_attempts w)" by (simp add: start_handler_parts)
  have held: "map_of (wk_held ?v) = (map_of (wk_held w))(?r \<mapsto> i)" by (simp add: start_handler_parts update_conv')
  show ?thesis unfolding one_handler_def len
  proof (intro conjI allI impI)
    fix k assume k: "k < length (wk_attempts w)" "handler_alive (wk_attempts ?v ! k)"
    show "map_of (wk_held ?v) (at_run (wk_attempts ?v ! k)) = Some k"
    proof (cases "k = i")
      case False
      with k assms(4) [of k] assms(1) show ?thesis by (auto simp: same held one_handler_def)
    qed (simp add: held new)
  next
    fix j k assume "j < length (wk_attempts w)" "k < length (wk_attempts w)"
      "pending (wk_attempts ?v ! j) \<and> pending (wk_attempts ?v ! k) \<and> at_run (wk_attempts ?v ! j) = at_run (wk_attempts ?v ! k)"
    then show "j = k" using assms(1) new(2) same unfolding one_handler_def by metis
  next
    fix m j k assume m: "m < length (wk_attempts w)" and w: "at_phase (wk_attempts ?v ! m) = Waiting j \<and> k < length (wk_attempts w) \<and>
      handler_alive (wk_attempts ?v ! k) \<and> at_run (wk_attempts ?v ! k) = at_run (wk_attempts ?v ! m)"
    with new(4) have "m \<noteq> i" by auto
    with w have p: "at_phase (wk_attempts w ! m) = Waiting j" "pending (wk_attempts w ! m)" by (auto simp: same pending_def)
    have "at_run (wk_attempts w ! m) \<noteq> ?r" using assms(1-3) m p(2) \<open>m \<noteq> i\<close> unfolding one_handler_def by metis
    with w new(3) same \<open>m \<noteq> i\<close> have "k \<noteq> i" by metis
    with w \<open>m \<noteq> i\<close> p(1) m assms(1) show "k = j" unfolding one_handler_def by (metis same)
  qed
qed

lemma one_handler_same:
  "one_handler w \<Longrightarrow> wk_attempts v = wk_attempts w \<Longrightarrow> wk_held v = wk_held w \<Longrightarrow> one_handler v"
  unfolding one_handler_def by simp

lemma one_handler_on_attempt:
  assumes "one_handler w" "i < length (wk_attempts w) \<Longrightarrow> at_run (f (wk_attempts w ! i)) = at_run (wk_attempts w ! i) \<and>
      (handler_alive (f (wk_attempts w ! i)) \<longrightarrow> handler_alive (wk_attempts w ! i)) \<and>
      (pending (f (wk_attempts w ! i)) \<longrightarrow> at_phase (f (wk_attempts w ! i)) = at_phase (wk_attempts w ! i))"
  shows "one_handler (on_attempt i f w)"
proof (rule one_handler_shrinks [OF assms(1)])
  fix k assume "k < length (wk_attempts w)"
  with assms(2) show "at_run (wk_attempts (on_attempt i f w) ! k) = at_run (wk_attempts w ! k) \<and>
      (handler_alive (wk_attempts (on_attempt i f w) ! k) \<longrightarrow> handler_alive (wk_attempts w ! k) \<and>
        map_of (wk_held (on_attempt i f w)) (at_run (wk_attempts w ! k)) = map_of (wk_held w) (at_run (wk_attempts w ! k))) \<and>
      (pending (wk_attempts (on_attempt i f w) ! k) \<longrightarrow> at_phase (wk_attempts (on_attempt i f w) ! k) = at_phase (wk_attempts w ! k))"
    by (cases "k = i") simp_all
qed simp

lemma pending_simps [simp]:
  "pending (a\<lparr>at_execution := x\<rparr>) = pending a" "pending (a\<lparr>at_beating := b\<rparr>) = pending a" "pending (a\<lparr>at_job := j\<rparr>) = pending a"
  "handler_alive (a\<lparr>at_beating := b\<rparr>) = handler_alive a" "handler_alive (a\<lparr>at_job := j\<rparr>) = handler_alive a" "handler_alive (a\<lparr>at_phase := p\<rparr>) = handler_alive a"
  "handler_alive (a\<lparr>at_expired := b, at_thrown := t\<rparr>) = handler_alive a" "pending (a\<lparr>at_expired := b, at_thrown := t\<rparr>) = pending a"
  "at_run (a\<lparr>at_beating := b\<rparr>) = at_run a" "at_run (a\<lparr>at_job := j\<rparr>) = at_run a" "at_run (a\<lparr>at_phase := p\<rparr>) = at_run a"
  "\<not> pending (a\<lparr>at_phase := Working\<rparr>)" "\<not> pending (a\<lparr>at_phase := Sending\<rparr>)" "\<not> pending (a\<lparr>at_phase := Finished\<rparr>)"
  by (simp_all add: pending_def handler_alive_def at_run_def)

lemma one_handler_cancel: "one_handler w \<Longrightarrow> one_handler (cancel_handler i w)"
  unfolding cancel_handler_def by (rule one_handler_on_attempt) (auto simp: handler_alive_def at_run_def)

lemma one_handler_fold_cancel: "one_handler w \<Longrightarrow> one_handler (fold cancel_handler js w)"
  by (induction js arbitrary: w) (auto intro: one_handler_cancel)

lemma one_handler_stop_beating: "one_handler w \<Longrightarrow> one_handler (stop_beating i w)"
  unfolding stop_beating_def by (rule one_handler_on_attempt) (auto intro: one_handler_cancel)

lemma one_handler_finish:
  assumes "one_handler w" "distinct (map fst (wk_held w))" "i < length (wk_attempts w)" "\<not> handler_alive (wk_attempts w ! i)"
  shows "one_handler (finish_attempt i w)"
proof (rule one_handler_shrinks [OF assms(1)])
  let ?v = "finish_attempt i w"
  have v: "wk_attempts ?v = (wk_attempts w)[i := (wk_attempts w ! i)\<lparr>at_phase := Finished, at_beating := False\<rparr>]"
    "wk_held ?v = filter (\<lambda>(run, j). j \<noteq> i) (wk_held w)"
    by (simp_all add: finish_attempt_def Let_def)
  show "length (wk_attempts ?v) = length (wk_attempts w)" by (simp add: v)
  fix k assume k: "k < length (wk_attempts w)"
  show "at_run (wk_attempts ?v ! k) = at_run (wk_attempts w ! k) \<and>
      (handler_alive (wk_attempts ?v ! k) \<longrightarrow> handler_alive (wk_attempts w ! k) \<and>
        map_of (wk_held ?v) (at_run (wk_attempts w ! k)) = map_of (wk_held w) (at_run (wk_attempts w ! k))) \<and>
      (pending (wk_attempts ?v ! k) \<longrightarrow> at_phase (wk_attempts ?v ! k) = at_phase (wk_attempts w ! k))"
  proof (cases "k = i")
    case True
    with assms(3,4) show ?thesis by (auto simp: v handler_alive_def at_run_def pending_def)
  next
    case False
    have "map_of (wk_held ?v) (at_run (wk_attempts w ! k)) = Some k" if "handler_alive (wk_attempts w ! k)"
    proof (rule map_of_is_SomeI)
      show "distinct (map fst (wk_held ?v))" using assms(2) by (simp add: v distinct_map_filter)
      have "(at_run (wk_attempts w ! k), k) \<in> set (wk_held w)" using that k assms(1) by (auto simp: one_handler_def dest: map_of_SomeD)
      with False show "(at_run (wk_attempts w ! k), k) \<in> set (wk_held ?v)" by (simp add: v)
    qed
    with False k assms(1) show ?thesis by (auto simp: v one_handler_def)
  qed
qed

lemma one_handler_claim:
  assumes "one_handler w" "worker_ok w" "calm (ClaimAnswered answer) w"
  shows "one_handler (claim_answered answer w)"
proof (cases answer)
  case None
  then show ?thesis by (intro one_handler_same [OF assms(1)]) (auto simp: claim_answered_def)
next
  case (Some c)
  let ?v = "claim_answered answer w" and ?n = "length (wk_attempts w)"
  have v: "wk_attempts ?v = wk_attempts w @ [new_attempt c]" "wk_held ?v = wk_held w" by (simp_all add: Some claim_answered_def)
  have new: "\<not> handler_alive (new_attempt c)" "at_phase (new_attempt c) = Created" "at_run (new_attempt c) = rec_run_id (fst c)"
    by (simp_all add: new_attempt_def handler_alive_def at_run_def)
  have other: False if "i < ?n" "pending (wk_attempts w ! i)" "at_run (wk_attempts w ! i) = rec_run_id (fst c)" for i
    using that assms(3) by (auto simp: Some)
  from assms(1) new show ?thesis unfolding one_handler_def v
    by (auto simp: nth_append less_Suc_eq split: if_splits dest: other other [OF _ _ sym])
qed

lemma one_handler_begin:
  assumes "one_handler w" "i < length (wk_attempts w)" "at_phase (wk_attempts w ! i) = Created"
  shows "one_handler (begin_attempt i clock w)"
proof (cases "map_of (wk_held w) (at_run (wk_attempts w ! i))")
  case None
  have "at_run (wk_attempts w ! k) \<noteq> at_run (wk_attempts w ! i)" if "k < length (wk_attempts w)" "handler_alive (wk_attempts w ! k)" for k
  proof
    assume "at_run (wk_attempts w ! k) = at_run (wk_attempts w ! i)"
    with that None assms(1) show False unfolding one_handler_def by (metis option.distinct(1))
  qed
  with None assms show ?thesis by (auto simp: begin_attempt_def pending_def intro!: one_handler_starts)
next
  case (Some j)
  let ?u = "cancel_handler j w"
  note u = one_handler_cancel [OF assms(1), of j]
  let ?v = "on_attempt i (\<lambda>a. a\<lparr>at_phase := Waiting j\<rparr>) ?u"
  have ui: "at_phase (wk_attempts ?u ! i) = Created" "at_run (wk_attempts ?u ! i) = at_run (wk_attempts w ! i)"
    using assms(2,3) by (auto simp: attempts_cancel_handler at_run_def)
  have v: "wk_attempts ?v ! k = (if k = i then (wk_attempts ?u ! i)\<lparr>at_phase := Waiting j\<rparr> else wk_attempts ?u ! k)" for k
    using assms(2) by simp
  have only: "k = j" if "k < length (wk_attempts w)" "handler_alive (wk_attempts ?u ! k)" "at_run (wk_attempts ?u ! k) = at_run (wk_attempts w ! i)" for k
    using that u Some by (auto simp: one_handler_def)
  have pend: "pending (wk_attempts ?u ! i)" using ui by (simp add: pending_def)
  have rv: "at_run (wk_attempts ?v ! k) = at_run (wk_attempts ?u ! k)" "handler_alive (wk_attempts ?v ! k) = handler_alive (wk_attempts ?u ! k)"
    "pending (wk_attempts ?v ! k) \<Longrightarrow> pending (wk_attempts ?u ! k)" for k
    using pend unfolding v by (auto split: if_splits)
  have len: "length (wk_attempts ?v) = length (wk_attempts ?u)" "wk_held ?v = wk_held ?u" by simp_all
  have "one_handler ?v" unfolding one_handler_def rv(1,2) len
  proof (intro conjI allI impI)
    fix k assume "k < length (wk_attempts ?u)" "handler_alive (wk_attempts ?u ! k)"
    then show "map_of (wk_held ?u) (at_run (wk_attempts ?u ! k)) = Some k" using u unfolding one_handler_def by blast
  next
    fix k m assume "k < length (wk_attempts ?u)" "m < length (wk_attempts ?u)"
      "pending (wk_attempts ?v ! k) \<and> pending (wk_attempts ?v ! m) \<and> at_run (wk_attempts ?u ! k) = at_run (wk_attempts ?u ! m)"
    then show "k = m" using u rv(3) unfolding one_handler_def by blast
  next
    fix m j' k assume m: "m < length (wk_attempts ?u)" and k: "at_phase (wk_attempts ?v ! m) = Waiting j' \<and> k < length (wk_attempts ?u) \<and>
      handler_alive (wk_attempts ?u ! k) \<and> at_run (wk_attempts ?u ! k) = at_run (wk_attempts ?u ! m)"
    show "k = j'"
    proof (cases "m = i")
      case True
      with k have "j' = j" unfolding v by simp
      with True k ui(2) only show ?thesis by simp
    next
      case False
      with k have "at_phase (wk_attempts ?u ! m) = Waiting j'" unfolding v by simp
      with k m u show ?thesis unfolding one_handler_def by blast
    qed
  qed
  with Some show ?thesis by (simp add: begin_attempt_def)
qed

lemma one_handler_beat:
  assumes "one_handler w"
  shows "one_handler (beat_answered i answer clock w)"
proof (cases answer)
  case (Renewed l)
  have "one_handler (on_attempt i (\<lambda>a. a\<lparr>at_job := renew l clock (at_job a)\<rparr>) w)"
    by (rule one_handler_on_attempt [OF assms]) simp
  then show ?thesis by (simp add: Renewed beat_answered_def Let_def one_handler_stop_beating)
qed (use assms in \<open>simp_all add: beat_answered_def one_handler_stop_beating\<close>)

lemma one_handler_perform:
  assumes "one_handler w" "worker_ok w" "perform a w = Some w'" "calm a w"
  shows "one_handler w'"
proof -
  have dist: "distinct (map fst (wk_held w))" using assms(2) by (simp add: worker_ok_def)
  note same = one_handler_same [OF assms(1)] and upd = one_handler_on_attempt [OF assms(1)]
  show ?thesis
  proof (cases a)
    case Stops
    with assms(3) show ?thesis by (auto simp: stop_def intro: same)
  next
    case TakesSlot
    with assms(3) show ?thesis by (auto simp: slot_def split: if_splits intro: same)
  next
    case (ClaimAnswered x)
    with assms show ?thesis by (auto intro: one_handler_claim)
  next
    case IdleOver
    with assms(3) show ?thesis by (auto intro: same)
  next
    case (Begins i clock)
    with assms show ?thesis by (auto simp: attempt_is_def intro: one_handler_begin)
  next
    case (Proceeds i clock)
    with assms(3) obtain j where i: "i < length (wk_attempts w)" "at_phase (wk_attempts w ! i) = Waiting j" "ended_handler (wk_attempts w ! j)"
      and w': "w' = start_handler i clock w" by (auto simp: attempt_is_def split: phase.splits)
    then have "\<not> handler_alive (wk_attempts w ! j)" by (auto simp: ended_handler_def handler_alive_def)
    with i(1,2) have "at_run (wk_attempts w ! k) \<noteq> at_run (wk_attempts w ! i)"
      if "k < length (wk_attempts w)" "handler_alive (wk_attempts w ! k)" for k
      using that assms(1) unfolding one_handler_def by blast
    then show ?thesis unfolding w' using i(1,2) by (intro one_handler_starts [OF assms(1)]) (auto simp: pending_def)
  next
    case (HandlerEnds i x)
    with assms(3) show ?thesis by (auto simp: attempt_is_def intro!: upd)
  next
    case (Checkpoints i l clock)
    with assms(3) show ?thesis by (auto intro!: upd)
  next
    case (Beats i answer clock)
    with assms show ?thesis by (auto intro: one_handler_beat)
  next
    case (Expires i clock)
    with assms(3) show ?thesis by (auto simp: expire_def at_run_def handler_alive_def pending_def split: execution.splits intro!: upd)
  next
    case (Reacts i)
    then have i: "i < length (wk_attempts w)" "\<not> handler_alive (wk_attempts w ! i)" and w': "w' = react i w"
      using assms(3) by (auto simp: attempt_is_def ended_handler_def handler_alive_def)
    show ?thesis
    proof (cases "ending (wk_attempts w ! i)")
      case None
      with i show ?thesis by (auto simp: w' react_def intro!: one_handler_finish [OF assms(1) dist])
    next
      case (Some x)
      then obtain st e where x: "ending (wk_attempts w ! i) = Some (st, e)" by (cases x) auto
      have "one_handler (w\<lparr>wk_calls := wk_calls w @ [Ends i (at_run (wk_attempts w ! i)) st e]\<rparr>)" by (rule same) auto
      then show ?thesis by (auto simp: w' react_def x intro: one_handler_on_attempt)
    qed
  next
    case (EndAnswered i)
    then have i: "i < length (wk_attempts w)" "at_phase (wk_attempts w ! i) = Sending" and w': "w' = finish_attempt i w"
      using assms(3) by (auto simp: attempt_is_def)
    with worker_ok_attempt [OF assms(2) i(1)] show ?thesis
      by (auto simp: attempt_ok_def ended_handler_def handler_alive_def intro!: one_handler_finish [OF assms(1) dist])
  next
    case (WindsDown over)
    then have w': "w' = release_held w" using assms(3) by simp
    show ?thesis unfolding w' release_held_def Let_def
      by (rule one_handler_same [OF one_handler_fold_cancel [OF assms(1), of "map snd (wk_held w)"]]) simp_all
  next
    case SendsReleases
    with assms(3) show ?thesis by (auto simp: send_releases_def split: loop_at.splits intro: same)
  next
    case TornDown
    then have w': "w' = tear_down w" using assms(3) by simp
    show ?thesis unfolding w'
      by (rule one_handler_shrinks [OF assms(1)])
        (auto simp: tear_down_def tear_def at_run_def handler_alive_def pending_def split: execution.splits)
  next
    case (TornOut i)
    then have i: "i < length (wk_attempts w)" "at_phase (wk_attempts w ! i) \<noteq> Working" and w': "w' = finish_attempt i w"
      using assms(3) by (auto simp: attempt_is_def out_of_handler_def)
    with alive_working [OF worker_ok_attempt [OF assms(2) i(1)]] show ?thesis
      by (auto intro!: one_handler_finish [OF assms(1) dist])
  qed
qed

lemma one_handler_performs:
  "one_handler w \<Longrightarrow> worker_ok w \<Longrightarrow> performs as w = Some w' \<Longrightarrow> calmly as w \<Longrightarrow> one_handler w'"
  by (induction as arbitrary: w) (auto split: option.splits dest: one_handler_perform worker_ok_perform)

lemma one_handler_new: "new_worker agents c cpus secs wid = Some w \<Longrightarrow> one_handler w"
  by (auto simp: new_worker_def one_handler_def Let_def split: if_splits)

text \<open>C18. One handler a run: a worker whose claims never answer a run that one of its own attempts is still
  to start never has two handlers of one run going, although the service may give it again a run whose
  lease lapsed while its handler works; the earlier handler has ended before the later starts.\<close>

theorem one_handler_per_run:
  assumes "new_worker agents concurrency cpus lease_secs worker_id = Some w0" "performs as w0 = Some w" "calmly as w0"
    and "i < length (wk_attempts w)" "k < length (wk_attempts w)" "handler_alive (wk_attempts w ! i)" "handler_alive (wk_attempts w ! k)"
    and "at_run (wk_attempts w ! i) = at_run (wk_attempts w ! k)"
  shows "i = k"
proof -
  have "one_handler w"
    using one_handler_performs [OF one_handler_new [OF assms(1)] worker_ok_new [OF assms(1)] assms(2,3)] .
  with assms(4-8) have "map_of (wk_held w) (at_run (wk_attempts w ! k)) = Some i" "map_of (wk_held w) (at_run (wk_attempts w ! k)) = Some k"
    unfolding one_handler_def by metis+
  then show ?thesis by simp
qed

section \<open>What a worker writes\<close>

text \<open>A lease told the worker that the run's cancel was asked for: the claim's, a heartbeat's or a
  checkpoint's.\<close>

definition heard_cancel :: "action list \<Rightarrow> nat \<Rightarrow> attempt \<Rightarrow> bool" where
  "heard_cancel as i a \<longleftrightarrow> cancel_requested (snd (at_claimed a)) \<or>
     (\<exists>l clock. cancel_requested l \<and> (Beats i (Renewed l) clock \<in> set as \<or> Checkpoints i l clock \<in> set as))"

definition told :: "action list \<Rightarrow> nat \<Rightarrow> attempt \<Rightarrow> bool" where
  "told as i a \<longleftrightarrow>
     (job_cancel_requested (at_job a) \<longrightarrow> heard_cancel as i a) \<and>
     (at_expired a \<or> at_thrown a = TimeThrown \<longrightarrow> (\<exists>clock. Expires i clock \<in> set as))"

lemma told_more: "told as i a \<Longrightarrow> told (as @ bs) i a"
  unfolding told_def heard_cancel_def by (metis UnCI set_append)

lemma told_cancel [simp]: "told as i (a\<lparr>at_execution := cancelled (at_execution a)\<rparr>) = told as i a"
  by (auto simp: told_def heard_cancel_def)

lemma told_fields [simp]:
  "told as i (a\<lparr>at_phase := p\<rparr>) = told as i a" "told as i (a\<lparr>at_beating := b\<rparr>) = told as i a"
  "told as i (a\<lparr>at_phase := p, at_beating := b\<rparr>) = told as i a"
  by (simp_all add: told_def heard_cancel_def)

lemma told_cancel_handler:
  "i < length (wk_attempts w) \<Longrightarrow> told as i (wk_attempts (cancel_handler j w) ! i) = told as i (wk_attempts w ! i)"
  by (simp add: attempts_cancel_handler)

lemma told_stop_beating:
  "i < length (wk_attempts w) \<Longrightarrow> told as i (wk_attempts (stop_beating j w) ! i) = told as i (wk_attempts w ! i)"
  by (cases "i = j") (simp_all add: stop_beating_def told_cancel_handler)

lemma renew_cancel [simp]: "job_cancel_requested (renew l clock j) = cancel_requested l"
  by (simp add: job_cancel_requested_def renew_def)

lemma told_start:
  assumes "i < length (wk_attempts w)" "told as i (wk_attempts w ! i)"
  shows "told as i (wk_attempts (start_handler j clock w) ! i)"
  using assms by (cases "i = j") (auto simp: start_handler_parts told_def heard_cancel_def)

lemma told_perform:
  assumes "perform a w = Some w'" "i < length (wk_attempts w)" "told as i (wk_attempts w ! i)"
  shows "told (as @ [a]) i (wk_attempts w' ! i)"
proof -
  note old = told_more [OF assms(3), of "[a]"]
  have renewed: "told (as @ [a]) i ((wk_attempts w ! i)\<lparr>at_job := renew l clock j\<rparr>)"
    if "a = Beats i (Renewed l) clock \<or> a = Checkpoints i l clock" for l clock j
    using that old by (auto simp: told_def heard_cancel_def)
  show ?thesis
  proof (cases a)
    case (ClaimAnswered x)
    with assms old show ?thesis by (auto simp: claim_answered_def nth_append split: option.splits)
  next
    case (Begins j clock)
    with assms(1,2) old show ?thesis
      by (cases "i = j") (auto simp: begin_attempt_def told_cancel_handler intro: told_start split: option.splits)
  next
    case (Proceeds j clock)
    with assms(1,2) old show ?thesis by (auto intro: told_start)
  next
    case (HandlerEnds j x)
    with assms(1,2) old show ?thesis by (cases "i = j") (auto simp: told_def heard_cancel_def)
  next
    case (Checkpoints j l clock)
    with assms(1,2) old renewed show ?thesis by (cases "i = j") auto
  next
    case (Beats j answer clock)
    show ?thesis
    proof (cases answer)
      case (Renewed l)
      let ?u = "on_attempt j (\<lambda>a. a\<lparr>at_job := renew l clock (at_job a)\<rparr>) w"
      have "told (as @ [a]) i (wk_attempts ?u ! i)" using assms(2) old renewed Beats Renewed by (cases "i = j") auto
      then show ?thesis using assms(1,2) Beats Renewed
        by (auto simp: beat_answered_def Let_def told_stop_beating split: if_splits)
    qed (use assms(1,2) old Beats in \<open>auto simp: beat_answered_def told_stop_beating split: if_splits\<close>)
  next
    case (Expires j clock)
    with assms(1,2) old show ?thesis
      by (cases "i = j") (auto simp: expire_def told_def heard_cancel_def split: execution.splits if_splits)
  next
    case (Reacts j)
    with assms(1,2) old show ?thesis
      by (cases "i = j") (auto simp: react_def finish_attempt_def Let_def split: option.splits)
  next
    case (EndAnswered j)
    with assms(1,2) old show ?thesis by (cases "i = j") (auto simp: finish_attempt_def Let_def)
  next
    case (WindsDown over)
    with assms(1,2) old show ?thesis by (auto simp: release_held_def Let_def attempts_fold_cancel)
  next
    case TornDown
    with assms(1,2) old show ?thesis
      by (auto simp: tear_down_def tear_def told_def heard_cancel_def split: execution.splits)
  next
    case (TornOut j)
    with assms(1,2) old show ?thesis by (cases "i = j") (auto simp: finish_attempt_def Let_def)
  qed (use assms(1) old in \<open>auto simp: stop_def slot_def send_releases_def split: if_splits loop_at.splits\<close>)
qed

text \<open>Why the worker ended a run as it did.\<close>

definition reason :: "action list \<Rightarrow> nat \<Rightarrow> attempt \<Rightarrow> run_status \<Rightarrow> agent_error option \<Rightarrow> bool" where
  "reason as i a st e \<longleftrightarrow> (\<exists>x. at_execution a = Done x) \<and> (
     (st = CANCELLED \<and> e = None \<and> heard_cancel as i a \<and> at_execution a = Done WasCancelled) \<or>
     (st = TIMEOUT \<and> e = Some OUT_OF_TIME \<and> (\<exists>clock. Expires i clock \<in> set as)) \<or>
     (st = ERROR \<and> (\<exists>err. e = Some err \<and> at_execution a = Done (Raised err))))"

lemma ending_reason:
  assumes "told as i a" "ended_handler a" "ending a = Some (st, e)"
  shows "reason as i a st e"
  using assms by (auto simp: ending_def told_def reason_def ended_handler_def split: if_splits execution.splits outcome.splits)

lemma reason_more:
  "reason as i a st e \<Longrightarrow> at_claimed b = at_claimed a \<Longrightarrow> (\<And>y. at_execution a = Done y \<Longrightarrow> at_execution b = Done y) \<Longrightarrow>
     reason (as @ [x]) i b st e"
  unfolding reason_def heard_cancel_def by auto

fun ends_of :: "call list \<Rightarrow> nat list" where
  "ends_of [] = []"
| "ends_of (Ends i _ _ _ # cs) = i # ends_of cs"
| "ends_of (_ # cs) = ends_of cs"

lemma ends_of_append [simp]: "ends_of (cs @ ds) = ends_of cs @ ends_of ds"
  by (induction cs rule: ends_of.induct) auto

lemma ends_of_releases [simp]: "ends_of (map (\<lambda>j. LetsGo j (f j)) js) = []"
  by (induction js) auto

lemma set_ends_of: "i \<in> set (ends_of cs) \<longleftrightarrow> (\<exists>run st e. Ends i run st e \<in> set cs)"
  by (induction cs rule: ends_of.induct) auto

definition calls_ok :: "action list \<Rightarrow> worker \<Rightarrow> bool" where
  "calls_ok as w \<longleftrightarrow> distinct (ends_of (wk_calls w)) \<and>
     (\<forall>i run st e. Ends i run st e \<in> set (wk_calls w) \<longrightarrow>
        i < length (wk_attempts w) \<and> run = at_run (wk_attempts w ! i) \<and>
        at_phase (wk_attempts w ! i) \<in> {Sending, Finished} \<and> reason as i (wk_attempts w ! i) st e)"

lemma at_claimed_cancel_handler [simp]:
  "i < length (wk_attempts w) \<Longrightarrow> at_claimed (wk_attempts (cancel_handler j w) ! i) = at_claimed (wk_attempts w ! i)"
  "i < length (wk_attempts w) \<Longrightarrow> at_phase (wk_attempts (cancel_handler j w) ! i) = at_phase (wk_attempts w ! i)"
  "i < length (wk_attempts w) \<Longrightarrow> at_execution (wk_attempts (cancel_handler j w) ! i) = Done x \<longleftrightarrow> at_execution (wk_attempts w ! i) = Done x"
  by (simp_all add: attempts_cancel_handler)

lemma stop_beating_simps [simp]:
  "length (wk_attempts (stop_beating j w)) = length (wk_attempts w)" "wk_calls (stop_beating j w) = wk_calls w"
  "i < length (wk_attempts w) \<Longrightarrow> at_claimed (wk_attempts (stop_beating j w) ! i) = at_claimed (wk_attempts w ! i)"
  "i < length (wk_attempts w) \<Longrightarrow> at_phase (wk_attempts (stop_beating j w) ! i) = at_phase (wk_attempts w ! i)"
  "i < length (wk_attempts w) \<Longrightarrow> at_execution (wk_attempts (stop_beating j w) ! i) = Done x \<longleftrightarrow> at_execution (wk_attempts w ! i) = Done x"
  by (cases "i = j"; simp add: stop_beating_def)+

lemma expire_simps [simp]:
  "length (wk_attempts (expire j w)) = length (wk_attempts w)" "wk_calls (expire j w) = wk_calls w"
  "i < length (wk_attempts w) \<Longrightarrow> at_claimed (wk_attempts (expire j w) ! i) = at_claimed (wk_attempts w ! i)"
  "i < length (wk_attempts w) \<Longrightarrow> at_phase (wk_attempts (expire j w) ! i) = at_phase (wk_attempts w ! i)"
  "i < length (wk_attempts w) \<Longrightarrow> at_execution (wk_attempts (expire j w) ! i) = Done x \<longleftrightarrow> at_execution (wk_attempts w ! i) = Done x"
  by (cases "i = j"; auto simp: expire_def split: execution.split)+

lemma finish_attempt_parts [simp]:
  "length (wk_attempts (finish_attempt j w)) = length (wk_attempts w)" "wk_calls (finish_attempt j w) = wk_calls w"
  "i < length (wk_attempts w) \<Longrightarrow> at_claimed (wk_attempts (finish_attempt j w) ! i) = at_claimed (wk_attempts w ! i)"
  "i < length (wk_attempts w) \<Longrightarrow>
     at_phase (wk_attempts (finish_attempt j w) ! i) = (if i = j then Finished else at_phase (wk_attempts w ! i))"
  "i < length (wk_attempts w) \<Longrightarrow> at_execution (wk_attempts (finish_attempt j w) ! i) = at_execution (wk_attempts w ! i)"
  by (cases "i = j"; simp add: finish_attempt_def Let_def)+

lemma tear_simps [simp]: "at_claimed (tear a) = at_claimed a" "at_phase (tear a) = at_phase a"
  "at_execution (tear a) = Done x \<longleftrightarrow> at_execution a = Done x"
  by (auto simp: tear_def split: execution.split)

text \<open>A task that has sent its ending or is finished stays so, and no step forgets what an attempt claimed.\<close>

lemma perform_keeps:
  assumes "perform a w = Some w'" "i < length (wk_attempts w)"
  shows "i < length (wk_attempts w') \<and> at_claimed (wk_attempts w' ! i) = at_claimed (wk_attempts w ! i) \<and>
    (at_phase (wk_attempts w ! i) \<in> {Sending, Finished} \<longrightarrow> at_phase (wk_attempts w' ! i) \<in> {Sending, Finished} \<and>
       (\<forall>x. at_execution (wk_attempts w ! i) = Done x \<longrightarrow> at_execution (wk_attempts w' ! i) = Done x))"
  using assms
  by (cases a)
    (auto simp: stop_def slot_def claim_answered_def nth_append begin_attempt_def start_handler_parts nth_list_update
      beat_answered_def Let_def react_def attempt_is_def release_held_def attempts_fold_cancel send_releases_def tear_down_def handler_alive_def
      split: if_splits option.splits beat_answer.splits loop_at.splits phase.splits)

text \<open>Only these two actions call the service.\<close>

lemma perform_calls:
  assumes "perform a w = Some w'"
  shows "wk_calls w' = wk_calls w @
    (case a of
       Reacts i \<Rightarrow> (case ending (wk_attempts w ! i) of None \<Rightarrow> [] | Some (st, e) \<Rightarrow> [Ends i (at_run (wk_attempts w ! i)) st e])
     | SendsReleases \<Rightarrow> (case wk_loop w of Releasing js \<Rightarrow> map (\<lambda>j. LetsGo j (at_run (wk_attempts w ! j))) js | _ \<Rightarrow> [])
     | _ \<Rightarrow> [])"
  using assms
  by (cases a)
    (auto simp: stop_def slot_def claim_answered_def begin_attempt_def start_handler_parts
      beat_answered_def Let_def react_def release_held_def send_releases_def tear_down_def
      split: if_splits option.splits beat_answer.splits loop_at.splits)

lemma calls_ok_perform:
  assumes "calls_ok as w" "\<And>i. i < length (wk_attempts w) \<Longrightarrow> told as i (wk_attempts w ! i)" "perform a w = Some w'"
  shows "calls_ok (as @ [a]) w'"
proof (cases "\<exists>i st e. a = Reacts i \<and> ending (wk_attempts w ! i) = Some (st, e)")
  case False
  then obtain rest where calls: "wk_calls w' = wk_calls w @ rest" and rest: "ends_of rest = []"
    using perform_calls [OF assms(3)] by (cases a) (auto split: option.splits loop_at.splits)
  from rest have none: "Ends i run st e \<notin> set rest" for i run st e using set_ends_of [of i rest] by auto
  show ?thesis unfolding calls_ok_def
  proof (intro conjI allI impI)
    show "distinct (ends_of (wk_calls w'))" using assms(1) rest by (simp add: calls calls_ok_def)
    fix i run st e assume "Ends i run st e \<in> set (wk_calls w')"
    then have old: "i < length (wk_attempts w)" "run = at_run (wk_attempts w ! i)"
      "at_phase (wk_attempts w ! i) \<in> {Sending, Finished}" "reason as i (wk_attempts w ! i) st e"
      using none assms(1) unfolding calls_ok_def calls set_append by blast+
    with perform_keeps [OF assms(3) old(1)] reason_more [OF old(4)]
    show "i < length (wk_attempts w')" "run = at_run (wk_attempts w' ! i)" "at_phase (wk_attempts w' ! i) \<in> {Sending, Finished}"
      "reason (as @ [a]) i (wk_attempts w' ! i) st e" by (auto simp: at_run_def)
  qed
next
  case True
  then obtain j st e where a: "a = Reacts j" and x: "ending (wk_attempts w ! j) = Some (st, e)" by blast
  with assms(3) have j: "j < length (wk_attempts w)" "at_phase (wk_attempts w ! j) = Working" "ended_handler (wk_attempts w ! j)" and w': "w' = react j w"
    by (auto simp: attempt_is_def)
  have calls: "wk_calls w' = wk_calls w @ [Ends j (at_run (wk_attempts w ! j)) st e]" by (simp add: w' react_def x)
  have jj: "at_phase (wk_attempts w' ! j) = Sending" "at_claimed (wk_attempts w' ! j) = at_claimed (wk_attempts w ! j)"
    "j < length (wk_attempts w')" "at_execution (wk_attempts w' ! j) = at_execution (wk_attempts w ! j)"
    using j by (simp_all add: w' react_def x)
  have new: "j \<notin> set (ends_of (wk_calls w))" using assms(1) j(2) by (fastforce simp: calls_ok_def set_ends_of)
  show ?thesis unfolding calls_ok_def
  proof (intro conjI allI impI)
    show "distinct (ends_of (wk_calls w'))" using assms(1) new by (simp add: calls calls_ok_def)
    fix i run st' e' assume "Ends i run st' e' \<in> set (wk_calls w')"
    then consider "i = j" "run = at_run (wk_attempts w ! j)" "st' = st" "e' = e" | "Ends i run st' e' \<in> set (wk_calls w)"
      by (auto simp: calls)
    then have "i < length (wk_attempts w') \<and> run = at_run (wk_attempts w' ! i) \<and> at_phase (wk_attempts w' ! i) \<in> {Sending, Finished} \<and>
        reason (as @ [a]) i (wk_attempts w' ! i) st' e'"
    proof cases
      case 1
      from ending_reason [OF assms(2) [OF j(1)] j(3) x] jj(2,4) have "reason (as @ [a]) j (wk_attempts w' ! j) st e" by (auto intro: reason_more)
      with 1 jj show ?thesis by (simp add: at_run_def)
    next
      case 2
      then have old: "i < length (wk_attempts w)" "run = at_run (wk_attempts w ! i)"
        "at_phase (wk_attempts w ! i) \<in> {Sending, Finished}" "reason as i (wk_attempts w ! i) st' e'"
        using assms(1) unfolding calls_ok_def by blast+
      with perform_keeps [OF assms(3) old(1)] reason_more [OF old(4)] show ?thesis by (auto simp: at_run_def)
    qed
    then show "i < length (wk_attempts w')" "run = at_run (wk_attempts w' ! i)" "at_phase (wk_attempts w' ! i) \<in> {Sending, Finished}"
      "reason (as @ [a]) i (wk_attempts w' ! i) st' e'" by blast+
  qed
qed

lemma perform_new:
  assumes "perform a w = Some w'" "i < length (wk_attempts w')" "\<not> i < length (wk_attempts w)"
  shows "\<exists>c. wk_attempts w' ! i = new_attempt c"
  using assms
  by (cases a)
    (auto simp: stop_def slot_def claim_answered_def nth_append begin_attempt_def start_handler_parts
      beat_answered_def Let_def react_def release_held_def send_releases_def tear_down_def
      split: if_splits option.splits beat_answer.splits loop_at.splits)

lemma told_new: "told as i (new_attempt c)"
  by (simp add: told_def new_attempt_def job_cancel_requested_def)

lemma history:
  assumes "new_worker agents concurrency cpus lease_secs worker_id = Some w0" "performs as w0 = Some w"
  shows "calls_ok as w \<and> (\<forall>i < length (wk_attempts w). told as i (wk_attempts w ! i))"
  using assms(2)
proof (induction as arbitrary: w rule: rev_induct)
  case Nil
  with assms(1) show ?case by (auto simp: new_worker_def calls_ok_def Let_def split: if_splits)
next
  case (snoc a as)
  then obtain v where v: "performs as w0 = Some v" "perform a v = Some w" by (auto simp: performs_snoc)
  with snoc.IH have ih: "calls_ok as v" "\<And>i. i < length (wk_attempts v) \<Longrightarrow> told as i (wk_attempts v ! i)" by auto
  have "told (as @ [a]) i (wk_attempts w ! i)" if "i < length (wk_attempts w)" for i
    using told_perform [OF v(2)] ih(2) perform_new [OF v(2) that] told_new by metis
  with calls_ok_perform [OF ih v(2)] show ?case by blast
qed

text \<open>C19. What a worker writes of a run it has a reason for, and writes once: each attempt is ended by the
  worker at most once, \<open>CANCELLED\<close> only when its handler was cancelled and a lease had said that the
  cancel was asked for, \<open>TIMEOUT\<close> only when its working time was over, \<open>ERROR\<close> only with what its
  handler raised, and in no other way. (So a handler stopped because its lease was lost, or could not be renewed, is
  written about only when its working time was over too, a cancel had been asked for, or it raised something of
  its own instead of ending as cancelled.)\<close>

theorem worker_writes:
  assumes "new_worker agents concurrency cpus lease_secs worker_id = Some w0" "performs as w0 = Some w"
  shows "distinct (ends_of (wk_calls w)) \<and>
    (\<forall>i run st e. Ends i run st e \<in> set (wk_calls w) \<longrightarrow>
       i < length (wk_attempts w) \<and> run = at_run (wk_attempts w ! i) \<and>
       (case at_execution (wk_attempts w ! i) of
          Done outcome \<Rightarrow>
            st = TIMEOUT \<and> e = Some OUT_OF_TIME \<and> (\<exists>clock. Expires i clock \<in> set as) \<or>
            st = ERROR \<and> (\<exists>err. e = Some err \<and> outcome = Raised err) \<or>
            st = CANCELLED \<and> e = None \<and> outcome = WasCancelled \<and>
              (cancel_requested (snd (at_claimed (wk_attempts w ! i))) \<or>
               (\<exists>l clock. cancel_requested l \<and> (Beats i (Renewed l) clock \<in> set as \<or> Checkpoints i l clock \<in> set as)))
        | _ \<Rightarrow> False))"
proof -
  have calls: "calls_ok as w" using history [OF assms] by blast
  have ok: "worker_ok w" using worker_ok_performs [OF assms(2)] worker_ok_new [OF assms(1)] by blast
  show ?thesis
  proof (intro conjI allI impI)
    show "distinct (ends_of (wk_calls w))" using calls by (simp add: calls_ok_def)
    fix i run st e assume "Ends i run st e \<in> set (wk_calls w)"
    then have c: "i < length (wk_attempts w)" "run = at_run (wk_attempts w ! i)"
      "at_phase (wk_attempts w ! i) \<in> {Sending, Finished}" "reason as i (wk_attempts w ! i) st e"
      using calls unfolding calls_ok_def by blast+
    then show "i < length (wk_attempts w)" "run = at_run (wk_attempts w ! i)" by auto
    show "case at_execution (wk_attempts w ! i) of
          Done outcome \<Rightarrow>
            st = TIMEOUT \<and> e = Some OUT_OF_TIME \<and> (\<exists>clock. Expires i clock \<in> set as) \<or>
            st = ERROR \<and> (\<exists>err. e = Some err \<and> outcome = Raised err) \<or>
            st = CANCELLED \<and> e = None \<and> outcome = WasCancelled \<and>
              (cancel_requested (snd (at_claimed (wk_attempts w ! i))) \<or>
               (\<exists>l clock. cancel_requested l \<and> (Beats i (Renewed l) clock \<in> set as \<or> Checkpoints i l clock \<in> set as)))
        | _ \<Rightarrow> False"
      using c(4) by (auto simp: reason_def heard_cancel_def split: execution.split)
  qed
qed

section \<open>A stop\<close>

definition over :: "loop_at \<Rightarrow> bool" where
  "over l \<longleftrightarrow> l \<noteq> AtSlot \<and> l \<noteq> Claiming \<and> l \<noteq> Idling"

lemmas perform_parts =
  stop_def slot_def claim_answered_def begin_attempt_def start_handler_parts beat_answered_def stop_beating_def expire_def
  react_def finish_attempt_def release_held_def send_releases_def tear_down_def Let_def

lemma perform_stopping:
  assumes "perform a w = Some w'" "wk_stopping w"
  shows "wk_stopping w' \<and> length (wk_attempts w') + (if wk_loop w' = Claiming then 1 else 0) \<le>
    length (wk_attempts w) + (if wk_loop w = Claiming then 1 else 0)"
  using assms by (cases a) (auto simp: perform_parts split: if_splits option.splits beat_answer.splits loop_at.splits)

lemma performs_stopping:
  "performs as w = Some w' \<Longrightarrow> wk_stopping w \<Longrightarrow>
     length (wk_attempts w') + (if wk_loop w' = Claiming then 1 else 0) \<le> length (wk_attempts w) + (if wk_loop w = Claiming then 1 else 0)"
proof (induction as arbitrary: w)
  case (Cons a as)
  then obtain v where v: "perform a w = Some v" "performs as v = Some w'" by (auto split: option.splits)
  from perform_stopping [OF v(1) Cons.prems(2)] Cons.IH [OF v(2)] show ?case by linarith
qed simp

text \<open>Once the loop is over, nothing more is claimed, and what is to be released stays so until it is.\<close>

lemma perform_over:
  assumes "perform a w = Some w'" "wk_loop w = Releasing js \<or> wk_loop w = Ended"
  shows "(wk_loop w' = Releasing js \<or> wk_loop w' = Ended) \<and> length (wk_attempts w') = length (wk_attempts w)"
  using assms by (cases a) (auto simp: perform_parts split: if_splits option.splits beat_answer.splits loop_at.splits)

lemma performs_over:
  "performs as w = Some w' \<Longrightarrow> wk_loop w = Releasing js \<or> wk_loop w = Ended \<Longrightarrow>
     (wk_loop w' = Releasing js \<or> wk_loop w' = Ended) \<and> length (wk_attempts w') = length (wk_attempts w)"
proof (induction as arbitrary: w)
  case (Cons a as)
  then obtain v where v: "perform a w = Some v" "performs as v = Some w'" by (auto split: option.splits)
  from perform_over [OF v(1) Cons.prems(2)] Cons.IH [OF v(2)] show ?case by simp
qed simp

lemma performs_keeps_claimed:
  "performs as w = Some w' \<Longrightarrow> i < length (wk_attempts w) \<Longrightarrow> at_run (wk_attempts w' ! i) = at_run (wk_attempts w ! i)"
proof (induction as arbitrary: w)
  case (Cons a as)
  then obtain v where v: "perform a w = Some v" "performs as v = Some w'" by (auto split: option.splits)
  from perform_keeps [OF v(1) Cons.prems(2)] Cons.IH [OF v(2)] show ?case by (simp add: at_run_def)
qed simp

text \<open>C20. A stopping worker stops and releases the handlers still going: of a worker to which no claim answered a
  run that one of its own attempts was still waiting to start (\<open>calmly\<close>), every handler going when the grace is over
  is told to stop, and its run is released once every task has ended; nothing is claimed after the loop has
  wound down; and from the stop on, at most the claim already asked for is taken. An attempt that is still waiting to
  start its handler when the grace is over is not among them: it starts afterwards, and the releases wait for it (C40).\<close>

theorem stop_releases:
  assumes "new_worker agents concurrency cpus lease_secs worker_id = Some w0" "performs as w0 = Some w" "calmly as w0"
    and "perform (WindsDown grace_over) w = Some w1" "performs bs w1 = Some v" "perform SendsReleases v = Some u"
  shows "(\<forall>i < length (wk_attempts w). handler_alive (wk_attempts w ! i) \<longrightarrow>
      at_execution (wk_attempts w1 ! i) = Stopping \<and> LetsGo i (at_run (wk_attempts w ! i)) \<in> set (wk_calls u)) \<and>
    (\<forall>a\<in>set (wk_attempts u). at_phase a = Finished) \<and> length (wk_attempts u) = length (wk_attempts w) \<and>
    (\<forall>cs x. wk_stopping x \<and> performs cs x = Some w \<longrightarrow>
       length (wk_attempts w) \<le> length (wk_attempts x) + (if wk_loop x = Claiming then 1 else 0))"
proof -
  let ?js = "map snd (wk_held w)"
  have ok: "one_handler w"
    using one_handler_performs [OF one_handler_new [OF assms(1)] worker_ok_new [OF assms(1)] assms(2,3)] .
  have w1: "w1 = (fold cancel_handler ?js w)\<lparr>wk_loop := Releasing ?js\<rparr>"
    using assms(4) by (simp add: release_held_def Let_def)
  note over = performs_over [OF assms(5), of ?js]
  from assms(6) obtain js where v: "wk_loop v = Releasing js" "unfinished v = []" "u = send_releases js v"
    by (auto split: loop_at.splits)
  with over have js: "js = ?js" and len: "length (wk_attempts v) = length (wk_attempts w)" by (auto simp: w1)
  have "at_execution (wk_attempts w1 ! i) = Stopping \<and> LetsGo i (at_run (wk_attempts w ! i)) \<in> set (wk_calls u)"
    if i: "i < length (wk_attempts w)" "handler_alive (wk_attempts w ! i)" for i
  proof -
    from ok i have "map_of (wk_held w) (at_run (wk_attempts w ! i)) = Some i" by (simp add: one_handler_def)
    then have held: "i \<in> set ?js" by (force dest: map_of_SomeD)
    have "at_run (wk_attempts v ! i) = at_run (wk_attempts w ! i)"
      using performs_keeps_claimed [OF assms(5)] i(1) by (simp add: w1 attempts_fold_cancel)
    then have "LetsGo i (at_run (wk_attempts w ! i)) \<in> set (wk_calls u)" using held by (force simp: v(3) js send_releases_def)
    moreover have "at_execution (wk_attempts w1 ! i) = Stopping"
      using i held by (auto simp: w1 attempts_fold_cancel handler_alive_def)
    ultimately show ?thesis by blast
  qed
  moreover have "at_phase a = Finished" if "a \<in> set (wk_attempts u)" for a
    using that v(2) by (auto simp: v(3) send_releases_def unfinished_def filter_empty_conv)
  moreover have "length (wk_attempts u) = length (wk_attempts w)" using len by (simp add: v(3) send_releases_def)
  moreover have "length (wk_attempts w) \<le> length (wk_attempts x) + (if wk_loop x = Claiming then 1 else 0)"
    if "wk_stopping x" "performs cs x = Some w" for x cs using performs_stopping [OF that(2,1)] by linarith
  ultimately show ?thesis by blast
qed

section \<open>Concrete workers\<close>

definition demo_claimed :: "run_record \<times> lease" where
  "demo_claimed = (record_of demo_leased_row 1, \<lparr>lease_run_id = ''run_1'', lease_worker_id = ''w1'', lease_until = 60000000,
     remaining_seconds = Some 10, cancel_requested = False\<rparr>)"

definition demo_cancel :: lease where
  "demo_cancel = (snd demo_claimed)\<lparr>cancel_requested := True\<rparr>"

definition demo_exception :: agent_error where
  "demo_exception = OUT_OF_TIME\<lparr>ae_code := ''boom''\<rparr>"

definition demo_worker :: worker where
  "demo_worker = \<lparr>wk_id = ''w1'', wk_agents = [''triage''], wk_concurrency = 3, wk_lease_seconds = 60, wk_stopping = False,
     wk_hurry = False, wk_slots = 3, wk_loop = AtSlot, wk_idle = 0, wk_held = [], wk_attempts = [], wk_calls = []\<rparr>"

lemma demo_worker_new: "new_worker [''triage''] (Some 3) None 60 ''w1'' = Some demo_worker"
  by (simp add: new_worker_def demo_worker_def)

lemma demo_claimed_parts [simp]:
  "at_run (new_attempt demo_claimed) = ''run_1''" "rec_run_id (fst demo_claimed) = ''run_1''"
  "cancel_requested (snd demo_claimed) = False" "remaining_seconds (snd demo_claimed) = Some 10"
  by (simp_all add: at_run_def new_attempt_def demo_claimed_def record_of_def demo_leased_row_def moved_def new_row_def demo_start_def Let_def)

lemmas demo_steps =
  slot_def claim_answered_def begin_attempt_def start_handler_def cancel_handler_def on_attempt_def attempt_is_def
  beat_answered_def stop_beating_def renew_def job_remaining_def job_cancel_requested_def react_def finish_attempt_def ending_def
  ended_handler_case out_of_handler_def past_until_def handler_alive_def pending_def stop_def release_held_def send_releases_def
  unfinished_def guarded_def at_run_def new_attempt_def demo_worker_def Let_def

text \<open>A run claimed, cancelled by a heartbeat, and ended as asked.\<close>

definition demo_cancelling :: "action list" where
  "demo_cancelling = [TakesSlot, ClaimAnswered (Some demo_claimed), Begins 0 0, Beats 0 (Renewed demo_cancel) 20,
     HandlerEnds 0 WasCancelled, Reacts 0]"

lemma demo_cancelling_runs:
  "\<exists>w. performs demo_cancelling demo_worker = Some w \<and> wk_calls w = [Ends 0 ''run_1'' CANCELLED None] \<and> calmly demo_cancelling demo_worker"
  using demo_claimed_parts by (simp add: demo_cancelling_def demo_steps demo_cancel_def)

theorem worker_well_formed_witness:
  "\<exists>w. performs demo_cancelling demo_worker = Some w \<and> length (filter handler_alive (wk_attempts w)) + wk_slots w \<le> 3"
proof -
  obtain w where w: "performs demo_cancelling demo_worker = Some w" using demo_cancelling_runs by blast
  from worker_well_formed [OF demo_worker_new w] w show ?thesis by (auto simp: demo_worker_def)
qed

theorem worker_writes_witness:
  "\<exists>w. performs demo_cancelling demo_worker = Some w \<and> at_execution (wk_attempts w ! 0) = Done WasCancelled"
proof -
  obtain w where w: "performs demo_cancelling demo_worker = Some w" "Ends 0 ''run_1'' CANCELLED None \<in> set (wk_calls w)"
    using demo_cancelling_runs by fastforce
  from worker_writes [OF demo_worker_new w(1)] w show ?thesis by (fastforce split: execution.splits)
qed

text \<open>Two attempts of one run, the second waiting for the first.\<close>

definition demo_again :: "action list" where
  "demo_again = [TakesSlot, ClaimAnswered (Some demo_claimed), Begins 0 0, TakesSlot, ClaimAnswered (Some demo_claimed), Begins 1 61]"

lemma demo_again_runs:
  "\<exists>w. performs (demo_again @ [HandlerEnds 0 WasCancelled, Proceeds 1 62]) demo_worker = Some w \<and>
     calmly (demo_again @ [HandlerEnds 0 WasCancelled, Proceeds 1 62]) demo_worker \<and>
     length (wk_attempts w) = 2 \<and> handler_alive (wk_attempts w ! 1) \<and> at_run (wk_attempts w ! 1) = ''run_1'' \<and> at_run (wk_attempts w ! 0) = ''run_1''"
  using demo_claimed_parts by (simp add: demo_again_def demo_steps)

theorem one_handler_per_run_witness:
  "\<exists>w. performs (demo_again @ [HandlerEnds 0 WasCancelled, Proceeds 1 62]) demo_worker = Some w \<and>
     handler_alive (wk_attempts w ! 1) \<and> \<not> handler_alive (wk_attempts w ! 0)"
proof -
  obtain w where w: "performs (demo_again @ [HandlerEnds 0 WasCancelled, Proceeds 1 62]) demo_worker = Some w"
    "calmly (demo_again @ [HandlerEnds 0 WasCancelled, Proceeds 1 62]) demo_worker"
    "length (wk_attempts w) = 2" "handler_alive (wk_attempts w ! 1)" "at_run (wk_attempts w ! 1) = ''run_1''" "at_run (wk_attempts w ! 0) = ''run_1''"
    using demo_again_runs by blast
  from one_handler_per_run [OF demo_worker_new w(1,2), of 0 1] w show ?thesis by auto
qed

text \<open>A worker stopped twice while it works a run.\<close>

lemma demo_stop:
  "\<exists>w w1 v u. performs [TakesSlot, ClaimAnswered (Some demo_claimed), Begins 0 0, Stops, Stops, TakesSlot] demo_worker = Some w \<and>
     calmly [TakesSlot, ClaimAnswered (Some demo_claimed), Begins 0 0, Stops, Stops, TakesSlot] demo_worker \<and>
     perform (WindsDown False) w = Some w1 \<and> performs [HandlerEnds 0 WasCancelled, Reacts 0] w1 = Some v \<and>
     perform SendsReleases v = Some u \<and> length (wk_attempts w) = 1 \<and> handler_alive (wk_attempts w ! 0) \<and> at_run (wk_attempts w ! 0) = ''run_1''"
  using demo_claimed_parts by (simp add: demo_steps)

theorem stop_releases_witness:
  "\<exists>w w1 v u. performs [TakesSlot, ClaimAnswered (Some demo_claimed), Begins 0 0, Stops, Stops, TakesSlot] demo_worker = Some w \<and>
     perform (WindsDown False) w = Some w1 \<and> performs [HandlerEnds 0 WasCancelled, Reacts 0] w1 = Some v \<and>
     perform SendsReleases v = Some u \<and> LetsGo 0 ''run_1'' \<in> set (wk_calls u)"
proof -
  obtain w w1 v u where w: "performs [TakesSlot, ClaimAnswered (Some demo_claimed), Begins 0 0, Stops, Stops, TakesSlot] demo_worker = Some w"
     "calmly [TakesSlot, ClaimAnswered (Some demo_claimed), Begins 0 0, Stops, Stops, TakesSlot] demo_worker"
     "perform (WindsDown False) w = Some w1" "performs [HandlerEnds 0 WasCancelled, Reacts 0] w1 = Some v" "perform SendsReleases v = Some u"
     and a: "length (wk_attempts w) = 1" "handler_alive (wk_attempts w ! 0)" "at_run (wk_attempts w ! 0) = ''run_1''"
    using demo_stop by blast
  from stop_releases [OF demo_worker_new w] a have "LetsGo 0 ''run_1'' \<in> set (wk_calls u)" by auto
  with w show ?thesis by blast
qed

section \<open>A run claimed again\<close>

lemmas step_parts =
  slot_def claim_answered_def begin_attempt_def cancel_handler_def on_attempt_def attempt_is_def start_handler_def
  guarded_def stop_def release_held_def react_def new_attempt_def ended_handler_case Let_def

text \<open>A worker at work on a run with room for more.\<close>

definition works_on :: "worker \<Rightarrow> string \<Rightarrow> nat \<Rightarrow> bool" where
  "works_on w run j \<longleftrightarrow> worker_ok w \<and> wk_loop w = AtSlot \<and> \<not> wk_stopping w \<and>
     map_of (wk_held w) run = Some j \<and> handler_alive (wk_attempts w ! j)"

lemma works_onD:
  assumes "works_on w run j"
  shows "j < length (wk_attempts w)" "at_run (wk_attempts w ! j) = run" "at_phase (wk_attempts w ! j) = Working"
    "wk_loop w = AtSlot" "\<not> wk_stopping w" "map_of (wk_held w) run = Some j"
    "\<forall>i\<in>set (map snd (wk_held w)). i < length (wk_attempts w)"
proof -
  have h: "attempt_is (\<lambda>a. held_phase a \<and> at_run a = run) j w" if "(run, j) \<in> set (wk_held w)" for run j
    using assms that by (auto simp: works_on_def worker_ok_def)
  from assms have m: "map_of (wk_held w) run = Some j" and alive: "handler_alive (wk_attempts w ! j)" and ok: "worker_ok w"
    by (auto simp: works_on_def)
  from attempt_isD [OF h [OF map_of_SomeD [OF m]]] show j: "j < length (wk_attempts w)" and "at_run (wk_attempts w ! j) = run"
    by blast+
  from alive_working [OF worker_ok_attempt [OF ok j] alive] show "at_phase (wk_attempts w ! j) = Working" .
  show "\<forall>i\<in>set (map snd (wk_held w)). i < length (wk_attempts w)" using h by (auto simp: attempt_is_def)
  show "wk_loop w = AtSlot" "\<not> wk_stopping w" "map_of (wk_held w) run = Some j" using assms by (auto simp: works_on_def)
qed

lemma alive_cancelled [simp]: "handler_alive (a\<lparr>at_execution := cancelled (at_execution a)\<rparr>) = handler_alive a"
  by (cases "at_execution a") (auto simp: handler_alive_def)

lemma claimed_run: "at_run (new_attempt c) = rec_run_id (fst c)"
  by (simp add: at_run_def new_attempt_def)

text \<open>The run claimed again: its handler is told to stop, and the new attempt waits for it.\<close>

definition waits_for :: "nat \<Rightarrow> run_record \<times> lease \<Rightarrow> attempt" where
  "waits_for j c = (new_attempt c)\<lparr>at_phase := Waiting j\<rparr>"

lemma claimed_again:
  assumes "works_on w run j" "rec_run_id (fst c) = run" "0 < wk_slots w" "wk_attempts w = xs" "length xs = n"
  shows "\<exists>w'. performs [TakesSlot, ClaimAnswered (Some c), Begins n t] w = Some w' \<and>
    wk_attempts w' = xs[j := (xs ! j)\<lparr>at_execution := cancelled (at_execution (xs ! j))\<rparr>] @ [waits_for j c] \<and>
    wk_held w' = wk_held w \<and> wk_slots w' = wk_slots w - 1 \<and> wk_calls w' = wk_calls w \<and> wk_loop w' = AtSlot \<and> \<not> wk_stopping w'"
  using assms works_onD [OF assms(1)]
  by (simp add: step_parts claimed_run [unfolded new_attempt_def] nth_append list_update_append waits_for_def at_run_def)

lemma waits_parts [simp]:
  "at_phase (waits_for j c) = Waiting j" "at_execution (waits_for j c) = NotStarted" "\<not> at_torn (waits_for j c)"
  "at_claimed (waits_for j c) = c" "at_run (waits_for j c) = rec_run_id (fst c)"
  by (simp_all add: waits_for_def new_attempt_def at_run_def)



end
