(* ===== verification/Retries.thy ===== *)
theory Retries
  imports Transport Admin_Routes Store_Properties Webhook_Properties Worker_Properties
begin

text \<open>
  What the SDK's retries do to the service. \<open>Transport.send\<close> sends a call again when its answer did not come,
  though the service may have carried it out (\<open>_transport.py\<close>: "safe for every write agent-runs takes"). A
  call is a function of the instant it arrives at and the service; \<open>resent\<close> carries it out once for every
  attempt that arrived.
\<close>

definition resent :: "(instant \<Rightarrow> service \<Rightarrow> 'a result \<times> service) \<Rightarrow> instant list \<Rightarrow> service \<Rightarrow> service" where
  "resent call ts s = foldl (\<lambda>s t. snd (call t s)) s ts"

section \<open>Writes that are safe to send again\<close>

lemma resent_same:
  assumes "\<And>t'. \<exists>a'. call t' s' = (Inr a', s')"
  shows "resent call ts s' = s' \<and> (\<exists>a'. call t' (resent call ts s') = (Inr a', s'))"
proof -
  have "snd (call t s') = s'" for t using assms [of t] by auto
  then have "foldl (\<lambda>s t. snd (call t s)) s' ts = s'" by (induction ts) auto
  with assms show ?thesis by (simp add: resent_def)
qed

lemma on_announced_again:
  assumes "on_announced C t f s = Inr (a, s')"
    and "\<And>x c d. f (store s) = Inr ((x, c), d) \<Longrightarrow> a = ok x \<Longrightarrow> \<exists>x'. g d = Inr ((x', False), d)"
  shows "\<exists>a'. transact True (on_announced C t' g) s' = (Inr a', s')"
proof -
  obtain x c d where f: "f (store s) = Inr ((x, c), d)" "a = ok x" "store s' = d"
    using assms(1) by (auto simp: on_announced_def bind_result_Inr_iff)
  from assms(2) [OF f(1,2)] obtain x' where "g d = Inr ((x', False), d)" by blast
  then show ?thesis using f(3) by (simp add: transact_def on_announced_def)
qed

text \<open>The writes of a run and of its events, and what their answer says of the run when they did what they were
  asked to: a release or a pause that found a cancel asked for ended the run instead.\<close>

fun done_as_asked :: "run_write \<Rightarrow> run_record \<Rightarrow> bool" where
  "done_as_asked (Releases _) run \<longleftrightarrow> rec_status run = QUEUED"
| "done_as_asked (Pauses _ _) run \<longleftrightarrow> rec_status run = PAUSED"
| "done_as_asked (Finishes _ w) run \<longleftrightarrow> w \<noteq> None \<or> rec_status run \<noteq> QUEUED"
| "done_as_asked _ _ \<longleftrightarrow> True"

lemma finish_run_draw: "finish_run C u tenant rid e w t d = Inr ((x, False), d') \<Longrightarrow> finish_run C u' tenant rid e w t d = Inr ((x, False), d')"
  by (auto simp: finish_run_def finish_def Let_def bind_result_Inr_iff split: if_splits prod.splits)

lemma write_again:
  assumes "lifecycle_laws C" "interrupt_laws C" "store_inv (store s)"
    and "write_route C S st u True who rid request t s = (Inr a, s')" "done_as_asked request (an_body a)"
  shows "\<exists>a'. write_route C S st u' True who rid request t' s' = (Inr a', s')"
proof (cases request)
  case (Releases body)
  with assms(4) have r: "on_announced C t (release C (acting_tenant who) rid body t) s = Inr (a, s')"
    by (auto simp: release_route_def transact_def split: sum.splits prod.splits)
  show ?thesis unfolding Releases write_route.simps release_route_def
    by (rule on_announced_again [OF r]) (use releasing_again.again [OF assms(1-3)] assms(5) Releases in \<open>auto simp: ok_def\<close>)
next
  case (Pauses body w)
  with assms(4) have r: "on_announced C t (pause C S (acting_tenant who) rid body w t) s = Inr (a, s')"
    by (auto simp: pause_route_def transact_def split: sum.splits prod.splits)
  show ?thesis unfolding Pauses write_route.simps pause_route_def
    by (rule on_announced_again [OF r]) (use pausing_again.again [OF assms(1-3)] assms(5) Pauses in \<open>auto simp: ok_def\<close>)
next
  case (Resumes body)
  with assms(4) have r: "on_announced C t (resume C S (acting_tenant who) rid body (credential who) t) s = Inr (a, s')"
    by (auto simp: resume_route_def transact_def split: sum.splits prod.splits)
  show ?thesis unfolding Resumes write_route.simps resume_route_def
    by (rule on_announced_again [OF r]) (use resuming_again.again [OF assms(1-3)] in auto)
next
  case (Cancels why)
  with assms(4) have r: "on_announced C t (cancel C (acting_tenant who) rid why (credential who) t) s = Inr (a, s')"
    by (auto simp: cancel_route_def transact_def split: sum.splits prod.splits)
  show ?thesis unfolding Cancels write_route.simps cancel_route_def
    by (rule on_announced_again [OF r]) (use cancelling_again.again [OF assms(1-3)] in auto)
next
  case (Finishes body w)
  with assms(4) have b: "bounded_payload (fin_output body) (max_payload_bytes st) = Inr ()"
    and r: "on_announced C t (finish_run C u (acting_tenant who) rid body w t) s = Inr (a, s')"
    by (auto simp: finish_route_def transact_def bind_result_Inr_iff split: sum.splits prod.splits)
  have "\<exists>a'. transact True (on_announced C t' (finish_run C u' (acting_tenant who) rid body w t')) s' = (Inr a', s')"
  proof (rule on_announced_again [OF r])
    fix x c d assume f: "finish_run C u (acting_tenant who) rid body w t (store s) = Inr ((x, c), d)" "a = ok x"
    then have "w \<noteq> None \<or> rec_status x \<noteq> QUEUED" using assms(5) Finishes by (simp add: ok_def)
    from finishing_again.again [OF assms(1-3) f(1) this, of t'] finish_run_draw
    show "\<exists>x'. finish_run C u' (acting_tenant who) rid body w t' d = Inr ((x', False), d)" by blast
  qed
  then show ?thesis using b by (simp add: Finishes finish_route_def transact_def)
qed

lemma start_again:
  assumes "store_inv (store s)" "start_route st True who body queue t s = (Inr a, s')"
  shows "\<exists>a'. start_route st True who body queue t' s' = (Inr a', s')"
proof -
  obtain run created d where start: "require_tenant who (rs_tenant_id body) = Inr ()" "require_may_act_for who (rs_on_behalf_of body) = Inr ()"
    "bounded_payload (rs_input body) (max_payload_bytes st) = Inr ()" "start body queue t True (store s) = Inr ((run, created), d)"
    "s' = s\<lparr>store := d\<rparr>"
    using assms(2) by (auto simp: start_route_def transact_def on_store_def bind_result_Inr_iff split: sum.splits prod.splits)
  from starting_again.again [OF demo_laws(1,2) assms(1) start(4), of t'] obtain run' where "start body queue t' True d = Inr ((run', False), d)" by auto
  with start show ?thesis by (simp add: start_route_def transact_def on_store_def)
qed

lemma append_again:
  assumes "store_inv (store s)" "append_events_route True who rid es w s = (Inr a, s')"
  shows "\<exists>a'. append_events_route True who rid es w s' = (Inr a', s')"
proof -
  obtain n p d where a: "append_events (acting_tenant who) rid es w (store s) = Inr ((n, p), d)" "s' = s\<lparr>store := d\<rparr>"
    using assms(2) by (auto simp: append_events_route_def transact_def on_store_def bind_result_Inr_iff split: sum.splits prod.splits)
  with append_adds_once [OF assms(1) a(1)] show ?thesis by (simp add: append_events_route_def transact_def on_store_def)
qed

lemma write_keeps_inv:
  assumes "lifecycle_laws C" "interrupt_laws C" "store_inv (store s)" "write_route C S st u True who rid request t s = (r, s')"
  shows "store_inv (store s')"
proof -
  have "store_inv (store (snd (transact True (on_announced C t f) s)))"
    if "\<And>x d. f (store s) = Inr (x, d) \<Longrightarrow> store_inv d" for f :: "db \<Rightarrow> ((run_record \<times> bool) \<times> db) result"
    using that assms(3) by (auto simp: transact_def on_announced_def bind_result_def split: sum.splits prod.splits)
  note keeps = this
  have "store_inv (store (snd (write_route C S st u True who rid request t s)))"
  proof (cases request)
    case (Finishes body w)
    have "store_inv (store (snd (transact True (on_announced C t (finish_run C u (acting_tenant who) rid body w t)) s)))"
      by (rule keeps) (rule finishing.keeps_inv [OF assms(1-3)])
    then show ?thesis using assms(3)
      by (cases "bounded_payload (fin_output body) (max_payload_bytes st)") (simp_all add: Finishes finish_route_def transact_def)
  next
    case (Releases body)
    show ?thesis unfolding Releases write_route.simps release_route_def by (rule keeps) (rule releasing.keeps_inv [OF assms(1-3)])
  next
    case (Pauses body w)
    show ?thesis unfolding Pauses write_route.simps pause_route_def by (rule keeps) (rule pausing.keeps_inv [OF assms(1-3)])
  next
    case (Resumes body)
    show ?thesis unfolding Resumes write_route.simps resume_route_def by (rule keeps) (rule resuming.keeps_inv [OF assms(1-3)])
  next
    case (Cancels why)
    show ?thesis unfolding Cancels write_route.simps cancel_route_def by (rule keeps) (rule cancelling.keeps_inv [OF assms(1-3)])
  qed
  with assms(4) show ?thesis by simp
qed

section \<open>Whatever happened in between\<close>

text \<open>A run that has ended is changed by no write.\<close>

lemma ended_run_unchanged:
  assumes "lifecycle_laws C" "store_inv d" "found tenant rid d = Inr r" "documented_final (status r)"
  shows "release C tenant rid rl t d = Inr ((x, c), d') \<Longrightarrow> d' = d \<and> \<not> c"
    and "pause C S tenant rid p w t d = Inr ((x, c), d') \<Longrightarrow> d' = d \<and> \<not> c"
    and "resume C S tenant rid q key t d = Inr ((x, c), d') \<Longrightarrow> d' = d \<and> \<not> c"
    and "cancel C tenant rid why key t d = Inr ((x, c), d') \<Longrightarrow> d' = d \<and> \<not> c"
    and "finish_run C u tenant rid e w t d = Inr ((x, c), d') \<Longrightarrow> d' = d \<and> \<not> c"
proof -
  have no: "\<not> can_become C (status r) st" for st
    unfolding lifecycle_can_become [OF assms(1)] by (rule ended_cannot_become [OF assms(4)])
  have live: "status r \<noteq> RUNNING" using assms(4) by (simp add: documented_final_iff)
  show "d' = d \<and> \<not> c" if "release C tenant rid rl t d = Inr ((x, c), d')"
    using that by (cases rule: release_Inr) (use assms(3) no live in simp_all)
  show "d' = d \<and> \<not> c" if "pause C S tenant rid p w t d = Inr ((x, c), d')"
    using that by (cases rule: pause_Inr) (use assms(3) no live in simp_all)
  show "d' = d \<and> \<not> c" if "resume C S tenant rid q key t d = Inr ((x, c), d')"
    using that by (cases rule: resume_Inr) (use assms(3) no live in simp_all)
  show "d' = d \<and> \<not> c" if "cancel C tenant rid why key t d = Inr ((x, c), d')"
    using that by (cases rule: cancel_Inr) (use assms(3) no live in simp_all)
  show "d' = d \<and> \<not> c" if "finish_run C u tenant rid e w t d = Inr ((x, c), d')"
  proof -
    from that have "finish C u tenant rid e w t d = Inr ((x, c), d')" by (simp add: finish_run_def split: if_splits)
    then show ?thesis by (cases rule: finish_Inr) (use assms(3) no in simp_all)
  qed
qed

lemma on_announced_unchanged:
  assumes "\<And>x c d. f (store s) = Inr ((x, c), d) \<Longrightarrow> d = store s \<and> \<not> c"
  shows "snd (transact True (on_announced C t f) s) = s"
proof (cases "f (store s)")
  case (Inr y)
  obtain x c d where "y = ((x, c), d)" by (metis surj_pair)
  with Inr assms [of x c d] show ?thesis by (simp add: transact_def on_announced_def)
qed (simp add: transact_def on_announced_def)

lemma ended_run_unwritten:
  assumes "lifecycle_laws C" "store_inv (store s)" "found (acting_tenant who) rid (store s) = Inr r" "documented_final (status r)"
  shows "snd (write_route C S st u True who rid request t s) = s"
proof (cases request)
  case (Finishes body w)
  show ?thesis
  proof (cases "bounded_payload (fin_output body) (max_payload_bytes st)")
    case (Inr y)
    have "snd (transact True (on_announced C t (finish_run C u (acting_tenant who) rid body w t)) s) = s"
      by (intro on_announced_unchanged) (rule ended_run_unchanged [OF assms])
    with Inr show ?thesis by (simp add: Finishes finish_route_def transact_def)
  qed (simp add: Finishes finish_route_def transact_def)
qed (auto simp: release_route_def pause_route_def resume_route_def cancel_route_def
    intro!: on_announced_unchanged dest: ended_run_unchanged [OF assms])

text \<open>An answer on record answers every repeat, or refuses it.\<close>

lemma answer_unwritten:
  assumes "lifecycle_laws C" "interrupt_laws C" "store_inv (store s)" "(keeps_run C rid)\<^sup>*\<^sup>* (store s') (store s'')"
    and "write_route C S st u True who rid (Resumes q) t s = (Inr a, s')" "store s' \<noteq> store s"
  shows "snd (write_route C S st u' True who rid (Resumes q) t' s'') = s''"
proof -
  let ?tenant = "acting_tenant who"
  obtain x c where r: "resume C S ?tenant rid q (credential who) t (store s) = Inr ((x, c), store s')"
    using assms(5) by (auto simp: resume_route_def transact_def on_announced_def bind_result_Inr_iff split: sum.splits prod.splits)
  from r assms(6) have c by (cases rule: resume_Inr) simp_all
  with r have taken: "resume C S ?tenant rid q (credential who) t (store s) = Inr ((x, True), store s')" by simp
  obtain row' k row where "found ?tenant rid (store s') = Inr row'" "awaiting row' = None" and rid: "res_run_id q = rid"
    and k: "store_inv (store s'')" "k \<in> set (resolutions (store s''))" "resolution_id k = resolution_id_of C q" "rr_tenant_id k = ?tenant"
      "rr_resolution k = q" and row: "found ?tenant rid (store s'') = Inr row"
    by (rule answer_stays [OF assms(1-3) taken assms(4)])
  from answers_on_record [OF k row rid rid refl, of S "credential who" t'] show ?thesis
    by (auto simp: resume_route_def transact_def on_announced_def split: if_splits)
qed

text \<open>A start finds the run the first one made or found, by its id or its idempotency key.\<close>

lemma started_on_record:
  assumes "start body queue t strict d = Inr ((answer, created), d')"
  shows "\<exists>r\<in>set (runs d'). collides (new_row body queue t') r \<and> run_id r = rec_run_id answer"
proof -
  have key: "collides (new_row body queue t') r"
    if "truthy (rs_idempotency_key body)" "tenant_id r = rs_tenant_id body" "idempotency_key r = rs_idempotency_key body" for r
    using that by (auto simp: collides_def same_idempotency_def new_row_def truthy_def)
  have rid: "collides (new_row body queue t') r" if "run_id r = rs_run_id body" for r
    using that by (simp add: collides_def new_row_def)
  have new: "run_id (new_row body queue t) = rs_run_id body" by (simp add: new_row_def)
  have rec: "rec_run_id (record_of r t) = run_id r" for r by (simp add: record_of_def)
  have found: "x \<in> set xs \<and> P x" if "find P xs = Some x" for x xs and P :: "run_row \<Rightarrow> bool"
    using that by (auto simp: find_Some_iff)
  show ?thesis
  proof (cases "\<exists>r\<in>set (runs d). collides (new_row body queue t) r")
    case False
    with assms have "answer = record_of (new_row body queue t) t" "d' = d\<lparr>runs := runs d @ [new_row body queue t]\<rparr>"
      by (simp_all add: start_def Let_def)
    then show ?thesis using rid [OF new] rec by simp
  next
    case True
    with assms have "\<exists>r. answer = record_of r t \<and> d' = d \<and>
        (one (\<lambda>r. tenant_id r = rs_tenant_id body \<and> run_id r = rs_run_id body) d = Some r \<or>
         truthy (rs_idempotency_key body) \<and>
         one (\<lambda>r. tenant_id r = rs_tenant_id body \<and> idempotency_key r = rs_idempotency_key body) d = Some r)"
      by (auto simp: start_def Let_def split: if_splits option.splits)
    then obtain r where r: "answer = record_of r t" "d' = d"
      "r \<in> set (runs d) \<and> (run_id r = rs_run_id body \<or> truthy (rs_idempotency_key body) \<and> tenant_id r = rs_tenant_id body \<and>
         idempotency_key r = rs_idempotency_key body)"
      unfolding one_def using found by blast
    then have "collides (new_row body queue t') r" using key rid by blast
    with r rec show ?thesis by auto
  qed
qed

lemma start_unchanged:
  assumes "\<exists>r\<in>set (runs d). collides (new_row body queue t) r" "start body queue t strict d = Inr (x, d')"
  shows "d' = d"
proof -
  obtain answer created where x: "x = (answer, created)" by fastforce
  from start_cases [OF assms(2) [unfolded x]] assms(1) show ?thesis by (auto split: if_splits)
qed

lemma start_unwritten:
  assumes "lifecycle_laws C" "interrupt_laws C" "store_inv (store s)"
    and "(keeps_run C (rec_run_id (an_body b)))\<^sup>*\<^sup>* (store s') (store s'')"
    and "start_route st True who body queue t s = (Inr b, s')"
  shows "snd (start_route st True who body queue t' s'') = s''"
proof -
  obtain run created where x: "start body queue t True (store s) = Inr ((run, created), store s')" "an_body b = run"
    using assms(5)
    by (auto simp: start_route_def transact_def on_store_def bind_result_Inr_iff ok_def split: sum.splits prod.splits if_splits)
  have inv': "store_inv (store s')" using starting.keeps_inv [OF assms(1-3) x(1)] .
  from started_on_record [OF x(1)] x(2) obtain r where r: "r \<in> set (runs (store s'))" "collides (new_row body queue t') r"
    "run_id r = rec_run_id (an_body b)" by blast
  from keeping_row [OF assms(4,1,2) inv' r(1,3)] obtain r' where r': "r' \<in> set (runs (store s''))" "identity_of r' = identity_of r"
    by (auto simp: row_continues_def)
  have "collides (new_row body queue t') r'"
    using r(2) r'(2) by (auto simp: collides_def same_idempotency_def identity_of_def)
  with r'(1) have "d = store s''" if "start body queue t' True (store s'') = Inr (y, d)" for y d
    using start_unchanged that by blast
  then show ?thesis
    by (auto simp: start_route_def transact_def on_store_def bind_result_def split: sum.splits prod.splits)
qed

lemma append_unwritten:
  assumes "lifecycle_laws C" "interrupt_laws C" "store_inv (store s)" "(keeps_run C rid)\<^sup>*\<^sup>* (store s') (store s'')"
    and "append_events_route True who rid es w s = (Inr c, s')"
  shows "snd (append_events_route True who rid es w s'') = s''"
proof -
  let ?tenant = "acting_tenant who"
  obtain n p where a: "append_events ?tenant rid es w (store s) = Inr ((n, p), store s')"
    using assms(5) by (auto simp: append_events_route_def transact_def on_store_def bind_result_Inr_iff split: sum.splits prod.splits)
  have inv': "store_inv (store s')" using appending.keeps_inv [OF assms(1-3) a] .
  note inv'' = keeping_inv [OF assms(4,1,2) inv']
  obtain r where r: "r \<in> set (runs (store s'))" "run_id r = rid"
    using a unfolding append_events_Inr_iff [OF assms(3)] by (auto dest!: foundD)
  have "(ev_attempt e, ev_sequence e) \<in> logged rid es (store s'')" if "e \<in> set es" for e
  proof -
    from append_adds_once [OF assms(3) a] that obtain k where k: "k \<in> set (events_of rid (run_events (store s')))"
      "re_attempt k = ev_attempt e" "re_sequence k = ev_sequence e" by blast
    then have "k \<in> set (log_of rid (store s''))"
      using keeping_row [OF assms(4,1,2) inv' r] by (auto simp: log_of_def events_of_def)
    with k(2,3) that show ?thesis by (force simp: logged_def)
  qed
  then have none: "appended ?tenant rid es (store s'') = []" unfolding appended_def by (intro append_loop_none) blast
  have "d = store s''" if "append_events ?tenant rid es w (store s'') = Inr (y, d)" for y d
    using that unfolding append_events_Inr_iff [OF inv''] none by simp
  then show ?thesis
    by (auto simp: append_events_route_def transact_def on_store_def bind_result_def split: sum.splits prod.splits)
qed

text \<open>C32. What the client retries because its answer was lost is done once. Sent again before anything else happened to
  the service, however often, a write of a run that did what it was asked to (a release that queued the run, a pause that
  paused it, an answer, a cancel, a finish), a start or an append that was committed leaves the runs, their
  events and what is owed for them exactly as the first did, and the attempt that gets its answer through is answered,
  not refused. Sent again after any other transactions on the runs, retention's too as long as they do not delete the run,
  it is answered or refused but changes nothing when it is an answer that was taken, a start or an append, or
  when the run has ended by then. (A
  release, pause, cancel or finish that arrives again while the run goes on is not covered then: the run may be another
  worker's, which refuses it, or paused again on what was answered, as C39 has it.)\<close>

theorem retried_writes:
  assumes "lifecycle_laws C" "interrupt_laws C" "store_inv (store s)"
  shows "(write_route C S st u True who rid request t s = (Inr a, s') \<longrightarrow>
      (done_as_asked request (an_body a) \<longrightarrow>
        resent (write_route C S st u' True who rid request) ts s' = s' \<and>
        (\<exists>a'. write_route C S st u' True who rid request t' (resent (write_route C S st u' True who rid request) ts s') = (Inr a', s'))) \<and>
      ((keeps_run C rid)\<^sup>*\<^sup>* (store s') (store s'') \<and>
       ((\<exists>q. request = Resumes q) \<and> store s' \<noteq> store s \<or>
        (\<exists>r. found (acting_tenant who) rid (store s'') = Inr r \<and> documented_final (status r))) \<longrightarrow>
        snd (write_route C S st u' True who rid request t' s'') = s'')) \<and>
    (start_route st True who body queue t s = (Inr b, s') \<longrightarrow>
      resent (start_route st True who body queue) ts s' = s' \<and>
      (\<exists>b'. start_route st True who body queue t' (resent (start_route st True who body queue) ts s') = (Inr b', s')) \<and>
      ((keeps_run C (rec_run_id (an_body b)))\<^sup>*\<^sup>* (store s') (store s'') \<longrightarrow>
        snd (start_route st True who body queue t' s'') = s'')) \<and>
    (append_events_route True who rid es w s = (Inr c, s') \<longrightarrow>
      resent (\<lambda>t. append_events_route True who rid es w) ts s' = s' \<and>
      (\<exists>c'. append_events_route True who rid es w (resent (\<lambda>t. append_events_route True who rid es w) ts s') = (Inr c', s')) \<and>
      ((keeps_run C rid)\<^sup>*\<^sup>* (store s') (store s'') \<longrightarrow> snd (append_events_route True who rid es w s'') = s''))"
proof -
  have "snd (write_route C S st u' True who rid request t' s'') = s''"
    if w: "write_route C S st u True who rid request t s = (Inr a, s')" and path: "(keeps_run C rid)\<^sup>*\<^sup>* (store s') (store s'')"
      and "(\<exists>q. request = Resumes q) \<and> store s' \<noteq> store s \<or> (\<exists>r. found (acting_tenant who) rid (store s'') = Inr r \<and> documented_final (status r))"
    using that(3)
  proof (elim disjE exE conjE)
    fix q assume "request = Resumes q" "store s' \<noteq> store s"
    with answer_unwritten [OF assms path] w show ?thesis by blast
  next
    fix r assume "found (acting_tenant who) rid (store s'') = Inr r" "documented_final (status r)"
    moreover have "store_inv (store s'')" using keeping_inv [OF path assms(1,2)] write_keeps_inv [OF assms w] by blast
    ultimately show ?thesis using ended_run_unwritten [OF assms(1)] by blast
  qed
  moreover note start_unwritten [OF assms, of b s' s'' st who body queue t t'] append_unwritten [OF assms, of rid s' s'' who es w c]
    resent_same [of "write_route C S st u' True who rid request" s' ts t'] resent_same [of "start_route st True who body queue" s' ts t']
    resent_same [of "\<lambda>t. append_events_route True who rid es w" s' ts t']
    write_again [OF assms, of S st u who rid request t a s' u'] start_again [OF assms(3), of st who body queue t b s']
    append_again [OF assms(3), of who rid es w c s']
  ultimately show ?thesis by blast
qed

theorem retried_writes_witness:
  "\<exists>a s'. write_route demo_contracts demo_schemas demo_settings 0 True demo_caller ''run_1'' (Cancels None) 1 demo_service = (Inr a, s') \<and>
     resent (write_route demo_contracts demo_schemas demo_settings 0 True demo_caller ''run_1'' (Cancels None)) [2, 3, 4] s' = s'"
proof -
  let ?route = "write_route demo_contracts demo_schemas demo_settings 0 True demo_caller ''run_1'' (Cancels None)"
  obtain run changed where c: "cancel demo_contracts ''acme'' ''run_1'' None demo_key 1 demo_queued =
      Inr ((run, changed), demo_queued\<lparr>runs := [demo_cancelled_row]\<rparr>)" using demo_cancel by (metis surj_pair)
  obtain s' where r: "?route 1 demo_service = (Inr (ok run), s')"
    using c by (simp add: cancel_route_def transact_def on_announced_def demo_caller_def demo_service_def)
  have "store_inv (store demo_service)" using demo_service_ok by (simp add: service_ok_def)
  from retried_writes [OF demo_laws(1,2) this, where ts = "[2, 3, 4]"] r have "resent ?route [2, 3, 4] s' = s'"
    by simp
  with r show ?thesis by blast
qed

section \<open>Writes that are not\<close>

lemma rotate_again:
  assumes "rotate_secret secret tenant wid overlap t b = Inr (x, b')" "subscription tenant wid b = Inr w"
  shows "deliveries b' = deliveries b \<and> (\<exists>w'. subscription tenant wid b' = Inr w' \<and> wh_secret w' = secret)"
proof -
  define w' where "w' = w\<lparr>wh_previous_secret := Some (wh_secret w), wh_secret := secret, wh_previous_secret_expires_at := Some (t + overlap)\<rparr>"
  have b': "b' = b\<lparr>webhooks := put_row webhook_id w' (webhooks b)\<rparr>"
    using assms by (auto simp: rotate_secret_def Let_def w'_def)
  have w: "w \<in> set (webhooks b)" "webhook_id w = wid" "wh_tenant_id w = tenant" using subscription_Inr [OF assms(2)] by auto
  have id: "webhook_id w' = wid" "wh_tenant_id w' = tenant" using w by (simp_all add: w'_def)
  have "find (\<lambda>x. wh_tenant_id x = tenant \<and> webhook_id x = wid) (put_row webhook_id w' rows) = Some w'" if "w \<in> set rows" for rows
    using that w id by (induction rows) (auto simp: put_row_Cons)
  with w(1) show ?thesis by (simp add: b' subscription_def w'_def)
qed

lemma rotates_when_found:
  assumes "subscription (acting_tenant who) wid (box s) = Inr w"
  shows "\<exists>x b'. rotate_secret secret (acting_tenant who) wid (secret_overlap ws) t (box s) = Inr (x, b') \<and>
    rotate_secret_route ws secret True who wid t s = (Inr (ok x), s\<lparr>box := b'\<rparr>)"
  using assms by (simp add: rotate_secret_route_def transact_def on_outbox_def rotate_secret_def Let_def)

text \<open>C33. A rotation the client retries because its answer was lost ends the overlap: the first alone leaves
  every delivery owed to the subscription signed, beside the new secret, with the one it replaced until the overlap is
  over; after the second, deliveries are signed with the second's secret, and at no instant with the one receivers hold.\<close>

theorem rotation_retried:
  assumes "id_laws C" "outbox_ok C (box s)" "subscription (acting_tenant who) wid (box s) = Inr w"
    and "rotate_secret_route ws first True who wid t s = (Inr a, s')"
    and "rotate_secret_route ws second True who wid t' s' = (Inr a', s'')"
    and "r \<in> set (deliveries (box s))" "dv_webhook_id r = wid" "first \<noteq> wh_secret w"
  shows "hd_previous_secret (held_of now (the (hook_of (box s') r)) r) = (if now < t + secret_overlap ws then Some (wh_secret w) else None) \<and>
    hd_secret (held_of now (the (hook_of (box s'') r)) r) = second \<and>
    hd_previous_secret (held_of now (the (hook_of (box s'') r)) r) \<noteq> Some (wh_secret w)"
proof -
  obtain x b' where r1: "rotate_secret first (acting_tenant who) wid (secret_overlap ws) t (box s) = Inr (x, b')" "s' = s\<lparr>box := b'\<rparr>"
    using assms(4) by (auto simp: rotate_secret_route_def transact_def on_outbox_def bind_result_Inr_iff split: sum.splits prod.splits)
  obtain y b'' where r2: "rotate_secret second (acting_tenant who) wid (secret_overlap ws) t' b' = Inr (y, b'')" "s'' = s'\<lparr>box := b''\<rparr>"
    using assms(5) r1(2) by (auto simp: rotate_secret_route_def transact_def on_outbox_def bind_result_Inr_iff split: sum.splits prod.splits)
  obtain w' where w': "subscription (acting_tenant who) wid b' = Inr w'" "wh_secret w' = first" and d: "deliveries b' = deliveries (box s)"
    using rotate_again [OF r1(1) assms(3)] by blast
  have d': "deliveries b'' = deliveries (box s)" using rotate_again [OF r2(1) w'(1)] d by simp
  have ok: "outbox_ok C b'" using outbox_step_ok [OF outbox_step.rotates [OF r1(1)]] assms(1,2) by blast
  from rotation_overlap [OF assms(2) r1(1) assms(3), of r now] rotation_overlap [OF ok r2(1) w'(1), of r now] assms(6-8)
  show ?thesis by (auto simp: r1(2) r2(2) d d' w'(2))
qed

theorem rotation_retried_witness:
  "\<exists>a a' s' s''. rotate_secret_route \<lparr>is_dev = False, private_webhook_targets = False, secret_overlap = 86400\<rparr> ''s2'' True demo_caller ''wh_1'' 1
       (demo_service\<lparr>box := demo_outbox\<lparr>deliveries := [demo_owed]\<rparr>\<rparr>) = (Inr a, s') \<and>
     rotate_secret_route \<lparr>is_dev = False, private_webhook_targets = False, secret_overlap = 86400\<rparr> ''s3'' True demo_caller ''wh_1'' 2 s' = (Inr a', s'') \<and>
     hd_previous_secret (held_of 5 (the (hook_of (box s') demo_owed)) demo_owed) = Some ''s1'' \<and>
     hd_previous_secret (held_of 5 (the (hook_of (box s'') demo_owed)) demo_owed) \<noteq> Some ''s1''"
proof -
  let ?ws = "\<lparr>is_dev = False, private_webhook_targets = False, secret_overlap = 86400\<rparr>"
  let ?s = "demo_service\<lparr>box := demo_outbox\<lparr>deliveries := [demo_owed]\<rparr>\<rparr>"
  have h: "subscription (acting_tenant demo_caller) ''wh_1'' (box ?s) = Inr demo_hook"
    by (simp add: subscription_def demo_outbox_def demo_hook_def demo_caller_def)
  obtain x b' where r: "rotate_secret ''s2'' (acting_tenant demo_caller) ''wh_1'' (secret_overlap ?ws) 1 (box ?s) = Inr (x, b')"
    "rotate_secret_route ?ws ''s2'' True demo_caller ''wh_1'' 1 ?s = (Inr (ok x), ?s\<lparr>box := b'\<rparr>)"
    using rotates_when_found [OF h] by blast
  obtain w' where "subscription (acting_tenant demo_caller) ''wh_1'' (box (?s\<lparr>box := b'\<rparr>)) = Inr w'"
    using rotate_again [OF r(1) h] by auto
  from rotates_when_found [OF this] obtain a' s''
    where r': "rotate_secret_route ?ws ''s3'' True demo_caller ''wh_1'' 2 (?s\<lparr>box := b'\<rparr>) = (Inr a', s'')" by blast
  have "dv_webhook_id demo_owed = ''wh_1''" by (simp add: demo_owed_def new_delivery_def)
  with rotation_retried [OF demo_laws(3) _ h r(2) r', of demo_owed 5] demo_owed_ok
  have "hd_previous_secret (held_of 5 (the (hook_of (box (?s\<lparr>box := b'\<rparr>)) demo_owed)) demo_owed) = Some ''s1'' \<and>
      hd_previous_secret (held_of 5 (the (hook_of (box s'') demo_owed)) demo_owed) \<noteq> Some ''s1''"
    by (simp add: demo_hook_def)
  with r(2) r' show ?thesis by blast
qed

end
