(* ===== verification/Routing.thy ===== *)
theory Routing
  imports Signatures
begin

text \<open>
  The routes of the API as the routers of \<open>src/agent_runs/api/routers\<close> declare them: the method and path of
  each, its operation id (\<open>api/openapi.py\<close>), the query parameters and the body it takes, in the order
  \<open>api/app.py\<close> includes them. Choosing the route of a request is FastAPI's: \<open>dispatch\<close>, of which the
  documented rule is the law \<open>routes_in_order\<close>: the first route declared for the method whose path fits.
\<close>

section \<open>Routes\<close>

text \<open>A body: none, bytes, or a JSON object with members that must be and members that may be there; whether
  there may be none of it.\<close>

datatype body_shape = TakesNone | TakesBytes | TakesObject "string list" "string list" | MayTakeObject "string list"

record route =
  ro_method :: string
  ro_path :: string
  ro_tag :: string
  ro_name :: string
  ro_query :: "string list"
  ro_body :: body_shape

definition operation_id :: "route \<Rightarrow> string" where
  "operation_id r = ro_tag r @ ''.'' @ ro_name r"

definition route_at :: "string \<Rightarrow> string \<Rightarrow> string \<Rightarrow> string \<Rightarrow> string \<Rightarrow> string list \<Rightarrow> body_shape \<Rightarrow> route" where
  "route_at prefix tag m path name params shape =
     \<lparr>ro_method = m, ro_path = prefix @ path, ro_tag = tag, ro_name = name, ro_query = params, ro_body = shape\<rparr>"

text \<open>The fields of the contracts' models that are bodies of the API. Which of them have defaults is not in the
  repository; they are listed as ones that must be there, and the SDK sends them all.\<close>

record contract_fields =
  cf_start :: "string list"
  cf_resolution :: "string list"
  cf_spec :: "string list"

definition ops_routes :: "route list" where
  "ops_routes =
     (let row = route_at [] ''ops'' in
      [row ''GET'' ''/health/live'' ''live'' [] TakesNone,
       row ''GET'' ''/health/ready'' ''ready'' [] TakesNone,
       row ''GET'' ''/metrics'' ''metrics'' [] TakesNone])"

definition runs_routes :: "contract_fields \<Rightarrow> route list" where
  "runs_routes F =
     (let row = route_at ''/v1/runs'' ''runs'' in
      [row ''POST'' '''' ''start'' [] (TakesObject (cf_start F) [''queue'']),
       row ''POST'' ''/claim'' ''claim'' [] (TakesObject [''worker_id'', ''agent_ids''] [''lease_seconds'']),
       row ''POST'' ''/{run_id}/heartbeat'' ''heartbeat'' [] (TakesObject [''worker_id''] [''lease_seconds'', ''checkpoint'']),
       row ''POST'' ''/{run_id}/release'' ''release'' [] (TakesObject [''worker_id''] [''checkpoint'']),
       row ''POST'' ''/{run_id}/pause'' ''pause'' [''worker_id''] (TakesObject [''interrupt''] [''checkpoint'']),
       row ''POST'' ''/{run_id}/resume'' ''resume'' [] (TakesObject (cf_resolution F) []),
       row ''POST'' ''/{run_id}/cancel'' ''cancel'' [] (TakesObject [] [''reason'']),
       row ''POST'' ''/{run_id}/finish'' ''finish'' [''worker_id''] (TakesObject [''status''] [''output'', ''error'']),
       row ''GET'' ''/{run_id}'' ''get'' [] TakesNone,
       row ''POST'' ''/{run_id}/events'' ''append_events'' [''worker_id''] (TakesObject [''events''] []),
       row ''GET'' ''/{run_id}/events'' ''events'' [''after'', ''limit''] TakesNone,
       row ''GET'' ''/{run_id}/events/stream'' ''stream_events'' [''after''] TakesNone,
       row ''GET'' ''/{run_id}/resolutions'' ''resolutions'' [''cursor'', ''limit''] TakesNone,
       row ''GET'' '''' ''list'' [''status'', ''assignee'', ''agent_id'', ''thread_id'', ''parent_run_id'', ''top_level'', ''cursor'', ''limit'']
         TakesNone])"

definition artifacts_routes :: "route list" where
  "artifacts_routes =
     (let row = route_at [] ''artifacts'' in
      [row ''POST'' ''/v1/runs/{run_id}/artifacts'' ''upload'' [''worker_id'', ''checksum''] TakesBytes,
       row ''GET'' ''/v1/artifacts/{artifact_id}'' ''download'' [] TakesNone])"

definition schedules_routes :: "contract_fields \<Rightarrow> route list" where
  "schedules_routes F =
     (let row = route_at ''/v1/schedules'' ''schedules'' in
      [row ''POST'' '''' ''create'' [] (TakesObject (cf_spec F) []),
       row ''GET'' '''' ''list'' [''enabled'', ''agent_id'', ''on_behalf_of'', ''cursor'', ''limit''] TakesNone,
       row ''GET'' ''/{schedule_id}'' ''get'' [] TakesNone,
       row ''PATCH'' ''/{schedule_id}'' ''update'' []
         (TakesObject [] [''agent_id'', ''name'', ''cadence'', ''timezone'', ''input'', ''workspace_id'', ''enabled'', ''timeout_seconds'',
            ''agent_version'', ''priority'', ''concurrency_key'', ''metadata'']),
       row ''DELETE'' ''/{schedule_id}'' ''delete'' [] TakesNone,
       row ''POST'' ''/{schedule_id}/fire'' ''fire'' [] (MayTakeObject [''at''])])"

definition webhooks_routes :: "route list" where
  "webhooks_routes =
     (let row = route_at ''/v1/webhooks'' ''webhooks'' in
      [row ''POST'' '''' ''create'' [] (TakesObject [''url'', ''events''] []),
       row ''GET'' '''' ''list'' [''cursor'', ''limit''] TakesNone,
       row ''GET'' ''/deliveries'' ''deliveries'' [''state'', ''webhook_id'', ''cursor'', ''limit''] TakesNone,
       row ''POST'' ''/deliveries/{delivery_id}/redeliver'' ''redeliver'' [] TakesNone,
       row ''POST'' ''/{webhook_id}/rotate-secret'' ''rotate_secret'' [] TakesNone,
       row ''GET'' ''/{webhook_id}'' ''get'' [] TakesNone,
       row ''DELETE'' ''/{webhook_id}'' ''delete'' [] TakesNone])"

definition ROUTES :: "contract_fields \<Rightarrow> route list" where
  "ROUTES F = ops_routes @ runs_routes F @ artifacts_routes @ schedules_routes F @ webhooks_routes"

section \<open>The route of a request\<close>

text \<open>A segment of a path in braces stands for any text without a slash that is not empty.\<close>

definition param_name :: "string \<Rightarrow> string option" where
  "param_name t = (if t \<noteq> [] \<and> hd t = CHR ''{'' \<and> last t = CHR ''}'' then Some (butlast (tl t)) else None)"

fun segment_values :: "string list \<Rightarrow> string list \<Rightarrow> (string \<times> string) list option" where
  "segment_values [] [] = Some []"
| "segment_values (t # ts) (p # ps) =
     (case param_name t of
        None \<Rightarrow> if t = p then segment_values ts ps else None
      | Some n \<Rightarrow> if p = [] then None else map_option (Cons (n, p)) (segment_values ts ps))"
| "segment_values _ _ = None"

definition path_values :: "string \<Rightarrow> string \<Rightarrow> (string \<times> string) list option" where
  "path_values template path = segment_values (split_on (CHR ''/'') template) (split_on (CHR ''/'') path)"

fun first_route :: "route list \<Rightarrow> string \<Rightarrow> string \<Rightarrow> (route \<times> (string \<times> string) list) option" where
  "first_route [] m path = None"
| "first_route (r # rs) m path =
     (if ro_method r = m then
        (case path_values (ro_path r) path of Some vs \<Rightarrow> Some (r, vs) | None \<Rightarrow> first_route rs m path)
      else first_route rs m path)"

type_synonym dispatcher = "route list \<Rightarrow> string \<Rightarrow> string \<Rightarrow> (route \<times> (string \<times> string) list) option"

definition routes_in_order :: "dispatcher \<Rightarrow> bool" where
  "routes_in_order dispatch \<longleftrightarrow> (\<forall>rs m path. dispatch rs m path = first_route rs m path)"

section \<open>What a path may name\<close>

lemma split_on_no_sep: "s \<in> set (split_on c t) \<Longrightarrow> c \<notin> set s"
  by (induction c t arbitrary: s rule: split_on.induct) (fastforce split: if_splits list.splits)+

lemma segment_values_whole:
  "segment_values ts ps = Some vs \<Longrightarrow> \<forall>(n, v)\<in>set vs. v \<noteq> [] \<and> v \<in> set ps"
  by (induction ts ps arbitrary: vs rule: segment_values.induct) (fastforce split: option.splits if_splits)+

lemma first_route_in:
  "first_route rs m path = Some (r, vs) \<Longrightarrow> r \<in> set rs \<and> ro_method r = m \<and> path_values (ro_path r) path = Some vs"
  by (induction rs) (auto split: if_splits option.splits)

lemma route_names_segments:
  assumes "routes_in_order dispatch" "dispatch rs m path = Some (r, vs)" "(n, v) \<in> set vs"
  shows "v \<noteq> [] \<and> CHR ''/'' \<notin> set v"
proof -
  have "path_values (ro_path r) path = Some vs" using assms(1,2) first_route_in by (simp add: routes_in_order_def)
  with assms(3) segment_values_whole split_on_no_sep show ?thesis unfolding path_values_def by fastforce
qed

end
