(* ===== verification/Client.thy ===== *)
theory Client
  imports Transport Worker_Properties
begin

text \<open>
  The SDK's \<open>client.py\<close>, what its calls make of the transport's answers: a claim that found nothing, a read
  by id that found nothing, the conflict a heartbeat turns into a lost lease, and \<open>stream_events\<close>, which
  follows a run's events over as many connections as it takes. A connection is what opening the stream at
  a position came to; the positions are the client's, so the world answers with a function of them.
\<close>

section \<open>Calls\<close>

definition NO_CONTENT :: int where
  "NO_CONTENT = 204"

text \<open>\<open>claim\<close>; \<open>parsed\<close> is the body as \<open>Claimed\<close> reads it.\<close>

definition claim_of :: "(json \<Rightarrow> 'a) \<Rightarrow> runs_error + response \<Rightarrow> runs_error + 'a option" where
  "claim_of parsed answer =
     (case answer of
        Inl e \<Rightarrow> Inl e
      | Inr x \<Rightarrow> if rp_status x = NO_CONTENT then Inr None else Inr (Some (parsed (rp_body x))))"

text \<open>\<open>Transport.found\<close>.\<close>

definition found_of :: "(json \<Rightarrow> 'a) \<Rightarrow> runs_error + response \<Rightarrow> runs_error + 'a option" where
  "found_of parsed answer =
     (case answer of
        Inl e \<Rightarrow> if ex_class e = NotFoundError then Inr None else Inl e
      | Inr x \<Rightarrow> Inr (Some (parsed (rp_body x))))"

text \<open>\<open>heartbeat\<close>: \<open>LeaseLostError\<close> is not a \<open>ConflictError\<close>, and the new error says nothing of retries.\<close>

definition heartbeat_of :: "(json \<Rightarrow> lease) \<Rightarrow> runs_error + response \<Rightarrow> runs_error + lease" where
  "heartbeat_of parsed answer =
     (case answer of
        Inl e \<Rightarrow>
          if ex_class e = ConflictError
          then Inl \<lparr>ex_class = LeaseLostError, ex_code = ''LEASE_LOST'', ex_status = ex_status e, ex_retryable = False,
                 ex_request_id = ex_request_id e, ex_details = ex_details e, ex_retry_after = None\<rparr>
          else Inl e
      | Inr x \<Rightarrow> Inr (parsed (rp_body x)))"

section \<open>Following a run's events\<close>

text \<open>A connection: refused by the service, or open, with the lines it brought and whether a transport error
  ended it (one that never opened brought none).\<close>

datatype connection = Refuses runs_error | Opened "string list" bool

text \<open>How a stream ended for its reader; \<open>Following\<close> when the connections given are used up.\<close>

datatype followed = RunEnded | Raises runs_error | NotAnEntry | Following

text \<open>The \<open>async for\<close> over one connection: what it yielded, the position and the failures after it, and how
  it ended the stream when it did.\<close>

fun read_entries ::
  "(string \<Rightarrow> (int \<times> run_event) option) \<Rightarrow> int \<Rightarrow> nat \<Rightarrow> (string \<times> string) list \<Rightarrow>
   (int \<times> run_event) list \<times> int \<times> nat \<times> followed option" where
  "read_entries parse after fails [] = ([], after, fails, None)"
| "read_entries parse after fails ((name, data) # evs) =
     (if name = ''end'' then ([], after, fails, Some RunEnded)
      else case parse data of
        None \<Rightarrow> ([], after, fails, Some NotAnEntry)
      | Some entry \<Rightarrow> (let (ys, r) = read_entries parse (fst entry) 0 evs in (entry # ys, r)))"

text \<open>The \<open>while\<close> loop; each connection comes with the draw of the wait after it.\<close>

fun follow_events ::
  "(string \<Rightarrow> (int \<times> run_event) option) \<Rightarrow> nat \<Rightarrow> int \<Rightarrow> nat \<Rightarrow> ((int \<Rightarrow> connection) \<times> rat) list \<Rightarrow>
   (int \<times> run_event) list \<times> followed \<times> rat list" where
  "follow_events parse max_retries after fails [] = ([], Following, [])"
| "follow_events parse max_retries after fails ((connect, u) # cs) =
     (case connect after of
        Refuses e \<Rightarrow> ([], Raises e, [])
      | Opened ls lost \<Rightarrow>
          (case read_entries parse after fails (read_events ''message'' [] ls) of
             (ys, after, fails, Some end) \<Rightarrow> (ys, end, [])
           | (ys, after, fails, None) \<Rightarrow>
               if \<not> lost
               then (let (zs, r) = follow_events parse max_retries after fails cs in (ys @ zs, r))
               else if fails \<ge> max_retries then (ys, Raises unreachable_error, [])
               else (let (zs, end, waits) = follow_events parse max_retries after (Suc fails) cs
                     in (ys @ zs, end, client_backoff u fails NoWait # waits))))"

definition follow_run ::
  "(string \<Rightarrow> (int \<times> run_event) option) \<Rightarrow> nat \<Rightarrow> int \<Rightarrow> ((int \<Rightarrow> connection) \<times> rat) list \<Rightarrow>
   (int \<times> run_event) list \<times> followed \<times> rat list" where
  "follow_run parse max_retries after cs = follow_events parse max_retries after 0 cs"

section \<open>Reading part of a stream\<close>

lemma read_events_take: "\<exists>m. read_events name data (take k ls) = take m (read_events name data ls)"
proof (induction name data ls arbitrary: k rule: read_events.induct)
  case (2 name data line ls)
  show ?case
  proof (cases k)
    case (Suc n)
    consider (event) "starts_with ''event: '' line" | (data) "\<not> starts_with ''event: '' line" "starts_with ''data: '' line"
      | (blank) "\<not> starts_with ''event: '' line" "\<not> starts_with ''data: '' line" "line = [] \<and> data \<noteq> []"
      | (other) "\<not> starts_with ''event: '' line" "\<not> starts_with ''data: '' line" "\<not> (line = [] \<and> data \<noteq> [])" by blast
    then show ?thesis
    proof cases
      case event
      with 2(1) [of n] show ?thesis by (simp add: Suc)
    next
      case data
      with 2(2) [of n] show ?thesis by (simp add: Suc)
    next
      case blank
      with 2(3) [of n] obtain m where "read_events ''message'' [] (take n ls) = take m (read_events ''message'' [] ls)" by blast
      with blank show ?thesis by (intro exI [of _ "Suc m"]) (simp add: Suc)
    next
      case other
      with 2(4) [of n] show ?thesis by (auto simp: Suc)
    qed
  qed (auto intro: exI [of _ 0])
qed auto

text \<open>What the reader must know of the entries written: each is parsed back, and none is called \<open>end\<close>.\<close>

definition reads_back ::
  "(run_event \<Rightarrow> string) \<Rightarrow> (int \<Rightarrow> run_event \<Rightarrow> string) \<Rightarrow> (string \<Rightarrow> (int \<times> run_event) option) \<Rightarrow> (int \<times> run_event) set \<Rightarrow> bool" where
  "reads_back name_of dump parse entries \<longleftrightarrow>
     (\<forall>(position, event)\<in>entries. name_of event \<noteq> ''end'' \<and> one_line (name_of event) \<and> one_line (dump position event) \<and>
        dump position event \<noteq> [] \<and> parse (dump position event) = Some (position, event))"

lemma read_entries_part:
  assumes "reads_back name_of dump parse (set (entries_of chunks))"
    and "read_entries parse after fails (take k (concat (map (events_of_chunk name_of dump) chunks))) = (ys, after', fails', how)"
  shows "ys = take (length ys) (entries_of chunks) \<and> after' = (if ys = [] then after else fst (last ys)) \<and> fails' \<le> fails \<and>
    (how = None \<or> how = Some RunEnded \<and> (\<exists>pre st post. chunks = pre @ EndChunk st # post \<and> ys = entries_of pre))"
  using assms
proof (induction chunks arbitrary: k after fails ys)
  case (Cons c cs)
  have rest: "reads_back name_of dump parse (set (entries_of cs))"
    using Cons.prems(1) by (cases c) (auto simp: reads_back_def)
  show ?case
  proof (cases c)
    case (EventChunk p e)
    have b: "name_of e \<noteq> ''end''" "parse (dump p e) = Some (p, e)" using Cons.prems(1) by (auto simp: EventChunk reads_back_def)
    show ?thesis
    proof (cases k)
      case (Suc n)
      obtain zs r where r: "read_entries parse p 0 (take n (concat (map (events_of_chunk name_of dump) cs))) = (zs, r)" by (rule prod.exhaust)
      with Cons.prems(2) b have y: "ys = (p, e) # zs" "r = (after', fails', how)" by (auto simp: EventChunk Suc)
      note ih = Cons.IH [OF rest r [unfolded y(2)]]
      have "\<exists>pre st post. c # cs = pre @ EndChunk st # post \<and> ys = entries_of pre" if "cs = pre @ EndChunk st # post" "zs = entries_of pre" for pre st post
        using that by (intro exI [of _ "c # pre"]) (simp add: EventChunk y)
      with ih show ?thesis by (auto simp: EventChunk y)
    qed (use Cons.prems(2) in \<open>auto simp: EventChunk\<close>)
  next
    case (EndChunk st)
    show ?thesis
    proof (cases k)
      case (Suc n)
      have "c # cs = [] @ EndChunk st # cs" by (simp add: EndChunk)
      moreover have "ys = [] \<and> after' = after \<and> fails' = fails \<and> how = Some RunEnded" using Cons.prems(2) by (simp add: EndChunk Suc)
      ultimately show ?thesis by (metis entries_of.simps(1) list.size(3) take0 order.refl)
    qed (use Cons.prems(2) in auto)
  next
    case KeepaliveChunk
    with Cons.prems(2) have r: "read_entries parse after fails (take k (concat (map (events_of_chunk name_of dump) cs))) = (ys, after', fails', how)"
      by simp
    have "\<exists>pre st post. c # cs = pre @ EndChunk st # post \<and> ys = entries_of pre" if "cs = pre @ EndChunk st # post" "ys = entries_of pre" for pre st post
      using that by (intro exI [of _ "c # pre"]) (simp add: KeepaliveChunk)
    with Cons.IH [OF rest r] show ?thesis by (auto simp: KeepaliveChunk)
  qed
qed auto

section \<open>The run's events, over any connections\<close>

lemma follow_end_last: "follow C tenant rid ends_at after quiet polls = (chunks, closing) \<Longrightarrow> EndChunk st \<notin> set (butlast chunks)"
proof (induction polls arbitrary: after quiet chunks)
  case (Cons p ps)
  show ?case
  proof (cases "events tenant rid after MAX_PAGE (seen p) (seen_next p)")
    case (Inr x)
    then obtain es st' where e: "events tenant rid after MAX_PAGE (seen p) (seen_next p) = Inr (es, st')" by (cases x) simp
    let ?news = "map (\<lambda>(p, e). EventChunk p e) es"
    define a where "a = (if es = [] then after else fst (last es))"
    have news: "EndChunk st \<notin> set ?news" by auto
    have on: ?thesis if "follow C tenant rid ends_at a q ps = (cs, closing)" "chunks = ?news @ ks @ cs" "EndChunk st \<notin> set ks" for q cs ks
      using Cons.IH [OF that(1)] that(2,3) news by (auto simp: butlast_append dest: in_set_butlastD)
    consider "length es = MAX_PAGE" | "length es \<noteq> MAX_PAGE" "final C st'"
      | "length es \<noteq> MAX_PAGE" "\<not> final C st'" "poll_clock p \<ge> ends_at \<or> gone p"
      | "length es \<noteq> MAX_PAGE" "\<not> final C st'" "\<not> (poll_clock p \<ge> ends_at \<or> gone p)" by blast
    then show ?thesis
    proof cases
      case 1
      obtain cs c where f: "follow C tenant rid ends_at a quiet ps = (cs, c)" by fastforce
      with 1 e Cons.prems have "chunks = ?news @ [] @ cs" "c = closing" by (simp_all add: a_def [symmetric] Let_def)
      with f show ?thesis by (intro on [of quiet cs "[]"]) simp_all
    next
      case 4
      define q where "q = (if es \<noteq> [] then 0 else quiet + EVENT_POLL_SECONDS)"
      define ks where "ks = (if q \<ge> EVENT_KEEPALIVE_SECONDS then [KeepaliveChunk] else [])"
      obtain cs c where f: "follow C tenant rid ends_at a (if q \<ge> EVENT_KEEPALIVE_SECONDS then 0 else q) ps = (cs, c)" by fastforce
      have "(chunks, closing) = (?news @ ks @ cs, c)"
        using 4 e f Cons.prems
        by (simp only: follow.simps a_def [symmetric] q_def [symmetric] ks_def [symmetric] Let_def sum.case prod.case if_False)
      with f show ?thesis by (intro on [of _ cs ks]) (auto simp: ks_def)
    qed (use e Cons.prems news in \<open>auto simp: Let_def butlast_append dest: in_set_butlastD\<close>)
  qed (use Cons.prems in auto)
qed simp

text \<open>What the service answers a connection with: an error, or the first lines of a stream of the run's events
  from the position asked for, cut anywhere, whatever the log was while it was read.\<close>

definition serves ::
  "contracts \<Rightarrow> caller \<Rightarrow> string \<Rightarrow> db \<Rightarrow> (run_event \<Rightarrow> string) \<Rightarrow> (int \<Rightarrow> run_event \<Rightarrow> string) \<Rightarrow> (string \<Rightarrow> string list) \<Rightarrow>
   (int \<Rightarrow> connection) \<Rightarrow> bool" where
  "serves C who rid D name_of dump lines connect \<longleftrightarrow>
     (\<forall>after. (\<exists>e. connect (int after) = Refuses e) \<or>
       (\<exists>now clock s polls chunks closing k lost.
          (\<forall>p\<in>set polls. polls_of D p) \<and>
          stream_events C who rid (int after) None now clock s polls = Inr (chunks, closing) \<and>
          connect (int after) = Opened (take k (lines (concat (map (chunk_text name_of dump) chunks)))) lost))"

text \<open>The entries of a run's log that come next, and that a run was seen ended with no more than so many.\<close>

definition next_entries :: "db \<Rightarrow> string \<Rightarrow> nat \<Rightarrow> (int \<times> run_event) list \<Rightarrow> bool" where
  "next_entries D rid after ys \<longleftrightarrow> ys = take (length ys) (drop after (map entry_at (log_of rid D)))"

definition seen_over :: "contracts \<Rightarrow> caller \<Rightarrow> string \<Rightarrow> db \<Rightarrow> nat \<Rightarrow> bool" where
  "seen_over C who rid D n \<longleftrightarrow> (\<exists>d row. store_inv d \<and> set (run_events d) \<subseteq> set (run_events D) \<and>
     found (acting_tenant who) rid d = Inr row \<and> final C (status row) \<and> length (log_of rid d) \<le> n)"

lemma next_entries_append:
  assumes "next_entries D rid after xs" "next_entries D rid (after + length xs) zs"
  shows "next_entries D rid after (xs @ zs)"
  using assms unfolding next_entries_def by (metis add.commute drop_drop length_append take_add)

lemma entries_of_chunk: "EventChunk p e \<in> set chunks \<Longrightarrow> (p, e) \<in> set (entries_of chunks)"
  by (induction chunks rule: entries_of.induct) auto

lemma opened_reads:
  assumes "store_inv D" "reads_lines lines" "reads_back name_of dump parse (set (map entry_at (log_of rid D)))" "serves C who rid D name_of dump lines connect"
    and "connect (int after) = Opened ls lost" "read_entries parse (int after) fails (read_events ''message'' [] ls) = (ys, after', fails', how)"
  shows "next_entries D rid after ys \<and> after' = int (after + length ys) \<and> fails' \<le> fails \<and>
    (how = None \<or> how = Some RunEnded \<and> seen_over C who rid D (after + length ys))"
proof -
  let ?L = "map entry_at (log_of rid D)"
  from assms(4,5) obtain now clock s polls chunks closing k where polls: "\<forall>p\<in>set polls. polls_of D p"
    and st: "stream_events C who rid (int after) None now clock s polls = Inr (chunks, closing)"
    and ls: "ls = take k (lines (concat (map (chunk_text name_of dump) chunks)))"
    unfolding serves_def by (metis connection.distinct(1) connection.inject(2))
  from st have f: "follow C (acting_tenant who) rid (clock + EVENT_STREAM_SECONDS) (int after) 0 polls = (chunks, closing)"
    by (auto simp: stream_events_def)
  note sent = follow_sends [OF assms(1) polls f]
  have "set (entries_of chunks) \<subseteq> set ?L" using conjunct1 [OF sent] by (metis set_drop_subset set_take_subset subset_trans)
  then have parsed: "reads_back name_of dump parse (set (entries_of chunks))" using assms(3) unfolding reads_back_def by blast
  then have "read_events ''message'' [] (lines (concat (map (chunk_text name_of dump) chunks))) = concat (map (events_of_chunk name_of dump) chunks)"
    using entries_of_chunk by (intro stream_read [OF assms(2)]) (fastforce simp: reads_back_def)
  then obtain m where "read_events ''message'' [] ls = take m (concat (map (events_of_chunk name_of dump) chunks))"
    using read_events_take ls by metis
  note part = read_entries_part [OF parsed assms(6) [unfolded this]]
  have ys: "ys = take (length ys) (drop after ?L)"
    using part conjunct1 [OF sent] by (metis min.absorb1 nat_le_linear take_all_iff take_take min.absorb2)
  have pos: "fst (last ys) = int (after + length ys)" if "ys \<noteq> []"
  proof -
    let ?i = "after + length ys - 1"
    have i: "?i < length (log_of rid D)" "last ys = entry_at (log_of rid D ! ?i)"
      using last_take_drop [OF ys that] by auto
    then have "fst (last ys) = int ?i + 1"
      using arg_cong [OF log_positions [OF assms(1)], of "\<lambda>l. l ! ?i" rid] by (simp add: entry_at_def)
    moreover have "0 < length ys" using that by simp
    ultimately show ?thesis by simp
  qed
  have "seen_over C who rid D (after + length ys)"
    if "chunks = pre @ EndChunk st # post" "ys = entries_of pre" for pre st post
  proof -
    have "post = []" using follow_end_last [OF f, of st] that(1) by (auto simp: butlast_append split: if_splits)
    then have "entries_of chunks = ys" by (simp add: that)
    moreover have "closing = EndedWith st" using sent that(1) by auto
    ultimately obtain p row where "p \<in> set polls" "found (acting_tenant who) rid (seen p) = Inr row" "final C (status row)"
      "length (log_of rid (seen_next p)) \<le> after + length ys" using sent by metis
    moreover from this(1) polls have "polls_of D p" by blast
    ultimately show ?thesis using polls_ofD(1,4,5) [of D p] unfolding seen_over_def by (meson le_trans)
  qed
  moreover have "next_entries D rid after ys" using ys unfolding next_entries_def .
  ultimately show ?thesis using part pos by auto
qed

lemma follow_reads:
  assumes "store_inv D" "reads_lines lines" "reads_back name_of dump parse (set (map entry_at (log_of rid D)))"
    and "\<forall>(connect, u)\<in>set cs. serves C who rid D name_of dump lines connect"
    and "follow_events parse max_retries (int after) fails cs = (ys, how, waits)"
  shows "next_entries D rid after ys \<and> how \<noteq> NotAnEntry \<and>
    (how = RunEnded \<longrightarrow> seen_over C who rid D (after + length ys)) \<and>
    (\<forall>e. how = Raises e \<longrightarrow> (\<exists>(connect, u)\<in>set cs. \<exists>a. connect a = Refuses e) \<or>
       e = unreachable_error \<and> max_retries \<le> fails + length waits)"
  using assms(4,5)
proof (induction cs arbitrary: after fails ys waits)
  case (Cons cu cs)
  obtain connect u where cu: "cu = (connect, u)" by fastforce
  show ?case
  proof (cases "connect (int after)")
    case (Refuses e)
    with Cons.prems(2) show ?thesis by (auto simp: cu next_entries_def)
  next
    case (Opened ls lost)
    obtain xs after' fails' h where r: "read_entries parse (int after) fails (read_events ''message'' [] ls) = (xs, after', fails', h)"
      by (metis prod.collapse)
    from Cons.prems(1) have "serves C who rid D name_of dump lines connect" by (simp add: cu)
    note here = opened_reads [OF assms(1-3) this Opened r]
    show ?thesis
    proof (cases h)
      case (Some x)
      with Cons.prems(2) r Opened here show ?thesis by (auto simp: cu)
    next
      case None
      have after': "after' = int (after + length xs)" using here by blast
      consider "\<not> lost" | "lost" "fails' \<ge> max_retries" | "lost" "\<not> fails' \<ge> max_retries" by blast
      then show ?thesis
      proof cases
        case 1
        obtain zs w where z: "follow_events parse max_retries (int (after + length xs)) fails' cs = (zs, how, w)" "ys = xs @ zs" "waits = w"
          using Cons.prems(2) 1 None r Opened by (auto simp: cu after' split: prod.splits)
        from Cons.IH [OF _ z(1)] Cons.prems(1) next_entries_append here show ?thesis by (auto simp: z(2,3) cu add.assoc)
      next
        case 2
        with Cons.prems(2) None r Opened here show ?thesis by (auto simp: cu)
      next
        case 3
        obtain zs w where z: "follow_events parse max_retries (int (after + length xs)) (Suc fails') cs = (zs, how, w)" "ys = xs @ zs"
          "length waits = Suc (length w)"
          using Cons.prems(2) 3 None r Opened by (auto simp: cu after' split: prod.splits)
        from Cons.IH [OF _ z(1)] Cons.prems(1) next_entries_append here show ?thesis by (fastforce simp: z(2,3) cu add.assoc)
      qed
    qed
  qed
qed (auto simp: next_entries_def)


text \<open>A first connection lost before the event it brought was whole, and a second that brings it.\<close>

definition demo_connect :: "nat \<Rightarrow> bool \<Rightarrow> int \<Rightarrow> connection" where
  "demo_connect k lost a =
     (if a = 0 then Opened (take k (lf_lines [] (sse ''token'' ''{}'' (Some 1)))) lost else Refuses failed_error)"

lemma demo_stream:
  "stream_events demo_contracts demo_caller ''run_1'' 0 None 0 0 (demo_service\<lparr>store := demo_logged\<rparr>) [demo_poll\<lparr>seen := demo_logged, seen_next := demo_logged\<rparr>] =
     Inr ([EventChunk 1 (demo_event 1)], LeftOpen)"
proof -
  have found: "found ''acme'' ''run_1'' demo_logged = Inr demo_leased_row"
    using demo_leased_found by (simp add: found_def one_def demo_logged_def)
  have "events ''acme'' ''run_1'' 0 500 demo_logged demo_logged = Inr ([(1, demo_event 1)], RUNNING)"
    using found by (simp add: events_def query_def demo_logged_def demo_leased_row_def)
  with found show ?thesis
    by (simp add: stream_events_def get_run_def demo_caller_def demo_poll_def EVENT_STREAM_SECONDS_def MAX_PAGE_def)
qed

lemma demo_serves:
  "serves demo_contracts demo_caller ''run_1'' demo_logged (\<lambda>_. ''token'') (\<lambda>_ _. ''{}'') (lf_lines []) (demo_connect k lost)"
  unfolding serves_def
proof
  fix after
  let ?s = "demo_service\<lparr>store := demo_logged\<rparr>" and ?polls = "[demo_poll\<lparr>seen := demo_logged, seen_next := demo_logged\<rparr>]"
  show "(\<exists>e. demo_connect k lost (int after) = Refuses e) \<or> (\<exists>now clock s polls chunks closing k' lost'.
      (\<forall>p\<in>set polls. polls_of demo_logged p) \<and>
      stream_events demo_contracts demo_caller ''run_1'' (int after) None now clock s polls = Inr (chunks, closing) \<and>
      demo_connect k lost (int after) = Opened (take k' (lf_lines [] (concat (map (chunk_text (\<lambda>_. ''token'') (\<lambda>_ _. ''{}'')) chunks)))) lost')"
  proof (cases "after = 0")
    case True
    then show ?thesis using demo_stream demo_logged_inv polls_of_def [of demo_logged]
      by (intro disjI2 exI [of _ 0] exI [of _ "0::rat"] exI [of _ ?s] exI [of _ ?polls] exI [of _ "[EventChunk 1 (demo_event 1)]"]
          exI [of _ LeftOpen] exI [of _ k] exI [of _ lost]) (simp add: demo_connect_def del: sse_def)
  qed (simp add: demo_connect_def)
qed


text \<open>Failures are not forgotten by a connection that opened and brought nothing new: four of them add up to
  \<open>unreachable\<close> although the service answered in between, for a run that is quiet for longer than a stream.\<close>

lemma quiet_failures_add_up:
  "\<exists>waits. follow_run parse 3 0 (concat (replicate 4 [(\<lambda>_. Opened [] True, u), (\<lambda>_. Opened ['': keepalive'', []] False, u)])) =
     ([], Raises unreachable_error, waits)"
  by (simp add: follow_run_def numeral_eq_Suc starts_with_def)

section \<open>A heartbeat's answer reaches the handler\<close>

text \<open>What the worker's \<open>_heartbeat\<close> makes of the client's answer: its \<open>try\<close> statement.\<close>

fun beat_of :: "runs_error + lease \<Rightarrow> beat_answer" where
  "beat_of (Inr l) = Renewed l"
| "beat_of (Inl e) = (if ex_class e = LeaseLostError then BeatLost else BeatFailed)"

text \<open>The service's answer as the client receives it.\<close>

definition refused_response ::
  "request \<Rightarrow> service_error \<Rightarrow> headers \<Rightarrow> string \<Rightarrow> (string \<times> json) list \<Rightarrow> asked_wait \<Rightarrow> response" where
  "refused_response rq e hs detail details w =
     (let (p, sent) = answer_failure rq (ServiceFailure e hs)
      in \<lparr>rp_status = pr_status p, rp_body = problem_json p detail details, rp_request_id = map_of sent HEADER_REQUEST_ID,
          rp_retry_after = w\<rparr>)"

definition heartbeat_response ::
  "(lease \<Rightarrow> json) \<Rightarrow> request \<Rightarrow> headers \<Rightarrow> string \<Rightarrow> (string \<times> json) list \<Rightarrow> asked_wait \<Rightarrow> lease answer result \<Rightarrow> response" where
  "heartbeat_response dump rq hs detail details w a =
     (case a of
        Inl e \<Rightarrow> refused_response rq e hs detail details w
      | Inr x \<Rightarrow> \<lparr>rp_status = an_status x, rp_body = dump (an_body x), rp_request_id = None, rp_retry_after = NoWait\<rparr>)"

lemma refused_parts:
  "rp_status (refused_response rq e hs detail details w) = status_code e"
  "is_error (refused_response rq e hs detail details w)"
  "class_of_code (code_of e) = Some k \<Longrightarrow> ex_class (refusal (refused_response rq e hs detail details w)) = k"
proof -
  obtain p sent where a: "answer_failure rq (ServiceFailure e hs) = (p, sent)" by fastforce
  then have p: "pr_code p = code_of e" "pr_status p = status_code e"
    by (auto simp: service_answer_def problem_answer_def build_problem_def Let_def)
  have x: "refused_response rq e hs detail details w = \<lparr>rp_status = pr_status p, rp_body = problem_json p detail details,
      rp_request_id = map_of sent HEADER_REQUEST_ID, rp_retry_after = w\<rparr>"
    unfolding refused_response_def Let_def a prod.case ..
  show st: "rp_status (refused_response rq e hs detail details w) = status_code e" by (simp add: x p)
  have "400 \<le> status_code e \<and> status_code e \<le> 599" by (cases e) simp_all
  with st show "is_error (refused_response rq e hs detail details w)" by (simp add: is_error_def)
  show "ex_class (refusal (refused_response rq e hs detail details w)) = k" if "class_of_code (code_of e) = Some k"
    using problem_read [OF a x] that by (simp add: p)
qed

lemma refused_beat:
  assumes "class_of_code (code_of e) = Some k"
  shows "beat_of (heartbeat_of parsed (outcome_of_call (Responded (refused_response rq e hs detail details w)))) =
    (if k = LeaseLostError \<or> k = ConflictError then BeatLost else BeatFailed)"
  using refused_parts(2,3) assms by (auto simp: heartbeat_of_def)

text \<open>C36. A heartbeat tells a worker the truth: the answer the service gives it, as the client reads it, is a
  lost lease exactly when the worker does not hold a running lease on the run, and then its handler is
  stopped; a worker that holds it gets the lease renewed, or, when the transaction could not be
  committed, nothing that says more than that the heartbeat failed.\<close>

theorem heartbeat_tells_truth:
  assumes "found (acting_tenant who) rid (store s) = Inr row" "\<And>l. parsed (dump l) = l"
    and "heartbeat_route st commits who rid \<lparr>hb_worker_id = wid, hb_lease_seconds = n, hb_checkpoint = None\<rparr> now s = (a, s')"
    and "b = beat_of (heartbeat_of parsed (outcome_of_call (Responded (heartbeat_response dump rq hs detail details w a))))"
    and "perform (Beats i b clock) W = Some W'"
  shows "b =
      (if status row \<noteq> RUNNING \<or> lease_owner row \<noteq> Some wid then BeatLost
       else if commits then Renewed (snd (lease_row (run_limits st) row wid n now)) else BeatFailed) \<and>
    (status row \<noteq> RUNNING \<or> lease_owner row \<noteq> Some wid \<longrightarrow> s' = s \<and> at_execution (wk_attempts W' ! i) \<noteq> Going \<and> \<not> at_beating (wk_attempts W' ! i))"
proof -
  let ?holds = "status row = RUNNING \<and> lease_owner row = Some wid"
  have a: "(a, s') = (if \<not> ?holds then (Inl LeaseLost, s) else if commits
      then (Inr (ok (snd (lease_row (run_limits st) row wid n now))), s')
      else (Inl (Unavailable True RETRY_AFTER_SECONDS), s))"
    using assms(1,3) by (auto simp: heartbeat_route_def transact_def on_store_def heartbeat_def locked_def fence_def Let_def
        split: if_splits prod.splits)
  have b: "b = (if \<not> ?holds then BeatLost else if commits then Renewed (snd (lease_row (run_limits st) row wid n now)) else BeatFailed)"
  proof -
    consider "\<not> ?holds" | "?holds" "commits" | "?holds" "\<not> commits" by blast
    then show ?thesis
    proof cases
      case 2
      with a show ?thesis by (simp add: assms(2,4) heartbeat_response_def heartbeat_of_def is_error_def ok_def)
    qed (use a in \<open>auto simp: assms(4) heartbeat_response_def refused_beat simp del: outcome_of_call.simps\<close>)
  qed
  have "at_execution (wk_attempts W' ! i) \<noteq> Going \<and> \<not> at_beating (wk_attempts W' ! i)" if "\<not> ?holds"
    using assms(5) that by (cases "at_execution (wk_attempts W ! i)")
      (auto simp: b guarded_def attempt_is_def beat_answered_def stop_beating_def cancel_handler_def split: if_splits)
  with b a show ?thesis by (auto split: if_splits)
qed

definition demo_dump :: "lease \<Rightarrow> json" where
  "demo_dump l = JArr [JStr (lease_run_id l), JStr (lease_worker_id l), JInt (lease_until l),
     (case remaining_seconds l of None \<Rightarrow> JNull | Some q \<Rightarrow> JArr [JInt (fst (quotient_of q)), JInt (snd (quotient_of q))]),
     JBool (cancel_requested l)]"

fun demo_parsed :: "json \<Rightarrow> lease" where
  "demo_parsed (JArr [JStr r, JStr w, JInt t, q, JBool c]) =
     \<lparr>lease_run_id = r, lease_worker_id = w, lease_until = t,
      remaining_seconds = (case q of JArr [JInt n, JInt d] \<Rightarrow> Some (of_int n / of_int d) | _ \<Rightarrow> None), cancel_requested = c\<rparr>"
| "demo_parsed _ = \<lparr>lease_run_id = [], lease_worker_id = [], lease_until = 0, remaining_seconds = None, cancel_requested = False\<rparr>"

lemma demo_dump_parsed: "demo_parsed (demo_dump l) = l"
proof -
  have "of_int (fst (quotient_of q)) / of_int (snd (quotient_of q)) = q" for q :: rat
    using quotient_of_div [of q "fst (quotient_of q)" "snd (quotient_of q)"] by simp
  then show ?thesis by (cases l) (simp add: demo_dump_def split: option.split)
qed

text \<open>The lease is w1's; w2 still works the run and heartbeats.\<close>

theorem heartbeat_tells_truth_witness:
  "\<exists>W W'. performs [TakesSlot, ClaimAnswered (Some demo_claimed), Begins 0 0] demo_worker = Some W \<and>
     at_execution (wk_attempts W ! 0) = Going \<and>
     perform (Beats 0 (beat_of (heartbeat_of demo_parsed (outcome_of_call (Responded (heartbeat_response demo_dump
       \<lparr>rq_path = ''/v1/runs/run_1/heartbeat'', rq_request_id = None\<rparr> [] [] [] NoWait (fst (heartbeat_route demo_settings True demo_caller ''run_1''
         \<lparr>hb_worker_id = ''w2'', hb_lease_seconds = 60, hb_checkpoint = None\<rparr> 9 (demo_service\<lparr>store := demo_leased\<rparr>)))))))) 20) W = Some W' \<and>
     at_execution (wk_attempts W' ! 0) \<noteq> Going"
proof -
  have W: "\<exists>W. performs [TakesSlot, ClaimAnswered (Some demo_claimed), Begins 0 0] demo_worker = Some W \<and>
      at_execution (wk_attempts W ! 0) = Going \<and> attempt_is at_beating 0 W"
    using demo_claimed_parts by (simp add: demo_steps)
  then obtain W where W: "performs [TakesSlot, ClaimAnswered (Some demo_claimed), Begins 0 0] demo_worker = Some W"
    "at_execution (wk_attempts W ! 0) = Going" "attempt_is at_beating 0 W" by blast
  let ?rq = "\<lparr>rq_path = ''/v1/runs/run_1/heartbeat'', rq_request_id = None\<rparr>"
  let ?route = "heartbeat_route demo_settings True demo_caller ''run_1''
      \<lparr>hb_worker_id = ''w2'', hb_lease_seconds = 60, hb_checkpoint = None\<rparr> 9 (demo_service\<lparr>store := demo_leased\<rparr>)"
  obtain a s' where r: "?route = (a, s')" by fastforce
  let ?b = "beat_of (heartbeat_of demo_parsed (outcome_of_call (Responded (heartbeat_response demo_dump ?rq [] [] [] NoWait a))))"
  have p: "perform (Beats 0 ?b 20) W = Some (beat_answered 0 ?b 20 W)" using W(3) by (simp add: guarded_def)
  have "found (acting_tenant demo_caller) ''run_1'' (store (demo_service\<lparr>store := demo_leased\<rparr>)) = Inr demo_leased_row"
    by (simp add: demo_caller_def demo_leased_found)
  from conjunct2 [OF heartbeat_tells_truth [OF this demo_dump_parsed r refl p]]
  have "at_execution (wk_attempts (beat_answered 0 ?b 20 W) ! 0) \<noteq> Going" by (simp add: demo_leased_row_def)
  then show ?thesis unfolding r fst_conv using W(1,2) p by blast
qed

end
