(* ===== verification/Requests.thy ===== *)
theory Requests
  imports Routing Client Schedule_Rows Webhook_Store Run_Reads
begin

text \<open>
  The requests the SDK's methods send: \<open>client.py\<close>, \<open>schedules.py\<close>, \<open>webhooks.py\<close> and \<open>artifacts.py\<close>. What
  Pydantic makes of a contract's value is the record \<open>contract_dumps\<close>; what of a path arrives at the service is
  \<open>arrives\<close>, of which URLs promise that a path of unreserved characters arrives as it was.
\<close>

section \<open>Requests\<close>

datatype sent_body = SentNone | SentBytes string | SentObject "(string \<times> json) list"

record api_request =
  ar_method :: string
  ar_path :: string
  ar_tenant :: "string option"
  ar_params :: "(string \<times> string) list"
  ar_headers :: headers
  ar_body :: sent_body

record contract_dumps =
  dump_start :: "run_start \<Rightarrow> (string \<times> json) list"
  dump_interrupt :: "interrupt \<Rightarrow> json"
  dump_resolution :: "interrupt_resolution \<Rightarrow> (string \<times> json) list"
  dump_error :: "agent_error \<Rightarrow> json"
  dump_event :: "run_event \<Rightarrow> json"
  dump_spec :: "schedule_spec \<Rightarrow> (string \<times> json) list"
  dump_seconds :: "seconds \<Rightarrow> json"

definition asks_json :: "string \<Rightarrow> string \<Rightarrow> string option \<Rightarrow> (string \<times> string) list \<Rightarrow> (string \<times> json) list \<Rightarrow> api_request" where
  "asks_json m path tenant params members =
     \<lparr>ar_method = m, ar_path = path, ar_tenant = tenant, ar_params = params, ar_headers = [], ar_body = SentObject members\<rparr>"

definition asks :: "string \<Rightarrow> string \<Rightarrow> string option \<Rightarrow> (string \<times> string) list \<Rightarrow> api_request" where
  "asks m path tenant params =
     \<lparr>ar_method = m, ar_path = path, ar_tenant = tenant, ar_params = params, ar_headers = [], ar_body = SentNone\<rparr>"

text \<open>\<open>Transport.send\<close>: the tenant of the call, or the client's.\<close>

definition tenant_header :: "string option \<Rightarrow> string option \<Rightarrow> string option" where
  "tenant_header own given = (if truthy given then given else if truthy own then own else None)"

definition worker_params :: "string option \<Rightarrow> (string \<times> string) list" where
  "worker_params w = (if truthy w then [(''worker_id'', the w)] else [])"

text \<open>The members of a dict comprehension over the filters that were given.\<close>

definition given :: "(string \<times> string option) list \<Rightarrow> (string \<times> string) list" where
  "given fs = map (\<lambda>(n, v). (n, the v)) (filter (\<lambda>(n, v). v \<noteq> None) fs)"

definition or_null :: "('a \<Rightarrow> json) \<Rightarrow> 'a option \<Rightarrow> json" where
  "or_null f v = (case v of None \<Rightarrow> JNull | Some x \<Rightarrow> f x)"

definition checkpoint_member :: "(string \<times> json) list option \<Rightarrow> (string \<times> json) list" where
  "checkpoint_member cp = (case cp of None \<Rightarrow> [] | Some c \<Rightarrow> [(''checkpoint'', JObj c)])"

definition run_path :: "string \<Rightarrow> string \<Rightarrow> string" where
  "run_path rid rest = ''/v1/runs/'' @ rid @ rest"

section \<open>\<open>RunsClient\<close>\<close>

definition start_request :: "contract_dumps \<Rightarrow> run_start \<Rightarrow> bool \<Rightarrow> api_request" where
  "start_request D s queue = asks_json ''POST'' ''/v1/runs'' (Some (rs_tenant_id s)) [] (dump_start D s @ [(''queue'', JBool queue)])"

definition claim_call :: "string \<Rightarrow> string list \<Rightarrow> int \<Rightarrow> string option \<Rightarrow> api_request" where
  "claim_call wid agents lease tenant =
     asks_json ''POST'' ''/v1/runs/claim'' tenant []
       [(''worker_id'', JStr wid), (''agent_ids'', JArr (map JStr agents)), (''lease_seconds'', JInt lease)]"

definition heartbeat_call :: "string \<Rightarrow> string \<Rightarrow> int \<Rightarrow> (string \<times> json) list option \<Rightarrow> string option \<Rightarrow> api_request" where
  "heartbeat_call rid wid lease cp tenant =
     asks_json ''POST'' (run_path rid ''/heartbeat'') tenant []
       ([(''worker_id'', JStr wid), (''lease_seconds'', JInt lease)] @ checkpoint_member cp)"

definition release_call :: "string \<Rightarrow> string \<Rightarrow> (string \<times> json) list option \<Rightarrow> string option \<Rightarrow> api_request" where
  "release_call rid wid cp tenant =
     asks_json ''POST'' (run_path rid ''/release'') tenant [] ([(''worker_id'', JStr wid)] @ checkpoint_member cp)"

definition pause_request :: "contract_dumps \<Rightarrow> interrupt \<Rightarrow> (string \<times> json) list option \<Rightarrow> string option \<Rightarrow> api_request" where
  "pause_request D i cp wid =
     asks_json ''POST'' (run_path (i_run_id i) ''/pause'') (Some (i_tenant_id i)) (worker_params wid)
       [(''interrupt'', dump_interrupt D i), (''checkpoint'', or_null JObj cp)]"

definition resume_request :: "contract_dumps \<Rightarrow> interrupt_resolution \<Rightarrow> string option \<Rightarrow> api_request" where
  "resume_request D r tenant = asks_json ''POST'' (run_path (res_run_id r) ''/resume'') tenant [] (dump_resolution D r)"

definition cancel_request :: "string \<Rightarrow> string option \<Rightarrow> string option \<Rightarrow> api_request" where
  "cancel_request rid why tenant = asks_json ''POST'' (run_path rid ''/cancel'') tenant [] [(''reason'', or_null JStr why)]"

definition finish_request ::
  "contract_dumps \<Rightarrow> string \<Rightarrow> run_status \<Rightarrow> json \<Rightarrow> agent_error option \<Rightarrow> string option \<Rightarrow> string option \<Rightarrow> api_request" where
  "finish_request D rid st output err wid tenant =
     asks_json ''POST'' (run_path rid ''/finish'') tenant (worker_params wid)
       ([(''status'', JStr (status_value st)), (''output'', output)] @ (case err of None \<Rightarrow> [] | Some e \<Rightarrow> [(''error'', dump_error D e)]))"

definition get_request :: "string \<Rightarrow> string option \<Rightarrow> api_request" where
  "get_request rid tenant = asks ''GET'' (run_path rid []) tenant []"

definition list_request :: "run_filters \<Rightarrow> string option \<Rightarrow> nat \<Rightarrow> string option \<Rightarrow> api_request" where
  "list_request f cursor limit tenant =
     asks ''GET'' ''/v1/runs'' tenant
       (given [(''status'', map_option status_value (by_status f)), (''assignee'', by_assignee f), (''agent_id'', by_agent f),
          (''thread_id'', by_thread f), (''parent_run_id'', by_parent f),
          (''top_level'', if top_level f then Some ''true'' else None), (''cursor'', cursor)] @ [(''limit'', show_nat limit)])"

definition resolutions_request :: "string \<Rightarrow> string option \<Rightarrow> nat \<Rightarrow> string option \<Rightarrow> api_request" where
  "resolutions_request rid cursor limit tenant =
     asks ''GET'' (run_path rid ''/resolutions'') tenant ((''limit'', show_nat limit) # given [(''cursor'', cursor)])"

definition append_events_request :: "contract_dumps \<Rightarrow> string \<Rightarrow> run_event list \<Rightarrow> string option \<Rightarrow> string option \<Rightarrow> api_request" where
  "append_events_request D rid es wid tenant =
     asks_json ''POST'' (run_path rid ''/events'') tenant (worker_params wid) [(''events'', JArr (map (dump_event D) es))]"

definition events_request :: "string \<Rightarrow> int \<Rightarrow> nat \<Rightarrow> string option \<Rightarrow> api_request" where
  "events_request rid after limit tenant =
     asks ''GET'' (run_path rid ''/events'') tenant [(''after'', show_int after), (''limit'', show_nat limit)]"

definition stream_request :: "string \<Rightarrow> int \<Rightarrow> string option \<Rightarrow> api_request" where
  "stream_request rid after tenant = asks ''GET'' (run_path rid ''/events/stream'') tenant [(''after'', show_int after)]"

definition live_request :: api_request where
  "live_request = asks ''GET'' ''/health/live'' None []"

definition ready_request :: api_request where
  "ready_request = asks ''GET'' ''/health/ready'' None []"

definition metrics_request :: api_request where
  "metrics_request = asks ''GET'' ''/metrics'' None []"

section \<open>\<open>ArtifactsAPI\<close>, \<open>SchedulesAPI\<close>, \<open>WebhooksAPI\<close>\<close>

text \<open>\<open>hexdigest\<close> is SHA-256 in hex digits.\<close>

definition upload_call :: "(string \<Rightarrow> string) \<Rightarrow> string \<Rightarrow> string \<Rightarrow> string \<Rightarrow> string option \<Rightarrow> string option \<Rightarrow> api_request" where
  "upload_call hexdigest rid bytes mime_type wid tenant =
     \<lparr>ar_method = ''POST'', ar_path = run_path rid ''/artifacts'', ar_tenant = tenant,
      ar_params = worker_params wid @ [(''checksum'', ''sha256:'' @ hexdigest bytes)],
      ar_headers = [(''Content-Type'', mime_type)], ar_body = SentBytes bytes\<rparr>"

definition download_request :: "string \<Rightarrow> string option \<Rightarrow> api_request" where
  "download_request aid tenant = asks ''GET'' (''/v1/artifacts/'' @ aid) tenant []"

definition create_schedule_request :: "contract_dumps \<Rightarrow> schedule_spec \<Rightarrow> api_request" where
  "create_schedule_request D spec = asks_json ''POST'' ''/v1/schedules'' (Some (ss_tenant_id spec)) [] (dump_spec D spec)"

definition list_schedules_request ::
  "bool option \<Rightarrow> string option \<Rightarrow> string option \<Rightarrow> string option \<Rightarrow> nat \<Rightarrow> string option \<Rightarrow> api_request" where
  "list_schedules_request en agent behalf cursor limit tenant =
     asks ''GET'' ''/v1/schedules'' tenant ((''limit'', show_nat limit) #
       given [(''enabled'', map_option (\<lambda>b. if b then ''true'' else ''false'') en), (''agent_id'', agent),
         (''on_behalf_of'', behalf), (''cursor'', cursor)])"

definition schedule_path :: "string \<Rightarrow> string \<Rightarrow> string" where
  "schedule_path sid rest = ''/v1/schedules/'' @ sid @ rest"

definition get_schedule_request :: "string \<Rightarrow> string option \<Rightarrow> api_request" where
  "get_schedule_request sid tenant = asks ''GET'' (schedule_path sid []) tenant []"

text \<open>\<open>model_dump(exclude_unset=True)\<close>: the fields that were set, and only those.\<close>

fun set_field :: "string \<Rightarrow> ('a \<Rightarrow> json) \<Rightarrow> 'a sent \<Rightarrow> (string \<times> json) list" where
  "set_field name f Unset = []"
| "set_field name f Null = [(name, JNull)]"
| "set_field name f (Sent x) = [(name, f x)]"

definition update_members :: "contract_dumps \<Rightarrow> schedule_update \<Rightarrow> (string \<times> json) list" where
  "update_members D u =
     set_field ''agent_id'' JStr (su_agent_id u) @ set_field ''name'' JStr (su_name u) @ set_field ''cadence'' JStr (su_cadence u) @
     set_field ''timezone'' JStr (su_timezone u) @ set_field ''input'' id (su_input u) @
     set_field ''workspace_id'' JStr (su_workspace_id u) @ set_field ''enabled'' JBool (su_enabled u) @
     set_field ''timeout_seconds'' (dump_seconds D) (su_timeout_seconds u) @ set_field ''agent_version'' JStr (su_agent_version u) @
     set_field ''priority'' JInt (su_priority u) @ set_field ''concurrency_key'' JStr (su_concurrency_key u) @
     set_field ''metadata'' JObj (su_metadata u)"

definition update_schedule_request :: "contract_dumps \<Rightarrow> string \<Rightarrow> schedule_update \<Rightarrow> string option \<Rightarrow> api_request" where
  "update_schedule_request D sid u tenant = asks_json ''PATCH'' (schedule_path sid []) tenant [] (update_members D u)"

definition delete_schedule_request :: "string \<Rightarrow> string option \<Rightarrow> api_request" where
  "delete_schedule_request sid tenant = asks ''DELETE'' (schedule_path sid []) tenant []"

text \<open>\<open>at\<close> (\<open>zoned\<close>) is an instant and its zone's offset.\<close>

definition fire_request :: "string \<Rightarrow> (int \<times> instant) option \<Rightarrow> string option \<Rightarrow> api_request" where
  "fire_request sid zoned tenant =
     (case zoned of
        None \<Rightarrow> asks ''POST'' (schedule_path sid ''/fire'') tenant []
      | Some (offset, t) \<Rightarrow> asks_json ''POST'' (schedule_path sid ''/fire'') tenant [] [(''at'', JStr (isoformat offset t))])"

definition webhook_path :: "string \<Rightarrow> string \<Rightarrow> string" where
  "webhook_path wid rest = ''/v1/webhooks/'' @ wid @ rest"

definition create_webhook_request :: "string \<Rightarrow> webhook_event list \<Rightarrow> string option \<Rightarrow> api_request" where
  "create_webhook_request url es tenant =
     asks_json ''POST'' ''/v1/webhooks'' tenant [] [(''url'', JStr url), (''events'', JArr (map (JStr \<circ> event_value) es))]"

definition list_webhooks_request :: "string option \<Rightarrow> nat \<Rightarrow> string option \<Rightarrow> api_request" where
  "list_webhooks_request cursor limit tenant =
     asks ''GET'' ''/v1/webhooks'' tenant ((''limit'', show_nat limit) # given [(''cursor'', cursor)])"

definition get_webhook_request :: "string \<Rightarrow> string option \<Rightarrow> api_request" where
  "get_webhook_request wid tenant = asks ''GET'' (webhook_path wid []) tenant []"

definition delete_webhook_request :: "string \<Rightarrow> string option \<Rightarrow> api_request" where
  "delete_webhook_request wid tenant = asks ''DELETE'' (webhook_path wid []) tenant []"

definition rotate_secret_request :: "string \<Rightarrow> string option \<Rightarrow> api_request" where
  "rotate_secret_request wid tenant = asks ''POST'' (webhook_path wid ''/rotate-secret'') tenant []"

fun state_value :: "delivery_state \<Rightarrow> string" where
  "state_value Pending = ''pending''"
| "state_value Dead = ''dead''"

definition list_deliveries_request ::
  "delivery_state option \<Rightarrow> string option \<Rightarrow> string option \<Rightarrow> nat \<Rightarrow> string option \<Rightarrow> api_request" where
  "list_deliveries_request state wid cursor limit tenant =
     asks ''GET'' ''/v1/webhooks/deliveries'' tenant
       (given [(''state'', map_option state_value state), (''webhook_id'', wid), (''cursor'', cursor)] @ [(''limit'', show_nat limit)])"

definition redeliver_request :: "string \<Rightarrow> string option \<Rightarrow> api_request" where
  "redeliver_request did tenant = asks ''POST'' (webhook_path ''deliveries'' (''/'' @ did @ ''/redeliver'')) tenant []"

section \<open>The methods and their requests\<close>

text \<open>\<open>sdk_call D operation ids q\<close>: the SDK's method of that operation, called with those ids, sends \<open>q\<close>.\<close>

inductive sdk_call :: "contract_dumps \<Rightarrow> string \<Rightarrow> (string \<times> string) list \<Rightarrow> api_request \<Rightarrow> bool" for D where
  "sdk_call D ''runs.start'' [] (start_request D s queue)"
| "sdk_call D ''runs.claim'' [] (claim_call wid agents lease tenant)"
| "sdk_call D ''runs.heartbeat'' [(''run_id'', rid)] (heartbeat_call rid wid lease cp tenant)"
| "sdk_call D ''runs.release'' [(''run_id'', rid)] (release_call rid wid cp tenant)"
| "sdk_call D ''runs.pause'' [(''run_id'', i_run_id i)] (pause_request D i cp w)"
| "sdk_call D ''runs.resume'' [(''run_id'', res_run_id r)] (resume_request D r tenant)"
| "sdk_call D ''runs.cancel'' [(''run_id'', rid)] (cancel_request rid why tenant)"
| "sdk_call D ''runs.finish'' [(''run_id'', rid)] (finish_request D rid st output err w tenant)"
| "sdk_call D ''runs.get'' [(''run_id'', rid)] (get_request rid tenant)"
| "sdk_call D ''runs.list'' [] (list_request f cursor limit tenant)"
| "sdk_call D ''runs.resolutions'' [(''run_id'', rid)] (resolutions_request rid cursor limit tenant)"
| "sdk_call D ''runs.append_events'' [(''run_id'', rid)] (append_events_request D rid es w tenant)"
| "sdk_call D ''runs.events'' [(''run_id'', rid)] (events_request rid after limit tenant)"
| "sdk_call D ''runs.stream_events'' [(''run_id'', rid)] (stream_request rid after tenant)"
| "sdk_call D ''ops.live'' [] live_request"
| "sdk_call D ''ops.ready'' [] ready_request"
| "sdk_call D ''ops.metrics'' [] metrics_request"
| "sdk_call D ''artifacts.upload'' [(''run_id'', rid)] (upload_call hexdigest rid bytes mime_type w tenant)"
| "sdk_call D ''artifacts.download'' [(''artifact_id'', aid)] (download_request aid tenant)"
| "sdk_call D ''schedules.create'' [] (create_schedule_request D spec)"
| "sdk_call D ''schedules.list'' [] (list_schedules_request en agent behalf cursor limit tenant)"
| "sdk_call D ''schedules.get'' [(''schedule_id'', sid)] (get_schedule_request sid tenant)"
| "sdk_call D ''schedules.update'' [(''schedule_id'', sid)] (update_schedule_request D sid u tenant)"
| "sdk_call D ''schedules.delete'' [(''schedule_id'', sid)] (delete_schedule_request sid tenant)"
| "sdk_call D ''schedules.fire'' [(''schedule_id'', sid)] (fire_request sid zoned tenant)"
| "sdk_call D ''webhooks.create'' [] (create_webhook_request url evs tenant)"
| "sdk_call D ''webhooks.list'' [] (list_webhooks_request cursor limit tenant)"
| "sdk_call D ''webhooks.get'' [(''webhook_id'', hid)] (get_webhook_request hid tenant)"
| "sdk_call D ''webhooks.delete'' [(''webhook_id'', hid)] (delete_webhook_request hid tenant)"
| "sdk_call D ''webhooks.rotate_secret'' [(''webhook_id'', hid)] (rotate_secret_request hid tenant)"
| "sdk_call D ''webhooks.deliveries'' [] (list_deliveries_request state whid cursor limit tenant)"
| "sdk_call D ''webhooks.redeliver'' [(''delivery_id'', did)] (redeliver_request did tenant)"

text \<open>What a route's body takes.\<close>

fun body_fits :: "body_shape \<Rightarrow> sent_body \<Rightarrow> bool" where
  "body_fits TakesNone SentNone = True"
| "body_fits TakesBytes (SentBytes b) = True"
| "body_fits (TakesObject must may) (SentObject ms) \<longleftrightarrow>
     set must \<subseteq> fst ` set ms \<and> fst ` set ms \<subseteq> set must \<union> set may"
| "body_fits (MayTakeObject may) SentNone = True"
| "body_fits (MayTakeObject may) (SentObject ms) \<longleftrightarrow> fst ` set ms \<subseteq> set may"
| "body_fits _ _ = False"

definition models_dumped :: "contract_fields \<Rightarrow> contract_dumps \<Rightarrow> bool" where
  "models_dumped F D \<longleftrightarrow>
     (\<forall>s. map fst (dump_start D s) = cf_start F) \<and> (\<forall>r. map fst (dump_resolution D r) = cf_resolution F) \<and>
     (\<forall>s. map fst (dump_spec D s) = cf_spec F)"

text \<open>The characters a URL keeps, and the ids that are one segment of a path.\<close>

definition unreserved :: "char \<Rightarrow> bool" where
  "unreserved c \<longleftrightarrow> c \<in> set ''-._~'' \<or> (let n = of_char c :: nat in 48 \<le> n \<and> n \<le> 57 \<or> 65 \<le> n \<and> n \<le> 90 \<or> 97 \<le> n \<and> n \<le> 122)"

definition plain_segment :: "string \<Rightarrow> bool" where
  "plain_segment s \<longleftrightarrow> list_all unreserved s \<and> s \<noteq> ''.'' \<and> s \<noteq> ''..''"

definition plain_path :: "string \<Rightarrow> bool" where
  "plain_path p \<longleftrightarrow> list_all plain_segment (split_on (CHR ''/'') p)"

definition carries_plain :: "(string \<Rightarrow> string) \<Rightarrow> bool" where
  "carries_plain arrives \<longleftrightarrow> (\<forall>p. plain_path p \<longrightarrow> arrives p = p)"

section \<open>Every call reaches its operation\<close>

lemma unreserved_slash: "\<not> unreserved (CHR ''/'')"
  by code_simp

lemma plain_segment_no_slash: "plain_segment s \<Longrightarrow> CHR ''/'' \<notin> set s"
  using unreserved_slash by (auto simp: plain_segment_def list_all_iff)

lemma split_plain:
  assumes "plain_segment x"
  shows "split_on (CHR ''/'') (run_path x []) = ['''', ''v1'', ''runs'', x]"
    and "split_on (CHR ''/'') (run_path x (CHR ''/'' # t)) = ['''', ''v1'', ''runs'', x] @ split_on (CHR ''/'') t"
    and "split_on (CHR ''/'') (schedule_path x []) = ['''', ''v1'', ''schedules'', x]"
    and "split_on (CHR ''/'') (schedule_path x (CHR ''/'' # t)) = ['''', ''v1'', ''schedules'', x] @ split_on (CHR ''/'') t"
    and "split_on (CHR ''/'') (webhook_path x []) = ['''', ''v1'', ''webhooks'', x]"
    and "split_on (CHR ''/'') (webhook_path x (CHR ''/'' # t)) = ['''', ''v1'', ''webhooks'', x] @ split_on (CHR ''/'') t"
    and "split_on (CHR ''/'') x = [x]"
    and "split_on (CHR ''/'') (x @ ''/redeliver'') = [x, ''redeliver'']"
  using plain_segment_no_slash [OF assms]
  by (simp_all add: run_path_def schedule_path_def webhook_path_def split_on_plain split_on_append)

text \<open>The names of what a call gives.\<close>

lemma given_names: "fst ` set fs \<subseteq> X \<Longrightarrow> fst ` set (given fs) \<subseteq> X"
  by (force simp: given_def)

lemma worker_params_names: "''worker_id'' \<in> X \<Longrightarrow> fst ` set (worker_params w) \<subseteq> X"
  by (auto simp: worker_params_def)

lemma checkpoint_names: "''checkpoint'' \<in> X \<Longrightarrow> fst ` set (checkpoint_member cp) \<subseteq> X"
  by (auto simp: checkpoint_member_def split: option.split)

lemma set_field_names: "name \<in> X \<Longrightarrow> fst ` set (set_field name f v) \<subseteq> X"
  by (cases v) auto

lemma update_names:
  "fst ` set (update_members D u) \<subseteq> set [''agent_id'', ''name'', ''cadence'', ''timezone'', ''input'', ''workspace_id'', ''enabled'',
     ''timeout_seconds'', ''agent_version'', ''priority'', ''concurrency_key'', ''metadata'']"
  unfolding update_members_def set_append image_Un Un_subset_iff by (intro conjI set_field_names) simp_all

lemma dumped_names:
  assumes "models_dumped F D"
  shows "fst ` set (dump_start D s) = set (cf_start F)" "fst ` set (dump_resolution D r) = set (cf_resolution F)"
    "fst ` set (dump_spec D sp) = set (cf_spec F)"
  using assms by (metis list.set_map models_dumped_def)+

lemmas given_fit = given_names worker_params_names checkpoint_names set_field_names image_Un

text \<open>Where an arriving path goes: its segments against those of the routes of its method.\<close>

definition reaches :: "contract_fields \<Rightarrow> string \<Rightarrow> string list \<Rightarrow> (route \<times> (string \<times> string) list) option" where
  "reaches F m segments =
     (case find (\<lambda>r. ro_method r = m \<and> segment_values (split_on (CHR ''/'') (ro_path r)) segments \<noteq> None) (ROUTES F) of
        None \<Rightarrow> None
      | Some r \<Rightarrow> Some (r, the (segment_values (split_on (CHR ''/'') (ro_path r)) segments)))"

lemma first_route_find:
  "first_route rs m path =
     (case find (\<lambda>r. ro_method r = m \<and> path_values (ro_path r) path \<noteq> None) rs of
        None \<Rightarrow> None | Some r \<Rightarrow> Some (r, the (path_values (ro_path r) path)))"
  by (induction rs) (auto split: option.split)

lemma dispatch_reaches:
  assumes "routes_in_order dispatch" "carries_plain arrives" "list_all plain_segment (split_on (CHR ''/'') path)"
  shows "dispatch (ROUTES F) m (arrives path) = reaches F m (split_on (CHR ''/'') path)"
proof -
  have "arrives path = path" using assms(2,3) by (simp add: carries_plain_def plain_path_def)
  then show ?thesis using assms(1) unfolding routes_in_order_def first_route_find reaches_def path_values_def by metis
qed

lemma plain_words:
  "list_all plain_segment ['''', ''v1'', ''runs'', ''claim'', ''heartbeat'', ''release'', ''pause'', ''resume'', ''cancel'', ''finish'', ''events'',
     ''stream'', ''resolutions'', ''artifacts'', ''schedules'', ''fire'', ''webhooks'', ''rotate-secret'', ''deliveries'', ''redeliver'',
     ''health'', ''live'', ''ready'', ''metrics'']"
  by code_simp

lemmas route_table = reaches_def ROUTES_def ops_routes_def runs_routes_def artifacts_routes_def schedules_routes_def webhooks_routes_def
  Let_def route_at_def param_name_def operation_id_def

lemmas requests = start_request_def claim_call_def heartbeat_call_def release_call_def pause_request_def resume_request_def
  cancel_request_def finish_request_def get_request_def list_request_def resolutions_request_def append_events_request_def
  events_request_def stream_request_def live_request_def ready_request_def metrics_request_def upload_call_def download_request_def
  create_schedule_request_def list_schedules_request_def get_schedule_request_def update_schedule_request_def
  delete_schedule_request_def create_webhook_request_def list_webhooks_request_def get_webhook_request_def
  delete_webhook_request_def rotate_secret_request_def list_deliveries_request_def redeliver_request_def asks_def asks_json_def

lemma call_fits:
  assumes "sdk_call D operation ids q" "models_dumped F D" "\<forall>(n, v)\<in>set ids. plain_segment v \<and> v \<noteq> []"
    and "(''webhook_id'', ''deliveries'') \<notin> set ids"
  shows "list_all plain_segment (split_on (CHR ''/'') (ar_path q)) \<and>
    (\<exists>r. reaches F (ar_method q) (split_on (CHR ''/'') (ar_path q)) = Some (r, ids) \<and> operation_id r = operation \<and>
      fst ` set (ar_params q) \<subseteq> set (ro_query r) \<and> body_fits (ro_body r) (ar_body q))"
  using assms
proof (cases rule: sdk_call.cases)
  case (8 rid st out err w tenant)
  with assms(3) plain_words show ?thesis by (cases err) (simp_all add: requests split_plain route_table given_fit)
next
  case (25 sid zoned tenant)
  have "zoned = None \<or> (\<exists>offset t. zoned = Some (offset, t))" by (cases zoned) auto
  then show ?thesis
  proof (elim disjE exE)
    assume "zoned = None"
    with 25 assms(3) plain_words show ?thesis by (simp add: fire_request_def requests split_plain route_table)
  next
    fix offset t assume "zoned = Some (offset, t)"
    with 25 assms(3) plain_words show ?thesis by (simp add: fire_request_def requests split_plain route_table)
  qed
next
  case (23 sid u tenant)
  with assms(3) plain_words show ?thesis
    using update_names [of D u] by (simp add: requests split_plain route_table)
qed (use assms(3,4) plain_words dumped_names [OF assms(2)] in \<open>simp_all add: requests split_plain route_table given_fit subset_insertI\<close>)

text \<open>C29. Every method of the SDK calls the operation it is named after: its request arrives at the route of that
  operation id, with the ids it was called with as the path's values, under no other route declared before
  it; it sends no query parameter the route does not read, and a body with every member the route must have
  and none it refuses. The ids are those a URL keeps as one segment, and no webhook is called \<open>deliveries\<close>.\<close>

theorem sdk_calls_reach_operations:
  assumes "routes_in_order dispatch" "carries_plain arrives" "models_dumped F D" "sdk_call D operation ids q"
    and "\<forall>(n, v)\<in>set ids. plain_segment v \<and> v \<noteq> []" "(''webhook_id'', ''deliveries'') \<notin> set ids"
  shows "\<exists>r. dispatch (ROUTES F) (ar_method q) (arrives (ar_path q)) = Some (r, ids) \<and> operation_id r = operation \<and>
    fst ` set (ar_params q) \<subseteq> set (ro_query r) \<and> body_fits (ro_body r) (ar_body q)"
  using call_fits [OF assms(4,3,5,6)] dispatch_reaches [OF assms(1,2)] by metis

definition demo_fields :: contract_fields where
  "demo_fields = \<lparr>cf_start = [''run_id''], cf_resolution = [''run_id''], cf_spec = [''agent_id'']\<rparr>"

definition demo_dumps :: contract_dumps where
  "demo_dumps = \<lparr>dump_start = (\<lambda>s. [(''run_id'', JStr (rs_run_id s))]), dump_interrupt = (\<lambda>i. JStr (i_interrupt_id i)),
     dump_resolution = (\<lambda>r. [(''run_id'', JStr (res_run_id r))]), dump_error = (\<lambda>e. JStr (ae_code e)), dump_event = (\<lambda>e. JNull),
     dump_spec = (\<lambda>s. [(''agent_id'', JStr (ss_agent_id s))]), dump_seconds = (\<lambda>s. JNull)\<rparr>"

theorem sdk_calls_reach_operations_witness:
  "\<exists>r. first_route (ROUTES demo_fields) ''POST'' ''/v1/runs/run_1/heartbeat'' = Some (r, [(''run_id'', ''run_1'')]) \<and>
     operation_id r = ''runs.heartbeat''"
proof -
  have d: "routes_in_order first_route" "carries_plain id" "models_dumped demo_fields demo_dumps"
    by (simp_all add: routes_in_order_def carries_plain_def models_dumped_def demo_fields_def demo_dumps_def)
  have plain: "plain_segment ''run_1''" by code_simp
  have "sdk_call demo_dumps ''runs.heartbeat'' [(''run_id'', ''run_1'')] (heartbeat_call ''run_1'' ''w1'' 60 None None)"
    by (rule sdk_call.intros)
  from sdk_calls_reach_operations [OF d this] plain show ?thesis
    by (fastforce simp: heartbeat_call_def asks_json_def run_path_def)
qed

text \<open>One id is not its own: a webhook called \<open>deliveries\<close> would be read as the list of the deliveries.\<close>

lemma deliveries_shadowed:
  assumes "routes_in_order dispatch" "carries_plain arrives"
  shows "\<exists>r. dispatch (ROUTES F) ''GET'' (arrives (ar_path (get_webhook_request ''deliveries'' tenant))) = Some (r, []) \<and>
    operation_id r = ''webhooks.deliveries''"
proof -
  have "list_all plain_segment (split_on (CHR ''/'') (webhook_path ''deliveries'' []))" using plain_words by (simp add: webhook_path_def)
  from dispatch_reaches [OF assms this] show ?thesis by (simp add: requests webhook_path_def route_table)
qed

section \<open>A run that was started, and its name\<close>

text \<open>C30. Where a started run is found: the \<open>Location\<close> of its answer is read as that run when its id is one
  segment of a path; a run started with an empty id or one with a slash is in the store, \<open>QUEUED\<close> for any worker,
  and no request with any method or path ever names it: it cannot be read, heartbeaten, paused, cancelled or
  finished.\<close>

theorem started_run_named:
  assumes "routes_in_order dispatch" "carries_plain arrives" "start_route st True who body queue now s = (Inr a, s')" "an_status a = 201"
  shows "(\<exists>row\<in>set (runs (store s')). run_id row = rs_run_id body \<and> status row = (if queue then QUEUED else RUNNING)) \<and>
    (plain_segment (rs_run_id body) \<and> rs_run_id body \<noteq> [] \<longrightarrow>
      (\<exists>r l. an_location a = Some l \<and> dispatch (ROUTES F) ''GET'' (arrives l) = Some (r, [(''run_id'', rs_run_id body)]) \<and>
         operation_id r = ''runs.get'')) \<and>
    (rs_run_id body = [] \<or> CHR ''/'' \<in> set (rs_run_id body) \<longrightarrow>
      (\<forall>m path r vs n. dispatch (ROUTES F) m path = Some (r, vs) \<longrightarrow> (n, rs_run_id body) \<notin> set vs))"
proof -
  let ?rid = "rs_run_id body"
  obtain run created d where start: "start body queue now True (store s) = Inr ((run, created), d)"
    "a = (if created then \<lparr>an_status = 201, an_location = Some (RUNS_PREFIX @ ''/'' @ rec_run_id run), an_body = run\<rparr> else ok run)"
    "s' = s\<lparr>store := d\<rparr>"
    using assms(3) by (auto simp: start_route_def transact_def on_store_def bind_result_Inr_iff split: sum.splits prod.splits)
  have created: created using assms(4) start(2) by (auto simp: ok_def split: if_splits)
  with start_cases [OF start(1)] have d: "d = store s\<lparr>runs := runs (store s) @ [new_row body queue now]\<rparr>"
    "run = record_of (new_row body queue now) now" by simp_all
  have row: "\<exists>row\<in>set (runs (store s')). run_id row = ?rid \<and> status row = (if queue then QUEUED else RUNNING)"
    by (simp add: start(3) d new_row_def)
  have location: "an_location a = Some (run_path ?rid [])"
    using created by (simp add: start(2) d RUNS_PREFIX_def run_path_def new_row_def record_of_def)
  have "\<exists>r. dispatch (ROUTES F) ''GET'' (arrives (run_path ?rid [])) = Some (r, [(''run_id'', ?rid)]) \<and> operation_id r = ''runs.get''"
    if "plain_segment ?rid \<and> ?rid \<noteq> []"
  proof -
    have "list_all plain_segment (split_on (CHR ''/'') (run_path ?rid []))" using that plain_words by (simp add: split_plain)
    from dispatch_reaches [OF assms(1,2) this] show ?thesis using that by (simp add: split_plain route_table)
  qed
  moreover have "(n, ?rid) \<notin> set vs" if "?rid = [] \<or> CHR ''/'' \<in> set ?rid" "dispatch (ROUTES F) m path = Some (r, vs)" for m path r vs n
    using route_names_segments [OF assms(1) that(2)] that(1) by blast
  ultimately show ?thesis using row location by blast
qed

theorem started_run_named_witness:
  "\<exists>a s'. start_route demo_settings True demo_caller (demo_start\<lparr>rs_run_id := ''a/b''\<rparr>) True 1 (demo_service\<lparr>store := empty_db\<rparr>) = (Inr a, s') \<and>
     an_status a = 201 \<and> (\<forall>m path r vs n. first_route (ROUTES demo_fields) m path = Some (r, vs) \<longrightarrow> (n, ''a/b'') \<notin> set vs)"
proof -
  have d: "routes_in_order first_route" "carries_plain id" by (simp_all add: routes_in_order_def carries_plain_def)
  have "\<exists>a s'. start_route demo_settings True demo_caller (demo_start\<lparr>rs_run_id := ''a/b''\<rparr>) True 1 (demo_service\<lparr>store := empty_db\<rparr>) = (Inr a, s') \<and> an_status a = 201"
    by (simp add: start_route_def transact_def on_store_def start_def one_def Let_def demo_start_def demo_service_def empty_db_def
        demo_caller_def demo_settings_def require_tenant_def require_may_act_for_def bounded_payload_def json_size_def)
  then obtain a s' where r: "start_route demo_settings True demo_caller (demo_start\<lparr>rs_run_id := ''a/b''\<rparr>) True 1 (demo_service\<lparr>store := empty_db\<rparr>) = (Inr a, s')"
    "an_status a = 201" by blast
  from started_run_named [OF d r] have "\<forall>m path r vs n. first_route (ROUTES demo_fields) m path = Some (r, vs) \<longrightarrow> (n, ''a/b'') \<notin> set vs" by simp
  with r show ?thesis by blast
qed

end
