(* ===== verification/Worker_Requests.thy ===== *)
theory Worker_Requests
  imports Requests Worker_Properties
begin

text \<open>
  What the worker and its jobs send: \<open>_claim\<close>, \<open>_heartbeat\<close>, \<open>_release\<close>, \<open>_end\<close> and the methods of \<open>Job\<close> of
  \<open>worker.py\<close>, called on a \<open>RunsClient\<close>. Shown: each names the worker that sends it, so that agent-runs can
  refuse what it writes of a run it no longer holds, and asks it of the run that was claimed.
\<close>

section \<open>The worker's own calls\<close>

text \<open>The id a worker is given, or the host's name, the process id and the object's address in hexadecimal.\<close>

definition worker_id_of :: "string option \<Rightarrow> string \<Rightarrow> nat \<Rightarrow> string \<Rightarrow> string" where
  "worker_id_of wid host pid address = (if truthy wid then the wid else host @ '':'' @ show_nat pid @ '':'' @ address)"

lemma worker_id_not_empty: "worker_id_of wid host pid address \<noteq> []"
  by (auto simp: worker_id_of_def truthy_def split: option.splits)

definition worker_claim :: "string option \<Rightarrow> worker \<Rightarrow> api_request" where
  "worker_claim tenant w = claim_call (wk_id w) (wk_agents w) (wk_lease_seconds w) tenant"

definition worker_heartbeat :: "worker \<Rightarrow> job \<Rightarrow> api_request" where
  "worker_heartbeat w j =
     heartbeat_call (rec_run_id (jb_record j)) (wk_id w) (wk_lease_seconds w) None (Some (rec_tenant_id (jb_record j)))"

definition worker_release :: "worker \<Rightarrow> job \<Rightarrow> api_request" where
  "worker_release w j = release_call (rec_run_id (jb_record j)) (wk_id w) None (Some (rec_tenant_id (jb_record j)))"

section \<open>\<open>Job\<close>\<close>

text \<open>A job holds its worker's id and lease length. A lease that came back is taken in by
  \<open>perform (Checkpoints i lease clock)\<close>.\<close>

definition job_checkpoint :: "string \<Rightarrow> int \<Rightarrow> job \<Rightarrow> (string \<times> json) list \<Rightarrow> api_request" where
  "job_checkpoint wid lease j cp =
     heartbeat_call (rec_run_id (jb_record j)) wid lease (Some cp) (Some (rec_tenant_id (jb_record j)))"

definition job_pause :: "contract_dumps \<Rightarrow> string \<Rightarrow> interrupt \<Rightarrow> (string \<times> json) list option \<Rightarrow> api_request" where
  "job_pause D wid i cp = pause_request D i cp (Some wid)"

definition job_finish :: "contract_dumps \<Rightarrow> string \<Rightarrow> job \<Rightarrow> run_status \<Rightarrow> json \<Rightarrow> agent_error option \<Rightarrow> api_request" where
  "job_finish D wid j st output e =
     finish_request D (rec_run_id (jb_record j)) st output e (Some wid) (Some (rec_tenant_id (jb_record j)))"

text \<open>The request of a call the worker makes as an attempt ends or is let go.\<close>

fun call_request :: "contract_dumps \<Rightarrow> worker \<Rightarrow> call \<Rightarrow> api_request" where
  "call_request D w (Ends i run st e) = job_finish D (wk_id w) (at_job (wk_attempts w ! i)) st JNull e"
| "call_request D w (LetsGo i run) = worker_release w (at_job (wk_attempts w ! i))"

section \<open>A worker names itself and the run it claimed\<close>

text \<open>The worker id a request is fenced by, in its query or in its body.\<close>

definition fenced_by :: "string \<Rightarrow> api_request \<Rightarrow> bool" where
  "fenced_by wid q \<longleftrightarrow>
     map_of (ar_params q) ''worker_id'' = Some wid \<or>
     (case ar_body q of SentObject ms \<Rightarrow> map_of ms ''worker_id'' = Some (JStr wid) | _ \<Rightarrow> False)"

lemma requests_fenced:
  shows "fenced_by (wk_id w) (worker_claim tenant w)" "fenced_by (wk_id w) (worker_heartbeat w j)"
    "fenced_by (wk_id w) (worker_release w j)" "fenced_by wid (job_checkpoint wid lease j cp)"
    "wid \<noteq> [] \<Longrightarrow> fenced_by wid (job_pause D wid i cp')" "wid \<noteq> [] \<Longrightarrow> fenced_by wid (job_finish D wid j st output e)"
  by (simp_all add: fenced_by_def worker_claim_def worker_heartbeat_def worker_release_def job_checkpoint_def job_pause_def
      job_finish_def requests worker_params_def truthy_def)

text \<open>A worker keeps its id and agents, and a job the record its claim answered.\<close>

definition as_claimed :: "attempt \<Rightarrow> bool" where
  "as_claimed a \<longleftrightarrow> jb_record (at_job a) = fst (at_claimed a)"

lemma as_claimed_simps [simp]:
  "as_claimed (a\<lparr>at_execution := x\<rparr>) = as_claimed a" "as_claimed (a\<lparr>at_phase := p\<rparr>) = as_claimed a"
  "as_claimed (a\<lparr>at_beating := b\<rparr>) = as_claimed a" "as_claimed (a\<lparr>at_phase := p, at_beating := b\<rparr>) = as_claimed a"
  "as_claimed (a\<lparr>at_job := renew l clock (at_job a)\<rparr>) = as_claimed a" "as_claimed (tear a) = as_claimed a"
  "as_claimed (new_attempt c)"
  by (auto simp: as_claimed_def renew_def tear_def new_attempt_def split: execution.split)

lemma as_claimed_cancel_handler [simp]:
  "i < length (wk_attempts w) \<Longrightarrow> as_claimed (wk_attempts (cancel_handler j w) ! i) = as_claimed (wk_attempts w ! i)"
  by (simp add: attempts_cancel_handler)

lemma as_claimed_stop_beating [simp]:
  "i < length (wk_attempts w) \<Longrightarrow> as_claimed (wk_attempts (stop_beating j w) ! i) = as_claimed (wk_attempts w ! i)"
  by (cases "i = j") (simp_all add: stop_beating_def)

lemma as_claimed_expire [simp]:
  "i < length (wk_attempts w) \<Longrightarrow> as_claimed (wk_attempts (expire j w) ! i) = as_claimed (wk_attempts w ! i)"
  by (cases "i = j") (auto simp: expire_def as_claimed_def split: execution.split)

lemma as_claimed_finish [simp]:
  "i < length (wk_attempts w) \<Longrightarrow> as_claimed (wk_attempts (finish_attempt j w) ! i) = as_claimed (wk_attempts w ! i)"
  by (cases "i = j") (simp_all add: finish_attempt_def Let_def)

lemma as_claimed_start [simp]:
  "i < length (wk_attempts w) \<Longrightarrow> as_claimed (wk_attempts (start_handler j clock w) ! i) = as_claimed (wk_attempts w ! i)"
  by (cases "i = j") (simp_all add: start_handler_parts as_claimed_def renew_def)

lemma nth_update: "(xs[j := y]) ! i = (if i = j \<and> j < length xs then y else xs ! i)"
  by (cases "j < length xs") (auto simp: nth_list_update list_update_beyond)

lemma as_claimed_perform:
  assumes "perform a w = Some w'" "i < length (wk_attempts w)" "as_claimed (wk_attempts w ! i)"
  shows "as_claimed (wk_attempts w' ! i)"
  using assms
  by (cases a)
    (auto simp: stop_def slot_def claim_answered_def nth_append begin_attempt_def nth_update
      beat_answered_def Let_def react_def release_held_def attempts_fold_cancel send_releases_def tear_down_def
      split: if_splits option.splits beat_answer.splits loop_at.splits)

lemma perform_wk_id:
  assumes "perform a w = Some w'"
  shows "wk_id w' = wk_id w"
proof -
  have [simp]: "wk_id (on_attempt i f v) = wk_id v" "wk_id (cancel_handler i v) = wk_id v" for i f v
    by (simp_all add: on_attempt_def cancel_handler_def)
  have [simp]: "wk_id (fold cancel_handler js v) = wk_id v" for js v by (induction js arbitrary: v) auto
  show ?thesis using assms
    by (cases a) (auto simp: perform_parts start_handler_def expire_def split: if_splits option.splits beat_answer.splits loop_at.splits)
qed

lemma reached_as_claimed:
  assumes "new_worker agents concurrency cpus lease_secs wid = Some w0" "performs as w0 = Some w"
  shows "wk_id w = wid \<and> (\<forall>i < length (wk_attempts w). as_claimed (wk_attempts w ! i))"
  using assms(2)
proof (induction as arbitrary: w rule: rev_induct)
  case Nil
  with assms(1) show ?case by (auto simp: new_worker_def Let_def split: if_splits)
next
  case (snoc a as)
  then obtain v where v: "performs as w0 = Some v" "perform a v = Some w" by (auto simp: performs_snoc)
  then have "as_claimed (wk_attempts w ! i)" if "i < length (wk_attempts w)" for i
    using snoc.IH [OF v(1)] as_claimed_perform [OF v(2), of i] perform_new [OF v(2) that] by (cases "i < length (wk_attempts v)") auto
  with snoc.IH [OF v(1)] perform_wk_id [OF v(2)] show ?case by simp
qed

text \<open>Every ending a worker writes arrives at \<open>runs.finish\<close> of the run it claimed, for the tenant of that run and
  in the name of the worker: what the fence of the run store needs to refuse it once the lease is another's.\<close>

lemma endings_arrive:
  assumes "routes_in_order dispatch" "carries_plain arrives" "models_dumped F D"
    and "new_worker agents concurrency cpus lease_secs wid = Some w0" "performs as w0 = Some w"
    and "Ends i run st e \<in> set (wk_calls w)" "plain_segment run" "run \<noteq> []" "wid \<noteq> []"
  shows "let q = call_request D w (Ends i run st e) in
    (\<exists>r. dispatch (ROUTES F) (ar_method q) (arrives (ar_path q)) = Some (r, [(''run_id'', run)]) \<and>
       operation_id r = ''runs.finish'' \<and> body_fits (ro_body r) (ar_body q)) \<and>
    ar_params q = [(''worker_id'', wid)] \<and> ar_tenant q = Some (rec_tenant_id (fst (at_claimed (wk_attempts w ! i))))"
proof -
  have i: "i < length (wk_attempts w)" "run = at_run (wk_attempts w ! i)"
    using history [OF assms(4,5)] assms(6) by (auto simp: calls_ok_def)
  note c = reached_as_claimed [OF assms(4,5)]
  with i have r: "jb_record (at_job (wk_attempts w ! i)) = fst (at_claimed (wk_attempts w ! i))" by (simp add: as_claimed_def)
  have run: "rec_run_id (fst (at_claimed (wk_attempts w ! i))) = run" by (simp add: i(2) at_run_def)
  let ?q = "finish_request D run st JNull e (Some wid) (Some (rec_tenant_id (fst (at_claimed (wk_attempts w ! i)))))"
  have q: "call_request D w (Ends i run st e) = ?q" using c by (simp add: job_finish_def r run)
  have "sdk_call D ''runs.finish'' [(''run_id'', run)] ?q" by (rule sdk_call.intros)
  from call_fits [OF this assms(3)] assms(7,8) have "list_all plain_segment (split_on (CHR ''/'') (ar_path ?q)) \<and>
      (\<exists>r. reaches F (ar_method ?q) (split_on (CHR ''/'') (ar_path ?q)) = Some (r, [(''run_id'', run)]) \<and>
        operation_id r = ''runs.finish'' \<and> body_fits (ro_body r) (ar_body ?q))" by fastforce
  with dispatch_reaches [OF assms(1,2)] have "\<exists>r. dispatch (ROUTES F) (ar_method ?q) (arrives (ar_path ?q)) = Some (r, [(''run_id'', run)]) \<and>
      operation_id r = ''runs.finish'' \<and> body_fits (ro_body r) (ar_body ?q)" by metis
  moreover have "ar_params ?q = [(''worker_id'', wid)]" "ar_tenant ?q = Some (rec_tenant_id (fst (at_claimed (wk_attempts w ! i))))"
    using assms(9) by (simp_all add: requests worker_params_def truthy_def)
  ultimately show ?thesis unfolding q Let_def by blast
qed

end
