(* ===== verification/Spec2Isabelle.thy ===== *)
theory Spec2Isabelle
  imports Artifact_Routes Deployment Links Retries Worker_Requests
begin

text \<open>
  \<^bold>\<open>agent-runs: the run service, its stores, its ticker and its API.\<close>

  \<^bold>\<open>The program.\<close> The service (\<open>src/src/agent_runs\<close>) never executes an agent: it
  keeps runs, and others execute them. The run store starts runs, queues them for workers, leases them, pauses them on
  a person's question, resumes, retries, times out, cancels and ends them, and keeps their event logs. The schedule
  store says when runs start, and firing queues them. The webhook store is an outbox: what a run's change owes to
  whom, claimed, signed, sent to checked addresses, settled. One ticker fires due schedules, sweeps runs past their
  limits, sends what is owed and drops what is old. The API authenticates a key, finds the tenant it acts in, takes
  from that tenant's request budget, runs one transaction per request and answers every failure in one shape;
  artifacts go through it to a blob store. The SDK (\<open>src/sdk/python\<close>) calls the API, tries a call that
  failed on the way again, pages through listings, follows a run's events, works runs in a worker with leases and
  heartbeats, and checks the signature of what a webhook's receiver is sent.

  \<^bold>\<open>How state and effects are modelled.\<close> A table is a list of records with the columns of
  \<open>store/tables.py\<close>; \<open>db\<close> holds the runs, answers, events and artifacts,
  \<open>outbox\<close> the subscriptions and deliveries, \<open>service\<close> (theory \<open>Ticker\<close>) all of
  it. An operation is a function from the state to \<open>service_error + answer \<times> state\<close>: a raise is
  \<open>Inl\<close> and the transaction that raised leaves the state as it was. Instants and durations are integers
  of microseconds, as PostgreSQL and \<open>timedelta\<close> keep them; Python's floats are rationals, rounded where
  the code rounds to an integer and exact elsewhere (the working time and its limit, the budget's interval). What is
  not in the repository is an argument: the contracts package (record \<open>contracts\<close>, its documented laws
  \<open>lifecycle_laws\<close>, \<open>interrupt_laws\<close>, \<open>id_laws\<close>), the cron library
  (\<open>cron_laws\<close>), the validation of a schedule's spec (\<open>spec_laws\<close>), JSON Schema validation,
  HMAC (\<open>hmac_laws\<close>), the resolver and HTTP exchanges (\<open>network\<close>), the rows other
  transactions hold, jitter, clocks, minted ids and outages. Every law is shown to hold of a concrete instance
  (\<open>demo_contracts\<close>, \<open>demo_lib\<close>, \<open>demo_hmac\<close>, \<open>demo_network\<close>).

  \<^bold>\<open>The theories.\<close>

    \<^item> \<open>Prelude\<close>, \<open>Errors\<close>, \<open>Json\<close>: shared lists, rounding, reachability;
      \<open>domain/errors.py\<close>; the JSON text whose size the payload bounds measure.
    \<^item> \<open>Contracts\<close>, \<open>Retry\<close>, \<open>Keys\<close>, \<open>Answering\<close>,
      \<open>Answers\<close>: the contracts' data and laws; \<open>retry.py\<close>; \<open>keys.py\<close>;
      \<open>answering.py\<close>; the SDK's \<open>answers.py\<close>. Shown: every wait doubles up to its cap, when
      the breaker opens and closes, the bounds of the key cache, who may answer and cancel, which answers fit.
    \<^item> \<open>Tables\<close>, \<open>Run_Rows\<close>, \<open>Artifact_Store\<close>,
      \<open>Store_Contract\<close>: the schema, the row helpers of \<open>store/runs.py\<close>,
      \<open>store/artifacts.py\<close>, and the contract of an operation: the locales \<open>store_operation\<close>
      (the invariant \<open>store_inv\<close>, rows evolve along the lifecycle), \<open>tenant_operation\<close> (no
      other tenant's rows) and \<open>repeatable\<close> (a repeat changes nothing), each interpreted on the
      operations themselves.
    \<^item> \<open>Run_Store\<close>, \<open>Run_Queue\<close>, \<open>Run_Sweeps\<close>, \<open>Run_Log\<close>,
      \<open>Run_Reads\<close>: every operation of \<open>RunStore\<close>. \<open>Run_System\<close> closes them
      under a step relation, retention's deletions too: the invariant of every reachable store, and the history of a
      run until retention deletes it. \<open>Store_Properties\<close>: fencing, idempotence, tenant isolation, answers
      given once, retries, lapses, time limits, escalation, retention. \<open>events\<close> makes two reads, so it
      takes the database of each.
    \<^item> \<open>Paging\<close>: \<open>store/paging.py\<close>; following the pages of a listing gives each row
      once.
    \<^item> \<open>Cadence\<close>, \<open>Schedule_Rows\<close>, \<open>Schedule_Store\<close>,
      \<open>Firing\<close>, \<open>Schedule_Properties\<close>: \<open>domain/cadence.py\<close>,
      \<open>domain/schedules.py\<close>, \<open>store/schedules.py\<close>, \<open>firing.py\<close>. Shown: one tick
      is one run, what a fire queues, what a failed fire leaves, an owner is for good.
    \<^item> \<open>Webhook_Store\<close>, \<open>Outbox\<close>, \<open>Webhook_Properties\<close>:
      \<open>domain/webhooks.py\<close> and \<open>store/webhooks.py\<close>; an abstract map of what is owed, which
      the table's operations refine; attempts, rotation.
    \<^item> \<open>Webhook_Sender\<close>, \<open>Signatures\<close>: \<open>webhooks.py\<close>,
      \<open>egress.py\<close> and the SDK's \<open>webhooks.py\<close>: where an attempt may connect, and that what
      was signed, and only that, verifies.
    \<^item> \<open>Ticker\<close>: \<open>ticker.py\<close> and \<open>heartbeat.py\<close>: ticks keep every store's
      invariant through any outage, lose no event, and catch up with the schedules; when its breaker lets one run.
    \<^item> \<open>Rate_Limit\<close>, \<open>Access\<close>, \<open>Problems\<close>:
      \<open>api/ratelimit.py\<close>, \<open>api/deps.py\<close>, \<open>api/errors.py\<close>: the bound of a
      tenant's budget, who is let in and as whom, the shape of an error.
    \<^item> \<open>Run_Routes\<close>, \<open>Event_Stream\<close>, \<open>Admin_Routes\<close>: the routers. The
      locale \<open>announced_operation\<close> is what a route relies on of the store; with it, no run changes
      without its event being owed. The stream of a run's events is complete and ends. Nobody administers a schedule
      that runs as someone else.
    \<^item> \<open>Blob_Store\<close>, \<open>Artifact_Routes\<close>: \<open>blob/port.py\<close> as the locale
      \<open>blob_port\<close>, interpreted on the file store of \<open>blob/filesystem.py\<close>, and
      \<open>api/routers/artifacts.py\<close>. Every call of a put or a delete may raise an \<open>OSError\<close>
      (\<open>file_faults\<close>), and the commit of an upload may be in doubt (\<open>commit_outcome\<close>). A
      read that ends is verified; an upload that fails loses nothing, and leaves no object behind unless the clean-up
      failed; what was uploaded is what is downloaded; a commit in doubt leaves a row without bytes.
    \<^item> \<open>Codec\<close>, \<open>Cursor\<close>: UTF-8, base64url and the JSON of a cursor as Python's
      library reads and writes them, each with its round trip; \<open>api/pagination.py\<close>, the five listings of
      the routers and the SDK's \<open>iterate\<close>, which gives each run once. Two ways a cursor does not come
      back.
    \<^item> \<open>Links\<close>: the \<open>Link\<close> header that carries a cursor, as the service writes it and
      the SDK's \<open>next_cursor\<close> reads it, over the libraries' URL (\<open>url_laws\<close>): the same
      cursor, unless the path has a comma or a closing bracket.
    \<^item> \<open>Transport\<close>, \<open>Client\<close>: the SDK's \<open>errors.py\<close>,
      \<open>_transport.py\<close> and what \<open>client.py\<close> makes of their answers. Shown: a client reads an
      error as the service meant it, every call ends within its retries, a stream is read as it was written, a run
      followed over dropped connections has no gap and no repeat.
    \<^item> \<open>Middleware\<close>, \<open>Deployment\<close>: \<open>api/middleware.py\<close>: every answer
      names its request, no JSON route is handed a larger body than the limit; \<open>config/settings.py\<close> and
      what is built from it: the pool of a process, the blob store, the limits, the sender and the ticker of a
      deployment.
    \<^item> \<open>Routing\<close>, \<open>Requests\<close>: the table of the API's routes as the routers declare it
      and the request of every method of the SDK. Shown: each call reaches the operation it is named after with its
      ids, parameters and body; which ids no path can name.
    \<^item> \<open>Retries\<close>: what calls sent again because their answer was lost leave of the service: back to
      back a write of a run, a start or an append nothing more, and so later too but for a release, pause, cancel or
      finish of a run that goes on; a rotation of a secret a receiver without the secret it holds.
    \<^item> \<open>Worker\<close>, \<open>Worker_Properties\<close>: the SDK's \<open>worker.py\<close> as a
      transition system whose steps are the turns of its tasks between two \<open>await\<close>s: claims, heartbeats,
      endings, stop and cancellation in any order. Shown: when a run has one handler, what the worker writes of it,
      what a stop releases; how, from any state in which a run is claimed again, earlier attempts overlap later ones.
    \<^item> \<open>Worker_Requests\<close>: what the worker and its \<open>Job\<close>s send, each request naming the
      worker; an ending arrives at the run that was claimed.

  \<^bold>\<open>Bounds.\<close> Loops of the code are structural recursions: the claim loop passes over a tenant or
  key at most once, the firing step is the code's own loop of \<open>SWEEP_BATCH\<close> turns, the event stream
  recurses over the reads the world gives it, and that enough of them close it is a theorem
  (\<open>stream_ends\<close>); the SDK's retries are a recursion whose measure is the retries left,
  \<open>follow_events\<close> recurses over the connections the world gives it and the worker's steps are a list. The
  ticker's \<open>run_forever\<close> takes the rounds before it is stopped. \<open>iterate_from\<close> takes the
  number of requests, and its theorem says how many are enough. The JSON reader \<open>json_loads\<close> takes twice
  the text's length and one as fuel, which is enough for every text (\<open>scan_enough\<close>).

  \<^bold>\<open>Not modelled.\<close> The bucket store of \<open>blob/gcs.py\<close>, a third-party client behind the
  same port; a read of the file store that fails in its middle, and a task cancelled inside one of its calls; which
  route FastAPI picks, a parameter with its documented rule (\<open>routes_in_order\<close>), and what a URL carries
  of an id that is not one segment (\<open>carries_plain\<close>); the encoding of a query in a URL, the parameter
  \<open>urls\<close>, and of a header's text; \<open>datetime.fromisoformat\<close>, a parameter of the cursor; JSON
  nested deeper than Python recurses; Pydantic: field bounds, the reading of bodies and answers, a request being
  modelled as parsed; the worker's \<open>run_once\<close> and signal handlers; gzip, OpenAPI, application and process
  set-up, logging and metrics; the settings' reading of the environment; the database engine, and migrations, the
  model starting from the schema they end in; the sentences of errors. Interleavings inside one transaction are those
  its locks allow: a row another transaction holds is an argument (\<open>busy\<close>), and two transactions on one
  row are in some order.
\<close>

end
